(* ===== verification/Prelude.thy ===== *)
theory Prelude
  imports Main "HOL-Library.Word" "HOL-Library.Monad_Syntax"
begin

text \<open>
  Shared vocabulary of the development: the machine types of the C code, byte buffers with
  bounds-checked access, C strings, and the generic list, option and word lemmas that the
  component theories rely on.

  Conventions used by every component theory:
  \<^item> an out-of-bounds memory access, which C leaves undefined, is the value \<open>None\<close> of
    an \<open>option\<close>; a return code of the source is an ordinary value inside \<open>Some\<close>;
  \<^item> a C string is the list of its bytes up to, and without, the terminating NUL;
    a pointer that may be NULL is an \<open>option\<close>;
  \<^item> \<open>uint8_t\<close> to \<open>uint64_t\<close> are words of that width; \<open>int\<close> return codes are \<open>int\<close>;
    \<open>size_t\<close> lengths of objects in memory are \<open>nat\<close> unless their wrap-around matters.
\<close>

unbundle bit_operations_syntax

section \<open>Machine types\<close>

type_synonym byte = "8 word"
type_synonym u16 = "16 word"
type_synonym u32 = "32 word"
type_synonym u64 = "64 word"
type_synonym bytes = "byte list"

text \<open>The size limits of messages that the agent programs share (\<^verbatim>\<open>headers/defs.h\<close>).\<close>

definition OS_MAXSTR :: nat where
  "OS_MAXSTR = 65536"

definition OS_HEADER_SIZE :: nat where
  "OS_HEADER_SIZE = 128"

text \<open>The bytes of a string literal.\<close>

definition asc :: "string \<Rightarrow> bytes" where
  "asc s = map of_char s"

lemma asc_Nil [simp]: "asc [] = []"
  by (simp add: asc_def)

lemma asc_Cons: "asc (c # s) = of_char c # asc s"
  by (simp add: asc_def)

lemma asc_append: "asc (s @ t) = asc s @ asc t"
  by (simp add: asc_def)

lemma length_asc [simp]: "length (asc s) = length s"
  by (simp add: asc_def)

lemma asc_eq_Nil_iff [simp]: "asc s = [] \<longleftrightarrow> s = []"
  by (simp add: asc_def)

text \<open>A byte list is the contents of a C string when it holds no NUL byte.\<close>

definition cstring :: "bytes \<Rightarrow> bool" where
  "cstring s \<longleftrightarrow> 0 \<notin> set s"

text \<open>
  What \<open>strlen\<close> and the \<open>%s\<close> conversions see of a byte array: the bytes before the first
  NUL byte.
\<close>

definition cstr_of :: "bytes \<Rightarrow> bytes" where
  "cstr_of bs = takeWhile (\<lambda>b. b \<noteq> 0) bs"

lemma cstring_cstr_of [simp]: "cstring (cstr_of bs)"
  by (auto simp: cstring_def cstr_of_def dest: set_takeWhileD)

lemma cstr_of_id [simp]: "cstring s \<Longrightarrow> cstr_of s = s"
  by (auto simp: cstring_def cstr_of_def takeWhile_eq_all_conv)

lemma length_cstr_of_le: "length (cstr_of bs) \<le> length bs"
  by (simp add: cstr_of_def length_takeWhile_le)

lemma cstring_simps [simp]:
  "cstring []"
  "cstring (b # s) \<longleftrightarrow> b \<noteq> 0 \<and> cstring s"
  "cstring (s @ t) \<longleftrightarrow> cstring s \<and> cstring t"
  by (auto simp: cstring_def)

lemma cstring_take [simp]: "cstring s \<Longrightarrow> cstring (take n s)"
  by (auto simp: cstring_def dest: in_set_takeD)

text \<open>The string at an offset of a memory block: the bytes up to the next NUL, which must exist.\<close>

definition string_at :: "bytes \<Rightarrow> nat \<Rightarrow> bytes option" where
  "string_at mem p = (if 0 \<in> set (drop p mem) then Some (takeWhile (\<lambda>c. c \<noteq> 0) (drop p mem)) else None)"

section \<open>Bounds-checked buffers\<close>

text \<open>Read \<open>n\<close> bytes at offset \<open>off\<close>; \<open>None\<close> when the range leaves the buffer.\<close>

definition peek :: "bytes \<Rightarrow> nat \<Rightarrow> nat \<Rightarrow> bytes option" where
  "peek buf off n = (if off + n \<le> length buf then Some (take n (drop off buf)) else None)"

text \<open>Overwrite the bytes at offset \<open>off\<close>; \<open>None\<close> when the range leaves the buffer.\<close>

definition poke :: "bytes \<Rightarrow> nat \<Rightarrow> bytes \<Rightarrow> bytes option" where
  "poke buf off bs =
     (if off + length bs \<le> length buf
      then Some (take off buf @ bs @ drop (off + length bs) buf) else None)"

named_theorems mem_simps "bounds and contents of checked buffer accesses"

lemma peek_eq_None_iff: "peek buf off n = None \<longleftrightarrow> length buf < off + n"
  by (auto simp: peek_def)

lemma peek_in_bounds [mem_simps]: "off + n \<le> length buf \<Longrightarrow> peek buf off n = Some (take n (drop off buf))"
  by (simp add: peek_def)

lemma peek_append [mem_simps]:
  "off = length pre \<Longrightarrow> n = length bs \<Longrightarrow> peek (pre @ bs @ post) off n = Some bs"
  by (simp add: peek_def)

lemma length_peek: "peek buf off n = Some bs \<Longrightarrow> length bs = n"
  by (auto simp: peek_def split: if_splits)

lemma poke_eq_None_iff: "poke buf off bs = None \<longleftrightarrow> length buf < off + length bs"
  by (auto simp: poke_def)

lemma poke_in_bounds [mem_simps]:
  "off + length bs \<le> length buf \<Longrightarrow>
   poke buf off bs = Some (take off buf @ bs @ drop (off + length bs) buf)"
  by (simp add: poke_def)

lemma length_poke: "poke buf off bs = Some buf' \<Longrightarrow> length buf' = length buf"
  by (auto simp: poke_def split: if_splits)

text \<open>After a write at \<open>off\<close>, the written prefix of the buffer has grown by the bytes written.\<close>

lemma take_poke:
  "poke buf off bs = Some buf' \<Longrightarrow> take (off + length bs) buf' = take off buf @ bs"
  by (auto simp: poke_def split: if_splits)

lemma take_poke_before:
  "poke buf off bs = Some buf' \<Longrightarrow> n \<le> off \<Longrightarrow> take n buf' = take n buf"
  by (auto simp: poke_def min_def split: if_splits)

lemma take_poke_inside:
  "poke buf off bs = Some buf' \<Longrightarrow> off + length bs \<le> n \<Longrightarrow>
   take n buf' = take off buf @ bs @ drop (off + length bs) (take n buf)"
proof -
  assume p: "poke buf off bs = Some buf'" and n: "off + length bs \<le> n"
  obtain m where m: "n = off + length bs + m" using n le_Suc_ex by blast
  from p have "buf' = take off buf @ bs @ drop (off + length bs) buf" "length (take off buf) = off"
    by (auto simp: poke_def split: if_splits)
  then show ?thesis by (simp add: m drop_take)
qed

section \<open>Memory allocation\<close>

text \<open>
  The outcomes of the coming calls of the allocator, \<open>False\<close> for a NULL result. An exhausted
  script means that every further allocation succeeds.
\<close>

type_synonym heap = "bool list"

fun alloc :: "heap \<Rightarrow> bool \<times> heap" where
  "alloc [] = (True, [])"
| "alloc (ok # h) = (ok, h)"

text \<open>No coming allocation fails.\<close>

definition roomy :: "heap \<Rightarrow> bool" where
  "roomy h \<longleftrightarrow> list_all (\<lambda>ok. ok) h"

lemma roomy_Nil [simp]: "roomy []"
  by (simp add: roomy_def)

lemma roomy_alloc: "roomy h \<Longrightarrow> alloc h = (ok, h') \<Longrightarrow> ok \<and> roomy h'"
  by (cases h) (auto simp: roomy_def)

text \<open>
  \<open>rc = f(...); if (rc != 0) goto fail; g(...)\<close>: run \<open>g\<close> on the two pieces of state that
  \<open>f\<close> left (an object and the heap, or a buffer and its offset), but only when \<open>f\<close> returned 0.
\<close>

definition then_ok ::
  "(int \<times> 'b \<times> 'c) option \<Rightarrow> ('b \<Rightarrow> 'c \<Rightarrow> (int \<times> 'b \<times> 'c) option)
   \<Rightarrow> (int \<times> 'b \<times> 'c) option" where
  "then_ok m g =
     do { (rc, b, h) \<leftarrow> m; if rc = 0 then g b h else Some (rc, b, h) }"

lemma then_ok_Some [simp]:
  "then_ok (Some (rc, b, h)) g = (if rc = 0 then g b h else Some (rc, b, h))"
  by (simp add: then_ok_def)

section \<open>C arithmetic\<close>

text \<open>The remainder of C on \<open>int\<close>, which has the sign of the dividend, for a positive divisor.\<close>

definition crem :: "int \<Rightarrow> int \<Rightarrow> int" where
  "crem a b = (if a < 0 then - ((- a) mod b) else a mod b)"

lemma crem_nonneg: "0 \<le> a \<Longrightarrow> crem a b = a mod b"
  by (simp add: crem_def)

section \<open>Lists and options\<close>

lemma takeWhile_append_stop:
  "(\<forall>x \<in> set xs. P x) \<Longrightarrow> \<not> P y \<Longrightarrow> takeWhile P (xs @ y # ys) = xs"
  by (simp add: takeWhile_append)

lemma drop_append_length [simp]: "drop (length xs + n) (xs @ ys) = drop n ys"
  by simp

lemma find_append: "find P (xs @ ys) = (case find P xs of None \<Rightarrow> find P ys | Some x \<Rightarrow> Some x)"
  by (induction xs) auto

text \<open>The elements of a list with a separator between them.\<close>

fun join_with :: "byte \<Rightarrow> bytes list \<Rightarrow> bytes" where
  "join_with sep [] = []"
| "join_with sep [c] = c"
| "join_with sep (c # d # cs) = c @ sep # join_with sep (d # cs)"

lemma map_option_eq_None_iff: "map_option f x = None \<longleftrightarrow> x = None"
  by simp

section \<open>Words\<close>

lemma unat_of_nat_small: "n < 2 ^ LENGTH('a) \<Longrightarrow> unat (of_nat n :: 'a :: len word) = n"
  by (simp add: unat_of_nat take_bit_nat_eq_self)

lemma unat_plus_small:
  "unat (a :: 'a :: len word) + unat b < 2 ^ LENGTH('a) \<Longrightarrow> unat (a + b) = unat a + unat b"
  by (simp add: unat_word_ariths(1))

lemma unat_minus_small: "b \<le> (a :: 'a :: len word) \<Longrightarrow> unat (a - b) = unat a - unat b"
  by (rule unat_sub)

lemma unat_ucast_up:
  "LENGTH('a) \<le> LENGTH('b) \<Longrightarrow> unat (ucast (x :: 'a :: len word) :: 'b :: len word) = unat x"
proof -
  assume "LENGTH('a) \<le> LENGTH('b)"
  then have "(2 :: nat) ^ LENGTH('a) \<le> 2 ^ LENGTH('b)"
    by (rule power_increasing) simp
  then have "unat x < 2 ^ LENGTH('b)"
    using unsigned_less [of x, where 'a = nat] by linarith
  then show ?thesis
    by (simp add: unsigned_ucast_eq take_bit_nat_eq_self)
qed

lemma byte_bit_high [simp]: "8 \<le> n \<Longrightarrow> \<not> bit (x :: byte) n"
  using bit_imp_le_length [of x n] by auto

end
