(* ===== verification/Wire.thy ===== *)
theory Wire
  imports Prelude
begin

text \<open>
  Big-endian integers on the wire. The agent (\<^verbatim>\<open>agents/shared/xsiam_wzcp.c\<close>,
  \<^verbatim>\<open>agents/xlog/xlog.c\<close>) and the gateway plugins (\<^verbatim>\<open>in_xsiam_agent/xsiam_agent_defs.h\<close>,
  \<^verbatim>\<open>out_xsiam_log/out_xsiam_log.c\<close>) each carry their own copy of these helpers with the same
  bodies; every frame of the two protocols is built from them. The locale \<open>codec\<close> states
  what the framing code relies on, and is interpreted for the three widths.
\<close>

section \<open>The C helpers\<close>

definition put_be16 :: "u16 \<Rightarrow> bytes" where
  "put_be16 v = [ucast (drop_bit 8 v), ucast v]"

definition put_be32 :: "u32 \<Rightarrow> bytes" where
  "put_be32 v =
     [ucast (drop_bit 24 v), ucast (drop_bit 16 v), ucast (drop_bit 8 v), ucast v]"

definition put_be64 :: "u64 \<Rightarrow> bytes" where
  "put_be64 v = put_be32 (ucast (drop_bit 32 v)) @ put_be32 (ucast v)"

definition get_be16 :: "bytes \<Rightarrow> u16" where
  "get_be16 p = push_bit 8 (ucast (p ! 0)) OR ucast (p ! 1)"

definition get_be32 :: "bytes \<Rightarrow> u32" where
  "get_be32 p =
     push_bit 24 (ucast (p ! 0)) OR push_bit 16 (ucast (p ! 1)) OR
     push_bit 8 (ucast (p ! 2)) OR ucast (p ! 3)"

definition get_be64 :: "bytes \<Rightarrow> u64" where
  "get_be64 p = push_bit 32 (ucast (get_be32 p)) OR ucast (get_be32 (drop 4 p))"

text \<open>Reading through a pointer into a buffer: the bytes must lie inside it.\<close>

definition be16_at :: "bytes \<Rightarrow> nat \<Rightarrow> u16 option" where
  "be16_at buf off = map_option get_be16 (peek buf off 2)"

definition be32_at :: "bytes \<Rightarrow> nat \<Rightarrow> u32 option" where
  "be32_at buf off = map_option get_be32 (peek buf off 4)"

definition be64_at :: "bytes \<Rightarrow> nat \<Rightarrow> u64 option" where
  "be64_at buf off = map_option get_be64 (peek buf off 8)"

definition byte_at :: "bytes \<Rightarrow> nat \<Rightarrow> byte option" where
  "byte_at buf off = (if off < length buf then Some (buf ! off) else None)"

section \<open>The contract of a fixed-width codec\<close>

locale codec =
  fixes width :: nat
    and enc :: "'a \<Rightarrow> bytes"
    and dec :: "bytes \<Rightarrow> 'a"
  assumes length_enc: "length (enc v) = width"
    and dec_enc: "dec (enc v @ rest) = v"
    and enc_dec: "length bs = width \<Longrightarrow> enc (dec bs) = bs"
begin

lemma dec_enc_only: "dec (enc v) = v"
  using dec_enc [of v "[]"] by simp

lemma enc_inject: "enc v = enc w \<longleftrightarrow> v = w"
  using dec_enc_only by metis

lemma fetch_hit:
  "off = length pre \<Longrightarrow> map_option dec (peek (pre @ enc v @ post) off width) = Some v"
  by (simp add: peek_append length_enc dec_enc_only)

lemma fetch_in_bounds:
  "off + width \<le> length buf \<Longrightarrow>
   map_option dec (peek buf off width) = Some (dec (take width (drop off buf)))"
  by (simp add: peek_def)

lemma fetch_miss: "map_option dec (peek buf off width) = None \<longleftrightarrow> length buf < off + width"
  by (simp add: peek_eq_None_iff)

lemma enc_split: "length bs = width \<Longrightarrow> \<exists>v. bs = enc v"
  using enc_dec by metis

end

section \<open>The three widths satisfy it\<close>

lemma get_put_be16: "get_be16 (put_be16 v @ rest) = v"
  by (rule bit_word_eqI) (auto simp: get_be16_def put_be16_def bit_simps)

lemma get_put_be32: "get_be32 (put_be32 v @ rest) = v"
proof (rule bit_word_eqI)
  fix n assume "n < LENGTH(32)"
  then consider "n < 8" | "8 \<le> n" "n < 16" | "16 \<le> n" "n < 24" | "24 \<le> n" "n < 32"
    by fastforce
  then show "bit (get_be32 (put_be32 v @ rest)) n = bit v n"
    by cases (auto simp: get_be32_def put_be32_def bit_simps)
qed

lemma get_put_be64: "get_be64 (put_be64 v @ rest) = v"
proof -
  have lo: "drop 4 (put_be64 v @ rest) = put_be32 (ucast v) @ rest"
    by (simp add: put_be64_def put_be32_def)
  have hi: "get_be32 (put_be64 v @ rest) = ucast (drop_bit 32 v)"
    by (simp add: put_be64_def get_put_be32)
  show ?thesis
    unfolding get_be64_def lo hi get_put_be32
    by (rule bit_word_eqI) (auto simp: bit_simps)
qed

lemma put_get_be16: "put_be16 (get_be16 [x, y]) = [x, y]"
  unfolding get_be16_def put_be16_def by (auto intro!: bit_word_eqI simp: bit_simps)

lemma put_get_be32: "put_be32 (get_be32 [x, y, z, w]) = [x, y, z, w]"
  unfolding get_be32_def put_be32_def by (auto intro!: bit_word_eqI simp: bit_simps)

lemma put_be64_halves:
  "put_be64 (push_bit 32 (ucast (hi :: u32)) OR ucast (lo :: u32)) = put_be32 hi @ put_be32 lo"
proof -
  have "ucast (drop_bit 32 (push_bit 32 (ucast hi) OR ucast lo :: u64)) = hi"
    by (rule bit_word_eqI) (auto simp: bit_simps dest: bit_imp_le_length)
  moreover have "ucast (push_bit 32 (ucast hi) OR ucast lo :: u64) = lo"
    by (rule bit_word_eqI) (auto simp: bit_simps)
  ultimately show ?thesis
    by (simp add: put_be64_def)
qed

lemma put_get_be32_list: "length bs = 4 \<Longrightarrow> put_be32 (get_be32 bs) = bs"
  by (auto simp: numeral_eq_Suc length_Suc_conv put_get_be32)

lemma get_be32_take: "get_be32 (take 4 bs) = get_be32 bs"
  by (simp add: get_be32_def)

lemma put_get_be64_list:
  assumes "length bs = 8"
  shows "put_be64 (get_be64 bs) = bs"
proof -
  have "put_be64 (get_be64 bs) = put_be32 (get_be32 (take 4 bs)) @ put_be32 (get_be32 (drop 4 bs))"
    by (simp add: get_be64_def put_be64_halves get_be32_take)
  also have "\<dots> = take 4 bs @ drop 4 bs"
    using assms by (simp add: put_get_be32_list)
  finally show ?thesis by simp
qed

interpretation be16: codec 2 put_be16 get_be16
proof unfold_locales
  show "put_be16 (get_be16 bs) = bs" if "length bs = 2" for bs
    using that by (auto simp: numeral_eq_Suc length_Suc_conv put_get_be16)
qed (simp_all add: get_put_be16, simp add: put_be16_def)

interpretation be32: codec 4 put_be32 get_be32
  by unfold_locales (simp_all add: get_put_be32 put_get_be32_list, simp add: put_be32_def)

interpretation be64: codec 8 put_be64 get_be64
  by unfold_locales
    (simp_all add: get_put_be64 put_get_be64_list, simp add: put_be64_def put_be32_def)

lemmas length_put_be [simp] = be16.length_enc be32.length_enc be64.length_enc

lemmas be_at_hit =
  be16.fetch_hit [folded be16_at_def] be32.fetch_hit [folded be32_at_def]
  be64.fetch_hit [folded be64_at_def]

lemmas be_at_miss =
  be16.fetch_miss [folded be16_at_def] be32.fetch_miss [folded be32_at_def]
  be64.fetch_miss [folded be64_at_def]

lemmas be_at_in_bounds =
  be16.fetch_in_bounds [folded be16_at_def] be32.fetch_in_bounds [folded be32_at_def]
  be64.fetch_in_bounds [folded be64_at_def]

lemma byte_at_miss: "byte_at buf off = None \<longleftrightarrow> length buf \<le> off"
  by (auto simp: byte_at_def)

lemma byte_at_hit: "off = length pre \<Longrightarrow> byte_at (pre @ b # post) off = Some b"
  by (simp add: byte_at_def)

end
