(* ===== verification/Buffers.thy ===== *)
theory Buffers
  imports Wire
begin

text \<open>
  The growable byte buffer that frames are assembled in. The XLOG library
  (\<^verbatim>\<open>agents/xlog/xlog.c\<close>, \<open>xlog_buf_t\<close>) and the output plugin
  (\<^verbatim>\<open>gateway/plugins/out_xsiam_log/out_xsiam_log.c\<close>, \<open>dbuf_t\<close>) each have one, with the same
  growth policy and different error codes. The locale \<open>byte_sink\<close> is the contract a frame
  builder relies on: an append either appends exactly the bytes given or fails and leaves the
  contents alone, and it never writes outside the allocation. Both buffers are interpretations.
\<close>

section \<open>Capacity growth\<close>

text \<open>
  \<open>while (ncap < target) ncap *= 2;\<close> The loop does not end from capacity 0, so its result is
  an \<open>option\<close>; the buffers never have capacity 0 (\<open>grow_cap_total\<close>).
\<close>

partial_function (option) grow_cap :: "nat \<Rightarrow> nat \<Rightarrow> nat option" where
  "grow_cap ncap target = (if ncap < target then grow_cap (ncap * 2) target else Some ncap)"

lemma grow_cap_total:
  "0 < ncap \<Longrightarrow> \<exists>c. grow_cap ncap target = Some c \<and> target \<le> c \<and> ncap \<le> c"
proof (induction "target - ncap" arbitrary: ncap rule: less_induct)
  case less
  show ?case
  proof (cases "ncap < target")
    case True
    with less.prems have "target - ncap * 2 < target - ncap" by simp
    with less obtain c where "grow_cap (ncap * 2) target = Some c" "target \<le> c" "ncap * 2 \<le> c"
      by (metis mult_pos_pos zero_less_numeral)
    with True show ?thesis by (subst grow_cap.simps) auto
  next
    case False
    then show ?thesis by (subst grow_cap.simps) auto
  qed
qed

text \<open>Growth is by doubling: the result is less than twice what was asked for.\<close>

lemma grow_cap_bound:
  "0 < ncap \<Longrightarrow> ncap < 2 * target \<Longrightarrow> grow_cap ncap target = Some c \<Longrightarrow> c < 2 * target"
proof (induction "target - ncap" arbitrary: ncap rule: less_induct)
  case less
  show ?case
  proof (cases "ncap < target")
    case True
    with less.prems(1) have "target - ncap * 2 < target - ncap" by simp
    moreover from True less.prems(3) have "grow_cap (ncap * 2) target = Some c"
      by (subst (asm) grow_cap.simps) simp
    ultimately show ?thesis using less True by auto
  next
    case False
    with less.prems(3) have "c = ncap" by (subst (asm) grow_cap.simps) simp
    with less.prems(2) show ?thesis by simp
  qed
qed

section \<open>The contract of a byte sink\<close>

locale byte_sink =
  fixes inv :: "'b \<Rightarrow> bool"
    and contents :: "'b \<Rightarrow> bytes"
    and append :: "'b \<Rightarrow> bytes \<Rightarrow> heap \<Rightarrow> (int \<times> 'b \<times> heap) option"
    and oom :: int
  assumes oom_not_ok: "oom \<noteq> 0"
    and append_spec: "inv b \<Longrightarrow>
      \<exists>b' h'. inv b' \<and>
        (append b src h = Some (0, b', h') \<and> contents b' = contents b @ src \<and> (roomy h \<longrightarrow> roomy h') \<or>
         append b src h = Some (oom, b', h') \<and> contents b' = contents b \<and> \<not> roomy h)"
begin

text \<open>
  \<open>builds m b h xs\<close>: the computation \<open>m\<close>, started from buffer \<open>b\<close> and heap \<open>h\<close>, does not
  fault and keeps the invariant; it returns 0 and has appended exactly \<open>xs\<close>, or it returns the
  out-of-memory code, which happens only when an allocation failed. Such steps compose.
\<close>

definition builds :: "(int \<times> 'b \<times> heap) option \<Rightarrow> 'b \<Rightarrow> heap \<Rightarrow> bytes \<Rightarrow> bool" where
  "builds m b h xs \<longleftrightarrow>
     (\<exists>rc b' h'. m = Some (rc, b', h') \<and> inv b' \<and>
        (rc = 0 \<and> contents b' = contents b @ xs \<and> (roomy h \<longrightarrow> roomy h') \<or> rc = oom \<and> \<not> roomy h))"

lemma builds_append: "inv b \<Longrightarrow> builds (append b xs h) b h xs"
  using append_spec [of b xs h] unfolding builds_def by blast

lemma builds_nothing: "inv b \<Longrightarrow> builds (Some (0, b, h)) b h []"
  by (simp add: builds_def)

lemma builds_then:
  assumes "builds m b h xs"
    and "\<And>b' h'. inv b' \<Longrightarrow> contents b' = contents b @ xs \<Longrightarrow> builds (g b' h') b' h' ys"
  shows "builds (then_ok m g) b h (xs @ ys)"
proof -
  obtain rc b' h' where m: "m = Some (rc, b', h')" "inv b'"
    and c: "rc = 0 \<and> contents b' = contents b @ xs \<and> (roomy h \<longrightarrow> roomy h') \<or> rc = oom \<and> \<not> roomy h"
    using assms(1) by (auto simp: builds_def)
  show ?thesis
  proof (cases "rc = 0")
    case True
    with c oom_not_ok have "contents b' = contents b @ xs" "roomy h \<longrightarrow> roomy h'" by auto
    with m True assms(2) [of b' h'] show ?thesis by (auto simp: builds_def)
  next
    case False
    with m c show ?thesis by (auto simp: builds_def)
  qed
qed

lemma buildsE:
  assumes "builds m b h xs"
  obtains (ok) b' h' where "m = Some (0, b', h')" "inv b'" "contents b' = contents b @ xs"
      "roomy h \<Longrightarrow> roomy h'"
  | (oom) b' h' where "m = Some (oom, b', h')" "inv b'" "\<not> roomy h"
  using assms unfolding builds_def by blast

end

end
