(* ===== verification/Xlog.thy ===== *)
theory Xlog
  imports Buffers
begin

text \<open>
  The XLOG client library, \<^verbatim>\<open>agents/xlog/xlog.h\<close> and \<^verbatim>\<open>agents/xlog/xlog.c\<close>: a growable buffer
  (\<open>xlog_buf_t\<close>), a batch of TSV rows (\<open>struct xlog_batch\<close>), and the encoder that compresses the
  rows, wraps them in TLV fields and puts the XLOG header in front.

  The zstd library is a parameter \<open>zstd\<close> of the encoder: the compressed bytes, or \<open>None\<close> where
  \<open>ZSTD_isError\<close> holds of the result. The wall clock reading is a parameter too.
\<close>

section \<open>Constants and return codes\<close>

abbreviation XLOG_OK :: int where "XLOG_OK \<equiv> 0"
abbreviation XLOG_ERR_OOM :: int where "XLOG_ERR_OOM \<equiv> -1"
abbreviation XLOG_ERR_COMPRESS :: int where "XLOG_ERR_COMPRESS \<equiv> -2"
abbreviation XLOG_ERR_TOO_LARGE :: int where "XLOG_ERR_TOO_LARGE \<equiv> -3"
abbreviation XLOG_ERR_PARAM :: int where "XLOG_ERR_PARAM \<equiv> -4"

abbreviation XLOG_MAGIC :: u32 where "XLOG_MAGIC \<equiv> 0x584C4F47"
abbreviation XLOG_VERSION :: byte where "XLOG_VERSION \<equiv> 1"
abbreviation XLOG_TYPE_LOG_BATCH :: byte where "XLOG_TYPE_LOG_BATCH \<equiv> 0x01"

definition XLOG_MAX_TAG_LEN :: nat where
  "XLOG_MAX_TAG_LEN = 255"

definition XLOG_MAX_FRAME_BODY :: nat where
  "XLOG_MAX_FRAME_BODY = 32 * 1024 * 1024"

abbreviation XLOG_TAG_SCHEMA_VERSION :: byte where "XLOG_TAG_SCHEMA_VERSION \<equiv> 0x01"
abbreviation XLOG_TAG_ROW_COUNT :: byte where "XLOG_TAG_ROW_COUNT \<equiv> 0x02"
abbreviation XLOG_TAG_ORIG_SIZE :: byte where "XLOG_TAG_ORIG_SIZE \<equiv> 0x03"
abbreviation XLOG_TAG_COLUMNS :: byte where "XLOG_TAG_COLUMNS \<equiv> 0x04"
abbreviation XLOG_TAG_DATA :: byte where "XLOG_TAG_DATA \<equiv> 0x10"

definition xlog_strerror :: "int \<Rightarrow> string" where
  "xlog_strerror rc =
     (if rc = XLOG_OK then ''ok''
      else if rc = XLOG_ERR_OOM then ''out of memory''
      else if rc = XLOG_ERR_COMPRESS then ''zstd compression failed''
      else if rc = XLOG_ERR_TOO_LARGE then ''batch too large (>32 MB)''
      else if rc = XLOG_ERR_PARAM then ''invalid parameter''
      else ''unknown error'')"

section \<open>The dynamic buffer\<close>

text \<open>
  \<open>buf_data\<close> is the whole allocation (fresh bytes read as 0 here; the code never reads them),
  \<open>buf_len\<close> the number of bytes in use.
\<close>

record xlog_buf =
  buf_data :: bytes
  buf_len :: nat
  buf_cap :: nat

definition buf_bytes :: "xlog_buf \<Rightarrow> bytes" where
  "buf_bytes b = take (buf_len b) (buf_data b)"

definition buf_inv :: "xlog_buf \<Rightarrow> bool" where
  "buf_inv b \<longleftrightarrow> length (buf_data b) = buf_cap b \<and> buf_len b \<le> buf_cap b \<and> 0 < buf_cap b"

definition buf_init :: "nat \<Rightarrow> heap \<Rightarrow> xlog_buf option \<times> heap" where
  "buf_init initial h =
     (let n = (if initial \<noteq> 0 then initial else 4096); (ok, h') = alloc h
      in (if ok then Some \<lparr>buf_data = replicate n 0, buf_len = 0, buf_cap = n\<rparr> else None, h'))"

definition buf_grow :: "xlog_buf \<Rightarrow> nat \<Rightarrow> heap \<Rightarrow> (int \<times> xlog_buf \<times> heap) option" where
  "buf_grow b need h =
     (if buf_len b + need \<le> buf_cap b then Some (XLOG_OK, b, h)
      else do {
        ncap \<leftarrow> grow_cap (buf_cap b * 2) (buf_len b + need);
        let (ok, h') = alloc h;
        Some (if ok
              then (XLOG_OK, b\<lparr>buf_data := buf_data b @ replicate (ncap - buf_cap b) 0,
                               buf_cap := ncap\<rparr>, h')
              else (XLOG_ERR_OOM, b, h'))
      })"

definition buf_append :: "xlog_buf \<Rightarrow> bytes \<Rightarrow> heap \<Rightarrow> (int \<times> xlog_buf \<times> heap) option" where
  "buf_append b src h =
     then_ok (buf_grow b (length src) h)
       (\<lambda>b h. do {
          d \<leftarrow> poke (buf_data b) (buf_len b) src;
          Some (XLOG_OK, b\<lparr>buf_data := d, buf_len := buf_len b + length src\<rparr>, h)
        })"

definition buf_free :: "xlog_buf \<Rightarrow> xlog_buf" where
  "buf_free b = \<lparr>buf_data = [], buf_len = 0, buf_cap = 0\<rparr>"

text \<open>\<open>memcpy\<close> reads \<open>vlen\<close> bytes from \<open>val\<close>, which must have them.\<close>

definition tlv_append ::
  "xlog_buf \<Rightarrow> byte \<Rightarrow> bytes \<Rightarrow> u16 \<Rightarrow> heap \<Rightarrow> (int \<times> xlog_buf \<times> heap) option" where
  "tlv_append body tag val vlen h =
     then_ok (buf_append body (tag # put_be16 vlen) h)
       (\<lambda>b h. if 0 < vlen
              then do { v \<leftarrow> peek val 0 (unat vlen); buf_append b v h }
              else Some (XLOG_OK, b, h))"

section \<open>Batches\<close>

record xlog_batch =
  xb_tag :: bytes
  xb_columns_csv :: "bytes option"
  xb_agent_id :: u64
  xb_seq :: u64
  xb_tsv :: xlog_buf
  xb_row_count :: nat

definition tabs_to_commas :: "bytes option \<Rightarrow> heap \<Rightarrow> bytes option \<times> heap" where
  "tabs_to_commas s h =
     (case s of
        None \<Rightarrow> (None, h)
      | Some t \<Rightarrow>
          if t = [] then (None, h)
          else let (ok, h') = alloc h
               in (if ok then Some (map (\<lambda>c. if c = 9 then 44 else c) t) else None, h'))"

definition xlog_batch_new ::
  "bytes option \<Rightarrow> u64 \<Rightarrow> u64 \<Rightarrow> heap \<Rightarrow> xlog_batch option \<times> heap" where
  "xlog_batch_new tag agent_id seq h =
     (let (ok1, h1) = alloc h in
      if \<not> ok1 then (None, h1)
      else
        let t = take XLOG_MAX_TAG_LEN (case tag of None \<Rightarrow> [] | Some s \<Rightarrow> s);
            (ok2, h2) = alloc h1 in
        if \<not> ok2 then (None, h2)
        else case buf_init 8192 h2 of
          (None, h3) \<Rightarrow> (None, h3)
        | (Some tsv, h3) \<Rightarrow>
            (Some \<lparr>xb_tag = t, xb_columns_csv = None, xb_agent_id = agent_id, xb_seq = seq,
                   xb_tsv = tsv, xb_row_count = 0\<rparr>, h3))"

definition xlog_batch_set_columns :: "xlog_batch \<Rightarrow> bytes option \<Rightarrow> heap \<Rightarrow> xlog_batch \<times> heap" where
  "xlog_batch_set_columns b columns h =
     (let (csv, h') = (case columns of None \<Rightarrow> (None, h) | Some c \<Rightarrow> tabs_to_commas (Some c) h)
      in (b\<lparr>xb_columns_csv := csv\<rparr>, h'))"

definition xlog_batch_append_row ::
  "xlog_batch \<Rightarrow> bytes option \<Rightarrow> heap \<Rightarrow> (int \<times> xlog_batch \<times> heap) option" where
  "xlog_batch_append_row b row h =
     (case row of
        None \<Rightarrow> Some (XLOG_ERR_PARAM, b, h)
      | Some r \<Rightarrow>
          if buf_len (xb_tsv b) + length r + 1 > XLOG_MAX_FRAME_BODY
          then Some (XLOG_ERR_TOO_LARGE, b, h)
          else do {
            (rc1, t1, h1) \<leftarrow> buf_append (xb_tsv b) r h;
            if rc1 \<noteq> XLOG_OK then Some (rc1, b\<lparr>xb_tsv := t1\<rparr>, h1)
            else do {
              (rc2, t2, h2) \<leftarrow> buf_append t1 [10] h1;
              Some (rc2,
                    if rc2 = XLOG_OK
                    then b\<lparr>xb_tsv := t2, xb_row_count := xb_row_count b + 1\<rparr>
                    else b\<lparr>xb_tsv := t2\<rparr>, h2)
            }
          })"

definition xlog_batch_row_count :: "xlog_batch option \<Rightarrow> nat" where
  "xlog_batch_row_count b = (case b of None \<Rightarrow> 0 | Some b \<Rightarrow> xb_row_count b)"

section \<open>Encoding\<close>

text \<open>
  Step 2 of \<open>xlog_batch_encode\<close>: the TLV body. Data of more than 64 KB are emitted under a
  length field that holds only the low 16 bits, followed by the 32-bit length and the data.
\<close>

definition xlog_encode_body ::
  "xlog_batch \<Rightarrow> bytes \<Rightarrow> xlog_buf \<Rightarrow> heap \<Rightarrow> (int \<times> xlog_buf \<times> heap) option" where
  "xlog_encode_body b cmp body h =
     then_ok (tlv_append body XLOG_TAG_SCHEMA_VERSION (put_be16 1) 2 h) (\<lambda>body h.
     then_ok (tlv_append body XLOG_TAG_ROW_COUNT (put_be32 (of_nat (xb_row_count b))) 4 h) (\<lambda>body h.
     then_ok (tlv_append body XLOG_TAG_ORIG_SIZE (put_be32 (of_nat (buf_len (xb_tsv b)))) 4 h) (\<lambda>body h.
     then_ok (case xb_columns_csv b of
                None \<Rightarrow> Some (XLOG_OK, body, h)
              | Some csv \<Rightarrow>
                  if csv = [] then Some (XLOG_OK, body, h)
                  else let clen = (if length csv > 0xFFFF then 0xFFFF else length csv)
                       in tlv_append body XLOG_TAG_COLUMNS csv (of_nat clen) h) (\<lambda>body h.
     if length cmp > 0xFFFF
     then then_ok (buf_append body
                     (XLOG_TAG_DATA # put_be16 (of_nat (length cmp)) @ put_be32 (of_nat (length cmp))) h)
                  (\<lambda>body h. buf_append body cmp h)
     else tlv_append body XLOG_TAG_DATA cmp (of_nat (length cmp)) h))))"

text \<open>Step 3: the header in front of the body. \<open>ts\<close> is the clock reading, seconds and nanoseconds.\<close>

definition xlog_ts_ms :: "int \<times> int \<Rightarrow> u64" where
  "xlog_ts_ms ts = of_int (fst ts) * 1000 + of_int (snd ts div 1000000)"

definition xlog_frame :: "bytes \<Rightarrow> u64 \<Rightarrow> u64 \<Rightarrow> u64 \<Rightarrow> bytes \<Rightarrow> bytes" where
  "xlog_frame tag agent_id seq ts_ms body =
     (let tag_len = (if length tag > XLOG_MAX_TAG_LEN then XLOG_MAX_TAG_LEN else length tag)
      in put_be32 XLOG_MAGIC @
         [XLOG_VERSION, XLOG_TYPE_LOG_BATCH, 0, of_nat tag_len] @
         take tag_len tag @
         put_be64 agent_id @ put_be64 seq @ put_be64 ts_ms @
         put_be32 (of_nat (length body)) @ body)"

definition xlog_batch_encode ::
  "(bytes \<Rightarrow> bytes option) \<Rightarrow> int \<times> int \<Rightarrow> xlog_batch option \<Rightarrow> heap
   \<Rightarrow> (int \<times> bytes option \<times> heap) option" where
  "xlog_batch_encode zstd ts ob h =
     (case ob of
        None \<Rightarrow> Some (XLOG_ERR_PARAM, None, h)
      | Some b \<Rightarrow>
          if buf_len (xb_tsv b) = 0 then Some (XLOG_ERR_PARAM, None, h)
          else let (ok, h) = alloc h in
          if \<not> ok then Some (XLOG_ERR_OOM, None, h)
          else case zstd (buf_bytes (xb_tsv b)) of
            None \<Rightarrow> Some (XLOG_ERR_COMPRESS, None, h)
          | Some cmp \<Rightarrow>
              (case buf_init (length cmp + 64) h of
                 (None, h) \<Rightarrow> Some (XLOG_ERR_OOM, None, h)
               | (Some body0, h) \<Rightarrow> do {
                   (rc, body, h) \<leftarrow> xlog_encode_body b cmp body0 h;
                   if rc \<noteq> XLOG_OK then Some (XLOG_ERR_OOM, None, h)
                   else let (ok, h) = alloc h in
                   if \<not> ok then Some (XLOG_ERR_OOM, None, h)
                   else Some (XLOG_OK,
                              Some (xlog_frame (xb_tag b) (xb_agent_id b) (xb_seq b)
                                               (xlog_ts_ms ts) (buf_bytes body)), h)
                 }))"

section \<open>The buffer is a byte sink\<close>

lemma buf_init_inv: "buf_init n h = (Some b, h') \<Longrightarrow> buf_inv b \<and> buf_bytes b = []"
  by (auto simp: buf_init_def buf_inv_def buf_bytes_def split: if_splits prod.splits)

lemma buf_grow_spec:
  assumes "buf_inv b"
  shows "\<exists>b' h'. buf_inv b' \<and>
     (buf_grow b n h = Some (XLOG_OK, b', h') \<and> buf_bytes b' = buf_bytes b \<and>
        buf_len b' = buf_len b \<and> buf_len b' + n \<le> buf_cap b' \<and> (roomy h \<longrightarrow> roomy h') \<or>
      buf_grow b n h = Some (XLOG_ERR_OOM, b, h') \<and> b' = b \<and> \<not> roomy h)"
proof (cases "buf_len b + n \<le> buf_cap b")
  case True
  with assms show ?thesis by (auto simp: buf_grow_def)
next
  case False
  have "0 < buf_cap b * 2" using assms by (simp add: buf_inv_def)
  then obtain c where c: "grow_cap (buf_cap b * 2) (buf_len b + n) = Some c"
      "buf_len b + n \<le> c" "buf_cap b * 2 \<le> c"
    using grow_cap_total by blast
  obtain ok h' where a: "alloc h = (ok, h')" by (cases "alloc h")
  show ?thesis
  proof (cases ok)
    case True
    let ?b' = "b\<lparr>buf_data := buf_data b @ replicate (c - buf_cap b) 0, buf_cap := c\<rparr>"
    have "buf_inv ?b' \<and> buf_bytes ?b' = buf_bytes b"
      using assms c by (auto simp: buf_inv_def buf_bytes_def)
    moreover have "roomy h \<longrightarrow> roomy h'"
      using roomy_alloc a by blast
    ultimately show ?thesis
      using False c a True by (intro exI [of _ ?b'] exI [of _ h']) (simp add: buf_grow_def)
  next
    assume no: "\<not> ok"
    then have "\<not> roomy h" using roomy_alloc a by blast
    then show ?thesis
      using assms False c a no by (intro exI [of _ b] exI [of _ h']) (simp add: buf_grow_def)
  qed
qed

lemma buf_append_spec:
  assumes "buf_inv b"
  shows "\<exists>b' h'. buf_inv b' \<and>
     (buf_append b src h = Some (XLOG_OK, b', h') \<and> buf_bytes b' = buf_bytes b @ src \<and>
        (roomy h \<longrightarrow> roomy h') \<or>
      buf_append b src h = Some (XLOG_ERR_OOM, b', h') \<and> b' = b \<and> \<not> roomy h)"
proof -
  from buf_grow_spec [OF assms, of "length src" h]
  obtain b1 h1 where g: "buf_inv b1"
    "buf_grow b (length src) h = Some (XLOG_OK, b1, h1) \<and> buf_bytes b1 = buf_bytes b \<and>
        buf_len b1 = buf_len b \<and> buf_len b1 + length src \<le> buf_cap b1 \<and> (roomy h \<longrightarrow> roomy h1) \<or>
     buf_grow b (length src) h = Some (XLOG_ERR_OOM, b, h1) \<and> b1 = b \<and> \<not> roomy h"
    by blast
  then show ?thesis
  proof (elim disjE conjE)
    assume ok: "buf_grow b (length src) h = Some (XLOG_OK, b1, h1)" "buf_bytes b1 = buf_bytes b"
      and fit: "buf_len b1 + length src \<le> buf_cap b1" and r: "roomy h \<longrightarrow> roomy h1"
    then obtain d where d: "poke (buf_data b1) (buf_len b1) src = Some d"
      using g(1) by (auto simp: buf_inv_def mem_simps)
    let ?b' = "b1\<lparr>buf_data := d, buf_len := buf_len b1 + length src\<rparr>"
    have "buf_inv ?b' \<and> buf_bytes ?b' = buf_bytes b @ src"
      using g(1) fit length_poke [OF d] take_poke [OF d] ok(2)
      by (simp add: buf_inv_def buf_bytes_def)
    then show ?thesis
      using ok d r by (intro exI [of _ ?b'] exI [of _ h1]) (simp add: buf_append_def)
  next
    assume "buf_grow b (length src) h = Some (XLOG_ERR_OOM, b, h1)" "\<not> roomy h"
    then show ?thesis
      using assms by (intro exI [of _ b] exI [of _ h1]) (simp add: buf_append_def)
  qed
qed

interpretation xsink: byte_sink buf_inv buf_bytes buf_append XLOG_ERR_OOM
proof unfold_locales
  fix b src h assume "buf_inv b"
  then show "\<exists>b' h'. buf_inv b' \<and>
     (buf_append b src h = Some (0, b', h') \<and> buf_bytes b' = buf_bytes b @ src \<and>
        (roomy h \<longrightarrow> roomy h') \<or>
      buf_append b src h = Some (XLOG_ERR_OOM, b', h') \<and> buf_bytes b' = buf_bytes b \<and> \<not> roomy h)"
    using buf_append_spec [of b src h] by blast
qed simp

section \<open>What the encoder emits\<close>

text \<open>A TLV field as the protocol defines it.\<close>

definition tlv :: "byte \<Rightarrow> bytes \<Rightarrow> bytes" where
  "tlv tag v = tag # put_be16 (of_nat (length v)) @ v"

lemma tlv_append_builds:
  assumes "buf_inv b" "unat vlen \<le> length val"
  shows "xsink.builds (tlv_append b tag val vlen h) b h (tag # put_be16 vlen @ take (unat vlen) val)"
proof -
  have "xsink.builds (tlv_append b tag val vlen h) b h ((tag # put_be16 vlen) @ take (unat vlen) val)"
    unfolding tlv_append_def
  proof (rule xsink.builds_then)
    show "xsink.builds (buf_append b (tag # put_be16 vlen) h) b h (tag # put_be16 vlen)"
      using assms(1) by (rule xsink.builds_append)
  next
    fix b' h' assume "buf_inv b'"
    then show "xsink.builds
       (if 0 < vlen then peek val 0 (unat vlen) \<bind> (\<lambda>v. buf_append b' v h') else Some (XLOG_OK, b', h'))
       b' h' (take (unat vlen) val)"
      using assms(2) xsink.builds_append xsink.builds_nothing
      by (auto simp: mem_simps word_neq_0_conv [symmetric] simp del: word_neq_0_conv)
  qed
  then show ?thesis by simp
qed

lemma tlv_append_builds_all:
  assumes "buf_inv b" "length val < 2 ^ 16" "vlen = of_nat (length val)"
  shows "xsink.builds (tlv_append b tag val vlen h) b h (tlv tag val)"
proof -
  have "unat vlen = length val"
    using assms(2,3) by (simp add: unat_of_nat_small)
  then show ?thesis
    using tlv_append_builds [of b vlen val] assms(1,3) by (simp add: tlv_def)
qed

text \<open>The TLV body, as a byte string.\<close>

definition columns_field :: "bytes option \<Rightarrow> bytes" where
  "columns_field csv =
     (case csv of None \<Rightarrow> [] | Some c \<Rightarrow> if c = [] then [] else tlv XLOG_TAG_COLUMNS (take 0xFFFF c))"

definition data_field :: "bytes \<Rightarrow> bytes" where
  "data_field cmp =
     (if length cmp > 0xFFFF
      then XLOG_TAG_DATA # put_be16 (of_nat (length cmp)) @ put_be32 (of_nat (length cmp)) @ cmp
      else tlv XLOG_TAG_DATA cmp)"

definition body_spec :: "nat \<Rightarrow> nat \<Rightarrow> bytes option \<Rightarrow> bytes \<Rightarrow> bytes" where
  "body_spec row_count orig_size csv cmp =
     tlv XLOG_TAG_SCHEMA_VERSION (put_be16 1) @
     tlv XLOG_TAG_ROW_COUNT (put_be32 (of_nat row_count)) @
     tlv XLOG_TAG_ORIG_SIZE (put_be32 (of_nat orig_size)) @
     columns_field csv @ data_field cmp"

lemma columns_field_builds:
  assumes "buf_inv b"
  shows "xsink.builds
     (case csv of
        None \<Rightarrow> Some (XLOG_OK, b, h)
      | Some csv \<Rightarrow>
          if csv = [] then Some (XLOG_OK, b, h)
          else let clen = (if length csv > 0xFFFF then 0xFFFF else length csv)
               in tlv_append b XLOG_TAG_COLUMNS csv (of_nat clen) h)
     b h (columns_field csv)"
proof (cases csv)
  case None
  with assms show ?thesis by (simp add: columns_field_def xsink.builds_nothing)
next
  case (Some c)
  let ?n = "if length c > 0xFFFF then 0xFFFF else length c"
  have n: "unat (of_nat ?n :: u16) = ?n"
    by (rule unat_of_nat_small) simp
  then have "XLOG_TAG_COLUMNS # put_be16 (of_nat ?n) @ take (unat (of_nat ?n :: u16)) c
      = tlv XLOG_TAG_COLUMNS (take 0xFFFF c)"
    by (auto simp: tlv_def min_def)
  then show ?thesis
    using Some assms tlv_append_builds [of b "of_nat ?n" c XLOG_TAG_COLUMNS h] n
    by (simp add: columns_field_def xsink.builds_nothing Let_def split: if_splits)
qed

lemma data_field_builds:
  assumes "buf_inv b"
  shows "xsink.builds
     (if length cmp > 0xFFFF
      then then_ok (buf_append b
                     (XLOG_TAG_DATA # put_be16 (of_nat (length cmp)) @ put_be32 (of_nat (length cmp))) h)
                   (\<lambda>body h. buf_append body cmp h)
      else tlv_append b XLOG_TAG_DATA cmp (of_nat (length cmp)) h)
     b h (data_field cmp)"
proof (cases "length cmp > 0xFFFF")
  case True
  have "xsink.builds (then_ok (buf_append b
          (XLOG_TAG_DATA # put_be16 (of_nat (length cmp)) @ put_be32 (of_nat (length cmp))) h)
        (\<lambda>body h. buf_append body cmp h)) b h
      ((XLOG_TAG_DATA # put_be16 (of_nat (length cmp)) @ put_be32 (of_nat (length cmp))) @ cmp)"
    using assms by (intro xsink.builds_then xsink.builds_append)
  with True show ?thesis by (simp add: data_field_def)
next
  case False
  with assms tlv_append_builds_all [of b cmp "of_nat (length cmp)" XLOG_TAG_DATA h]
  show ?thesis by (simp add: data_field_def)
qed

lemma xlog_encode_body_builds:
  assumes "buf_inv body"
  shows "xsink.builds (xlog_encode_body b cmp body h) body h
     (body_spec (xb_row_count b) (buf_len (xb_tsv b)) (xb_columns_csv b) cmp)"
  unfolding xlog_encode_body_def body_spec_def
  by (intro xsink.builds_then columns_field_builds data_field_builds tlv_append_builds_all assms)
    simp_all

text \<open>
  The whole encoder on a batch whose buffer is well formed: it never faults, and its four
  outcomes are exactly these. The two error codes besides \<open>XLOG_ERR_PARAM\<close> need a failed
  allocation or a failed compression.
\<close>

lemma xlog_batch_encode_cases:
  assumes "buf_inv (xb_tsv b)"
  obtains
    (ok) cmp h' where "zstd (buf_bytes (xb_tsv b)) = Some cmp" "buf_len (xb_tsv b) \<noteq> 0"
      "xlog_batch_encode zstd ts (Some b) h =
         Some (XLOG_OK, Some (xlog_frame (xb_tag b) (xb_agent_id b) (xb_seq b) (xlog_ts_ms ts)
                (body_spec (xb_row_count b) (buf_len (xb_tsv b)) (xb_columns_csv b) cmp)), h')"
  | (param) "buf_len (xb_tsv b) = 0"
      "xlog_batch_encode zstd ts (Some b) h = Some (XLOG_ERR_PARAM, None, h)"
  | (oom) h' where "\<not> roomy h" "buf_len (xb_tsv b) \<noteq> 0"
      "xlog_batch_encode zstd ts (Some b) h = Some (XLOG_ERR_OOM, None, h')"
  | (compress) h' where "zstd (buf_bytes (xb_tsv b)) = None" "buf_len (xb_tsv b) \<noteq> 0"
      "xlog_batch_encode zstd ts (Some b) h = Some (XLOG_ERR_COMPRESS, None, h')"
proof (cases "buf_len (xb_tsv b) = 0")
  case True
  then show ?thesis by (intro param) (simp_all add: xlog_batch_encode_def)
next
  case ne: False
  obtain ok1 h1 where a1: "alloc h = (ok1, h1)" by (cases "alloc h")
  show ?thesis
  proof (cases "ok1 \<and> zstd (buf_bytes (xb_tsv b)) \<noteq> None")
    case False
    then show ?thesis
      using ne a1 roomy_alloc [of h ok1 h1]
      by (cases ok1) (auto simp: xlog_batch_encode_def intro: oom compress)
  next
    case True
    then obtain cmp where ok1: ok1 and z: "zstd (buf_bytes (xb_tsv b)) = Some cmp" by auto
    obtain i h2 where i: "buf_init (length cmp + 64) h1 = (i, h2)" by (cases "buf_init (length cmp + 64) h1")
    have r2: "roomy h \<Longrightarrow> i \<noteq> None \<and> roomy h2"
      using i a1 ok1 roomy_alloc
      by (auto simp: buf_init_def Let_def split: prod.splits if_splits) blast+
    show ?thesis
    proof (cases i)
      case None
      then show ?thesis
        using ne a1 ok1 z i r2 by (intro oom) (auto simp: xlog_batch_encode_def)
    next
      case (Some body0)
      have b0: "buf_inv body0" "buf_bytes body0 = []"
        using buf_init_inv i Some by blast+
      from xlog_encode_body_builds [OF b0(1), of b cmp h2] show ?thesis
      proof (cases rule: xsink.buildsE)
        case (oom b' h')
        then show ?thesis
          using ne a1 ok1 z i Some r2 that(3) by (auto simp: xlog_batch_encode_def)
      next
        case (ok b' h')
        obtain ok3 h3 where a3: "alloc h' = (ok3, h3)" by (cases "alloc h'")
        show ?thesis
          using ne a1 ok1 z i Some r2 ok b0 a3 roomy_alloc [OF _ a3] that(1) that(3)
          by (cases ok3) (auto simp: xlog_batch_encode_def)
      qed
    qed
  qed
qed

section \<open>Batches of rows\<close>

text \<open>
  The abstract value of a batch is its list of rows. \<open>batch_rows b rs\<close>: the buffer is well formed
  and below the 32 MB cap, it holds the rows in order, each ended by a newline, and the row
  counter agrees.
\<close>

definition tsv_of :: "bytes list \<Rightarrow> bytes" where
  "tsv_of rs = concat (map (\<lambda>r. r @ [10]) rs)"

definition batch_rows :: "xlog_batch \<Rightarrow> bytes list \<Rightarrow> bool" where
  "batch_rows b rs \<longleftrightarrow>
     buf_inv (xb_tsv b) \<and> buf_len (xb_tsv b) \<le> XLOG_MAX_FRAME_BODY \<and>
     buf_bytes (xb_tsv b) = tsv_of rs \<and> xb_row_count b = length rs \<and>
     length (xb_tag b) \<le> XLOG_MAX_TAG_LEN"

lemma tsv_of_simps [simp]:
  "tsv_of [] = []"
  "tsv_of (rs @ [r]) = tsv_of rs @ r @ [10]"
  by (simp_all add: tsv_of_def)

lemma length_buf_bytes: "buf_inv b \<Longrightarrow> length (buf_bytes b) = buf_len b"
  by (simp add: buf_inv_def buf_bytes_def)

lemma batch_rows_new: "xlog_batch_new tag aid seq h = (Some b, h') \<Longrightarrow> batch_rows b []"
  by (auto simp: xlog_batch_new_def batch_rows_def XLOG_MAX_FRAME_BODY_def buf_init_def
      buf_inv_def buf_bytes_def Let_def split: prod.splits if_splits option.splits)

lemma batch_rows_set_columns:
  "batch_rows b rs \<Longrightarrow> xlog_batch_set_columns b cols h = (b', h') \<Longrightarrow> batch_rows b' rs"
  by (auto simp: xlog_batch_set_columns_def batch_rows_def Let_def split: prod.splits)

text \<open>
  Appending a row: no fault; on success the row is last in the batch; a row that would pass
  the cap is refused and the batch keeps its rows. The remaining outcome needs a failed
  allocation.
\<close>

lemma append_row_cases:
  assumes "batch_rows b rs"
  obtains
    (ok) b' h' where "xlog_batch_append_row b (Some r) h = Some (XLOG_OK, b', h')"
      "batch_rows b' (rs @ [r])" "roomy h \<Longrightarrow> roomy h'"
      "length (tsv_of (rs @ [r])) \<le> XLOG_MAX_FRAME_BODY"
  | (too_large) "xlog_batch_append_row b (Some r) h = Some (XLOG_ERR_TOO_LARGE, b, h)"
      "length (tsv_of (rs @ [r])) > XLOG_MAX_FRAME_BODY"
  | (oom) b' h' where "xlog_batch_append_row b (Some r) h = Some (XLOG_ERR_OOM, b', h')"
      "\<not> roomy h" "buf_inv (xb_tsv b')"
      "buf_bytes (xb_tsv b') \<in> {tsv_of rs, tsv_of rs @ r}" "xb_row_count b' = length rs"
proof -
  have inv: "buf_inv (xb_tsv b)" and len: "buf_len (xb_tsv b) = length (tsv_of rs)"
    and bb: "buf_bytes (xb_tsv b) = tsv_of rs"
    using assms length_buf_bytes [of "xb_tsv b"] by (auto simp: batch_rows_def)
  show ?thesis
  proof (cases "length (tsv_of (rs @ [r])) > XLOG_MAX_FRAME_BODY")
    case True
    with len show ?thesis by (intro too_large) (simp_all add: xlog_batch_append_row_def)
  next
    case fits: False
    with len have nb: "\<not> buf_len (xb_tsv b) + length r + 1 > XLOG_MAX_FRAME_BODY" by simp
    from xsink.builds_append [OF inv, of r h] show ?thesis
    proof (cases rule: xsink.buildsE)
      case (oom t1 h1)
      then have "t1 = xb_tsv b" using buf_append_spec [OF inv, of r h] by auto
      with oom nb show ?thesis
        using inv bb assms that(3) [of "b\<lparr>xb_tsv := t1\<rparr>" h1]
        by (simp add: xlog_batch_append_row_def batch_rows_def)
    next
      case (ok t1 h1)
      note one = this
      from xsink.builds_append [OF one(2), of "[10]" h1] show ?thesis
      proof (cases rule: xsink.buildsE)
        case (oom t2 h2)
        then have "t2 = t1" using buf_append_spec [OF one(2), of "[10]" h1] by auto
        with one oom nb show ?thesis
          using bb assms that(3) [of "b\<lparr>xb_tsv := t2\<rparr>" h2]
          by (auto simp: xlog_batch_append_row_def batch_rows_def)
      next
        case (ok t2 h2)
        have "buf_bytes t2 = tsv_of (rs @ [r])" using one ok bb by simp
        moreover have "buf_len t2 \<le> XLOG_MAX_FRAME_BODY"
          using length_buf_bytes [OF ok(2)] calculation fits by simp
        ultimately have "batch_rows (b\<lparr>xb_tsv := t2, xb_row_count := xb_row_count b + 1\<rparr>) (rs @ [r])"
          using ok(2) assms by (simp add: batch_rows_def)
        with one ok nb fits show ?thesis
          using that(1) [of "b\<lparr>xb_tsv := t2, xb_row_count := xb_row_count b + 1\<rparr>" h2]
          by (simp add: xlog_batch_append_row_def)
      qed
    qed
  qed
qed

end
