(* ===== verification/Ingest.thy ===== *)
theory Ingest
  imports Xlog
begin

text \<open>
  The receiving end of XLOG in the Go server, \<^verbatim>\<open>xsiam/internal/ingest\<close>: \<open>ReadHeader\<close>
  (\<^verbatim>\<open>frame.go\<close>), \<open>DecodeTLVs\<close>, \<open>DecodeBatch\<close> and \<open>splitColumns\<close> (\<^verbatim>\<open>tlv.go\<close>) and the checks of
  \<open>handleBinary\<close> up to the decoded batch (\<^verbatim>\<open>handler.go\<close>). It is modelled to state what the C
  encoders are for: that their frames decode to what was put in.
\<close>

section \<open>Header\<close>

record frame_header =
  fh_version :: byte
  fh_type :: byte
  fh_flags :: byte
  fh_tag :: bytes
  fh_agent_id :: u64
  fh_seq :: u64
  fh_ts_ms :: u64
  fh_body_len :: u32

datatype ingest_error =
    Truncated_Header | Bad_Magic u32 | Bad_Version byte | Bad_Type byte | Body_Too_Large
  | Truncated_Body | Tlv_Truncated | Tlv_Too_Long byte | Tag_Too_Short byte | Missing_Data

text \<open>\<open>io.ReadFull\<close>: exactly \<open>n\<close> bytes or an error.\<close>

definition read_full :: "nat \<Rightarrow> bytes \<Rightarrow> (bytes \<times> bytes) option" where
  "read_full n r = (if n \<le> length r then Some (take n r, drop n r) else None)"

definition ReadHeader :: "bytes \<Rightarrow> ingest_error + frame_header \<times> bytes" where
  "ReadHeader r =
     (case read_full 8 r of
        None \<Rightarrow> Inl Truncated_Header
      | Some (fixed, r1) \<Rightarrow>
          if get_be32 fixed \<noteq> XLOG_MAGIC then Inl (Bad_Magic (get_be32 fixed))
          else case read_full (unat (fixed ! 7)) r1 of
            None \<Rightarrow> Inl Truncated_Header
          | Some (tag, r2) \<Rightarrow>
              (case read_full 28 r2 of
                 None \<Rightarrow> Inl Truncated_Header
               | Some (tail, r3) \<Rightarrow>
                   Inr (\<lparr>fh_version = fixed ! 4, fh_type = fixed ! 5, fh_flags = fixed ! 6,
                         fh_tag = tag, fh_agent_id = get_be64 tail,
                         fh_seq = get_be64 (drop 8 tail), fh_ts_ms = get_be64 (drop 16 tail),
                         fh_body_len = get_be32 (drop 24 tail)\<rparr>, r3)))"

section \<open>TLV body\<close>

function DecodeTLVs :: "bytes \<Rightarrow> ingest_error + (byte \<times> bytes) list" where
  "DecodeTLVs body =
     (if body = [] then Inr []
      else if length body < 3 then Inl Tlv_Truncated
      else let tag = body ! 0; len = unat (get_be16 (drop 1 body)); rest = drop 3 body in
        if len > length rest then Inl (Tlv_Too_Long tag)
        else case DecodeTLVs (drop len rest) of
          Inl e \<Rightarrow> Inl e
        | Inr fs \<Rightarrow> Inr ((tag, take len rest) # fs))"
  by pat_completeness auto
termination
  by (relation "measure length") auto

declare DecodeTLVs.simps [simp del]

fun splitColumns_from :: "bytes \<Rightarrow> bytes \<Rightarrow> bytes list" where
  "splitColumns_from acc [] = [acc]"
| "splitColumns_from acc (c # cs) =
     (if c = 44 then acc # splitColumns_from [] cs else splitColumns_from (acc @ [c]) cs)"

definition splitColumns :: "bytes \<Rightarrow> bytes list" where
  "splitColumns b = (if b = [] then [] else splitColumns_from [] b)"

record log_batch =
  lb_schema_version :: u16
  lb_row_count :: u32
  lb_orig_size :: u32
  lb_columns :: "bytes list"
  lb_compressed_tsv :: bytes

definition empty_batch :: log_batch where
  "empty_batch = \<lparr>lb_schema_version = 0, lb_row_count = 0, lb_orig_size = 0, lb_columns = [],
                  lb_compressed_tsv = []\<rparr>"

fun fill_batch :: "log_batch \<Rightarrow> (byte \<times> bytes) list \<Rightarrow> ingest_error + log_batch" where
  "fill_batch b [] = Inr b"
| "fill_batch b ((tag, v) # fs) =
     (if tag = XLOG_TAG_SCHEMA_VERSION then
        if length v < 2 then Inl (Tag_Too_Short tag)
        else fill_batch (b\<lparr>lb_schema_version := get_be16 v\<rparr>) fs
      else if tag = XLOG_TAG_ROW_COUNT then
        if length v < 4 then Inl (Tag_Too_Short tag)
        else fill_batch (b\<lparr>lb_row_count := get_be32 v\<rparr>) fs
      else if tag = XLOG_TAG_ORIG_SIZE then
        if length v < 4 then Inl (Tag_Too_Short tag)
        else fill_batch (b\<lparr>lb_orig_size := get_be32 v\<rparr>) fs
      else if tag = XLOG_TAG_COLUMNS then fill_batch (b\<lparr>lb_columns := splitColumns v\<rparr>) fs
      else if tag = XLOG_TAG_DATA then fill_batch (b\<lparr>lb_compressed_tsv := v\<rparr>) fs
      else fill_batch b fs)"

definition DecodeBatch :: "bytes \<Rightarrow> ingest_error + log_batch" where
  "DecodeBatch body =
     (case DecodeTLVs body of
        Inl e \<Rightarrow> Inl e
      | Inr fs \<Rightarrow>
          (case fill_batch empty_batch fs of
             Inl e \<Rightarrow> Inl e
           | Inr b \<Rightarrow> if lb_compressed_tsv b = [] then Inl Missing_Data else Inr b))"

section \<open>The request handler up to the decoded batch\<close>

definition maxBodyBytes :: nat where
  "maxBodyBytes = 33554432"

definition handleBinary :: "bytes \<Rightarrow> ingest_error + frame_header \<times> log_batch" where
  "handleBinary req =
     (case ReadHeader (take (maxBodyBytes + 1) req) of
        Inl e \<Rightarrow> Inl e
      | Inr (hdr, r) \<Rightarrow>
          if fh_version hdr \<noteq> XLOG_VERSION then Inl (Bad_Version (fh_version hdr))
          else if fh_type hdr \<noteq> XLOG_TYPE_LOG_BATCH then Inl (Bad_Type (fh_type hdr))
          else if unat (fh_body_len hdr) > maxBodyBytes then Inl Body_Too_Large
          else case read_full (unat (fh_body_len hdr)) r of
            None \<Rightarrow> Inl Truncated_Body
          | Some (body, _) \<Rightarrow>
              (case DecodeBatch body of Inl e \<Rightarrow> Inl e | Inr b \<Rightarrow> Inr (hdr, b)))"

section \<open>Decoding inverts encoding\<close>

lemma DecodeTLVs_Nil [simp]: "DecodeTLVs [] = Inr []"
  by (subst DecodeTLVs.simps) simp

lemma DecodeTLVs_tlv:
  assumes "length v < 2 ^ 16"
  shows "DecodeTLVs (tlv tag v @ rest) =
     (case DecodeTLVs rest of Inl e \<Rightarrow> Inl e | Inr fs \<Rightarrow> Inr ((tag, v) # fs))"
proof -
  have "get_be16 (drop 1 (tlv tag v @ rest)) = of_nat (length v)"
    by (simp add: tlv_def be16.dec_enc)
  moreover have "unat (of_nat (length v) :: u16) = length v"
    using assms by (simp add: unat_of_nat_small)
  moreover have "drop 3 (tlv tag v @ rest) = v @ rest" "tlv tag v @ rest \<noteq> []"
      "\<not> length (tlv tag v @ rest) < 3" "(tlv tag v @ rest) ! 0 = tag"
    by (simp_all add: tlv_def numeral_3_eq_3)
  ultimately show ?thesis
    by (subst DecodeTLVs.simps) (simp add: Let_def split: sum.splits)
qed

lemma ReadHeader_xlog_frame:
  assumes "length tag \<le> XLOG_MAX_TAG_LEN"
  shows "ReadHeader (xlog_frame tag aid seq ts body) =
     Inr (\<lparr>fh_version = XLOG_VERSION, fh_type = XLOG_TYPE_LOG_BATCH, fh_flags = 0, fh_tag = tag,
           fh_agent_id = aid, fh_seq = seq, fh_ts_ms = ts, fh_body_len = of_nat (length body)\<rparr>, body)"
proof -
  define fixed where "fixed = put_be32 XLOG_MAGIC @ [XLOG_VERSION, XLOG_TYPE_LOG_BATCH, 0, of_nat (length tag)]"
  define tail where "tail = put_be64 aid @ put_be64 seq @ put_be64 ts @ put_be32 (of_nat (length body))"
  have fr: "xlog_frame tag aid seq ts body = fixed @ tag @ tail @ body"
    using assms by (simp add: xlog_frame_def fixed_def tail_def Let_def)
  have len: "length fixed = 8" "length tail = 28"
    by (simp_all add: fixed_def tail_def)
  have "unat (fixed ! 7) = length tag" "get_be32 fixed = XLOG_MAGIC"
      "fixed ! 4 = XLOG_VERSION" "fixed ! 5 = XLOG_TYPE_LOG_BATCH" "fixed ! 6 = 0"
    using assms by (simp_all add: fixed_def nth_append XLOG_MAX_TAG_LEN_def be32.dec_enc unat_of_nat_small)
  moreover have "get_be64 tail = aid" "get_be64 (drop 8 tail) = seq" "get_be64 (drop 16 tail) = ts"
      "get_be32 (drop 24 tail) = of_nat (length body)"
    by (simp_all add: tail_def be64.dec_enc be32.dec_enc_only)
  ultimately show ?thesis
    unfolding ReadHeader_def fr by (simp add: read_full_def len)
qed

lemma length_tlv [simp]: "length (tlv tag v) = length v + 3"
  by (simp add: tlv_def)

lemma columns_field_decodes:
  "DecodeTLVs (columns_field csv @ rest) =
     (case DecodeTLVs rest of Inl e \<Rightarrow> Inl e
      | Inr fs \<Rightarrow> Inr ((case csv of None \<Rightarrow> [] | Some c \<Rightarrow>
          if c = [] then [] else [(XLOG_TAG_COLUMNS, take 0xFFFF c)]) @ fs))"
  by (auto simp: columns_field_def DecodeTLVs_tlv split: option.splits sum.splits)

definition decoded_columns :: "bytes option \<Rightarrow> bytes list" where
  "decoded_columns csv = (case csv of None \<Rightarrow> [] | Some c \<Rightarrow> splitColumns (take 0xFFFF c))"

lemma DecodeBatch_body_spec:
  assumes "length cmp \<le> 0xFFFF" "cmp \<noteq> []"
  shows "DecodeBatch (body_spec n m csv cmp) =
     Inr \<lparr>lb_schema_version = 1, lb_row_count = of_nat n, lb_orig_size = of_nat m,
          lb_columns = decoded_columns csv, lb_compressed_tsv = cmp\<rparr>"
proof -
  have d: "DecodeTLVs (data_field cmp) = Inr [(XLOG_TAG_DATA, cmp)]"
    using assms DecodeTLVs_tlv [of cmp XLOG_TAG_DATA "[]"] by (simp add: data_field_def)
  show ?thesis
    unfolding DecodeBatch_def body_spec_def
    using assms(2)
    by (cases csv) (simp_all add: DecodeTLVs_tlv columns_field_decodes d empty_batch_def
        be16.dec_enc_only be32.dec_enc_only decoded_columns_def splitColumns_def)
qed

lemma body_spec_small:
  assumes "length cmp \<le> 0xFFFF"
  shows "length (body_spec n m csv cmp) \<le> 200000"
  using assms
  by (auto simp: body_spec_def columns_field_def data_field_def split: option.splits)

lemma length_xlog_frame:
  "length tag \<le> XLOG_MAX_TAG_LEN \<Longrightarrow>
   length (xlog_frame tag aid seq ts body) = 36 + length tag + length body"
  by (simp add: xlog_frame_def Let_def)

lemma handleBinary_xlog_frame:
  assumes "length tag \<le> XLOG_MAX_TAG_LEN" "length cmp \<le> 0xFFFF" "cmp \<noteq> []"
  shows "handleBinary (xlog_frame tag aid seq ts (body_spec n m csv cmp)) =
     Inr (\<lparr>fh_version = XLOG_VERSION, fh_type = XLOG_TYPE_LOG_BATCH, fh_flags = 0, fh_tag = tag,
           fh_agent_id = aid, fh_seq = seq, fh_ts_ms = ts,
           fh_body_len = of_nat (length (body_spec n m csv cmp))\<rparr>,
          \<lparr>lb_schema_version = 1, lb_row_count = of_nat n, lb_orig_size = of_nat m,
           lb_columns = decoded_columns csv, lb_compressed_tsv = cmp\<rparr>)"
proof -
  let ?body = "body_spec n m csv cmp"
  have b: "length ?body \<le> 200000" using assms(2) by (rule body_spec_small)
  then have u: "unat (of_nat (length ?body) :: u32) = length ?body"
    by (simp add: unat_of_nat_small)
  have t: "take (maxBodyBytes + 1) (xlog_frame tag aid seq ts ?body) = xlog_frame tag aid seq ts ?body"
    using b assms(1) by (simp add: length_xlog_frame maxBodyBytes_def XLOG_MAX_TAG_LEN_def)
  have r: "read_full (length ?body) ?body = Some (?body, [])"
    by (simp add: read_full_def)
  have "length ?body \<le> maxBodyBytes" using b by (simp add: maxBodyBytes_def)
  then show ?thesis
    unfolding handleBinary_def t ReadHeader_xlog_frame [OF assms(1)]
    by (simp add: u r DecodeBatch_body_spec [OF assms(2,3)])
qed

section \<open>A field never carries more than 64 KB\<close>

lemma DecodeTLVs_InrE:
  assumes "DecodeTLVs body = Inr fs"
  obtains (nofields) "body = []" "fs = []"
  | (field) len fs' where "body \<noteq> []" "len = unat (get_be16 (drop 1 body))"
      "DecodeTLVs (drop len (drop 3 body)) = Inr fs'" "fs = (body ! 0, take len (drop 3 body)) # fs'"
  using assms by (subst (asm) DecodeTLVs.simps) (auto simp: Let_def split: if_splits sum.splits)

lemma DecodeTLVs_short: "DecodeTLVs body = Inr fs \<Longrightarrow> (t, v) \<in> set fs \<Longrightarrow> length v \<le> 0xFFFF"
proof (induction body arbitrary: fs rule: length_induct)
  case (1 body)
  from "1.prems"(1) show ?case
  proof (cases rule: DecodeTLVs_InrE)
    case nofields
    with "1.prems"(2) show ?thesis by simp
  next
    case (field len fs')
    have "len \<le> 0xFFFF"
      using unsigned_less [of "get_be16 (drop 1 body)", where 'a = nat] field(2) by simp
    moreover have "length (drop len (drop 3 body)) < length body" using field(1) by simp
    ultimately show ?thesis using field(3,4) "1.prems"(2) "1.IH" by fastforce
  qed
qed

lemma fill_batch_payload:
  "fill_batch b fs = Inr b' \<Longrightarrow>
   lb_compressed_tsv b' = lb_compressed_tsv b \<or> (\<exists>t. (t, lb_compressed_tsv b') \<in> set fs)"
  by (induction b fs rule: fill_batch.induct) (auto split: if_splits)

lemma DecodeBatch_payload_short: "DecodeBatch body = Inr b \<Longrightarrow> length (lb_compressed_tsv b) \<le> 0xFFFF"
  using fill_batch_payload DecodeTLVs_short
  by (fastforce simp: DecodeBatch_def empty_batch_def split: sum.splits if_splits)

section \<open>Column lists\<close>

lemma splitColumns_from_plain:
  "44 \<notin> set c \<Longrightarrow> splitColumns_from acc (c @ rest) = splitColumns_from (acc @ c) rest"
  by (induction c arbitrary: acc) auto

lemma splitColumns_from_join:
  "cs \<noteq> [] \<Longrightarrow> \<forall>c \<in> set cs. 44 \<notin> set c \<Longrightarrow>
   splitColumns_from acc (join_with 44 cs) = (acc @ hd cs) # tl cs"
proof (induction cs arbitrary: acc rule: induct_list012)
  case (2 c)
  then show ?case using splitColumns_from_plain [of c acc "[]"] by simp
qed (simp_all add: splitColumns_from_plain)

lemma map_tabs_id: "9 \<notin> set c \<Longrightarrow> map (\<lambda>c. if c = 9 then 44 else c) c = c"
  by (induction c) auto

lemma tabs_to_commas_join:
  "\<forall>c \<in> set cs. 9 \<notin> set c \<Longrightarrow>
   map (\<lambda>c. if c = 9 then 44 else c) (join_with 9 cs) = join_with 44 cs"
proof (induction cs rule: induct_list012)
  case (3 c d cs)
  then show ?case by (simp add: map_tabs_id)
qed (simp_all add: map_tabs_id)

lemma decoded_columns_join:
  assumes "xlog_batch_set_columns b (Some (join_with 9 cs)) h = (b', h')" "roomy h"
    and "\<forall>c \<in> set cs. 9 \<notin> set c \<and> 44 \<notin> set c"
    and "join_with 9 cs \<noteq> []" "length (join_with 9 cs) \<le> 0xFFFF"
  shows "decoded_columns (xb_columns_csv b') = cs"
proof -
  have ne: "cs \<noteq> []" using assms(4) by auto
  have tabs: "map (\<lambda>c. if c = 9 then 44 else c) (join_with 9 cs) = join_with 44 cs"
    using assms(3) by (intro tabs_to_commas_join) blast
  obtain h1 where "alloc h = (True, h1)"
    using roomy_alloc [OF assms(2)] by (metis (full_types) surj_pair)
  then have csv: "xb_columns_csv b' = Some (join_with 44 cs)"
    using assms(1,4) tabs by (auto simp: xlog_batch_set_columns_def tabs_to_commas_def)
  have "length (join_with 44 cs) = length (join_with 9 cs)"
    by (subst tabs [symmetric]) simp
  with assms(4,5) have "take 0xFFFF (join_with 44 cs) = join_with 44 cs" "join_with 44 cs \<noteq> []"
    by auto
  then show ?thesis
    using csv assms(3) ne splitColumns_from_join [of cs "[]"]
    by (simp add: decoded_columns_def splitColumns_def)
qed

end
