(* ===== verification/Agent_State.thy ===== *)
theory Agent_State
  imports Prelude
begin

text \<open>
  The statistics of the agent, \<^verbatim>\<open>agents/client-agent/state.c\<close>: the record that the other parts of
  the agent update, each update under one mutex and therefore atomic, and the status texts.
\<close>

datatype agent_status =
  GA_STATUS_ACTIVE | GA_STATUS_NACTIVE | GA_STATUS_NEVER | GA_STATUS_PENDING | GA_STATUS_UNKNOWN

record agent_state =
  as_status :: agent_status
  as_last_keepalive :: nat
  as_last_ack :: nat
  as_msg_count :: u32
  as_msg_sent :: u32

text \<open>The kind of an update together with the data behind its pointer; \<open>None\<close> is NULL.\<close>

datatype state_update =
    UPDATE_STATUS agent_status
  | UPDATE_KEEPALIVE "nat option"
  | UPDATE_ACK "nat option"
  | INCREMENT_MSG_COUNT
  | INCREMENT_MSG_SEND
  | RESET_MSG_COUNT_ON_SHRINK "u32 option"

definition agent_state_initial :: agent_state where
  "agent_state_initial =
     \<lparr>as_status = GA_STATUS_PENDING, as_last_keepalive = 0, as_last_ack = 0, as_msg_count = 0,
      as_msg_sent = 0\<rparr>"

fun w_agentd_state_update :: "state_update \<Rightarrow> agent_state \<Rightarrow> agent_state" where
  "w_agentd_state_update (UPDATE_STATUS s) st = st\<lparr>as_status := s\<rparr>"
| "w_agentd_state_update (UPDATE_KEEPALIVE d) st =
     (case d of Some t \<Rightarrow> st\<lparr>as_last_keepalive := t\<rparr> | None \<Rightarrow> st)"
| "w_agentd_state_update (UPDATE_ACK d) st =
     (case d of Some t \<Rightarrow> st\<lparr>as_last_ack := t\<rparr> | None \<Rightarrow> st)"
| "w_agentd_state_update INCREMENT_MSG_COUNT st = st\<lparr>as_msg_count := as_msg_count st + 1\<rparr>"
| "w_agentd_state_update INCREMENT_MSG_SEND st = st\<lparr>as_msg_sent := as_msg_sent st + 1\<rparr>"
| "w_agentd_state_update (RESET_MSG_COUNT_ON_SHRINK d) st =
     (case d of Some n \<Rightarrow> st\<lparr>as_msg_count := n\<rparr> | None \<Rightarrow> st)"

fun get_str_status :: "agent_status \<Rightarrow> bytes" where
  "get_str_status GA_STATUS_PENDING = asc ''pending''"
| "get_str_status GA_STATUS_ACTIVE = asc ''connected''"
| "get_str_status GA_STATUS_NACTIVE = asc ''disconnected''"
| "get_str_status _ = asc ''unknown''"

end
