(* ===== verification/Text.thy ===== *)
theory Text
  imports Prelude
begin

text \<open>
  What the source uses of the C library to produce and read text: the \<open>%llu\<close>, \<open>%02x\<close> and
  \<open>%02X\<close> conversions, the UUID and MAC formats built from them, \<open>atoi\<close>, \<open>strtok_r\<close> on commas, and
  \<open>gmtime_r\<close> with \<open>strftime\<close> for RFC 3339 timestamps. Times are seconds since the epoch and are
  not negative.
\<close>

section \<open>Decimal numbers\<close>

fun dec :: "nat \<Rightarrow> bytes" where
  "dec n = (if n < 10 then [48 + of_nat n] else dec (n div 10) @ [48 + of_nat (n mod 10)])"

declare dec.simps [simp del]

definition is_digit :: "byte \<Rightarrow> bool" where
  "is_digit c \<longleftrightarrow> 48 \<le> c \<and> c \<le> 57"

definition digits_value :: "bytes \<Rightarrow> nat" where
  "digits_value ds = foldl (\<lambda>n c. 10 * n + (unat c - 48)) 0 ds"

lemma digit_byte: "n < 10 \<Longrightarrow> is_digit (48 + of_nat n) \<and> unat (48 + of_nat n :: byte) = 48 + n"
proof -
  assume "n < 10"
  then have "unat (of_nat n :: byte) = n" by (simp add: unat_of_nat_small)
  with \<open>n < 10\<close> have "unat (48 + of_nat n :: byte) = 48 + n"
    by (simp add: unat_word_ariths)
  with \<open>n < 10\<close> show ?thesis by (simp add: is_digit_def word_le_nat_alt)
qed

lemma dec_digits: "c \<in> set (dec n) \<Longrightarrow> is_digit c"
proof (induction n arbitrary: c rule: dec.induct)
  case (1 n)
  then show ?case
    by (subst (asm) dec.simps) (auto simp: digit_byte split: if_splits)
qed

lemma digits_value_snoc: "digits_value (ds @ [c]) = 10 * digits_value ds + (unat c - 48)"
  by (simp add: digits_value_def)

text \<open>Printing a number and reading the digits back gives the number.\<close>

lemma digits_value_dec: "digits_value (dec n) = n"
proof (induction n rule: dec.induct)
  case (1 n)
  show ?case
  proof (cases "n < 10")
    case True
    then show ?thesis by (subst dec.simps) (simp add: digits_value_def digit_byte)
  next
    case False
    then show ?thesis
      using "1.IH" digit_byte [of "n mod 10"]
      by (subst dec.simps) (simp add: digits_value_snoc)
  qed
qed

lemma dec_inject: "dec m = dec n \<longleftrightarrow> m = n"
  using digits_value_dec by metis

lemma dec_not_Nil [simp]: "dec n \<noteq> []"
  by (subst dec.simps) simp

text \<open>At most 20 digits are printed for a 64-bit value.\<close>

lemma length_dec_le: "0 < k \<Longrightarrow> n < 10 ^ k \<Longrightarrow> length (dec n) \<le> k"
proof (induction n arbitrary: k rule: dec.induct)
  case (1 n)
  show ?case
  proof (cases "n < 10")
    case True
    with "1.prems" show ?thesis by (subst dec.simps) simp
  next
    case False
    with "1.prems" obtain j where k: "k = Suc j" "0 < j"
      by (cases k; cases "k - 1") auto
    with False "1.prems" have "length (dec (n div 10)) \<le> j"
      by (intro "1.IH") (auto simp: div_less_iff_less_mult mult.commute)
    with False k show ?thesis by (subst dec.simps) simp
  qed
qed

lemma length_dec_u64: "length (dec (unat (x :: u64))) \<le> 20"
proof (rule length_dec_le)
  show "unat x < 10 ^ 20"
    using unsigned_less [of x, where 'a = nat] by simp
qed simp

section \<open>atoi\<close>

text \<open>
  \<open>atoi\<close> is \<open>strtol\<close> to base 10, cut to an \<open>int\<close>: leading white space, an optional sign, digits;
  the \<open>long\<close> saturates.
\<close>

definition is_space :: "byte \<Rightarrow> bool" where
  "is_space c \<longleftrightarrow> c = 32 \<or> (9 \<le> c \<and> c \<le> 13)"

definition strtol10 :: "bytes \<Rightarrow> int" where
  "strtol10 s =
     (let t = dropWhile is_space s;
          neg = (t \<noteq> [] \<and> hd t = 45);
          u = (if t \<noteq> [] \<and> (hd t = 45 \<or> hd t = 43) then tl t else t);
          v = int (digits_value (takeWhile is_digit u))
      in if neg then max (- (2 ^ 63)) (- v) else min (2 ^ 63 - 1) v)"

definition atoi :: "bytes \<Rightarrow> 32 word" where
  "atoi s = word_of_int (strtol10 s)"

lemma is_digit_not_space: "is_digit c \<Longrightarrow> \<not> is_space c \<and> c \<noteq> 45 \<and> c \<noteq> 43"
  by (auto simp: is_digit_def is_space_def word_le_nat_alt)

lemma strtol10_prefix:
  assumes n: "int n < 2 ^ 63" and rest: "rest = [] \<or> \<not> is_digit (hd rest)"
  shows "strtol10 (dec n @ rest) = int n"
proof -
  have all: "\<forall>c \<in> set (dec n). is_digit c" using dec_digits by blast
  then have h: "is_digit (hd (dec n @ rest))" by simp
  have "dropWhile is_space (dec n @ rest) = dec n @ rest"
    using h is_digit_not_space by (cases "dec n @ rest") auto
  moreover have tw: "takeWhile is_digit (dec n @ rest) = dec n"
    using all rest by (cases rest) (auto simp: takeWhile_append)
  ultimately show ?thesis
    using is_digit_not_space [OF h] n by (simp add: strtol10_def tw digits_value_dec Let_def)
qed

lemma strtol10_dec: "int n < 2 ^ 63 \<Longrightarrow> strtol10 (dec n) = int n"
  using strtol10_prefix [of n "[]"] by simp

lemma atoi_prefix:
  assumes "n < 2 ^ 31" "rest = [] \<or> \<not> is_digit (hd rest)"
  shows "sint (atoi (dec n @ rest)) = int n"
proof -
  have b: "int n < 2 ^ 31" using assms(1) by (metis of_nat_less_iff of_nat_numeral of_nat_power)
  then have "strtol10 (dec n @ rest) = int n" using strtol10_prefix [OF _ assms(2)] by simp
  then have "sint (atoi (dec n @ rest)) = signed_take_bit 31 (int n)"
    by (simp only: atoi_def signed_of_int) simp
  also have "\<dots> = int n" using b by (intro signed_take_bit_int_eq_self) auto
  finally show ?thesis .
qed

section \<open>Hexadecimal\<close>

definition hex_lower :: "byte \<Rightarrow> byte" where
  "hex_lower d = (if d < 10 then 48 + d else 87 + d)"

definition hex_upper :: "byte \<Rightarrow> byte" where
  "hex_upper d = (if d < 10 then 48 + d else 55 + d)"

definition hex2 :: "byte \<Rightarrow> bytes" where
  "hex2 b = [hex_lower (drop_bit 4 b), hex_lower (b AND 15)]"

definition HEX2 :: "byte \<Rightarrow> bytes" where
  "HEX2 b = [hex_upper (drop_bit 4 b), hex_upper (b AND 15)]"

lemma length_hex2 [simp]: "length (hex2 b) = 2" "length (HEX2 b) = 2"
  by (simp_all add: hex2_def HEX2_def)

text \<open>
  The UUID text of 16 bytes:
  \<open>%02x%02x%02x%02x-%02x%02x-%02x%02x-%02x%02x-%02x%02x%02x%02x%02x%02x\<close>.
\<close>

definition uuid_text :: "bytes \<Rightarrow> bytes" where
  "uuid_text b =
     concat (map hex2 (take 4 b)) @ [45] @ concat (map hex2 (take 2 (drop 4 b))) @ [45] @
     concat (map hex2 (take 2 (drop 6 b))) @ [45] @ concat (map hex2 (take 2 (drop 8 b))) @ [45] @
     concat (map hex2 (take 6 (drop 10 b)))"

text \<open>The version and variant bits that both UUID generators force.\<close>

definition uuid_v4_bits :: "bytes \<Rightarrow> bytes" where
  "uuid_v4_bits b = b[6 := (b ! 6 AND 0x0f) OR 0x40, 8 := (b ! 8 AND 0x3f) OR 0x80]"

lemma length_concat_hex2: "length (concat (map hex2 bs)) = 2 * length bs"
  by (induction bs) auto

lemma length_uuid_text: "length b = 16 \<Longrightarrow> length (uuid_text b) = 36"
  by (simp add: uuid_text_def length_concat_hex2)

section \<open>strtok on commas\<close>

text \<open>The non-empty maximal comma-free segments, in order.\<close>

fun comma_tokens_from :: "bytes \<Rightarrow> bytes \<Rightarrow> bytes list" where
  "comma_tokens_from acc [] = (if acc = [] then [] else [acc])"
| "comma_tokens_from acc (c # cs) =
     (if c = 44 then (if acc = [] then [] else [acc]) @ comma_tokens_from [] cs
      else comma_tokens_from (acc @ [c]) cs)"

definition comma_tokens :: "bytes \<Rightarrow> bytes list" where
  "comma_tokens s = comma_tokens_from [] s"

lemma comma_tokens_from_plain:
  "44 \<notin> set t \<Longrightarrow> comma_tokens_from acc (t @ rest) = comma_tokens_from (acc @ t) rest"
  by (induction t arbitrary: acc) auto

lemma length_comma_tokens_from: "t \<in> set (comma_tokens_from acc s) \<Longrightarrow> length t \<le> length acc + length s"
  by (induction acc s arbitrary: t rule: comma_tokens_from.induct) (fastforce split: if_splits)+

section \<open>Calendar\<close>

definition leap_year :: "nat \<Rightarrow> bool" where
  "leap_year y \<longleftrightarrow> y mod 4 = 0 \<and> (y mod 100 \<noteq> 0 \<or> y mod 400 = 0)"

definition days_in_year :: "nat \<Rightarrow> nat" where
  "days_in_year y = (if leap_year y then 366 else 365)"

definition month_lengths :: "nat \<Rightarrow> nat list" where
  "month_lengths y = [31, if leap_year y then 29 else 28, 31, 30, 31, 30, 31, 31, 30, 31, 30, 31]"

text \<open>Split a day count into a year, counting up from \<open>y\<close>, and a day of that year.\<close>

function year_of_days :: "nat \<Rightarrow> nat \<Rightarrow> nat \<times> nat" where
  "year_of_days y d = (if d < days_in_year y then (y, d) else year_of_days (Suc y) (d - days_in_year y))"
  by pat_completeness auto
termination
  by (relation "measure snd") (auto simp: days_in_year_def split: if_splits)

declare year_of_days.simps [simp del]

fun month_of_day :: "nat \<Rightarrow> nat list \<Rightarrow> nat \<Rightarrow> nat \<times> nat" where
  "month_of_day m [] d = (m, d)"
| "month_of_day m (n # ns) d = (if d < n then (m, d) else month_of_day (Suc m) ns (d - n))"

text \<open>\<open>strftime\<close> pads with zeros.\<close>

definition pad2 :: "nat \<Rightarrow> bytes" where
  "pad2 n = (if n < 10 then 48 # dec n else dec n)"

definition rfc3339 :: "nat \<Rightarrow> bytes" where
  "rfc3339 t =
     (let (y, yd) = year_of_days 1970 (t div 86400);
          (m, md) = month_of_day 1 (month_lengths y) yd;
          s = t mod 86400
      in dec y @ [45] @ pad2 m @ [45] @ pad2 (Suc md) @ [84] @
         pad2 (s div 3600) @ [58] @ pad2 (s mod 3600 div 60) @ [58] @ pad2 (s mod 60) @ [90])"

text \<open>The day count is what the years and the day of the year add up to.\<close>

fun days_before :: "nat \<Rightarrow> nat \<Rightarrow> nat" where
  "days_before y 0 = 0"
| "days_before y (Suc k) = days_in_year y + days_before (Suc y) k"

lemma year_of_days_correct:
  "year_of_days y d = (y', d') \<Longrightarrow>
   y \<le> y' \<and> d' < days_in_year y' \<and> d = days_before y (y' - y) + d'"
proof (induction y d arbitrary: y' d' rule: year_of_days.induct)
  case (1 y d)
  show ?case
  proof (cases "d < days_in_year y")
    case True
    with "1.prems" show ?thesis by (subst (asm) year_of_days.simps) auto
  next
    case False
    with "1.prems" have "year_of_days (Suc y) (d - days_in_year y) = (y', d')"
      by (subst (asm) year_of_days.simps) simp
    with "1.IH" [OF False] have ih: "Suc y \<le> y'" "d' < days_in_year y'"
        "d - days_in_year y = days_before (Suc y) (y' - Suc y) + d'" by auto
    then have "y' - y = Suc (y' - Suc y)" by simp
    with ih False show ?thesis by simp
  qed
qed

lemma month_of_day_correct:
  "month_of_day m ns d = (m', d') \<Longrightarrow> d < sum_list ns \<Longrightarrow>
   m \<le> m' \<and> m' - m < length ns \<and> d' < ns ! (m' - m) \<and> d = sum_list (take (m' - m) ns) + d'"
proof (induction m ns d rule: month_of_day.induct)
  case (2 m n ns d)
  show ?case
  proof (cases "d < n")
    case False
    with "2.prems" have "month_of_day (Suc m) ns (d - n) = (m', d')" "d - n < sum_list ns" by auto
    with "2.IH" False have ih: "Suc m \<le> m'" "m' - Suc m < length ns" "d' < ns ! (m' - Suc m)"
        "d - n = sum_list (take (m' - Suc m) ns) + d'" by auto
    then have "m' - m = Suc (m' - Suc m)" by simp
    with ih False show ?thesis by simp
  qed (use "2.prems" in auto)
qed simp

lemma days_before_ge: "365 * k \<le> days_before y k"
  by (induction y k rule: days_before.induct) (auto simp: days_in_year_def)

lemma length_pad2: "n < 100 \<Longrightarrow> length (pad2 n) \<le> 2"
  using length_dec_le [of 1 n] length_dec_le [of 2 n] by (auto simp: pad2_def)

text \<open>A timestamp of 32 bits is printed in at most 20 characters.\<close>

lemma length_rfc3339:
  assumes "t < 2 ^ 32"
  shows "length (rfc3339 t) \<le> 20"
proof -
  obtain y yd where y: "year_of_days 1970 (t div 86400) = (y, yd)" by force
  obtain m md where m: "month_of_day 1 (month_lengths y) yd = (m, md)" by force
  note yc = year_of_days_correct [OF y]
  have "365 * (y - 1970) \<le> t div 86400" using yc days_before_ge [of "y - 1970" 1970] by linarith
  moreover have "t div 86400 < 365 * 137" using assms by (simp add: div_less_iff_less_mult)
  ultimately have "y < 10 ^ 4" by simp
  then have ly: "length (dec y) \<le> 4" by (intro length_dec_le) simp_all
  have sum: "yd < sum_list (month_lengths y)"
    using yc by (auto simp: month_lengths_def days_in_year_def)
  have len: "length (month_lengths y) = 12" "\<forall>n \<in> set (month_lengths y). n \<le> 31"
    by (auto simp: month_lengths_def)
  note mc = month_of_day_correct [OF m sum]
  have "month_lengths y ! (m - 1) \<le> 31" using mc len by auto
  then have "m \<le> 12" "md < 31" using mc len(1) by linarith+
  then have "length (pad2 m) \<le> 2" "length (pad2 (Suc md)) \<le> 2" by (simp_all add: length_pad2)
  moreover have "length (pad2 (t mod 86400 div 3600)) \<le> 2" "length (pad2 (t mod 86400 mod 3600 div 60)) \<le> 2"
      "length (pad2 (t mod 86400 mod 60)) \<le> 2"
    by (intro length_pad2; simp add: div_less_iff_less_mult less_trans [OF mod_less_divisor])+
  ultimately show ?thesis using ly y m by (simp add: rfc3339_def Let_def)
qed

section \<open>Splitting at a separator\<close>

fun split_on_from :: "byte \<Rightarrow> bytes \<Rightarrow> bytes \<Rightarrow> bytes list" where
  "split_on_from sep acc [] = [acc]"
| "split_on_from sep acc (c # cs) =
     (if c = sep then acc # split_on_from sep [] cs else split_on_from sep (acc @ [c]) cs)"

definition split_on :: "byte \<Rightarrow> bytes \<Rightarrow> bytes list" where
  "split_on sep s = split_on_from sep [] s"

lemma split_on_from_plain: "sep \<notin> set c \<Longrightarrow> split_on_from sep acc (c @ rest) = split_on_from sep (acc @ c) rest"
  by (induction c arbitrary: acc) auto

lemma split_on_Cons: "sep \<notin> set c \<Longrightarrow> split_on sep (c @ sep # rest) = c # split_on sep rest"
  by (simp add: split_on_def split_on_from_plain)

lemma split_on_last: "sep \<notin> set c \<Longrightarrow> split_on sep c = [c]"
  using split_on_from_plain [of sep c "[]" "[]"] by (simp add: split_on_def)

lemma split_on_join: "cs \<noteq> [] \<Longrightarrow> \<forall>c \<in> set cs. sep \<notin> set c \<Longrightarrow> split_on sep (join_with sep cs) = cs"
  by (induction cs rule: induct_list012) (simp_all add: split_on_last split_on_Cons)

lemma split_on_lines:
  "\<forall>l \<in> set ls. sep \<notin> set l \<Longrightarrow> split_on sep (concat (map (\<lambda>l. l @ [sep]) ls)) = ls @ [[]]"
  by (induction ls) (simp_all add: split_on_Cons split_on_last)

end
