(* ===== verification/Agent_Buffer.thy ===== *)
theory Agent_Buffer
  imports Agent_State Text
begin

text \<open>
  The anti-flooding buffer of the agent, \<^verbatim>\<open>agents/client-agent/buffer.c\<close>, with the macros of
  \<^verbatim>\<open>agents/client-agent/agentd.h\<close>: a ring of pointers to messages, filled by the event forwarder and
  emptied by the dispatch thread, and a state machine that reports how full it is.

  The messages live in a store, because the dispatcher keeps a pointer to a message while its
  slot still holds the same pointer: \<open>ab_strings\<close> maps the live pointers to their contents.
  Reading a pointer that was freed, freeing it twice, and indexing outside the ring are faults
  (\<open>None\<close>).

  The critical sections of the source are the atomic operations here. What runs outside the
  mutex (the notices and the sending of the message) is a separate operation, so that other
  threads can be interleaved with it.
\<close>

section \<open>Single and double precision quotients\<close>

text \<open>
  The usage thresholds compare a \<open>float\<close> quotient of two small integers with a \<open>double\<close> quotient,
  so rounding decides the boundary cases. \<open>fl p a b\<close> is \<open>a / b\<close> for \<open>0 \<le> a \<le> b\<close>, rounded to the
  nearest number with a \<open>p\<close>-bit significand, ties to even: the pair \<open>(m, e)\<close> is the number
  \<open>m / 2 ^ e\<close>. The exponents that occur are far from the subnormal range.
\<close>

function fl_exp :: "int \<Rightarrow> int \<Rightarrow> nat" where
  "fl_exp a lim = (if a \<le> 0 \<or> lim \<le> a then 0 else Suc (fl_exp (2 * a) lim))"
  by pat_completeness auto
termination
  by (relation "measure (\<lambda>(a, lim). nat (lim - a))") auto

declare fl_exp.simps [simp del]

definition round_half_even :: "int \<Rightarrow> int \<Rightarrow> int" where
  "round_half_even a b =
     (let q = a div b; r = a mod b in
      if 2 * r < b then q else if b < 2 * r then q + 1 else if even q then q else q + 1)"

definition fl :: "nat \<Rightarrow> int \<Rightarrow> int \<Rightarrow> int \<times> nat" where
  "fl p a b = (let e = fl_exp a (b * 2 ^ (p - 1)) in (round_half_even (a * 2 ^ e) b, e))"

definition fl_le :: "int \<times> nat \<Rightarrow> int \<times> nat \<Rightarrow> bool" where
  "fl_le x y \<longleftrightarrow> fst x * 2 ^ snd y \<le> fst y * 2 ^ snd x"

text \<open>
  \<open>(float)u / (float)n >= (float)level / 100.0\<close>, and the same with \<open><=\<close>. For \<open>n = 0\<close> the
  numerator is 0 as well and the quotient is a NaN, which compares false.
\<close>

definition usage_ge :: "int \<Rightarrow> nat \<Rightarrow> nat \<Rightarrow> bool" where
  "usage_ge u n level \<longleftrightarrow> n \<noteq> 0 \<and> 0 \<le> u \<and> fl_le (fl 53 (int level) 100) (fl 24 u (int n))"

definition usage_le :: "int \<Rightarrow> nat \<Rightarrow> nat \<Rightarrow> bool" where
  "usage_le u n level \<longleftrightarrow> n \<noteq> 0 \<and> (u < 0 \<or> fl_le (fl 24 u (int n)) (fl 53 (int level) 100))"

section \<open>State\<close>

datatype buffer_status = NORMAL | WARNING | FULL | FLOOD

record agent_buffer =
  ab_i :: nat
  ab_j :: nat
  ab_state :: buffer_status
  ab_full :: bool
  ab_warn :: bool
  ab_flood :: bool
  ab_normal :: bool
  ab_slots :: "nat option list option"
  ab_start :: int
  ab_buflength :: nat
  ab_enabled :: bool
  ab_warn_level :: nat
  ab_normal_level :: nat
  ab_tolerance :: int
  ab_strings :: "nat \<Rightarrow> bytes option"
  ab_next :: nat
  ab_stats :: agent_state
  ab_sent :: "bytes list"

abbreviation ring :: "agent_buffer \<Rightarrow> nat" where
  "ring b \<equiv> ab_buflength b + 1"

text \<open>The macros \<open>full\<close>, \<open>warn\<close>, \<open>nowarn\<close>, \<open>normal\<close>, \<open>empty\<close> and \<open>forward\<close>.\<close>

definition full :: "nat \<Rightarrow> nat \<Rightarrow> nat \<Rightarrow> bool" where
  "full i j n \<longleftrightarrow> (i + 1) mod n = j"

definition usage :: "agent_buffer \<Rightarrow> int" where
  "usage b = crem (int (ab_i b) - int (ab_j b) + int (ring b)) (int (ring b))"

definition warn :: "agent_buffer \<Rightarrow> bool" where
  "warn b \<longleftrightarrow> usage_ge (usage b) (ab_buflength b) (ab_warn_level b)"

definition nowarn :: "agent_buffer \<Rightarrow> bool" where
  "nowarn b \<longleftrightarrow> usage_le (usage b) (ab_buflength b) (ab_warn_level b)"

definition normal :: "agent_buffer \<Rightarrow> bool" where
  "normal b \<longleftrightarrow> usage_le (usage b) (ab_buflength b) (ab_normal_level b)"

definition empty_ring :: "nat \<Rightarrow> nat \<Rightarrow> bool" where
  "empty_ring i j \<longleftrightarrow> i = j"

definition forward :: "nat \<Rightarrow> nat \<Rightarrow> nat" where
  "forward x n = (x + 1) mod n"

text \<open>Array access and the string store.\<close>

definition slot_get :: "agent_buffer \<Rightarrow> nat \<Rightarrow> nat option option" where
  "slot_get b k = do { ss \<leftarrow> ab_slots b; if k < length ss then Some (ss ! k) else None }"

definition slot_set :: "nat \<Rightarrow> nat option \<Rightarrow> agent_buffer \<Rightarrow> agent_buffer option" where
  "slot_set k p b = do {
     ss \<leftarrow> ab_slots b;
     if k < length ss then Some (b\<lparr>ab_slots := Some (ss[k := p])\<rparr>) else None }"

text \<open>\<open>strdup\<close>, which may fail, and \<open>os_free\<close>, where freeing NULL does nothing.\<close>

definition strdup :: "bytes \<Rightarrow> bool \<Rightarrow> agent_buffer \<Rightarrow> nat option \<times> agent_buffer" where
  "strdup msg ok b =
     (if ok then (Some (ab_next b),
        b\<lparr>ab_strings := (ab_strings b)(ab_next b \<mapsto> msg), ab_next := ab_next b + 1\<rparr>)
      else (None, b))"

definition os_free :: "nat option \<Rightarrow> agent_buffer \<Rightarrow> agent_buffer option" where
  "os_free p b =
     (case p of
        None \<Rightarrow> Some b
      | Some a \<Rightarrow>
          (case ab_strings b a of
             None \<Rightarrow> None
           | Some _ \<Rightarrow> Some (b\<lparr>ab_strings := (ab_strings b)(a := None)\<rparr>)))"

section \<open>Operations\<close>

text \<open>
  The configured levels are arguments. An existing ring is kept, and the indices are not reset:
  they are 0 at start and after \<open>w_agentd_buffer_free\<close>.
\<close>

definition buffer_init :: "nat \<Rightarrow> nat \<Rightarrow> int \<Rightarrow> agent_buffer \<Rightarrow> agent_buffer" where
  "buffer_init wl nl tol b =
     (let b1 = (case ab_slots b of
                  None \<Rightarrow> b\<lparr>ab_slots := Some (replicate (ring b) None)\<rparr>
                | Some _ \<Rightarrow> b)
      in b1\<lparr>ab_warn_level := wl, ab_normal_level := nl, ab_tolerance := tol\<rparr>)"

text \<open>The \<open>switch\<close> at the head of \<open>buffer_append\<close>; \<open>now\<close> is the result of \<open>time(0)\<close>.\<close>

definition raise_state :: "int \<Rightarrow> agent_buffer \<Rightarrow> agent_buffer" where
  "raise_state now b =
     (case ab_state b of
        NORMAL \<Rightarrow>
          if full (ab_i b) (ab_j b) (ring b) then b\<lparr>ab_full := True, ab_state := FULL, ab_start := now\<rparr>
          else if warn b then b\<lparr>ab_state := WARNING, ab_warn := True\<rparr>
          else b
      | WARNING \<Rightarrow>
          if full (ab_i b) (ab_j b) (ring b) then b\<lparr>ab_full := True, ab_state := FULL, ab_start := now\<rparr>
          else b
      | FULL \<Rightarrow>
          if now - ab_start b \<ge> ab_tolerance b then b\<lparr>ab_state := FLOOD, ab_flood := True\<rparr> else b
      | FLOOD \<Rightarrow> b)"

definition buffer_append :: "bytes \<Rightarrow> int \<Rightarrow> bool \<Rightarrow> agent_buffer \<Rightarrow> (int \<times> agent_buffer) option" where
  "buffer_append msg now dup_ok b =
     (let b1 = raise_state now b;
          b2 = b1\<lparr>ab_stats := w_agentd_state_update INCREMENT_MSG_COUNT (ab_stats b1)\<rparr>
      in if full (ab_i b2) (ab_j b2) (ring b2) then Some (-1, b2)
         else let (p, b3) = strdup msg dup_ok b2 in
           do { b4 \<leftarrow> slot_set (ab_i b3) p b3;
                Some (0, b4\<lparr>ab_i := forward (ab_i b4) (ring b4)\<rparr>) })"

text \<open>The \<open>switch\<close> of the dispatcher.\<close>

definition lower_state :: "agent_buffer \<Rightarrow> agent_buffer" where
  "lower_state b =
     (case ab_state b of
        NORMAL \<Rightarrow> b
      | WARNING \<Rightarrow> if normal b then b\<lparr>ab_state := NORMAL, ab_normal := True\<rparr> else b
      | _ \<Rightarrow>
          let b1 = (if nowarn b then b\<lparr>ab_state := WARNING\<rparr> else b)
          in if normal b1 then b1\<lparr>ab_state := NORMAL, ab_normal := True\<rparr> else b1)"

text \<open>
  The critical section of \<open>dispatch_buffer\<close>, entered when the wait on the condition variable is
  over. The result is the message pointer and the index of its slot; \<open>None\<close> inside is the stop
  signal. On an empty ring with the buffer enabled the thread waits: \<open>can_take\<close> excludes it.
\<close>

definition can_take :: "agent_buffer \<Rightarrow> bool" where
  "can_take b \<longleftrightarrow> \<not> (empty_ring (ab_i b) (ab_j b) \<and> ab_enabled b)"

definition dispatch_take :: "agent_buffer \<Rightarrow> ((nat option \<times> nat) option \<times> agent_buffer) option" where
  "dispatch_take b =
     (if \<not> ab_enabled b then Some (None, b)
      else let b1 = lower_state b in
        do { p \<leftarrow> slot_get b1 (ab_j b1);
             Some (Some (p, ab_j b1), b1\<lparr>ab_j := forward (ab_j b1) (ring b1)\<rparr>) })"

text \<open>\<open>send_msg(msg, -1)\<close> as the dispatcher uses it: the message is handed over, the result ignored.\<close>

definition hand_over :: "bytes \<Rightarrow> agent_buffer \<Rightarrow> agent_buffer" where
  "hand_over msg b = b\<lparr>ab_sent := ab_sent b @ [msg]\<rparr>"

definition notice :: "string \<Rightarrow> bytes" where
  "notice s = asc (''1:wazuh-agent:wazuh: Agent buffer: '' @ s)"

definition dispatch_notices :: "agent_buffer \<Rightarrow> agent_buffer" where
  "dispatch_notices b =
     (let b1 = (if ab_warn b
                then hand_over (notice [CHR 0x27] @ dec (ab_warn_level b) @ asc (''%'' @ [CHR 0x27, CHR ''.''])) (b\<lparr>ab_warn := False\<rparr>)
                else b);
          b2 = (if ab_full b1 then hand_over (notice ([CHR 0x27] @ ''full'' @ [CHR 0x27, CHR ''.''])) (b1\<lparr>ab_full := False\<rparr>) else b1);
          b3 = (if ab_flood b2 then hand_over (notice ([CHR 0x27] @ ''flooded'' @ [CHR 0x27, CHR ''.''])) (b2\<lparr>ab_flood := False\<rparr>) else b2);
          b4 = (if ab_normal b3 then hand_over (notice ([CHR 0x27] @ ''normal'' @ [CHR 0x27, CHR ''.''])) (b3\<lparr>ab_normal := False\<rparr>) else b3)
      in b4)"

text \<open>Sending the message, freeing it and clearing its slot, outside the mutex.\<close>

definition dispatch_send :: "nat option \<times> nat \<Rightarrow> agent_buffer \<Rightarrow> agent_buffer option" where
  "dispatch_send msg b =
     (case msg of
        (None, _) \<Rightarrow> Some b
      | (Some a, original_j) \<Rightarrow> do {
          m \<leftarrow> ab_strings b a;
          b1 \<leftarrow> os_free (Some a) (hand_over m b);
          slot_set original_j None b1 })"

text \<open>\<open>time_sub\<close> on seconds and nanoseconds, and the sleep that \<open>delay\<close> asks for.\<close>

definition time_sub :: "int \<times> int \<Rightarrow> int \<times> int \<Rightarrow> int \<times> int" where
  "time_sub a b =
     (let s = fst a - fst b; n = snd a - snd b
      in if n < 0 then (s - 1, n + 1000000000) else (s, n))"

definition delay :: "nat \<Rightarrow> int \<times> int \<Rightarrow> (int \<times> int) option" where
  "delay events_persec ts_loop =
     (let interval_ns = 1000000000 div int events_persec;
          t = time_sub (interval_ns div 1000000000, interval_ns mod 1000000000) ts_loop
      in if fst t \<ge> 0 then Some t else None)"

definition w_agentd_get_buffer_lenght :: "agent_buffer \<Rightarrow> int" where
  "w_agentd_get_buffer_lenght b =
     (if ab_enabled b then
        let r = crem (int (ab_i b) - int (ab_j b)) (int (ring b))
        in if r < 0 then r + int (ab_buflength b) + 1 else r
      else -1)"

text \<open>The loop \<open>for (i = 0; i <= current_capacity; i++) os_free(buffer[i])\<close>, from index \<open>k\<close> on.\<close>

fun free_slots :: "nat \<Rightarrow> nat \<Rightarrow> agent_buffer \<Rightarrow> agent_buffer option" where
  "free_slots k 0 b = Some b"
| "free_slots k (Suc n) b = do {
     p \<leftarrow> slot_get b k;
     b1 \<leftarrow> os_free p b;
     b2 \<leftarrow> slot_set k None b1;
     free_slots (k + 1) n b2 }"

definition w_agentd_buffer_free :: "nat \<Rightarrow> agent_buffer \<Rightarrow> agent_buffer option" where
  "w_agentd_buffer_free current_capacity b =
     (if ab_slots b = None \<or> current_capacity = 0 then Some b
      else do {
        b1 \<leftarrow> free_slots 0 (current_capacity + 1) b;
        Some (b1\<lparr>ab_slots := None, ab_buflength := 0, ab_i := 0, ab_j := 0\<rparr>) })"

text \<open>
  Resizing. \<open>peek_slots\<close> is the source range of a \<open>memcpy\<close> of pointers; \<open>move_slots\<close> is the loop
  that moves the oldest messages when the ring shrinks.
\<close>

definition peek_slots :: "nat option list \<Rightarrow> nat \<Rightarrow> nat \<Rightarrow> nat option list option" where
  "peek_slots ss off n = (if off + n \<le> length ss then Some (take n (drop off ss)) else None)"

fun move_slots ::
  "nat \<Rightarrow> nat \<Rightarrow> nat \<Rightarrow> nat \<Rightarrow> nat option list \<Rightarrow> nat option list
   \<Rightarrow> (nat option list \<times> nat option list) option" where
  "move_slots k 0 j n old new = Some (old, new)"
| "move_slots k (Suc m) j n old new =
     (let idx = (j + k) mod n in
      if idx < length old then
        case old ! idx of
          None \<Rightarrow> move_slots (k + 1) m j n old new
        | Some a \<Rightarrow>
            if k < length new then move_slots (k + 1) m j n (old[idx := None]) (new[k := Some a]) else None
      else None)"

definition w_agentd_buffer_resize :: "nat \<Rightarrow> nat \<Rightarrow> agent_buffer \<Rightarrow> (int \<times> agent_buffer) option" where
  "w_agentd_buffer_resize current_capacity desired_capacity b =
     (if desired_capacity = 0 then Some (-1, b)
      else if desired_capacity = current_capacity then Some (0, b)
      else let cnt = w_agentd_get_buffer_lenght b in
      if cnt < 0 then Some (-1, b)
      else if nat cnt > current_capacity + 1 then Some (-1, b)
      else do {
        old \<leftarrow> ab_slots b;
        if current_capacity < desired_capacity then do {
          new \<leftarrow>
            (if ab_j b < ab_i b then peek_slots old (ab_j b) (nat cnt)
             else do {
               p1 \<leftarrow> peek_slots old (ab_j b) (current_capacity - ab_j b + 1);
               p2 \<leftarrow> peek_slots old 0 (ab_i b);
               Some (p1 @ p2) });
          if length new \<le> desired_capacity + 1
          then Some (0, b\<lparr>ab_slots := Some (new @ replicate (desired_capacity + 1 - length new) None),
                          ab_j := 0, ab_i := nat cnt\<rparr>)
          else None
        }
        else do {
          let retained = min (nat cnt) desired_capacity;
          (old1, new) \<leftarrow> move_slots 0 retained (ab_j b) (current_capacity + 1) old
                           (replicate (desired_capacity + 1) None);
          b1 \<leftarrow> free_slots 0 (current_capacity + 1) (b\<lparr>ab_slots := Some old1\<rparr>);
          Some (0, b1\<lparr>ab_stats := w_agentd_state_update (RESET_MSG_COUNT_ON_SHRINK (Some (of_nat retained))) (ab_stats b1),
                      ab_slots := Some new, ab_j := 0, ab_i := retained\<rparr>)
        }
      })"

text \<open>
  The reload of the buffer configuration in \<open>AgentdStart\<close>
  (\<^verbatim>\<open>agents/client-agent/agentd.c\<close>). Reading the configuration has already replaced
  \<open>agt->buffer\<close> and \<open>agt->buflength\<close> when the buffer is resized.
\<close>

definition reload_buffer ::
  "bool \<Rightarrow> nat \<Rightarrow> nat \<times> nat \<times> int \<Rightarrow> agent_buffer \<Rightarrow> agent_buffer option" where
  "reload_buffer new_flag new_length levels b =
     (let current_capacity = ab_buflength b;
          current_buffer_flag = ab_enabled b;
          b1 = b\<lparr>ab_enabled := new_flag, ab_buflength := new_length\<rparr>
      in if \<not> ab_enabled b1 \<and> current_buffer_flag then w_agentd_buffer_free current_capacity b1
         else if \<not> current_buffer_flag \<and> ab_enabled b1 then
           (case levels of (wl, nl, tol) \<Rightarrow> Some (buffer_init wl nl tol b1))
         else if ab_enabled b1 then
           map_option snd (w_agentd_buffer_resize current_capacity (ab_buflength b1) b1)
         else Some b1)"

end
