(* ===== verification/Ring.thy ===== *)
theory Ring
  imports Prelude
begin

text \<open>
  Circular arrays. Three components keep a queue in an array with a read and a write index and
  leave one cell free to tell a full ring from an empty one: the anti-flooding buffer
  (\<^verbatim>\<open>agents/client-agent/buffer.c\<close>), the pointer queue (\<^verbatim>\<open>agents/shared/queue_op.c\<close>) and the byte
  queue (\<^verbatim>\<open>agents/shared/bqueue_op.c\<close>). \<open>ring_list\<close> is the list that such an array stands for.
  The locale \<open>bounded_fifo\<close> is the contract that the users of a queue rely on.
\<close>

section \<open>The list behind a ring\<close>

text \<open>\<open>w\<close> is the index of the next free cell, \<open>r\<close> the index of the oldest element.\<close>

definition ring_used :: "nat \<Rightarrow> nat \<Rightarrow> nat \<Rightarrow> nat" where
  "ring_used n w r = (w + n - r) mod n"

definition ring_list :: "'a list \<Rightarrow> nat \<Rightarrow> nat \<Rightarrow> 'a list" where
  "ring_list xs w r = map (\<lambda>k. xs ! ((r + k) mod length xs)) [0..<ring_used (length xs) w r]"

lemma length_ring_list [simp]: "length (ring_list xs w r) = ring_used (length xs) w r"
  by (simp add: ring_list_def)

lemma ring_list_nth: "k < ring_used (length xs) w r \<Longrightarrow> ring_list xs w r ! k = xs ! ((r + k) mod length xs)"
  by (simp add: ring_list_def)

lemma ring_used_cases:
  assumes "w < n" "r < n"
  shows "ring_used n w r = (if r \<le> w then w - r else w + n - r)"
  using assms by (simp add: ring_used_def mod_if)

lemma ring_used_less: "0 < n \<Longrightarrow> ring_used n w r < n"
  by (simp add: ring_used_def)

lemma ring_used_0_iff: "w < n \<Longrightarrow> r < n \<Longrightarrow> ring_used n w r = 0 \<longleftrightarrow> w = r"
  by (auto simp: ring_used_cases)

text \<open>The ring is full exactly when all cells but one are used.\<close>

lemma ring_full_iff:
  assumes "w < n" "r < n"
  shows "(w + 1) mod n = r \<longleftrightarrow> ring_used n w r = n - 1"
proof (cases "w + 1 = n")
  case True
  with assms show ?thesis by (auto simp: ring_used_cases)
next
  case False
  with assms show ?thesis by (auto simp: ring_used_cases)
qed

lemma ring_mod_shift: "(r :: nat) < n \<Longrightarrow> k < n \<Longrightarrow> (r + k) mod n = (if r + k < n then r + k else r + k - n)"
  by (cases "r + k < n") (simp_all add: le_mod_geq)

text \<open>The cell of element \<open>k\<close> is the cell \<open>c\<close> only for one \<open>k\<close>.\<close>

lemma ring_cell_inj:
  "(r :: nat) < n \<Longrightarrow> k < n \<Longrightarrow> l < n \<Longrightarrow> (r + k) mod n = (r + l) mod n \<longleftrightarrow> k = l"
  by (auto simp: ring_mod_shift split: if_splits)

lemma ring_cell_of_write: "w < n \<Longrightarrow> r < n \<Longrightarrow> (r + ring_used n w r) mod n = w"
  by (auto simp: ring_used_cases)

text \<open>Writing to a cell that holds no element does not change the list.\<close>

lemma ring_list_update_outside:
  assumes "r < length xs" "c < length xs"
    and "ring_used (length xs) w r \<le> ring_used (length xs) c r"
  shows "ring_list (xs[c := v]) w r = ring_list xs w r"
proof (rule nth_equalityI)
  fix k
  assume "k < length (ring_list (xs[c := v]) w r)"
  then have k: "k < ring_used (length xs) w r" by simp
  let ?m = "ring_used (length xs) c r"
  have "0 < length xs" using assms(1) by linarith
  with k assms(3) have "k < ?m" "?m < length xs" by (simp_all add: ring_used_less)
  then have "(r + k) mod length xs \<noteq> c"
    using ring_cell_inj [of r "length xs" k ?m] ring_cell_of_write [of c "length xs" r] assms(1,2) by auto
  then show "ring_list (xs[c := v]) w r ! k = ring_list xs w r ! k"
    using k by (simp add: ring_list_nth)
qed simp

lemma ring_used_push:
  "w < n \<Longrightarrow> r < n \<Longrightarrow> (w + 1) mod n \<noteq> r \<Longrightarrow> ring_used n ((w + 1) mod n) r = Suc (ring_used n w r)"
  by (cases "w + 1 = n") (auto simp: ring_used_cases)

lemma ring_used_pop:
  "w < n \<Longrightarrow> r < n \<Longrightarrow> w \<noteq> r \<Longrightarrow> ring_used n w r = Suc (ring_used n w ((r + 1) mod n))"
  by (cases "r + 1 = n") (auto simp: ring_used_cases)

text \<open>Writing at \<open>w\<close> and advancing it appends one element.\<close>

lemma ring_list_push:
  assumes "w < length xs" "r < length xs" "(w + 1) mod length xs \<noteq> r"
  shows "ring_list (xs[w := v]) ((w + 1) mod length xs) r = ring_list xs w r @ [v]"
proof -
  let ?n = "length xs" and ?u = "ring_used (length xs) w r"
  have "ring_list (xs[w := v]) ((w + 1) mod ?n) r =
      map (\<lambda>k. xs[w := v] ! ((r + k) mod ?n)) [0..<?u] @ [xs[w := v] ! ((r + ?u) mod ?n)]"
    unfolding ring_list_def length_list_update ring_used_push [OF assms] by simp
  also have "map (\<lambda>k. xs[w := v] ! ((r + k) mod ?n)) [0..<?u] = ring_list (xs[w := v]) w r"
    by (simp add: ring_list_def)
  also have "\<dots> = ring_list xs w r"
    using assms by (intro ring_list_update_outside) auto
  also have "xs[w := v] ! ((r + ?u) mod ?n) = v"
    using assms by (simp add: ring_cell_of_write)
  finally show ?thesis .
qed

text \<open>Advancing \<open>r\<close> drops the oldest element, which is the one at \<open>r\<close>.\<close>

lemma ring_list_pop:
  assumes "w < length xs" "r < length xs" "w \<noteq> r"
  shows "ring_list xs w r = xs ! r # ring_list xs w ((r + 1) mod length xs)"
proof (rule nth_equalityI)
  let ?n = "length xs"
  show "length (ring_list xs w r) = length (xs ! r # ring_list xs w ((r + 1) mod ?n))"
    using ring_used_pop [OF assms] by simp
  fix k
  assume "k < length (ring_list xs w r)"
  then have k: "k < ring_used ?n w r" by simp
  show "ring_list xs w r ! k = (xs ! r # ring_list xs w ((r + 1) mod ?n)) ! k"
  proof (cases k)
    case 0
    with k assms show ?thesis by (simp add: ring_list_nth)
  next
    case (Suc l)
    with k ring_used_pop [OF assms] have "l < ring_used ?n w ((r + 1) mod ?n)" by simp
    moreover have "((r + 1) mod ?n + l) mod ?n = (r + Suc l) mod ?n"
      by (metis Suc_eq_plus1_left add.assoc mod_add_left_eq)
    ultimately show ?thesis using k Suc by (simp add: ring_list_nth)
  qed
qed

text \<open>The two ways a ring lies in memory: in one piece, or wrapped around the end of the array.\<close>

lemma ring_list_contiguous:
  assumes "r \<le> w" "w < length xs"
  shows "ring_list xs w r = take (w - r) (drop r xs)"
  using assms by (intro nth_equalityI) (auto simp: ring_used_cases ring_list_nth)

lemma ring_list_wrapped:
  assumes "w < r" "r < length xs"
  shows "ring_list xs w r = drop r xs @ take w xs"
proof (rule nth_equalityI)
  have u: "ring_used (length xs) w r = length xs - r + w" using assms by (simp add: ring_used_cases)
  then show "length (ring_list xs w r) = length (drop r xs @ take w xs)" using assms by simp
  fix k
  assume "k < length (ring_list xs w r)"
  then have k: "k < length xs - r + w" using u by simp
  show "ring_list xs w r ! k = (drop r xs @ take w xs) ! k"
  proof (cases "k < length xs - r")
    case True
    with k u assms show ?thesis by (simp add: ring_list_nth nth_append)
  next
    case False
    with k assms have "(r + k) mod length xs = k - (length xs - r)" by (auto simp: ring_mod_shift)
    with False k u assms show ?thesis by (simp add: ring_list_nth nth_append)
  qed
qed

text \<open>The whole array, read from the oldest element on: the elements come first.\<close>

lemma rotate_ring:
  assumes "w < length xs" "r < length xs"
  shows "rotate r xs = ring_list xs w r @ drop (ring_used (length xs) w r) (rotate r xs)"
proof -
  let ?u = "ring_used (length xs) w r"
  have "0 < length xs" using assms by linarith
  then have "?u < length xs" by (rule ring_used_less)
  then have "take ?u (rotate r xs) = ring_list xs w r"
    by (intro nth_equalityI) (auto simp: nth_rotate ring_list_nth)
  then show ?thesis by (metis append_take_drop_id)
qed

lemma rotate_update:
  assumes "c < length xs" "r < length xs"
  shows "rotate r (xs[c := v]) = (rotate r xs)[ring_used (length xs) c r := v]"
proof (rule nth_equalityI)
  fix k
  assume "k < length (rotate r (xs[c := v]))"
  then have k: "k < length xs" by simp
  have "0 < length xs" using assms by linarith
  then have u: "ring_used (length xs) c r < length xs" by (rule ring_used_less)
  have "(r + k) mod length xs = c \<longleftrightarrow> k = ring_used (length xs) c r"
    using ring_cell_inj [OF assms(2) k u] ring_cell_of_write [OF assms] by simp
  then show "rotate r (xs[c := v]) ! k = (rotate r xs)[ring_used (length xs) c r := v] ! k"
    using k u assms(1) by (cases "k = ring_used (length xs) c r") (simp_all add: nth_rotate)
qed simp

lemma ring_used_before: "(c + 1) mod n = r \<Longrightarrow> c < n \<Longrightarrow> ring_used n c r = n - 1"
  using ring_full_iff [of c n r] by (metis gr0I less_nat_zero_code mod_less_divisor)

section \<open>The contract of a bounded queue\<close>

text \<open>
  \<open>push\<close> refuses with \<open>None\<close> exactly when the queue holds \<open>capacity\<close> elements, otherwise it
  appends; \<open>pop\<close> returns the oldest element.
\<close>

locale bounded_fifo =
  fixes inv :: "'q \<Rightarrow> bool"
    and items :: "'q \<Rightarrow> 'a list"
    and capacity :: "'q \<Rightarrow> nat"
    and push :: "'a \<Rightarrow> 'q \<Rightarrow> 'q option"
    and pop :: "'q \<Rightarrow> ('a \<times> 'q) option"
  assumes bounded: "inv q \<Longrightarrow> length (items q) \<le> capacity q"
    and push_full: "inv q \<Longrightarrow> push x q = None \<longleftrightarrow> length (items q) = capacity q"
    and push_items: "inv q \<Longrightarrow> push x q = Some q' \<Longrightarrow>
      inv q' \<and> items q' = items q @ [x] \<and> capacity q' = capacity q"
    and pop_empty: "inv q \<Longrightarrow> pop q = None \<longleftrightarrow> items q = []"
    and pop_items: "inv q \<Longrightarrow> pop q = Some (x, q') \<Longrightarrow>
      inv q' \<and> items q = x # items q' \<and> capacity q' = capacity q"
begin

text \<open>
  A run of pushes and pops. The trace keeps what was accepted and what was delivered; a refused
  push and a pop from the empty queue leave the queue alone.
\<close>

fun run :: "('a option) list \<Rightarrow> 'a list \<Rightarrow> 'a list \<Rightarrow> 'q \<Rightarrow> 'a list \<times> 'a list \<times> 'q" where
  "run [] acc del q = (acc, del, q)"
| "run (Some x # ops) acc del q =
     (case push x q of None \<Rightarrow> run ops acc del q | Some q' \<Rightarrow> run ops (acc @ [x]) del q')"
| "run (None # ops) acc del q =
     (case pop q of None \<Rightarrow> run ops acc del q | Some (x, q') \<Rightarrow> run ops acc (del @ [x]) q')"

text \<open>Nothing is lost, duplicated or reordered.\<close>

lemma run_conserves:
  assumes "inv q" "run ops acc del q = (acc', del', q')" "acc = del @ items q"
  shows "inv q' \<and> acc' = del' @ items q' \<and> capacity q' = capacity q"
  using assms
proof (induction ops acc del q rule: run.induct)
  case (2 x ops acc del q)
  show ?case
  proof (cases "push x q")
    case None
    with "2.IH"(1) "2.prems" show ?thesis by simp
  next
    case (Some q1)
    with push_items [OF "2.prems"(1) Some] "2.IH"(2) [OF Some] "2.prems" show ?thesis by simp
  qed
next
  case (3 ops acc del q)
  show ?case
  proof (cases "pop q")
    case None
    with "3.IH"(1) "3.prems" show ?thesis by simp
  next
    case (Some r)
    obtain x q1 where r: "r = (x, q1)" by force
    with pop_items [OF "3.prems"(1)] Some "3.IH"(2) [OF Some r [symmetric]] "3.prems" show ?thesis by simp
  qed
qed simp

lemma accepted_bounded:
  assumes "inv q" "items q = []" "run ops [] [] q = (acc, del, q')"
  shows "length acc \<le> length del + capacity q"
  using run_conserves [OF assms(1,3)] assms(2) bounded [of q'] by auto

end

end
