(* ===== verification/Agent_Buffer_Safety.thy ===== *)
theory Agent_Buffer_Safety
  imports Agent_Buffer Ring
begin

text \<open>
  The anti-flooding buffer with its two threads. The forwarder appends, the dispatcher takes a
  message inside the mutex and sends, frees and clears its slot outside of it. The invariant
  \<open>sys_ok\<close> describes the ring at every point between two atomic operations; from it follow the
  absence of faults and leaks and the first-in first-out delivery, for every interleaving.
\<close>

section \<open>The invariant\<close>

text \<open>\<open>d\<close> is what the dispatcher holds: the message pointer and the slot it was taken from.\<close>

type_synonym holding = "(nat option \<times> nat) option"

definition flying :: "holding \<Rightarrow> nat option" where
  "flying d = (case d of None \<Rightarrow> None | Some (p, _) \<Rightarrow> p)"

definition pointers :: "agent_buffer \<Rightarrow> nat option list" where
  "pointers b = (case ab_slots b of None \<Rightarrow> [] | Some ss \<Rightarrow> ring_list ss (ab_i b) (ab_j b))"

text \<open>The message behind a pointer; a NULL pointer, from a failed \<open>strdup\<close>, has none.\<close>

definition deref :: "agent_buffer \<Rightarrow> nat option \<Rightarrow> bytes option" where
  "deref b p = (case p of None \<Rightarrow> None | Some a \<Rightarrow> ab_strings b a)"

definition contents :: "agent_buffer \<Rightarrow> bytes option list" where
  "contents b = map (deref b) (pointers b)"

text \<open>
  Read from the oldest message on, the array holds the queued pointers, then NULLs, and in its
  last cell, the one just behind the read index, the pointer that the dispatcher holds. The live
  strings are exactly the queued ones and the one in flight, all different.
\<close>

definition sys_ok :: "agent_buffer \<Rightarrow> holding \<Rightarrow> bool" where
  "sys_ok b d \<longleftrightarrow>
     ab_enabled b \<and> ab_i b < ring b \<and> ab_j b < ring b \<and>
     (\<exists>ss m. ab_slots b = Some ss \<and> length ss = ring b \<and>
        rotate (ab_j b) ss = pointers b @ replicate m None @ [flying d]) \<and>
     (\<forall>p c. d = Some (p, c) \<longrightarrow> c < ring b \<and> (c + 1) mod ring b = ab_j b) \<and>
     distinct (filter (\<lambda>p. p \<noteq> None) (pointers b @ [flying d])) \<and>
     (\<forall>a. ab_strings b a \<noteq> None \<longleftrightarrow> Some a \<in> set (pointers b @ [flying d])) \<and>
     (\<forall>a. ab_strings b a \<noteq> None \<longrightarrow> a < ab_next b)"

text \<open>The fields that the invariant depends on.\<close>

definition core where
  "core b = (ab_i b, ab_j b, ab_slots b, ab_buflength b, ab_enabled b, ab_strings b, ab_next b)"

named_theorems core_simps "operations that leave the ring and the strings alone"

lemma core_raise_state [core_simps]: "core (raise_state now b) = core b"
  by (auto simp: core_def raise_state_def split: buffer_status.splits)

lemma core_lower_state [core_simps]: "core (lower_state b) = core b"
  by (auto simp: core_def lower_state_def Let_def split: buffer_status.splits)

lemma core_hand_over [core_simps]: "core (hand_over m b) = core b"
  by (simp add: core_def hand_over_def)

lemma core_dispatch_notices [core_simps]: "core (dispatch_notices b) = core b"
  by (simp add: core_def dispatch_notices_def hand_over_def Let_def)

lemma core_stats [core_simps]: "core (b\<lparr>ab_stats := s\<rparr>) = core b"
  by (simp add: core_def)

lemma core_cong:
  assumes "core b = core b'"
  shows "pointers b = pointers b'" "contents b = contents b'" "sys_ok b d = sys_ok b' d"
    "deref b = deref b'"
  using assms
  by (auto simp: core_def pointers_def contents_def deref_def fun_eq_iff sys_ok_def split: option.splits)

lemma core_fields:
  assumes "core b = core b'"
  shows "ab_i b = ab_i b'" "ab_j b = ab_j b'" "ab_slots b = ab_slots b'"
    "ab_buflength b = ab_buflength b'" "ab_enabled b = ab_enabled b'"
    "ab_strings b = ab_strings b'" "ab_next b = ab_next b'"
  using assms by (auto simp: core_def)

lemma length_pointers: "sys_ok b d \<Longrightarrow> length (pointers b) = ring_used (ring b) (ab_i b) (ab_j b)"
  by (auto simp: sys_ok_def pointers_def)

section \<open>Append\<close>

lemma full_iff: "sys_ok b d \<Longrightarrow> full (ab_i b) (ab_j b) (ring b) \<longleftrightarrow> length (pointers b) = ab_buflength b"
  using ring_full_iff [of "ab_i b" "ring b" "ab_j b"] length_pointers [of b d]
  by (simp add: full_def sys_ok_def)

text \<open>The store after a successful or failed \<open>strdup\<close>.\<close>

lemma strdup_props:
  assumes "strdup msg ok b = (p, b')"
  shows "ab_i b' = ab_i b" "ab_j b' = ab_j b" "ab_slots b' = ab_slots b" "ab_buflength b' = ab_buflength b"
    "ab_enabled b' = ab_enabled b"
    "p = (if ok then Some (ab_next b) else None)"
    "ab_strings b' = (if ok then (ab_strings b)(ab_next b \<mapsto> msg) else ab_strings b)"
    "ab_next b' = (if ok then ab_next b + 1 else ab_next b)"
  using assms by (auto simp: strdup_def split: if_splits)

lemma append_pads:
  assumes "rotate r xs = ring_list xs w r @ replicate m None @ [x]" "w < length xs" "r < length xs"
    "(w + 1) mod length xs \<noteq> r"
  shows "\<exists>m'. rotate r (xs[w := p]) = (ring_list xs w r @ [p]) @ replicate m' None @ [x]"
proof -
  have "length (rotate r xs) = ring_used (length xs) w r + m + 1" unfolding assms(1) by simp
  moreover have "ring_used (length xs) w r \<noteq> length xs - 1"
    using ring_full_iff assms(2-4) by metis
  ultimately obtain m' where m: "m = Suc m'" by (cases m) auto
  have "rotate r (xs[w := p]) = (ring_list xs w r @ replicate m None @ [x])[ring_used (length xs) w r := p]"
    using rotate_update [OF assms(2,3)] assms(1) by simp
  then show ?thesis by (auto simp: m list_update_append)
qed

lemma buffer_append_full:
  assumes "sys_ok b d" "length (pointers b) = ab_buflength b"
  shows "\<exists>b'. buffer_append msg now ok b = Some (-1, b') \<and> core b' = core b \<and>
     ab_state b' \<in> {FULL, FLOOD}"
proof -
  let ?b1 = "raise_state now b"
  have c: "core ?b1 = core b" by (simp add: core_simps)
  have f: "full (ab_i b) (ab_j b) (ring b)" using full_iff [OF assms(1)] assms(2) by simp
  then have "ab_state ?b1 \<in> {FULL, FLOOD}"
    by (auto simp: raise_state_def split: buffer_status.splits)
  with f c core_fields [OF c] show ?thesis
    by (simp add: buffer_append_def Let_def core_simps)
qed

lemma buffer_append_room:
  assumes ok: "sys_ok b d" and "length (pointers b) \<noteq> ab_buflength b"
  shows "\<exists>b'. buffer_append msg now dup b = Some (0, b') \<and> sys_ok b' d \<and>
     contents b' = contents b @ [if dup then Some msg else None] \<and>
     deref b' (flying d) = deref b (flying d)"
proof -
  define b2 where "b2 = (raise_state now b)\<lparr>ab_stats := w_agentd_state_update INCREMENT_MSG_COUNT (ab_stats (raise_state now b))\<rparr>"
  have c: "core b2 = core b" by (simp add: b2_def core_simps)
  have ok2: "sys_ok b2 d" and con2: "contents b2 = contents b" and der2: "deref b2 = deref b"
    and nf: "\<not> full (ab_i b2) (ab_j b2) (ring b2)"
    using ok core_cong [OF c] full_iff [of b2 d] assms(2) core_fields [OF c] by auto
  obtain p b3 where s: "strdup msg dup b2 = (p, b3)" by force
  note sp = strdup_props [OF s]
  obtain ss m where ss: "ab_slots b2 = Some ss" "length ss = ring b2"
      "rotate (ab_j b2) ss = pointers b2 @ replicate m None @ [flying d]"
    and ij: "ab_i b2 < ring b2" "ab_j b2 < ring b2"
    and dis: "distinct (filter (\<lambda>p. p \<noteq> None) (pointers b2 @ [flying d]))"
    and live: "\<forall>a. ab_strings b2 a \<noteq> None \<longleftrightarrow> Some a \<in> set (pointers b2 @ [flying d])"
    and nxt: "\<forall>a. ab_strings b2 a \<noteq> None \<longrightarrow> a < ab_next b2"
    using ok2 by (auto simp: sys_ok_def)
  define b4 where "b4 = b3\<lparr>ab_slots := Some (ss[ab_i b3 := p]), ab_i := forward (ab_i b3) (ring b3)\<rparr>"
  have r: "buffer_append msg now dup b = Some (0, b4)"
    unfolding buffer_append_def Let_def b2_def [symmetric] if_not_P [OF nf] s prod.case
    using ss ij by (simp add: slot_set_def sp b4_def)
  have q2: "pointers b2 = ring_list ss (ab_i b2) (ab_j b2)" using ss(1) by (simp add: pointers_def)
  have nf': "(ab_i b2 + 1) mod length ss \<noteq> ab_j b2" using nf ss(2) by (simp add: full_def)
  have q4: "pointers b4 = pointers b2 @ [p]"
    using ring_list_push [of "ab_i b2" ss "ab_j b2" p] ij nf' ss(2)
    by (simp add: b4_def pointers_def sp ss(1) forward_def)
  have f4: "ab_i b4 = forward (ab_i b2) (ring b2)" "ab_j b4 = ab_j b2" "ab_slots b4 = Some (ss[ab_i b2 := p])"
      "ab_buflength b4 = ab_buflength b2" "ab_enabled b4 = ab_enabled b2"
      "ab_strings b4 = (if dup then (ab_strings b2)(ab_next b2 \<mapsto> msg) else ab_strings b2)"
      "ab_next b4 = (if dup then ab_next b2 + 1 else ab_next b2)"
    by (simp_all add: b4_def sp)
  obtain m' where rot: "rotate (ab_j b2) (ss[ab_i b2 := p]) = pointers b4 @ replicate m' None @ [flying d]"
    using append_pads [of "ab_j b2" ss "ab_i b2" m "flying d" p] ss(2,3) ij nf' q2 q4 by auto
  have fresh: "ab_strings b2 (ab_next b2) = None" using nxt by (metis less_irrefl)
  then have new: "Some (ab_next b2) \<notin> set (pointers b2 @ [flying d])" using live by blast
  have "sys_ok b4 d"
    unfolding sys_ok_def
  proof (intro conjI)
    show "\<exists>ss m. ab_slots b4 = Some ss \<and> length ss = ring b4 \<and>
        rotate (ab_j b4) ss = pointers b4 @ replicate m None @ [flying d]"
      using rot ss(2) by (auto simp: f4)
    show "distinct (filter (\<lambda>p. p \<noteq> None) (pointers b4 @ [flying d]))"
      using dis new by (auto simp: q4 sp(6))
    show "\<forall>a. ab_strings b4 a \<noteq> None \<longleftrightarrow> Some a \<in> set (pointers b4 @ [flying d])"
      using live by (auto simp: q4 f4 sp(6))
    show "\<forall>a. ab_strings b4 a \<noteq> None \<longrightarrow> a < ab_next b4"
      using nxt by (auto simp: f4 less_Suc_eq)
    show "\<forall>p c. d = Some (p, c) \<longrightarrow> c < ring b4 \<and> (c + 1) mod ring b4 = ab_j b4"
      using ok2 by (auto simp: sys_ok_def f4)
  qed (use ok2 ij in \<open>auto simp: sys_ok_def f4 forward_def\<close>)
  moreover have same: "q \<in> set (pointers b2 @ [flying d]) \<Longrightarrow> deref b4 q = deref b2 q" for q
    using new by (auto simp: deref_def f4 split: option.splits)
  have "contents b4 = contents b2 @ [if dup then Some msg else None]"
    using same by (auto simp: contents_def q4 deref_def f4 sp(6) split: option.splits)
  ultimately show ?thesis using r con2 der2 same [of "flying d"] by auto
qed

section \<open>Take and send\<close>

lemma dispatch_take_ok:
  assumes ok: "sys_ok b None" and ct: "can_take b"
  shows "\<exists>p c b'. dispatch_take b = Some (Some (p, c), b') \<and> sys_ok b' (Some (p, c)) \<and>
     contents b = deref b' p # contents b'"
proof -
  define b1 where "b1 = lower_state b"
  have c: "core b1 = core b" by (simp add: b1_def core_simps)
  have ok1: "sys_ok b1 None" and con1: "contents b1 = contents b"
    and ne: "ab_i b1 \<noteq> ab_j b1" and en: "ab_enabled b"
    using ok ct core_cong [OF c] core_fields [OF c] by (auto simp: can_take_def empty_ring_def sys_ok_def)
  obtain ss m where ss: "ab_slots b1 = Some ss" "length ss = ring b1"
      "rotate (ab_j b1) ss = pointers b1 @ replicate m None @ [None]"
    and ij: "ab_i b1 < ring b1" "ab_j b1 < ring b1"
    using ok1 by (auto simp: sys_ok_def flying_def)
  define b2 where "b2 = b1\<lparr>ab_j := forward (ab_j b1) (ring b1)\<rparr>"
  have f2: "ab_i b2 = ab_i b1" "ab_j b2 = (ab_j b1 + 1) mod ring b1" "ab_slots b2 = Some ss"
      "ab_buflength b2 = ab_buflength b1" "ab_enabled b2 = ab_enabled b1" "ab_strings b2 = ab_strings b1"
      "ab_next b2 = ab_next b1"
    by (simp_all add: b2_def ss(1) forward_def)
  let ?p = "ss ! ab_j b1"
  have r: "dispatch_take b = Some (Some (?p, ab_j b1), b2)"
    using en ss(1,2) ij by (simp add: dispatch_take_def slot_get_def b2_def flip: b1_def)
  have q: "pointers b1 = ?p # pointers b2"
    using ring_list_pop [of "ab_i b1" ss "ab_j b1"] ss ij ne by (simp add: pointers_def f2)
  have "rotate (ab_j b2) ss = rotate (ab_j b1 + 1) ss"
    using rotate_conv_mod [of "ab_j b1 + 1" ss] ss(2) by (simp add: f2)
  also have "\<dots> = rotate1 (rotate (ab_j b1) ss)" by simp
  also have "\<dots> = pointers b2 @ replicate (Suc m) None @ [?p]"
    unfolding ss(3) q by (simp add: replicate_append_same [symmetric] del: replicate_Suc)
      (simp add: replicate_append_same)
  finally have rot: "rotate (ab_j b2) ss = pointers b2 @ replicate (Suc m) None @ [?p]" .
  have "sys_ok b2 (Some (?p, ab_j b1))"
    unfolding sys_ok_def
  proof (intro conjI)
    show "\<exists>ss m. ab_slots b2 = Some ss \<and> length ss = ring b2 \<and>
        rotate (ab_j b2) ss = pointers b2 @ replicate m None @ [flying (Some (?p, ab_j b1))]"
      using rot ss(2) f2 by (auto simp: flying_def simp del: replicate_Suc)
    show "distinct (filter (\<lambda>p. p \<noteq> None) (pointers b2 @ [flying (Some (?p, ab_j b1))]))"
      using ok1 by (auto simp: sys_ok_def flying_def q)
    show "\<forall>a. ab_strings b2 a \<noteq> None \<longleftrightarrow> Some a \<in> set (pointers b2 @ [flying (Some (?p, ab_j b1))])"
      using ok1 unfolding sys_ok_def flying_def q f2 by (auto simp del: not_None_eq)
    show "\<forall>p c. Some (?p, ab_j b1) = Some (p, c) \<longrightarrow> c < ring b2 \<and> (c + 1) mod ring b2 = ab_j b2"
      using ij by (simp add: f2)
  qed (use ok1 in \<open>auto simp: sys_ok_def f2\<close>)
  moreover have "contents b1 = deref b2 ?p # contents b2"
    by (simp add: contents_def q f2 deref_def cong: option.case_cong)
  ultimately show ?thesis using r con1 by auto
qed

lemma dispatch_send_ok:
  assumes ok: "sys_ok b (Some (p, c))"
  shows "\<exists>b'. dispatch_send (p, c) b = Some b' \<and> sys_ok b' None \<and> contents b' = contents b \<and>
     ab_sent b' = ab_sent b @ (case deref b p of None \<Rightarrow> [] | Some m \<Rightarrow> [m])"
proof (cases p)
  case None
  with ok have "sys_ok b None" by (auto simp: sys_ok_def flying_def)
  with None show ?thesis by (auto simp: dispatch_send_def deref_def)
next
  case (Some a)
  obtain ss m where ss: "ab_slots b = Some ss" "length ss = ring b"
      "rotate (ab_j b) ss = pointers b @ replicate m None @ [Some a]"
    and ij: "ab_i b < ring b" "ab_j b < ring b" and c: "c < ring b" "(c + 1) mod ring b = ab_j b"
    and dis: "distinct (filter (\<lambda>p. p \<noteq> None) (pointers b @ [Some a]))"
    and live: "\<forall>x. ab_strings b x \<noteq> None \<longleftrightarrow> Some x \<in> set (pointers b @ [Some a])"
    using ok Some by (auto simp: sys_ok_def flying_def)
  obtain msg where msg: "ab_strings b a = Some msg" using live by fastforce
  define b2 where "b2 = b\<lparr>ab_sent := ab_sent b @ [msg], ab_strings := (ab_strings b)(a := None),
      ab_slots := Some (ss[c := None])\<rparr>"
  have r: "dispatch_send (p, c) b = Some b2"
    using Some msg ss c by (simp add: dispatch_send_def os_free_def hand_over_def slot_set_def b2_def)
  have cu: "ring_used (ring b) c (ab_j b) = ring b - 1" using ring_used_before [OF c(2,1)] .
  have q: "pointers b2 = pointers b"
    using ring_list_update_outside [of "ab_j b" ss c "ab_i b" None] ss ij c cu
      ring_used_less [of "ring b" "ab_i b" "ab_j b"]
    by (simp add: pointers_def b2_def)
  have "length (pointers b) + m = ring b - 1"
    using arg_cong [OF ss(3), of length] ss(2) by simp
  then have rot: "rotate (ab_j b) (ss[c := None]) = pointers b @ replicate m None @ [None]"
    using rotate_update [of c ss "ab_j b" None] ss c ij cu by (simp add: list_update_append)
  have na: "Some a \<notin> set (pointers b)" using dis by auto
  have "sys_ok b2 None"
    unfolding sys_ok_def
  proof (intro conjI)
    show "\<exists>ss m. ab_slots b2 = Some ss \<and> length ss = ring b2 \<and>
        rotate (ab_j b2) ss = pointers b2 @ replicate m None @ [flying None]"
      using rot ss(2) q by (auto simp: b2_def flying_def)
    show "distinct (filter (\<lambda>p. p \<noteq> None) (pointers b2 @ [flying None]))"
      using dis by (simp add: q flying_def)
    show "\<forall>x. ab_strings b2 x \<noteq> None \<longleftrightarrow> Some x \<in> set (pointers b2 @ [flying None])"
      unfolding q using live na by (auto simp: b2_def flying_def)
    show "\<forall>x. ab_strings b2 x \<noteq> None \<longrightarrow> x < ab_next b2"
      using ok by (auto simp: sys_ok_def b2_def)
  qed (use ok in \<open>auto simp: sys_ok_def b2_def\<close>)
  moreover have "contents b2 = contents b"
    unfolding contents_def q using na by (auto simp: deref_def b2_def split: option.splits)
  ultimately show ?thesis using r msg Some by (simp add: deref_def b2_def)
qed

section \<open>Interleavings\<close>

text \<open>
  The two threads. The last two components record the messages that \<open>buffer_append\<close> accepted and
  the ones that the dispatcher has sent, in order (\<open>None\<close> where \<open>strdup\<close> failed).
\<close>

inductive step ::
  "agent_buffer \<times> holding \<times> bytes option list \<times> bytes option list
   \<Rightarrow> agent_buffer \<times> holding \<times> bytes option list \<times> bytes option list \<Rightarrow> bool" where
  append_accepted: "buffer_append msg now dup b = Some (0, b') \<Longrightarrow>
     step (b, d, acc, del) (b', d, acc @ [if dup then Some msg else None], del)"
| append_refused: "buffer_append msg now dup b = Some (-1, b') \<Longrightarrow> step (b, d, acc, del) (b', d, acc, del)"
| take_msg: "can_take b \<Longrightarrow> dispatch_take b = Some (Some t, b') \<Longrightarrow>
     step (b, None, acc, del) (b', Some t, acc, del)"
| notices: "step (b, Some t, acc, del) (dispatch_notices b, Some t, acc, del)"
| send_msg: "dispatch_send t b = Some b' \<Longrightarrow>
     step (b, Some t, acc, del) (b', None, acc, del @ [deref b (fst t)])"

inductive_cases stepE: "step s s'"

text \<open>What was accepted is what was sent, what is being sent, and what is queued, in this order.\<close>

definition conserved ::
  "agent_buffer \<times> holding \<times> bytes option list \<times> bytes option list \<Rightarrow> bool" where
  "conserved s = (case s of (b, d, acc, del) \<Rightarrow>
     sys_ok b d \<and> acc = del @ (case d of None \<Rightarrow> [] | Some t \<Rightarrow> [deref b (fst t)]) @ contents b)"

lemma append_cases:
  assumes "sys_ok b d" "buffer_append msg now dup b = Some (rc, b')"
  shows "rc = -1 \<and> core b' = core b \<or>
     rc = 0 \<and> sys_ok b' d \<and> contents b' = contents b @ [if dup then Some msg else None] \<and>
     deref b' (flying d) = deref b (flying d)"
proof (cases "length (pointers b) = ab_buflength b")
  case True
  with buffer_append_full [OF assms(1) True, of msg now dup] assms(2) show ?thesis by auto
next
  case False
  with buffer_append_room [OF assms(1) False, of msg now dup] assms(2) show ?thesis by auto
qed

lemma step_conserves: "step s s' \<Longrightarrow> conserved s \<Longrightarrow> conserved s'"
proof (induction rule: step.induct)
  case (append_accepted msg now dup b b' d acc del)
  then have ok: "sys_ok b d" and a: "acc = del @ (case d of None \<Rightarrow> [] | Some t \<Rightarrow> [deref b (fst t)]) @ contents b"
    by (auto simp: conserved_def)
  from append_cases [OF ok append_accepted.hyps]
  have c: "sys_ok b' d" "contents b' = contents b @ [if dup then Some msg else None]"
      "deref b' (flying d) = deref b (flying d)" by auto
  then show ?case using a by (auto simp: conserved_def flying_def split: option.splits prod.splits)
next
  case (append_refused msg now dup b b' d acc del)
  then have ok: "sys_ok b d" by (simp add: conserved_def)
  from append_cases [OF ok append_refused.hyps] have "core b' = core b" by auto
  with append_refused.prems show ?case using core_cong [of b' b]
    by (auto simp: conserved_def split: option.splits)
next
  case (take_msg b t b' acc del)
  then have ok: "sys_ok b None" and a: "acc = del @ contents b" by (auto simp: conserved_def)
  from dispatch_take_ok [OF ok take_msg.hyps(1)] take_msg.hyps(2) a
  show ?case by (auto simp: conserved_def)
next
  case (notices b t acc del)
  have "core (dispatch_notices b) = core b" by (simp add: core_simps)
  with notices core_cong [OF this] show ?case by (simp add: conserved_def)
next
  case (send_msg t b b' acc del)
  obtain p c where t: "t = (p, c)" by force
  with send_msg have ok: "sys_ok b (Some (p, c))" and a: "acc = del @ [deref b p] @ contents b"
    by (auto simp: conserved_def)
  from dispatch_send_ok [OF ok] send_msg.hyps t a show ?case by (auto simp: conserved_def)
qed

lemma steps_conserve: "step\<^sup>*\<^sup>* s s' \<Longrightarrow> conserved s \<Longrightarrow> conserved s'"
  by (induction rule: rtranclp_induct) (auto intro: step_conserves)

text \<open>A fresh buffer.\<close>

definition fresh_buffer :: "nat \<Rightarrow> agent_buffer" where
  "fresh_buffer n =
     \<lparr>ab_i = 0, ab_j = 0, ab_state = NORMAL, ab_full = False, ab_warn = False, ab_flood = False,
      ab_normal = False, ab_slots = None, ab_start = 0, ab_buflength = n, ab_enabled = True,
      ab_warn_level = 0, ab_normal_level = 0, ab_tolerance = 0, ab_strings = (\<lambda>_. None), ab_next = 0,
      ab_stats = agent_state_initial, ab_sent = []\<rparr>"

lemma conserved_initial: "conserved (buffer_init wl nl tol (fresh_buffer n), None, [], [])"
proof -
  have "rotate 0 (replicate (Suc n) None) = replicate n None @ [None :: nat option]"
    by (simp add: replicate_append_same)
  then show ?thesis
    by (simp add: conserved_def sys_ok_def buffer_init_def fresh_buffer_def Let_def pointers_def
        ring_list_def ring_used_def flying_def contents_def)
qed

section \<open>The buffer as a bounded queue\<close>

text \<open>
  With the dispatcher idle, an append and a full round of the dispatcher are the two operations
  of a bounded queue of messages.
\<close>

definition enqueue :: "int \<Rightarrow> bytes option \<Rightarrow> agent_buffer \<Rightarrow> agent_buffer option" where
  "enqueue now x b =
     (case buffer_append (case x of None \<Rightarrow> [] | Some m \<Rightarrow> m) now (x \<noteq> None) b of
        Some (rc, b') \<Rightarrow> if rc = 0 then Some b' else None
      | None \<Rightarrow> None)"

definition dequeue :: "agent_buffer \<Rightarrow> (bytes option \<times> agent_buffer) option" where
  "dequeue b =
     (if \<not> can_take b then None
      else do {
        (t, b1) \<leftarrow> dispatch_take b;
        t' \<leftarrow> t;
        b2 \<leftarrow> dispatch_send t' (dispatch_notices b1);
        Some (deref b1 (fst t'), b2) })"

lemma buflength_frame:
  "buffer_append msg now dup b = Some (rc, b') \<Longrightarrow> ab_buflength b' = ab_buflength b"
  "dispatch_take b = Some (t, b') \<Longrightarrow> ab_buflength b' = ab_buflength b"
  "dispatch_send t' b = Some b' \<Longrightarrow> ab_buflength b' = ab_buflength b"
proof -
  show "buffer_append msg now dup b = Some (rc, b') \<Longrightarrow> ab_buflength b' = ab_buflength b"
    using core_fields(4) [OF core_raise_state [of now b]]
    by (auto simp: buffer_append_def Let_def strdup_def slot_set_def split: if_splits Option.bind_splits)
  show "dispatch_take b = Some (t, b') \<Longrightarrow> ab_buflength b' = ab_buflength b"
    using core_fields(4) [OF core_lower_state [of b]]
    by (auto simp: dispatch_take_def Let_def split: if_splits Option.bind_splits)
  show "dispatch_send t' b = Some b' \<Longrightarrow> ab_buflength b' = ab_buflength b"
    by (auto simp: dispatch_send_def os_free_def hand_over_def slot_set_def
        split: if_splits Option.bind_splits option.splits prod.splits)
qed

lemma dequeue_round:
  assumes "sys_ok b None" "can_take b"
  shows "\<exists>x b'. dequeue b = Some (x, b') \<and> sys_ok b' None \<and> contents b = x # contents b' \<and>
     ab_buflength b' = ab_buflength b"
proof -
  obtain p c b1 where t: "dispatch_take b = Some (Some (p, c), b1)" "sys_ok b1 (Some (p, c))"
      "contents b = deref b1 p # contents b1"
    using dispatch_take_ok [OF assms] by blast
  let ?b2 = "dispatch_notices b1"
  have k: "core ?b2 = core b1" by (simp add: core_simps)
  have s2: "sys_ok ?b2 (Some (p, c))" using t(2) core_cong [OF k] by simp
  from dispatch_send_ok [OF s2] obtain b3 where s: "dispatch_send (p, c) ?b2 = Some b3" "sys_ok b3 None"
      "contents b3 = contents ?b2" by blast
  have "contents ?b2 = contents b1" using core_cong(2) [OF k] .
  moreover have "ab_buflength b3 = ab_buflength b"
    using buflength_frame(3) [OF s(1)] core_fields(4) [OF k] buflength_frame(2) [OF t(1)] by simp
  ultimately show ?thesis using assms(2) t s by (simp add: dequeue_def)
qed

lemma enqueue_cases:
  assumes "sys_ok b None"
  shows "(enqueue now x b = None \<longleftrightarrow> length (contents b) = ab_buflength b) \<and>
     (enqueue now x b = Some b' \<longrightarrow>
        sys_ok b' None \<and> contents b' = contents b @ [x] \<and> ab_buflength b' = ab_buflength b)"
proof (cases "length (pointers b) = ab_buflength b")
  case True
  let ?m = "case x of None \<Rightarrow> [] | Some m \<Rightarrow> m"
  obtain b1 where "buffer_append ?m now (x \<noteq> None) b = Some (-1, b1)"
    using buffer_append_full [OF assms True] by blast
  with True show ?thesis by (simp add: enqueue_def contents_def)
next
  case False
  let ?m = "case x of None \<Rightarrow> [] | Some m \<Rightarrow> m"
  obtain b1 where a: "buffer_append ?m now (x \<noteq> None) b = Some (0, b1)" "sys_ok b1 None"
      "contents b1 = contents b @ [if x \<noteq> None then Some ?m else None]"
    using buffer_append_room [OF assms False] by blast
  have "(if x \<noteq> None then Some ?m else None) = x" by (cases x) auto
  with a buflength_frame(1) [OF a(1)] False show ?thesis by (auto simp: enqueue_def contents_def)
qed

lemma can_take_iff: "sys_ok b None \<Longrightarrow> can_take b \<longleftrightarrow> contents b \<noteq> []"
  using ring_used_0_iff [of "ab_i b" "ring b" "ab_j b"] length_pointers [of b None]
  by (auto simp: can_take_def empty_ring_def sys_ok_def contents_def simp flip: length_0_conv)

lemma contents_bounded: "sys_ok b d \<Longrightarrow> length (contents b) \<le> ab_buflength b"
  using ring_used_less [of "ring b" "ab_i b" "ab_j b"] length_pointers [of b d] by (simp add: contents_def)

interpretation abq: bounded_fifo "\<lambda>b. sys_ok b None" contents ab_buflength "enqueue now" dequeue for now
proof unfold_locales
  fix b x b'
  assume ok: "sys_ok b None"
  show "length (contents b) \<le> ab_buflength b" using contents_bounded [OF ok] .
  show "enqueue now x b = None \<longleftrightarrow> length (contents b) = ab_buflength b"
    using enqueue_cases [OF ok] by blast
  show "enqueue now x b = Some b' \<Longrightarrow>
      sys_ok b' None \<and> contents b' = contents b @ [x] \<and> ab_buflength b' = ab_buflength b"
    using enqueue_cases [OF ok] by blast
  show "dequeue b = None \<longleftrightarrow> contents b = []"
    using dequeue_round [OF ok] can_take_iff [OF ok] by (auto simp: dequeue_def)
  show "dequeue b = Some (x, b') \<Longrightarrow>
      sys_ok b' None \<and> contents b = x # contents b' \<and> ab_buflength b' = ab_buflength b"
    using dequeue_round [OF ok] by (cases "can_take b") (auto simp: dequeue_def)
qed

end
