(* ===== verification/Agent_Buffer_Resize.thy ===== *)
theory Agent_Buffer_Resize
  imports Agent_Buffer_Safety "HOL-Library.Multiset"
begin

text \<open>
  Resizing the anti-flooding buffer. Called with the capacity that the ring really has, on an idle
  dispatcher, a resize keeps the queued messages in order (all of them when growing, the oldest
  ones when shrinking) and releases the rest. The last section records where the callers in the
  agent leave these conditions.
\<close>

section \<open>Generic facts\<close>

lemma distinct_filter_rotate: "distinct (filter P (rotate n xs)) \<longleftrightarrow> distinct (filter P xs)"
proof -
  have "mset (rotate n xs) = mset xs"
    by (metis append_take_drop_id mset_append rotate_drop_take union_commute)
  then have "mset (filter P (rotate n xs)) = mset (filter P xs)" by (simp add: mset_filter)
  then show ?thesis by (rule mset_eq_imp_distinct_iff)
qed

lemma buffer_length_used:
  assumes "ab_enabled b" "ab_i b < ring b" "ab_j b < ring b"
  shows "w_agentd_get_buffer_lenght b = int (ring_used (ring b) (ab_i b) (ab_j b))"
proof (cases "ab_j b \<le> ab_i b")
  case True
  with assms show ?thesis
    by (simp add: w_agentd_get_buffer_lenght_def Let_def crem_def ring_used_cases of_nat_diff)
next
  case False
  then have "int (ab_i b) - int (ab_j b) < 0" by simp
  moreover have "(int (ab_j b) - int (ab_i b)) mod int (ring b) = int (ab_j b) - int (ab_i b)"
    using False assms by (intro mod_pos_pos_trivial) auto
  ultimately show ?thesis
    using False assms by (simp add: w_agentd_get_buffer_lenght_def Let_def crem_def ring_used_cases of_nat_diff)
qed

lemma length_reported:
  assumes "sys_ok b d"
  shows "w_agentd_get_buffer_lenght b = int (length (contents b))"
  using assms length_pointers [OF assms] buffer_length_used [of b]
  by (simp add: sys_ok_def contents_def)

section \<open>Building the new ring\<close>

text \<open>A ring that starts at cell 0 with the pointers \<open>qs\<close> and is otherwise empty.\<close>

lemma ring_list_straight: "length qs \<le> n \<Longrightarrow> ring_list (qs @ replicate (n + 1 - length qs) None) (length qs) 0 = qs"
  by (subst ring_list_contiguous) auto

lemma sys_ok_straight:
  assumes "length qs \<le> ab_buflength b" "ab_slots b = Some (qs @ replicate (ring b - length qs) None)"
    "ab_i b = length qs" "ab_j b = 0" "ab_enabled b"
    "distinct (filter (\<lambda>p. p \<noteq> None) qs)" "\<forall>a. ab_strings b a \<noteq> None \<longleftrightarrow> Some a \<in> set qs"
    "\<forall>a. ab_strings b a \<noteq> None \<longrightarrow> a < ab_next b"
  shows "sys_ok b None \<and> pointers b = qs"
proof -
  have q: "pointers b = qs" using ring_list_straight [OF assms(1)] assms(2-4) by (simp add: pointers_def)
  have "replicate (ring b - length qs) None = replicate (ab_buflength b - length qs) None @ [None :: nat option]"
    using assms(1) by (simp add: Suc_diff_le replicate_append_same)
  then show ?thesis
    using assms q by (auto simp: sys_ok_def flying_def)
qed

text \<open>Where the pointers of a ring lie in the array, whichever way it is wrapped.\<close>

lemma copied_when_growing:
  assumes ok: "sys_ok b None" and ss: "ab_slots b = Some ss"
  shows "\<exists>new. (if ab_j b < ab_i b then peek_slots ss (ab_j b) (length (pointers b))
       else do { p1 \<leftarrow> peek_slots ss (ab_j b) (ab_buflength b - ab_j b + 1);
                 p2 \<leftarrow> peek_slots ss 0 (ab_i b); Some (p1 @ p2) }) = Some new \<and>
     length new \<le> ring b \<and> (\<exists>k. new = pointers b @ replicate k None)"
proof -
  have l: "length ss = ring b" and ij: "ab_i b < ring b" "ab_j b < ring b" using ok ss by (auto simp: sys_ok_def)
  have q: "pointers b = ring_list ss (ab_i b) (ab_j b)" using ss by (simp add: pointers_def)
  have u: "length (pointers b) = ring_used (ring b) (ab_i b) (ab_j b)" using l by (simp add: q)
  consider (lt) "ab_j b < ab_i b" | (gt) "ab_i b < ab_j b" | (eq) "ab_i b = ab_j b" by linarith
  then show ?thesis
  proof cases
    case lt
    then have "peek_slots ss (ab_j b) (length (pointers b)) = Some (pointers b)"
      using ring_list_contiguous [of "ab_j b" "ab_i b" ss] l ij u
      by (simp add: peek_slots_def q ring_used_cases)
    then show ?thesis using lt u ring_used_less [of "ring b" "ab_i b" "ab_j b"]
      by (auto intro: exI [of _ 0])
  next
    case gt
    then have "pointers b = drop (ab_j b) ss @ take (ab_i b) ss" using ring_list_wrapped [of "ab_i b" "ab_j b" ss] l ij q by simp
    moreover have "ab_j b + (ab_buflength b - ab_j b + 1) = length ss" using l ij by simp
    ultimately show ?thesis using gt l ij u ring_used_less [of "ring b" "ab_i b" "ab_j b"]
      by (auto simp: peek_slots_def intro: exI [of _ 0])
  next
    case eq
    then have e: "pointers b = []" using u ij ring_used_0_iff [of "ab_i b" "ring b" "ab_j b"] by simp
    obtain m where "rotate (ab_j b) ss = replicate m None @ [None]"
      using ok ss e by (auto simp: sys_ok_def flying_def)
    then have "rotate (ab_j b) ss = replicate (Suc m) None" by (simp add: replicate_append_same)
    moreover have "rotate (ab_j b) ss = drop (ab_j b) ss @ take (ab_j b) ss" using l ij by (simp add: rotate_drop_take)
    ultimately have r: "drop (ab_j b) ss @ take (ab_i b) ss = replicate (Suc m) None" using eq by simp
    have "m \<le> ab_buflength b" using arg_cong [OF r, of length] l ij eq by simp
    moreover have "ab_j b + (ab_buflength b - ab_j b + 1) = length ss" using l ij by simp
    ultimately show ?thesis using eq l ij e r
      by (auto simp: peek_slots_def intro!: exI [of _ "Suc m"])
  qed
qed

section \<open>Shrinking\<close>

lemma move_slots_ok:
  assumes "j < n" "length old = n" "k + m \<le> n" "k + m \<le> length new"
    "drop k new = replicate (length new - k) None"
  shows "\<exists>old'. move_slots k m j n old new =
       Some (old', take k new @ take m (drop k (rotate j old)) @ replicate (length new - (k + m)) None) \<and>
     length old' = n \<and>
     rotate j old' = take k (rotate j old) @ replicate m None @ drop (k + m) (rotate j old)"
  using assms
proof (induction m arbitrary: k old new)
  case 0
  then show ?case by (metis add_0_right append_Nil append_take_drop_id move_slots.simps(1) replicate_0 take0)
next
  case (Suc m)
  let ?c = "(j + k) mod n" and ?rot = "rotate j old"
  have kn: "k < n" "0 < n" using Suc.prems by auto
  have c: "?c < length old" "?rot ! k = old ! ?c" using Suc.prems kn by (auto simp: nth_rotate)
  have cu: "ring_used n ?c j = k"
    using ring_cell_inj [of j n "ring_used n ?c j" k] ring_cell_of_write [of ?c n j] Suc.prems(1) kn
      ring_used_less [of n ?c j] by simp
  define old1 where "old1 = (case old ! ?c of None \<Rightarrow> old | Some a \<Rightarrow> old[?c := None])"
  define new1 where "new1 = (case old ! ?c of None \<Rightarrow> new | Some a \<Rightarrow> new[k := Some a])"
  have o1: "old1 = old[?c := None]" using c(1) by (auto simp: old1_def split: option.splits) (metis list_update_id)
  have knew: "k < length new" "new ! k = None" using Suc.prems(4,5) by (auto simp: nth_via_drop [of k new None] dest: arg_cong [of _ _ "\<lambda>xs. xs ! 0"])
  have n1: "new1 = new[k := ?rot ! k]" using c(2) knew by (auto simp: new1_def split: option.splits) (metis list_update_id)
  have step: "move_slots k (Suc m) j n old new = move_slots (k + 1) m j n old1 new1"
    using c(1) knew(1) by (simp add: old1_def new1_def Let_def split: option.splits)
  have rot1: "rotate j old1 = ?rot[k := None]"
    using rotate_update [OF c(1)] Suc.prems(1,2) cu by (simp add: o1)
  have "drop (k + 1) new1 = replicate (length new1 - (k + 1)) None"
    using Suc.prems(5) by (metis Suc_eq_plus1 diff_diff_left drop_Suc drop_replicate drop_update_cancel length_list_update lessI n1 plus_1_eq_Suc drop_drop)
  then obtain old' where ih: "move_slots (k + 1) m j n old1 new1 =
       Some (old', take (k + 1) new1 @ take m (drop (k + 1) (rotate j old1)) @ replicate (length new1 - (k + 1 + m)) None)"
      "length old' = n" "rotate j old' = take (k + 1) (rotate j old1) @ replicate m None @ drop (k + 1 + m) (rotate j old1)"
    using Suc.IH [of old1 "k + 1" new1] Suc.prems by (auto simp: o1 n1)
  have "take (k + 1) new1 = take k new @ [?rot ! k]"
    using knew(1) by (simp add: n1 take_Suc_conv_app_nth)
  moreover have "take (Suc m) (drop k ?rot) = ?rot ! k # take m (drop (k + 1) ?rot)"
    using kn Suc.prems(2) by (metis Cons_nth_drop_Suc Suc_eq_plus1 length_rotate take_Suc_Cons)
  moreover have "take (k + 1) (rotate j old1) = take k ?rot @ [None]"
    using kn Suc.prems(2) by (simp add: rot1 take_Suc_conv_app_nth)
  ultimately show ?case
    unfolding step using ih by (simp add: rot1 n1)
qed

lemma free_slots_ok:
  assumes "ab_slots b = Some ss" "k + n \<le> length ss"
    "distinct (filter (\<lambda>p. p \<noteq> None) (take n (drop k ss)))"
    "\<forall>a. Some a \<in> set (take n (drop k ss)) \<longrightarrow> ab_strings b a \<noteq> None"
  shows "\<exists>ss'. free_slots k n b = Some (b\<lparr>ab_slots := Some ss',
     ab_strings := ab_strings b |` (- {a. Some a \<in> set (take n (drop k ss))})\<rparr>)"
  using assms
proof (induction n arbitrary: k b ss)
  case 0
  then show ?case by (cases b) auto
next
  case (Suc n)
  have k: "k < length ss" using Suc.prems by simp
  have t: "take (Suc n) (drop k ss) = ss ! k # take n (drop (k + 1) ss)"
    using k by (metis Cons_nth_drop_Suc Suc_eq_plus1 take_Suc_Cons)
  define b1 where "b1 = b\<lparr>ab_strings := ab_strings b |` (- {a. Some a = ss ! k}),
      ab_slots := Some (ss[k := None])\<rparr>"
  have step: "free_slots k (Suc n) b = free_slots (k + 1) n b1"
  proof (cases "ss ! k")
    case None
    have "ab_strings b |` UNIV = ab_strings b" by (simp add: restrict_map_def)
    with None show ?thesis using k Suc.prems(1) by (simp add: slot_get_def os_free_def slot_set_def b1_def)
  next
    case (Some a)
    with Suc.prems(4) t obtain x where "ab_strings b a = Some x" by auto
    moreover have "(ab_strings b)(a := None) = ab_strings b |` (- {a. Some a = ss ! k})"
      using Some by (auto simp: restrict_map_def)
    ultimately show ?thesis using Some k Suc.prems(1) by (simp add: slot_get_def os_free_def slot_set_def b1_def)
  qed
  have d1: "drop (k + 1) (ss[k := None]) = drop (k + 1) ss" by simp
  have ne: "Some a \<in> set (take n (drop (k + 1) ss)) \<Longrightarrow> Some a \<noteq> ss ! k" for a
    using Suc.prems(3) unfolding t by (auto split: if_splits)
  have "\<exists>ss'. free_slots (k + 1) n b1 = Some (b1\<lparr>ab_slots := Some ss',
     ab_strings := ab_strings b1 |` (- {a. Some a \<in> set (take n (drop (k + 1) (ss[k := None])))})\<rparr>)"
    unfolding d1 using Suc.prems(2-4) ne unfolding t
    by (intro Suc.IH [of b1 "ss[k := None]" "k + 1", unfolded d1]) (auto simp: b1_def restrict_map_def split: if_splits)
  moreover have "- {a. Some a = ss ! k} \<inter> - {a. Some a \<in> set (take n (drop (k + 1) ss))} =
      - {a. Some a \<in> set (ss ! k # take n (drop (k + 1) ss))}" by auto
  ultimately show ?case
    unfolding step t d1 by (auto simp: b1_def)
qed

section \<open>The effect of a resize\<close>

lemma resize_grows:
  assumes ok: "sys_ok b None" and "ab_buflength b < desired"
  shows "\<exists>b'. w_agentd_buffer_resize (ab_buflength b) desired b = Some (0, b') \<and>
     sys_ok (b'\<lparr>ab_buflength := desired\<rparr>) None \<and> contents (b'\<lparr>ab_buflength := desired\<rparr>) = contents b"
proof -
  obtain ss where ss: "ab_slots b = Some ss" using ok by (auto simp: sys_ok_def)
  let ?q = "pointers b"
  from copied_when_growing [OF ok ss] obtain new k where
    new: "(if ab_j b < ab_i b then peek_slots ss (ab_j b) (length ?q)
       else do { p1 \<leftarrow> peek_slots ss (ab_j b) (ab_buflength b - ab_j b + 1);
                 p2 \<leftarrow> peek_slots ss 0 (ab_i b); Some (p1 @ p2) }) = Some new"
      "length new \<le> ring b" "new = ?q @ replicate k None" by blast
  have len: "w_agentd_get_buffer_lenght b = int (length ?q)"
    using length_reported [OF ok] by (simp add: contents_def)
  have qb: "length ?q \<le> ab_buflength b" using contents_bounded [OF ok] by (simp add: contents_def)
  define b' where "b' = b\<lparr>ab_slots := Some (new @ replicate (desired + 1 - length new) None), ab_j := 0, ab_i := length ?q\<rparr>"
  have r: "w_agentd_buffer_resize (ab_buflength b) desired b = Some (0, b')"
    using assms(2) new(2) qb unfolding w_agentd_buffer_resize_def len Let_def nat_int ss bind.bind_lunit new(1)
    by (simp add: b'_def)
  have "new @ replicate (desired + 1 - length new) None = ?q @ replicate (desired + 1 - length ?q) None"
    using new(2,3) assms(2) by (simp add: replicate_add [symmetric])
  then have "sys_ok (b'\<lparr>ab_buflength := desired\<rparr>) None \<and> pointers (b'\<lparr>ab_buflength := desired\<rparr>) = ?q"
    using ok assms(2) qb by (intro sys_ok_straight) (auto simp: b'_def sys_ok_def flying_def)
  with r show ?thesis by (auto simp: contents_def deref_def b'_def cong: option.case_cong)
qed

lemma resize_shrinks:
  assumes ok: "sys_ok b None" and "0 < desired" "desired < ab_buflength b"
  shows "\<exists>b'. w_agentd_buffer_resize (ab_buflength b) desired b = Some (0, b') \<and>
     sys_ok (b'\<lparr>ab_buflength := desired\<rparr>) None \<and>
     contents (b'\<lparr>ab_buflength := desired\<rparr>) = take desired (contents b)"
proof -
  let ?q = "pointers b" and ?n = "ring b"
  obtain ss m where ss: "ab_slots b = Some ss" "length ss = ?n" "rotate (ab_j b) ss = ?q @ replicate m None @ [None]"
    and j: "ab_j b < ?n" and dis: "distinct (filter (\<lambda>p. p \<noteq> None) ?q)"
    and live: "\<forall>a. ab_strings b a \<noteq> None \<longleftrightarrow> Some a \<in> set ?q"
    and nxt: "\<forall>a. ab_strings b a \<noteq> None \<longrightarrow> a < ab_next b"
    using ok by (auto simp: sys_ok_def flying_def)
  have len: "w_agentd_get_buffer_lenght b = int (length ?q)"
    using length_reported [OF ok] by (simp add: contents_def)
  have qb: "length ?q \<le> ab_buflength b" using contents_bounded [OF ok] by (simp add: contents_def)
  define r where "r = min (length ?q) desired"
  have rq: "r \<le> length ?q" "r \<le> desired" "r \<le> ?n" using qb by (auto simp: r_def)
  obtain old where mv: "move_slots 0 r (ab_j b) ?n ss (replicate (desired + 1) None) =
       Some (old, take r ?q @ replicate (desired + 1 - r) None)"
      "length old = ?n" "rotate (ab_j b) old = replicate r None @ drop r ?q @ replicate m None @ [None]"
    using move_slots_ok [of "ab_j b" ?n ss 0 r "replicate (desired + 1) None"] j ss rq by auto
  have set_old: "Some a \<in> set old \<longleftrightarrow> Some a \<in> set (drop r ?q)" for a
    using arg_cong [OF mv(3), of set] by auto
  have split: "filter (\<lambda>p. p \<noteq> None) ?q = filter (\<lambda>p. p \<noteq> None) (take r ?q) @ filter (\<lambda>p. p \<noteq> None) (drop r ?q)"
    by (metis append_take_drop_id filter_append)
  have dist_old: "distinct (filter (\<lambda>p. p \<noteq> None) old)"
    using dis distinct_filter_rotate [of "\<lambda>p. p \<noteq> None" "ab_j b" old] unfolding mv(3) split by simp
  have "\<forall>a. Some a \<in> set old \<longrightarrow> ab_strings b a \<noteq> None"
    using live set_old in_set_dropD by metis
  then obtain ss' where fr: "free_slots 0 ?n (b\<lparr>ab_slots := Some old\<rparr>) = Some (b\<lparr>ab_slots := Some ss',
      ab_strings := ab_strings b |` (- {a. Some a \<in> set old})\<rparr>)"
    using free_slots_ok [of "b\<lparr>ab_slots := Some old\<rparr>" old 0 ?n] mv(2) dist_old
    by (auto simp del: free_slots.simps)
  define b' where "b' = b\<lparr>ab_slots := Some (take r ?q @ replicate (desired + 1 - r) None),
      ab_strings := ab_strings b |` (- {a. Some a \<in> set old}),
      ab_stats := w_agentd_state_update (RESET_MSG_COUNT_ON_SHRINK (Some (of_nat r))) (ab_stats b), ab_j := 0, ab_i := r\<rparr>"
  have res: "w_agentd_buffer_resize (ab_buflength b) desired b = Some (0, b')"
    using assms(2,3) qb unfolding w_agentd_buffer_resize_def len Let_def nat_int ss(1) bind.bind_lunit
      r_def [symmetric] mv(1) prod.case fr
    by (simp add: b'_def)
  have parts: "Some a \<in> set ?q \<longleftrightarrow> Some a \<in> set (take r ?q) \<or> Some a \<in> set (drop r ?q)" for a
    by (metis Un_iff append_take_drop_id set_append)
  have disj: "Some a \<in> set (take r ?q) \<Longrightarrow> Some a \<notin> set (drop r ?q)" for a
    using dis unfolding split by auto
  have "sys_ok (b'\<lparr>ab_buflength := desired\<rparr>) None \<and> pointers (b'\<lparr>ab_buflength := desired\<rparr>) = take r ?q"
  proof (rule sys_ok_straight)
    show "distinct (filter (\<lambda>p. p \<noteq> None) (take r ?q))" using dis unfolding split by simp
    show "\<forall>a. ab_strings (b'\<lparr>ab_buflength := desired\<rparr>) a \<noteq> None \<longleftrightarrow> Some a \<in> set (take r ?q)"
      using live parts disj set_old by (auto simp: b'_def restrict_map_def)
    show "\<forall>a. ab_strings (b'\<lparr>ab_buflength := desired\<rparr>) a \<noteq> None \<longrightarrow> a < ab_next (b'\<lparr>ab_buflength := desired\<rparr>)"
      using nxt by (auto simp: b'_def restrict_map_def split: if_splits)
  qed (use ok rq in \<open>auto simp: b'_def sys_ok_def min_def\<close>)
  moreover have "map (deref b') (take r ?q) = take desired (contents b)"
  proof -
    have "map (deref b') (take r ?q) = map (deref b) (take r ?q)"
      using disj set_old by (auto simp: deref_def b'_def restrict_map_def split: option.splits)
    also have "\<dots> = take r (contents b)" by (simp add: contents_def take_map)
    finally show ?thesis by (simp add: r_def contents_def min_def)
  qed
  moreover have "deref (b'\<lparr>ab_buflength := desired\<rparr>) = deref b'"
    by (simp add: deref_def fun_eq_iff cong: option.case_cong)
  ultimately show ?thesis using res by (auto simp: contents_def)
qed

end
