(* ===== verification/Agent_Buffer_Thms.thy ===== *)
theory Agent_Buffer_Thms
  imports Agent_Buffer_Resize
begin

text \<open>What the anti-flooding buffer of the agent guarantees, and where a configuration reload breaks it.\<close>

section \<open>A sample run\<close>

text \<open>A message is appended, the dispatcher takes it, and another is appended while it is in flight.\<close>

definition demo0 :: agent_buffer where
  "demo0 = buffer_init 90 70 15 (fresh_buffer 2)"

definition demo1 :: agent_buffer where
  "demo1 = snd (the (buffer_append [7] 0 True demo0))"

definition demo2 :: agent_buffer where
  "demo2 = snd (the (dispatch_take demo1))"

definition demo3 :: agent_buffer where
  "demo3 = snd (the (buffer_append [8] 0 True demo2))"

lemma append_computes: "map_option fst m = Some rc \<Longrightarrow> m = Some (rc, snd (the m))"
  by (cases m) auto

lemma demo_steps:
  "step\<^sup>*\<^sup>* (demo0, None, [], []) (demo3, Some (Some 0, 0), [Some [7], Some [8]], [])"
proof -
  have 1: "map_option fst (buffer_append [7] 0 True demo0) = Some 0" by code_simp
  have "step (demo0, None, [], []) (demo1, None, [] @ [if True then Some [7] else None], [])"
    unfolding demo1_def by (rule step.append_accepted [OF append_computes [OF 1]])
  moreover have 2: "map_option fst (dispatch_take demo1) = Some (Some (Some 0, 0))" "can_take demo1"
    by code_simp+
  have "step (demo1, None, [Some [7]], []) (demo2, Some (Some 0, 0), [Some [7]], [])"
    unfolding demo2_def by (rule step.take_msg [OF 2(2) append_computes [OF 2(1)]])
  moreover have 3: "map_option fst (buffer_append [8] 0 True demo2) = Some 0" by code_simp
  have "step (demo2, Some (Some 0, 0), [Some [7]], [])
      (demo3, Some (Some 0, 0), [Some [7]] @ [if True then Some [8] else None], [])"
    unfolding demo3_def by (rule step.append_accepted [OF append_computes [OF 3]])
  ultimately show ?thesis
    by (simp add: converse_rtranclp_into_rtranclp r_into_rtranclp)
qed

lemmas demo_run = demo_steps [unfolded demo0_def]

section \<open>The two threads\<close>

lemma reachable_conserved:
  "step\<^sup>*\<^sup>* (buffer_init wl nl tol (fresh_buffer n), None, [], []) s \<Longrightarrow> conserved s"
  by (rule steps_conserve [OF _ conserved_initial])



text \<open>
  (C21) No interleaving of the two threads makes the buffer code access the ring out of bounds, read
  or free a message twice: in every reachable state the next append, the next take and the
  pending send all complete. When the queue is empty and the dispatcher idle, no string is left
  allocated.
\<close>

theorem buffer_threads_safe:
  assumes "step\<^sup>*\<^sup>* (buffer_init wl nl tol (fresh_buffer n), None, [], []) (b, d, acc, del)"
  shows "buffer_append msg now dup b \<noteq> None \<and>
    (d = None \<and> can_take b \<longrightarrow> dispatch_take b \<noteq> None) \<and>
    (\<forall>t. d = Some t \<longrightarrow> dispatch_send t b \<noteq> None) \<and>
    (d = None \<and> contents b = [] \<longrightarrow> (\<forall>a. ab_strings b a = None))"
proof -
  have ok: "sys_ok b d" using reachable_conserved [OF assms] by (simp add: conserved_def)
  have "buffer_append msg now dup b \<noteq> None"
    using buffer_append_full [OF ok, of msg now dup] buffer_append_room [OF ok, of msg now dup] by auto
  moreover have "d = None \<and> can_take b \<Longrightarrow> dispatch_take b \<noteq> None"
    using dispatch_take_ok ok by fastforce
  moreover have "dispatch_send t b \<noteq> None" if "d = Some t" for t
    using dispatch_send_ok [of b "fst t" "snd t"] ok that by auto
  moreover have "d = None \<and> contents b = [] \<Longrightarrow> \<forall>a. ab_strings b a = None"
    using ok by (auto simp: sys_ok_def contents_def flying_def)
  ultimately show ?thesis by blast
qed

theorem buffer_threads_safe_witness:
  "buffer_append [9] 0 True demo3 \<noteq> None \<and> dispatch_send (Some 0, 0) demo3 \<noteq> None"
  using buffer_threads_safe [OF demo_run, of "[9]" 0 True] by simp

text \<open>
  An append is refused exactly when the ring holds as many messages as the configured length,
  in every reachable state; a refusal leaves the queue untouched and the state machine in FULL or
  FLOOD.
\<close>

theorem append_refused_iff_full:
  assumes "step\<^sup>*\<^sup>* (buffer_init wl nl tol (fresh_buffer n), None, [], []) (b, d, acc, del)"
  shows "\<exists>rc b'. buffer_append msg now dup b = Some (rc, b') \<and>
    (if length (contents b) = ab_buflength b
     then rc = -1 \<and> contents b' = contents b \<and> ab_state b' \<in> {FULL, FLOOD}
     else rc = 0 \<and> contents b' = contents b @ [if dup then Some msg else None])"
proof -
  have ok: "sys_ok b d" using reachable_conserved [OF assms] by (simp add: conserved_def)
  show ?thesis
  proof (cases "length (pointers b) = ab_buflength b")
    case True
    obtain b' where b': "buffer_append msg now dup b = Some (-1, b')" "core b' = core b"
        "ab_state b' \<in> {FULL, FLOOD}"
      using buffer_append_full [OF ok True] by blast
    have "length (contents b) = ab_buflength b" using True by (simp add: contents_def)
    with b' core_cong(2) [OF b'(2)] show ?thesis by simp
  next
    case False
    from buffer_append_room [OF ok False, of msg now dup] show ?thesis
      using False by (auto simp: contents_def)
  qed
qed

theorem append_refused_iff_full_witness:
  "\<exists>rc b'. buffer_append [9] 0 True demo3 = Some (rc, b') \<and> rc = 0"
proof -
  have "length (contents demo3) \<noteq> ab_buflength demo3" by code_simp
  then show ?thesis using append_refused_iff_full [OF demo_run, of "[9]" 0 True] by auto
qed

section \<open>The state machine\<close>

text \<open>
  The buffer is declared flooded only by an append that finds it in state FULL at least
  \<open>tolerance\<close> seconds after it became full, and every change of the state in an append raises
  the flag that makes the dispatcher report it; entering FULL starts the clock.
\<close>

theorem flood_after_tolerance:
  "(ab_state b \<noteq> FLOOD \<and> ab_state (raise_state now b) = FLOOD \<longleftrightarrow>
     ab_state b = FULL \<and> ab_tolerance b \<le> now - ab_start b) \<and>
   (ab_state (raise_state now b) = ab_state b \<or>
    (case ab_state (raise_state now b) of
       NORMAL \<Rightarrow> False
     | WARNING \<Rightarrow> ab_warn (raise_state now b)
     | FULL \<Rightarrow> ab_full (raise_state now b) \<and> ab_start (raise_state now b) = now
     | FLOOD \<Rightarrow> ab_flood (raise_state now b)))"
  by (auto simp: raise_state_def split: buffer_status.splits if_splits)

section \<open>Resizing\<close>

text \<open>
  Resizing the ring with its true capacity while the dispatcher is idle keeps the queued
  messages in order: all of them when the ring grows, the oldest \<open>desired\<close> ones when it shrinks.
  The result satisfies the invariant for the new length, so nothing leaks and nothing dangles.
\<close>

theorem resize_keeps_oldest:
  assumes "sys_ok b None" "0 < desired"
  shows "\<exists>b'. w_agentd_buffer_resize (ab_buflength b) desired b = Some (0, b') \<and>
     sys_ok (b'\<lparr>ab_buflength := desired\<rparr>) None \<and>
     contents (b'\<lparr>ab_buflength := desired\<rparr>) = take desired (contents b)"
proof (cases desired "ab_buflength b" rule: linorder_cases)
  case less
  then show ?thesis using resize_shrinks [OF assms(1,2)] by simp
next
  case equal
  have "b\<lparr>ab_buflength := ab_buflength b\<rparr> = b" by simp
  then show ?thesis using assms equal contents_bounded [OF assms(1)] by (auto simp: w_agentd_buffer_resize_def)
next
  case greater
  then show ?thesis using resize_grows [OF assms(1) greater] contents_bounded [OF assms(1)] by auto
qed

theorem resize_keeps_oldest_witness:
  "\<exists>b'. w_agentd_buffer_resize 3 1 (buffer_init 90 70 15 (fresh_buffer 3)) = Some (0, b')"
proof -
  have "sys_ok (buffer_init 90 70 15 (fresh_buffer 3)) None"
    using conserved_initial by (simp add: conserved_def)
  moreover have "ab_buflength (buffer_init 90 70 15 (fresh_buffer 3)) = 3"
    by (simp add: buffer_init_def fresh_buffer_def Let_def)
  ultimately show ?thesis using resize_keeps_oldest [of "buffer_init 90 70 15 (fresh_buffer 3)" 1] by auto
qed

section \<open>Reloading the configuration\<close>

text \<open>
  \<open>reload_buffer\<close> resizes when \<open>agt->buflength\<close> is already the new length, so the count of queued
  messages is taken modulo the wrong ring size. The sample ring has capacity 4, has wrapped
  around, and holds two messages.
\<close>

definition put1 :: "bytes \<Rightarrow> agent_buffer \<Rightarrow> agent_buffer option" where
  "put1 m b = enqueue 0 (Some m) b"

definition get1 :: "agent_buffer \<Rightarrow> agent_buffer option" where
  "get1 b = map_option snd (dequeue b)"

definition wrapped_ring :: "agent_buffer option" where
  "wrapped_ring = do {
     b \<leftarrow> put1 [0] (buffer_init 90 70 15 (fresh_buffer 4));
     b \<leftarrow> put1 [1] b; b \<leftarrow> put1 [2] b; b \<leftarrow> get1 b; b \<leftarrow> get1 b; b \<leftarrow> get1 b;
     b \<leftarrow> put1 [3] b; put1 [4] b }"


text \<open>
  A reload that shrinks the ring from 4 to 2 while three messages are queued keeps none of them,
  although two would fit: three modulo the new ring size 3 is zero.
\<close>

theorem reload_shrink_loses_messages:
  "map_option contents
     (put1 [1] (buffer_init 90 70 15 (fresh_buffer 4)) \<bind> put1 [2] \<bind> put1 [3]) =
       Some [Some [1], Some [2], Some [3]] \<and>
   map_option contents
     (put1 [1] (buffer_init 90 70 15 (fresh_buffer 4)) \<bind> put1 [2] \<bind> put1 [3] \<bind>
      reload_buffer True 2 (90, 70, 15)) = Some []"
  by code_simp

text \<open>
  A shrinking resize that runs while the dispatcher is sending frees the message that the
  dispatcher still reads: the send that follows uses freed memory.
\<close>

theorem resize_frees_message_in_flight:
  "(case dispatch_take demo1 of
      Some (Some t, b) \<Rightarrow>
        (case w_agentd_buffer_resize 2 1 b of
           Some (rc, b') \<Rightarrow> rc = 0 \<and> dispatch_send t b \<noteq> None \<and> dispatch_send t b' = None
         | None \<Rightarrow> False)
    | _ \<Rightarrow> False)"
  by code_simp

end
