(* ===== verification/Sockets.thy ===== *)
theory Sockets
  imports Prelude
begin

text \<open>
  A stream socket as the blocking I/O loops see it. \<open>sk_out\<close> is what the kernel has accepted for
  the peer, \<open>sk_in\<close> what the peer has sent and was not read yet. \<open>sk_wr\<close> and \<open>sk_rd\<close> script the
  results of the coming system calls: a value \<open>\<le> 0\<close> is an error or end of stream, a positive
  value bounds how many bytes the call moves. An exhausted script moves all that can be moved.
  Every theorem holds for every script, that is for every pattern of short reads, short writes
  and failures.
\<close>

record sock =
  sk_out :: bytes
  sk_wr :: "int list"
  sk_in :: bytes
  sk_rd :: "int list"

text \<open>\<open>send(2)\<close>: the number of bytes accepted, or an error value.\<close>

definition send :: "sock \<Rightarrow> bytes \<Rightarrow> int \<times> sock" where
  "send sk buf =
     (case sk_wr sk of
        [] \<Rightarrow> (int (length buf), sk\<lparr>sk_out := sk_out sk @ buf\<rparr>)
      | r # rs \<Rightarrow>
          if r \<le> 0 then (r, sk\<lparr>sk_wr := rs\<rparr>)
          else let k = min (nat r) (length buf)
               in (int k, sk\<lparr>sk_wr := rs, sk_out := sk_out sk @ take k buf\<rparr>))"

text \<open>\<open>recv(2)\<close> for at most \<open>n\<close> bytes: 0 is end of stream.\<close>

definition recv :: "sock \<Rightarrow> nat \<Rightarrow> int \<times> bytes \<times> sock" where
  "recv sk n =
     (case sk_rd sk of
        [] \<Rightarrow> let k = min n (length (sk_in sk))
              in (int k, take k (sk_in sk), sk\<lparr>sk_in := drop k (sk_in sk)\<rparr>)
      | r # rs \<Rightarrow>
          if r \<le> 0 then (r, [], sk\<lparr>sk_rd := rs\<rparr>)
          else let k = min (nat r) (min n (length (sk_in sk)))
               in (int k, take k (sk_in sk), sk\<lparr>sk_rd := rs, sk_in := drop k (sk_in sk)\<rparr>))"

lemma send_positive:
  assumes "send sk buf = (rc, sk')" "0 < rc" "buf \<noteq> []"
  shows "0 < nat rc" "nat rc \<le> length buf" "sk_out sk' = sk_out sk @ take (nat rc) buf"
    "sk_in sk' = sk_in sk" "sk_rd sk' = sk_rd sk"
  using assms by (auto simp: send_def Let_def split: list.splits if_splits)

lemma send_failed:
  assumes "send sk buf = (rc, sk')" "rc \<le> 0"
  shows "sk_out sk' = sk_out sk" "sk_in sk' = sk_in sk" "sk_rd sk' = sk_rd sk"
  using assms by (auto simp: send_def Let_def split: list.splits if_splits)

lemma send_unscripted: "sk_wr sk = [] \<Longrightarrow> send sk buf = (int (length buf), sk\<lparr>sk_out := sk_out sk @ buf\<rparr>)"
  by (simp add: send_def)

lemma recv_positive:
  assumes "recv sk n = (rc, bs, sk')" "0 < rc"
  shows "length bs = nat rc" "nat rc \<le> n" "sk_in sk = bs @ sk_in sk'"
    "sk_out sk' = sk_out sk" "sk_wr sk' = sk_wr sk"
  using assms by (auto simp: recv_def Let_def split: list.splits if_splits)

lemma recv_frame_conditions:
  assumes "recv sk n = (rc, bs, sk')"
  shows "sk_out sk' = sk_out sk" "sk_wr sk' = sk_wr sk" "rc \<le> int n"
  using assms by (auto simp: recv_def Let_def split: list.splits if_splits)

text \<open>
  A socket operation leaves the other direction alone and only ever appends to what the
  kernel accepted.
\<close>

definition only_writes :: "sock \<Rightarrow> bytes \<Rightarrow> sock \<Rightarrow> bool" where
  "only_writes sk bs sk' \<longleftrightarrow>
     sk_out sk' = sk_out sk @ bs \<and> sk_in sk' = sk_in sk \<and> sk_rd sk' = sk_rd sk"

lemma only_writes_refl [simp]: "only_writes sk [] sk"
  by (simp add: only_writes_def)

lemma only_writes_trans:
  "only_writes sk xs sk1 \<Longrightarrow> only_writes sk1 ys sk2 \<Longrightarrow> only_writes sk (xs @ ys) sk2"
  by (simp add: only_writes_def)

end
