(* ===== verification/Wzcp.thy ===== *)
theory Wzcp
  imports Wire Sockets Text
begin

text \<open>
  The agent's WZCP library, \<^verbatim>\<open>agents/headers/xsiam_wzcp.h\<close> and \<^verbatim>\<open>agents/shared/xsiam_wzcp.c\<close>:
  header packing, framed send and receive over a socket, the bodies of HELLO, EVENT_BATCH and
  ACK, and the identity of the agent (UUID, host type, MAC addresses).

  Output buffers are byte lists of their allocated size. A write outside one is a fault
  (\<open>None\<close>); a return code of \<open>-1\<close> is an ordinary result. Environment variables, the UUID file,
  the kernel's UUID source, the random bytes and the network adapters are fields of \<open>host\<close>.
\<close>

section \<open>Protocol constants and the header\<close>

abbreviation WZCP_MAGIC :: u32 where "WZCP_MAGIC \<equiv> 0x575A4350"
abbreviation WZCP_VERSION :: byte where "WZCP_VERSION \<equiv> 1"
abbreviation WZCP_HEADER_SIZE :: nat where "WZCP_HEADER_SIZE \<equiv> 32"

definition WZCP_MAX_FRAME :: nat where
  "WZCP_MAX_FRAME = 1024 * 1024"

abbreviation MSG_HELLO :: byte where "MSG_HELLO \<equiv> 1"
abbreviation MSG_EVENT_BATCH :: byte where "MSG_EVENT_BATCH \<equiv> 2"
abbreviation MSG_ACK :: byte where "MSG_ACK \<equiv> 3"
abbreviation MSG_HEARTBEAT :: byte where "MSG_HEARTBEAT \<equiv> 4"
abbreviation MSG_CONTROL :: byte where "MSG_CONTROL \<equiv> 5"
abbreviation MSG_ERROR :: byte where "MSG_ERROR \<equiv> 6"
abbreviation EVENT_LOG :: byte where "EVENT_LOG \<equiv> 1"

record wzcp_header =
  wh_magic :: u32
  wh_version :: byte
  wh_header_len :: byte
  wh_flags :: byte
  wh_msg_type :: byte
  wh_agent_id :: u32
  wh_seq :: u64
  wh_timestamp_ms :: u64
  wh_body_len :: u32

definition xsiam_wzcp_pack_header :: "wzcp_header \<Rightarrow> bytes" where
  "xsiam_wzcp_pack_header h =
     put_be32 (wh_magic h) @
     [wh_version h, wh_header_len h, wh_flags h, wh_msg_type h] @
     put_be32 (wh_agent_id h) @ put_be64 (wh_seq h) @ put_be64 (wh_timestamp_ms h) @
     put_be32 (wh_body_len h)"

text \<open>The fields at their offsets; a fault if the input is shorter than a header.\<close>

definition read_header :: "bytes \<Rightarrow> nat \<Rightarrow> wzcp_header option" where
  "read_header buf p = do {
     magic \<leftarrow> be32_at buf p;
     version \<leftarrow> byte_at buf (p + 4);
     header_len \<leftarrow> byte_at buf (p + 5);
     flags \<leftarrow> byte_at buf (p + 6);
     msg_type \<leftarrow> byte_at buf (p + 7);
     agent_id \<leftarrow> be32_at buf (p + 8);
     seq \<leftarrow> be64_at buf (p + 12);
     timestamp_ms \<leftarrow> be64_at buf (p + 20);
     body_len \<leftarrow> be32_at buf (p + 28);
     Some \<lparr>wh_magic = magic, wh_version = version, wh_header_len = header_len, wh_flags = flags,
           wh_msg_type = msg_type, wh_agent_id = agent_id, wh_seq = seq,
           wh_timestamp_ms = timestamp_ms, wh_body_len = body_len\<rparr>
   }"

definition header_ok :: "wzcp_header \<Rightarrow> bool" where
  "header_ok h \<longleftrightarrow>
     wh_magic h = WZCP_MAGIC \<and> wh_version h = WZCP_VERSION \<and>
     unat (wh_header_len h) = WZCP_HEADER_SIZE \<and> unat (wh_body_len h) \<le> WZCP_MAX_FRAME"

definition xsiam_wzcp_unpack_header :: "bytes \<Rightarrow> (int \<times> wzcp_header) option" where
  "xsiam_wzcp_unpack_header inp = do {
     h \<leftarrow> read_header inp 0;
     Some (if header_ok h then 0 else -1, h)
   }"

lemma length_pack_header [simp]: "length (xsiam_wzcp_pack_header h) = WZCP_HEADER_SIZE"
  by (simp add: xsiam_wzcp_pack_header_def)

lemma read_header_in_bounds: "p + WZCP_HEADER_SIZE \<le> length buf \<Longrightarrow> read_header buf p \<noteq> None"
  by (simp add: read_header_def be_at_in_bounds byte_at_def)

text \<open>A packed header reads back at its position in any buffer.\<close>

lemma read_packed_header:
  assumes "p = length pre"
  shows "read_header (pre @ xsiam_wzcp_pack_header h @ post) p = Some h"
proof -
  define bs where "bs = put_be32 (wh_magic h)"
  have 0: "pre @ xsiam_wzcp_pack_header h @ post = (pre @ []) @ put_be32 (wh_magic h) @
      ([wh_version h, wh_header_len h, wh_flags h, wh_msg_type h] @ put_be32 (wh_agent_id h) @
       put_be64 (wh_seq h) @ put_be64 (wh_timestamp_ms h) @ put_be32 (wh_body_len h) @ post)"
    by (simp add: xsiam_wzcp_pack_header_def)
  have magic: "be32_at (pre @ xsiam_wzcp_pack_header h @ post) p = Some (wh_magic h)"
    unfolding 0 by (rule be_at_hit) (simp add: assms)
  have fixed: "byte_at (pre @ xsiam_wzcp_pack_header h @ post) (p + 4) = Some (wh_version h)"
      "byte_at (pre @ xsiam_wzcp_pack_header h @ post) (p + 5) = Some (wh_header_len h)"
      "byte_at (pre @ xsiam_wzcp_pack_header h @ post) (p + 6) = Some (wh_flags h)"
      "byte_at (pre @ xsiam_wzcp_pack_header h @ post) (p + 7) = Some (wh_msg_type h)"
    by (simp_all add: assms xsiam_wzcp_pack_header_def byte_at_def nth_append)
  let ?f = "[wh_version h, wh_header_len h, wh_flags h, wh_msg_type h]"
  have aid: "be32_at (pre @ xsiam_wzcp_pack_header h @ post) (p + 8) = Some (wh_agent_id h)"
    using be_at_hit(2) [of "p + 8" "pre @ put_be32 (wh_magic h) @ ?f" "wh_agent_id h"
        "put_be64 (wh_seq h) @ put_be64 (wh_timestamp_ms h) @ put_be32 (wh_body_len h) @ post"]
    by (simp add: assms xsiam_wzcp_pack_header_def)
  have seq: "be64_at (pre @ xsiam_wzcp_pack_header h @ post) (p + 12) = Some (wh_seq h)"
    using be_at_hit(3) [of "p + 12" "pre @ put_be32 (wh_magic h) @ ?f @ put_be32 (wh_agent_id h)"
        "wh_seq h" "put_be64 (wh_timestamp_ms h) @ put_be32 (wh_body_len h) @ post"]
    by (simp add: assms xsiam_wzcp_pack_header_def)
  have ts: "be64_at (pre @ xsiam_wzcp_pack_header h @ post) (p + 20) = Some (wh_timestamp_ms h)"
    using be_at_hit(3) [of "p + 20" "pre @ put_be32 (wh_magic h) @ ?f @ put_be32 (wh_agent_id h) @ put_be64 (wh_seq h)"
        "wh_timestamp_ms h" "put_be32 (wh_body_len h) @ post"]
    by (simp add: assms xsiam_wzcp_pack_header_def)
  have bl: "be32_at (pre @ xsiam_wzcp_pack_header h @ post) (p + 28) = Some (wh_body_len h)"
    using be_at_hit(2) [of "p + 28" "pre @ put_be32 (wh_magic h) @ ?f @ put_be32 (wh_agent_id h) @ put_be64 (wh_seq h) @ put_be64 (wh_timestamp_ms h)"
        "wh_body_len h" post]
    by (simp add: assms xsiam_wzcp_pack_header_def)
  show ?thesis
    by (simp add: read_header_def magic fixed aid seq ts bl)
qed

section \<open>Framed input and output\<close>

function send_all :: "sock \<Rightarrow> bytes \<Rightarrow> int \<times> sock" where
  "send_all sk buf =
     (if buf = [] then (0, sk)
      else case send sk buf of
        (rc, sk') \<Rightarrow> if rc \<le> 0 then (-1, sk') else send_all sk' (drop (nat rc) buf))"
  by pat_completeness auto
termination
  by (relation "measure (\<lambda>(sk, buf). length buf)") auto

declare send_all.simps [simp del]

function recv_all :: "sock \<Rightarrow> nat \<Rightarrow> bytes \<Rightarrow> int \<times> bytes \<times> sock" where
  "recv_all sk n got =
     (if n = 0 then (0, got, sk)
      else case recv sk n of
        (rc, bs, sk') \<Rightarrow> if rc \<le> 0 then (-1, got, sk') else recv_all sk' (n - nat rc) (got @ bs))"
  by pat_completeness auto
termination
  by (relation "measure (\<lambda>(sk, n, got). n)") auto

declare recv_all.simps [simp del]

definition xsiam_wzcp_send_frame ::
  "sock \<Rightarrow> byte \<Rightarrow> u32 \<Rightarrow> u64 \<Rightarrow> bytes \<Rightarrow> u32 \<Rightarrow> u64 \<Rightarrow> (int \<times> sock) option" where
  "xsiam_wzcp_send_frame sk msg_type agent_id seq body body_len now_ms =
     (let frame_len = 32 + body_len in
      if unat body_len > WZCP_MAX_FRAME then Some (-1, sk)
      else
        let hdr = xsiam_wzcp_pack_header
                    \<lparr>wh_magic = WZCP_MAGIC, wh_version = WZCP_VERSION, wh_header_len = 32,
                     wh_flags = 0, wh_msg_type = msg_type, wh_agent_id = agent_id, wh_seq = seq,
                     wh_timestamp_ms = now_ms, wh_body_len = body_len\<rparr>;
            (rc1, sk1) = send_all sk (put_be32 frame_len) in
        if rc1 < 0 then Some (-1, sk1)
        else let (rc2, sk2) = send_all sk1 hdr in
        if rc2 < 0 then Some (-1, sk2)
        else if 0 < body_len then do {
          b \<leftarrow> peek body 0 (unat body_len);
          let (rc3, sk3) = send_all sk2 b;
          Some (if rc3 < 0 then -1 else 0, sk3)
        }
        else Some (0, sk2))"

text \<open>
  The result is the header and the received body, or \<open>None\<close> for the return code \<open>-1\<close>. The body
  is received into a buffer of \<open>body_cap\<close> bytes: a longer one would be a fault.
\<close>

definition xsiam_wzcp_recv_frame ::
  "sock \<Rightarrow> u32 \<Rightarrow> ((wzcp_header \<times> bytes) option \<times> sock) option" where
  "xsiam_wzcp_recv_frame sk body_cap =
     (let (rc1, len_buf, sk1) = recv_all sk 4 [] in
      if rc1 < 0 then Some (None, sk1)
      else do {
        frame_len \<leftarrow> be32_at len_buf 0;
        if frame_len < 32 \<or> frame_len > 32 + body_cap then Some (None, sk1)
        else let (rc2, hdr, sk2) = recv_all sk1 WZCP_HEADER_SIZE [] in
        if rc2 < 0 then Some (None, sk2)
        else do {
          (urc, h) \<leftarrow> xsiam_wzcp_unpack_header hdr;
          if urc < 0 \<or> wh_body_len h \<noteq> frame_len - 32 then Some (None, sk2)
          else if 0 < wh_body_len h then
            if unat (wh_body_len h) > unat body_cap then None
            else let (rc3, body, sk3) = recv_all sk2 (unat (wh_body_len h)) [] in
            Some (if rc3 < 0 then None else Some (h, body), sk3)
          else Some (Some (h, []), sk2)
        }
      })"

section \<open>Message bodies\<close>

text \<open>
  \<open>put_string(out, out_cap, &off, value)\<close>. The length is cut to 16 bits before the bounds check
  and the check itself is 32-bit arithmetic. The result is the return code, the buffer and the
  offset.
\<close>

definition put_string ::
  "u32 \<Rightarrow> bytes option \<Rightarrow> bytes \<Rightarrow> u32 \<Rightarrow> (int \<times> bytes \<times> u32) option" where
  "put_string out_cap str out off =
     (let v = (case str of None \<Rightarrow> [] | Some v \<Rightarrow> v); len = (of_nat (length v) :: u16) in
      if off + 2 + ucast len > out_cap then Some (-1, out, off)
      else do {
        out1 \<leftarrow> poke out (unat off) (put_be16 len);
        if 0 < len then do {
          out2 \<leftarrow> poke out1 (unat (off + 2)) (take (unat len) v);
          Some (0, out2, off + 2 + ucast len)
        }
        else Some (0, out1, off + 2)
      })"

text \<open>The two length-prefixed 16-bit words that open a HELLO body.\<close>

definition put_schema :: "u16 \<Rightarrow> bytes \<Rightarrow> bytes option" where
  "put_schema v out = do {
     out1 \<leftarrow> poke out 0 (put_be16 v);
     poke out1 2 (put_be16 0)
   }"

definition xsiam_wzcp_build_hello ::
  "bytes \<Rightarrow> u32 \<Rightarrow> bytes option \<Rightarrow> bytes option \<Rightarrow> bytes option \<Rightarrow> (int \<times> bytes) option" where
  "xsiam_wzcp_build_hello out out_cap agent_id agent_name agent_version =
     (if out_cap < 4 then Some (-1, out)
      else do {
        out1 \<leftarrow> put_schema 1 out;
        (rc, out2, off) \<leftarrow>
          then_ok (put_string out_cap agent_id out1 4) (\<lambda>out off.
          then_ok (put_string out_cap agent_name out off) (\<lambda>out off.
          put_string out_cap agent_version out off));
        Some (if rc < 0 then -1 else int (unat off), out2)
      })"

text \<open>
  The loop over the comma-separated MAC addresses: leading blanks of a token are skipped, blank
  tokens are dropped, and at most 64 addresses are written.
\<close>

fun put_macs ::
  "u32 \<Rightarrow> bytes list \<Rightarrow> u16 \<Rightarrow> bytes \<Rightarrow> u32 \<Rightarrow> (int \<times> bytes \<times> u32 \<times> u16) option" where
  "put_macs out_cap [] count out off = Some (0, out, off, count)"
| "put_macs out_cap (item # items) count out off =
     (if count < 64 then
        let t = dropWhile (\<lambda>c. c = 32) item in
        if t \<noteq> [] then do {
          (rc, out', off') \<leftarrow> put_string out_cap (Some t) out off;
          if rc < 0 then Some (-1, out', off', count)
          else put_macs out_cap items (count + 1) out' off'
        }
        else put_macs out_cap items count out off
      else Some (0, out, off, count))"

definition put_mac_csv ::
  "u32 \<Rightarrow> bytes option \<Rightarrow> bytes \<Rightarrow> u32 \<Rightarrow> (int \<times> bytes \<times> u32) option" where
  "put_mac_csv out_cap csv out off =
     (case csv of
        Some (c # cs) \<Rightarrow>
          let buf = take 511 (c # cs) in
          if off + 2 > out_cap then Some (-1, out, off)
          else do {
            (rc, out1, off1, count) \<leftarrow> put_macs out_cap (comma_tokens buf) 0 out (off + 2);
            if rc < 0 then Some (-1, out1, off1)
            else do {
              out2 \<leftarrow> poke out1 (unat off) (put_be16 count);
              Some (0, out2, off1)
            }
          }
      | _ \<Rightarrow>
          if off + 2 > out_cap then Some (-1, out, off)
          else do {
            out1 \<leftarrow> poke out (unat off) (put_be16 0);
            Some (0, out1, off + 2)
          })"

definition xsiam_wzcp_build_hello_ex ::
  "bytes \<Rightarrow> u32 \<Rightarrow> bytes option \<Rightarrow> bytes option \<Rightarrow> bytes option \<Rightarrow> bytes option \<Rightarrow> bytes option
   \<Rightarrow> (int \<times> bytes) option" where
  "xsiam_wzcp_build_hello_ex out out_cap agent_id agent_name agent_version host_type macs =
     (if out_cap < 4 then Some (-1, out)
      else do {
        out1 \<leftarrow> put_schema 2 out;
        (rc, out2, off) \<leftarrow>
          then_ok (put_string out_cap agent_id out1 4) (\<lambda>out off.
          then_ok (put_string out_cap agent_name out off) (\<lambda>out off.
          then_ok (put_string out_cap agent_version out off) (\<lambda>out off.
          then_ok (put_string out_cap host_type out off) (\<lambda>out off.
          put_mac_csv out_cap macs out off))));
        Some (if rc < 0 then -1 else int (unat off), out2)
      })"

text \<open>\<open>++wzcp_seq\<close>, a wrapping 64-bit counter.\<close>

definition xsiam_wzcp_next_seq :: "u64 \<Rightarrow> u64 \<times> u64" where
  "xsiam_wzcp_next_seq wzcp_seq = (wzcp_seq + 1, wzcp_seq + 1)"

text \<open>
  \<open>payload_len\<close> is a \<open>size_t\<close>; the capacity check reserves 21 bytes in front of the payload, the
  body that follows writes 22. The result is the return code, the buffer and the sequence
  counter.
\<close>

definition xsiam_wzcp_build_event_batch ::
  "bytes \<Rightarrow> u32 \<Rightarrow> byte \<Rightarrow> bytes \<Rightarrow> u64 \<Rightarrow> u64 \<Rightarrow> (int \<times> bytes \<times> u64) option" where
  "xsiam_wzcp_build_event_batch out out_cap kind payload now_ms wzcp_seq =
     (if length payload > 0xffff \<or> unat out_cap < 21 + length payload then Some (-1, out, wzcp_seq)
      else do {
        out1 \<leftarrow> poke out 0 (put_be16 1);
        out2 \<leftarrow> poke out1 2 [kind];
        out3 \<leftarrow> poke out2 3 [0];
        out4 \<leftarrow> poke out3 4 (put_be64 now_ms);
        let (event_id, wzcp_seq') = xsiam_wzcp_next_seq wzcp_seq;
        out5 \<leftarrow> poke out4 12 (put_be64 event_id);
        out6 \<leftarrow> poke out5 20 (put_be16 (of_nat (length payload)));
        if 0 < length payload then do {
          out7 \<leftarrow> poke out6 22 payload;
          Some (22 + int (length payload), out7, wzcp_seq')
        }
        else Some (22, out6, wzcp_seq')
      })"

definition xsiam_wzcp_parse_ack :: "bytes \<Rightarrow> u32 \<Rightarrow> (int \<times> u64) option" where
  "xsiam_wzcp_parse_ack body body_len =
     (if body_len < 8 then Some (-1, 0)
      else do { s \<leftarrow> be64_at body 0; Some (0, s) })"

definition xsiam_wzcp_build_ack :: "bytes \<Rightarrow> u32 \<Rightarrow> u64 \<Rightarrow> (int \<times> bytes) option" where
  "xsiam_wzcp_build_ack out out_cap highest_seq =
     (if out_cap < 8 then Some (-1, out)
      else do { out' \<leftarrow> poke out 0 (put_be64 highest_seq); Some (8, out') })"

section \<open>Agent identity\<close>

record host =
  ho_env :: "string \<Rightarrow> bytes option"
  ho_uuid_file :: "bytes option"
  ho_uuid_writable :: bool
  ho_kernel_uuid :: "bytes option"
  ho_random :: bytes
  ho_nt_server :: bool
  ho_adapters :: "bytes list option"

definition xsiam_wzcp_enabled :: "host \<Rightarrow> bool" where
  "xsiam_wzcp_enabled ho \<longleftrightarrow> ho_env ho ''XSIAM_GATEWAY_PROTOCOL'' = Some (asc ''wzcp'')"

text \<open>\<open>fgets\<close> into 64 bytes: a line with its newline, cut to 63 bytes; nothing at end of file.\<close>

definition fgets :: "nat \<Rightarrow> bytes \<Rightarrow> bytes option" where
  "fgets out_size content =
     (if content = [] then None
      else let l = takeWhile (\<lambda>c. c \<noteq> 10) content
           in Some (take (out_size - 1) (if length l < length content then l @ [10] else l)))"

definition read_uuid_file :: "host \<Rightarrow> bytes option" where
  "read_uuid_file ho =
     (case ho_uuid_file ho of
        None \<Rightarrow> None
      | Some content \<Rightarrow>
          (case fgets 64 content of
             None \<Rightarrow> None
           | Some line \<Rightarrow>
               let s = takeWhile (\<lambda>c. c \<noteq> 13) (takeWhile (\<lambda>c. c \<noteq> 10) (cstr_of line))
               in if s = [] then None else Some s))"

definition write_uuid_file :: "host \<Rightarrow> bytes \<Rightarrow> host" where
  "write_uuid_file ho uuid =
     (if ho_uuid_writable ho then ho\<lparr>ho_uuid_file := Some (uuid @ [10])\<rparr> else ho)"

text \<open>
  \<open>generate_uuid\<close> into 64 bytes: the kernel's UUID where it can be read, otherwise 16 random
  bytes with the version and variant bits set. The first branch is absent on Windows
  (\<open>ho_kernel_uuid = None\<close>).
\<close>

definition generate_uuid :: "host \<Rightarrow> bytes" where
  "generate_uuid ho =
     (case ho_kernel_uuid ho of
        Some (c # cs) \<Rightarrow> takeWhile (\<lambda>c. c \<noteq> 10) (cstr_of (take 63 (c # cs)))
      | _ \<Rightarrow> uuid_text (uuid_v4_bits (ho_random ho)))"

text \<open>The static \<open>wzcp_agent_uuid\<close> is the empty string until the first call.\<close>

definition xsiam_wzcp_agent_uuid :: "host \<Rightarrow> bytes \<Rightarrow> bytes \<times> bytes \<times> host" where
  "xsiam_wzcp_agent_uuid ho cached =
     (if cached \<noteq> [] then (cached, cached, ho)
      else case ho_env ho ''XSIAM_AGENT_UUID'' of
        Some (c # cs) \<Rightarrow> (take 63 (c # cs), take 63 (c # cs), ho)
      | _ \<Rightarrow>
          (case read_uuid_file ho of
             Some u \<Rightarrow> (u, u, ho)
           | None \<Rightarrow> let u = generate_uuid ho in (u, u, write_uuid_file ho u)))"

definition xsiam_wzcp_host_type :: "host \<Rightarrow> bytes" where
  "xsiam_wzcp_host_type ho =
     (case ho_env ho ''XSIAM_HOST_TYPE'' of
        Some t \<Rightarrow>
          if t = asc ''server'' \<or> t = asc ''pc'' then t
          else if ho_nt_server ho then asc ''server'' else asc ''pc''
      | None \<Rightarrow> if ho_nt_server ho then asc ''server'' else asc ''pc'')"

text \<open>The \<open>AA:BB:CC:DD:EE:FF\<close> form of a 6-byte address.\<close>

fun mac_text :: "bytes \<Rightarrow> bytes" where
  "mac_text [] = []"
| "mac_text [b] = HEX2 b"
| "mac_text (b # bs) = HEX2 b @ 58 # mac_text bs"

text \<open>
  The loop over the adapters; \<open>out\<close> is the text so far. Adapters without a 6-byte address are
  skipped; the loop stops when a separator or an address no longer fits.
\<close>

fun collect_macs :: "nat \<Rightarrow> bytes list \<Rightarrow> bytes \<Rightarrow> bytes" where
  "collect_macs out_size [] out = out"
| "collect_macs out_size (a # as) out =
     (if length a \<noteq> 6 then collect_macs out_size as out
      else if 0 < length out \<and> out_size \<le> length out + 1 then out
      else let out1 = (if 0 < length out then out @ [44] else out) in
        if out_size \<le> length out1 + 17 then out1
        else collect_macs out_size as (out1 @ mac_text a))"

text \<open>
  \<open>ho_adapters\<close> is \<open>None\<close> when the adapter list could not be allocated, and empty where the
  system reports none, as on every host that is not Windows.
\<close>

definition xsiam_wzcp_collect_mac_addresses :: "host \<Rightarrow> nat \<Rightarrow> int \<times> bytes" where
  "xsiam_wzcp_collect_mac_addresses ho out_size =
     (if out_size = 0 then (-1, [])
      else case ho_adapters ho of
        None \<Rightarrow> (-1, [])
      | Some as \<Rightarrow> (0, collect_macs out_size as []))"

end
