(* ===== verification/Agent_Client.thy ===== *)
theory Agent_Client
  imports Wzcp Agent_State
begin

text \<open>
  The agent's side of a gateway connection: connecting and the HELLO handshake
  (\<^verbatim>\<open>agents/client-agent/start_agent.c\<close>), sending events (\<^verbatim>\<open>sendmsg.c\<close>), receiving frames, heartbeats
  and the reconnect loop (\<^verbatim>\<open>receiver.c\<close>). The branches for the classic encrypted protocol, taken
  when \<open>xsiam_wzcp_enabled\<close> is false, are not modelled.

  The outside world is in the state: \<open>ag_connects\<close> scripts the results of the coming connection
  attempts (a negative descriptor is a failure; when the script is used up every attempt fails),
  \<open>ag_clock\<close> the coming readings of the clock in milliseconds (when used up the clock stands
  still), \<open>ag_rand\<close> the results of \<open>rand\<close>. Name resolution is the parameter \<open>resolve\<close>.
\<close>

section \<open>State\<close>

record server =
  sv_rip :: bytes
  sv_port :: nat
  sv_udp :: bool
  sv_retry_interval :: nat

record agent =
  ag_host :: host
  ag_uuid :: bytes
  ag_seq :: u64
  ag_fd :: int
  ag_sock :: sock
  ag_servers :: "server list"
  ag_rip_id :: nat
  ag_key_id :: bytes
  ag_key_name :: "bytes option"
  ag_version :: bytes
  ag_stats :: agent_state
  ag_available_server :: nat
  ag_last_connection_time :: nat
  ag_connects :: "(int \<times> sock) list"
  ag_clock :: "nat list"
  ag_last_ms :: nat
  ag_rand :: "nat list"

text \<open>Reading the clock in milliseconds, as \<open>xsiam_wzcp_now_ms\<close> does, and in seconds.\<close>

definition now_ms :: "agent \<Rightarrow> nat \<times> agent" where
  "now_ms a =
     (case ag_clock a of
        [] \<Rightarrow> (ag_last_ms a, a)
      | t # ts \<Rightarrow> (t, a\<lparr>ag_clock := ts, ag_last_ms := t\<rparr>))"

definition time_now :: "agent \<Rightarrow> nat \<times> agent" where
  "time_now a = (let (t, a') = now_ms a in (t div 1000, a'))"

definition rand :: "agent \<Rightarrow> nat \<times> agent" where
  "rand a = (case ag_rand a of [] \<Rightarrow> (0, a) | r # rs \<Rightarrow> (r, a\<lparr>ag_rand := rs\<rparr>))"

definition update_stats :: "state_update \<Rightarrow> agent \<Rightarrow> agent" where
  "update_stats u a = a\<lparr>ag_stats := w_agentd_state_update u (ag_stats a)\<rparr>"

text \<open>
  One frame out on the connection, with the next sequence number of the process. The arguments
  of the call are evaluated before the clock is read.
\<close>

definition send_wzcp :: "byte \<Rightarrow> u32 \<Rightarrow> bytes \<Rightarrow> u32 \<Rightarrow> agent \<Rightarrow> (int \<times> agent) option" where
  "send_wzcp msg_type agent_id body body_len a =
     (let (seq, s') = xsiam_wzcp_next_seq (ag_seq a);
          (t, a1) = now_ms (a\<lparr>ag_seq := s'\<rparr>)
      in do {
        (rc, sk) \<leftarrow> xsiam_wzcp_send_frame (ag_sock a1) msg_type agent_id seq body body_len (of_nat t);
        Some (rc, a1\<lparr>ag_sock := sk\<rparr>) })"

section \<open>Connecting\<close>

text \<open>
  The address after a slash is used as it is, otherwise the host name is resolved. Any open
  connection is closed first. A server index outside the list is a fault.
\<close>

definition server_address :: "(bytes \<Rightarrow> bytes option) \<Rightarrow> bytes \<Rightarrow> bytes option" where
  "server_address resolve rip =
     (if 47 \<in> set rip then Some (tl (dropWhile (\<lambda>c. c \<noteq> 47) rip)) else resolve rip)"

definition connect_server :: "(bytes \<Rightarrow> bytes option) \<Rightarrow> nat \<Rightarrow> agent \<Rightarrow> (bool \<times> agent) option" where
  "connect_server resolve server_id a =
     (let a1 = (if 0 \<le> ag_fd a then a\<lparr>ag_fd := -1\<rparr> else a) in
      if \<not> server_id < length (ag_servers a1) then None
      else
        case server_address resolve (sv_rip (ag_servers a1 ! server_id)) of
             None \<Rightarrow> Some (False, a1)
           | Some ip \<Rightarrow>
               if ip = [] then Some (False, a1)
               else case ag_connects a1 of
                 [] \<Rightarrow> Some (False, a1\<lparr>ag_fd := -1\<rparr>)
               | (fd, sk) # cs \<Rightarrow>
                   if fd < 0 then Some (False, a1\<lparr>ag_connects := cs, ag_fd := -1\<rparr>)
                   else
                     let a2 = a1\<lparr>ag_connects := cs, ag_fd := fd, ag_sock := sk, ag_rip_id := server_id\<rparr>;
                         (t, a3) = time_now a2
                     in Some (True, a3\<lparr>ag_last_connection_time := t\<rparr>))"

text \<open>
  The handshake: connect, send HELLO, wait for an ACK. \<open>greet\<close> is the part after the connection is
  up, and \<open>await_ack\<close> the part after HELLO is out. The two buffers on the stack are filled with zeros here; only what was written to them is
  used.
\<close>

definition await_ack :: "agent \<Rightarrow> (bool \<times> agent) option" where
  "await_ack a3 = do {
     (reply, sk) \<leftarrow> xsiam_wzcp_recv_frame (ag_sock a3) 1024;
     let a4 = a3\<lparr>ag_sock := sk\<rparr>;
     case reply of
       None \<Rightarrow> Some (False, a4)
     | Some (header, rbody) \<Rightarrow>
         if wh_msg_type header \<noteq> MSG_ACK then Some (False, a4)
         else do {
           (prc, ack_seq) \<leftarrow> xsiam_wzcp_parse_ack rbody (wh_body_len header);
           if prc < 0 then Some (False, a4)
           else
             let (t, a5) = time_now a4 in
             Some (True, update_stats (UPDATE_ACK (Some t)) (a5\<lparr>ag_available_server := t\<rparr>))
         }
   }"

definition greet :: "agent \<Rightarrow> (bool \<times> agent) option" where
  "greet a1 = do {
     let (agent_id, uuid', ho') = xsiam_wzcp_agent_uuid (ag_host a1) (ag_uuid a1);
     let a2 = a1\<lparr>ag_uuid := uuid', ag_host := ho'\<rparr>;
     let agent_name = (case ag_key_name a2 of Some n \<Rightarrow> n | None \<Rightarrow> asc ''unknown'');
     let host_type = xsiam_wzcp_host_type (ag_host a2);
     let mac_addresses = snd (xsiam_wzcp_collect_mac_addresses (ag_host a2) 512);
     (body_len, body) \<leftarrow> xsiam_wzcp_build_hello_ex (replicate 2048 0) 2048 (Some agent_id)
       (Some agent_name) (Some (ag_version a2)) (Some host_type) (Some mac_addresses);
     if body_len < 0 then Some (False, a2)
     else do {
       (rc, a3) \<leftarrow> send_wzcp MSG_HELLO (atoi agent_id) body (word_of_int body_len) a2;
       if rc < 0 then Some (False, a3) else await_ack a3
     }
   }"

definition wzcp_handshake_to_gateway ::
  "(bytes \<Rightarrow> bytes option) \<Rightarrow> nat \<Rightarrow> agent \<Rightarrow> (bool \<times> agent) option" where
  "wzcp_handshake_to_gateway resolve server_id a = do {
     (connected, a1) \<leftarrow> connect_server resolve server_id a;
     if \<not> connected then Some (False, a1) else greet a1
   }"

text \<open>
  The endless loop over the configured gateways, from the current one on and around the list.
  \<open>None\<close> is a loop that never ends (or a fault).
\<close>

definition next_server :: "agent \<Rightarrow> nat \<Rightarrow> nat" where
  "next_server a current = (if current + 1 < length (ag_servers a) then current + 1 else 0)"

partial_function (option) handshake_loop ::
  "(bytes \<Rightarrow> bytes option) \<Rightarrow> nat \<Rightarrow> agent \<Rightarrow> agent option" where
  "handshake_loop resolve current a =
     Option.bind (wzcp_handshake_to_gateway resolve current a) (\<lambda>r.
       if fst r then Some (snd r) else handshake_loop resolve (next_server (snd r) current) (snd r))"

definition start_agent :: "(bytes \<Rightarrow> bytes option) \<Rightarrow> agent \<Rightarrow> agent option" where
  "start_agent resolve a = handshake_loop resolve (ag_rip_id a) a"

section \<open>Sending\<close>

text \<open>
  \<open>send_msg(msg, msg_length)\<close> with WZCP enabled: \<open>msg\<close> is the memory behind the pointer, a negative
  length means a NUL-terminated string. The body buffer has \<open>OS_MAXSTR + 128\<close> bytes.
\<close>

definition send_msg :: "bytes \<Rightarrow> int \<Rightarrow> agent \<Rightarrow> (int \<times> agent) option" where
  "send_msg msg msg_length a =
     (let plain_len = (if msg_length < 0 then length (cstr_of msg) else nat msg_length);
          (t, a1) = now_ms a
      in do {
        payload \<leftarrow> peek msg 0 plain_len;
        (body_len, body, seq') \<leftarrow> xsiam_wzcp_build_event_batch (replicate (OS_MAXSTR + 128) 0)
          (of_nat (OS_MAXSTR + 128)) EVENT_LOG payload (of_nat t) (ag_seq a1);
        let a2 = a1\<lparr>ag_seq := seq'\<rparr>;
        if body_len < 0 then Some (-1, a2)
        else do {
          (retval, a3) \<leftarrow> send_wzcp MSG_EVENT_BATCH (atoi (ag_key_id a2)) body (word_of_int body_len) a2;
          if retval = 0 then Some (retval, update_stats INCREMENT_MSG_SEND a3) else Some (retval, a3)
        }
      })"

section \<open>Receiving\<close>

text \<open>One frame from the gateway. The body of a control message is terminated for the log.\<close>

definition receive_msg :: "agent \<Rightarrow> (int \<times> agent) option" where
  "receive_msg a = do {
     (frame, sk) \<leftarrow> xsiam_wzcp_recv_frame (ag_sock a) 2048;
     let a1 = a\<lparr>ag_sock := sk\<rparr>;
     case frame of
       None \<Rightarrow> Some (-1, a1)
     | Some (header, body) \<Rightarrow>
         if wh_msg_type header = MSG_ACK then do {
           (rc, ack_seq) \<leftarrow> xsiam_wzcp_parse_ack body (wh_body_len header);
           if rc = 0 then
             let (t, a2) = time_now a1 in
             Some (0, update_stats (UPDATE_ACK (Some t)) (a2\<lparr>ag_available_server := t\<rparr>))
           else Some (0, a1)
         }
         else if wh_msg_type header = MSG_HEARTBEAT then do {
           (ack_len, ack) \<leftarrow> xsiam_wzcp_build_ack (replicate 8 0) 8 (wh_seq header);
           if 0 < ack_len then do {
             (rc, a2) \<leftarrow> send_wzcp MSG_ACK (atoi (ag_key_id a1)) ack (word_of_int ack_len) a1;
             Some (0, a2)
           }
           else Some (0, a1)
         }
         else if wh_msg_type header = MSG_CONTROL \<and> 0 < wh_body_len header then do {
           _ \<leftarrow> poke (body @ replicate (2048 - length body) 0)
                  (if unat (wh_body_len header) < 2048 then unat (wh_body_len header) else 2047) [0];
           Some (0, a1)
         }
         else Some (0, a1)
   }"

section \<open>Heartbeats and reconnecting\<close>

definition wzcp_next_heartbeat_interval :: "agent \<Rightarrow> nat \<times> agent" where
  "wzcp_next_heartbeat_interval a = (let (r, a') = rand a in (30 + r mod 91, a'))"

definition wzcp_schedule_heartbeat :: "agent \<Rightarrow> nat \<times> agent" where
  "wzcp_schedule_heartbeat a =
     (let (t, a1) = time_now a; (i, a2) = wzcp_next_heartbeat_interval a1 in (t + i, a2))"

text \<open>The result is the return code, \<open>next_heartbeat\<close>, \<open>last_sock\<close> and the agent.\<close>

definition wzcp_send_heartbeat_if_due ::
  "nat \<Rightarrow> int \<Rightarrow> agent \<Rightarrow> (int \<times> nat \<times> int \<times> agent) option" where
  "wzcp_send_heartbeat_if_due next_heartbeat last_sock a =
     (if \<not> xsiam_wzcp_enabled (ag_host a) \<or> ag_fd a = -1 then Some (0, 0, -1, a)
      else if last_sock \<noteq> ag_fd a \<or> next_heartbeat = 0 then
        let (n, a1) = wzcp_schedule_heartbeat a in Some (0, n, ag_fd a, a1)
      else let (now, a1) = time_now a in
        if now < next_heartbeat then Some (0, next_heartbeat, last_sock, a1)
        else do {
          (rc, a2) \<leftarrow> send_wzcp MSG_HEARTBEAT (atoi (ag_key_id a1)) [] 0 a1;
          if rc < 0 then Some (-1, next_heartbeat, last_sock, a2)
          else let (n, a3) = wzcp_schedule_heartbeat a2 in Some (0, n, last_sock, a3)
        })"

text \<open>The recovery after a lost connection: mark it, run the handshake loop, mark it active.\<close>

definition reconnect :: "(bytes \<Rightarrow> bytes option) \<Rightarrow> agent \<Rightarrow> agent option" where
  "reconnect resolve a = do {
     a1 \<leftarrow> start_agent resolve (update_stats (UPDATE_STATUS GA_STATUS_NACTIVE) a);
     Some (update_stats (UPDATE_STATUS GA_STATUS_ACTIVE) a1) }"

end
