(* ===== verification/Wzcp_Frames.thy ===== *)
theory Wzcp_Frames
  imports Wzcp
begin

text \<open>
  Framing facts of the agent library: what \<open>send_all\<close>, \<open>recv_all\<close>, \<open>xsiam_wzcp_send_frame\<close> and
  \<open>xsiam_wzcp_recv_frame\<close> do for every pattern of short reads, short writes and failures.
\<close>

section \<open>The byte loops\<close>

lemma send_all_outcome:
  "send_all sk buf = (rc, sk') \<Longrightarrow>
   \<exists>k. only_writes sk (take k buf) sk' \<and> (rc = 0 \<and> k = length buf \<or> rc = -1 \<and> k < length buf)"
proof (induction sk buf arbitrary: rc sk' rule: send_all.induct)
  case (1 sk buf)
  show ?case
  proof (cases "buf = []")
    case True
    with "1.prems" show ?thesis by (subst (asm) send_all.simps) auto
  next
    case False
    obtain r sk1 where s: "send sk buf = (r, sk1)" by (cases "send sk buf")
    show ?thesis
    proof (cases "r \<le> 0")
      case True
      with False s "1.prems" have "rc = -1" "sk' = sk1" by (subst (asm) send_all.simps, simp)+
      then show ?thesis
        using send_failed [OF s True] False by (intro exI [of _ 0]) (simp add: only_writes_def)
    next
      case ok: False
      with False s "1.prems" have "send_all sk1 (drop (nat r) buf) = (rc, sk')"
        by (subst (asm) send_all.simps) simp
      from "1.IH" [OF False s [symmetric] _ this] ok
      obtain k where k: "only_writes sk1 (take k (drop (nat r) buf)) sk'"
        "rc = 0 \<and> k = length (drop (nat r) buf) \<or> rc = -1 \<and> k < length (drop (nat r) buf)" by auto
      have w: "only_writes sk (take (nat r) buf) sk1"
        using send_positive [OF s _ False] ok by (simp add: only_writes_def)
      have "nat r \<le> length buf" using send_positive [OF s _ False] ok by simp
      then show ?thesis
        using only_writes_trans [OF w k(1)] k(2)
        by (intro exI [of _ "nat r + k"]) (auto simp: take_add)
    qed
  qed
qed

lemma send_all_unscripted:
  "sk_wr sk = [] \<Longrightarrow> send_all sk buf = (0, sk\<lparr>sk_out := sk_out sk @ buf\<rparr>)"
proof (cases "buf = []")
  case False
  assume "sk_wr sk = []"
  with False show ?thesis
    by (subst send_all.simps) (simp add: send_unscripted, subst send_all.simps, simp)
qed (subst send_all.simps, simp)

lemma recv_all_outcome:
  "recv_all sk n got = (rc, bs, sk') \<Longrightarrow>
   sk_out sk' = sk_out sk \<and> sk_wr sk' = sk_wr sk \<and>
   (rc = 0 \<and> n \<le> length (sk_in sk) \<and> bs = got @ take n (sk_in sk) \<and> sk_in sk' = drop n (sk_in sk) \<or> rc = -1)"
proof (induction sk n got arbitrary: rc bs sk' rule: recv_all.induct)
  case (1 sk n got)
  show ?case
  proof (cases "n = 0")
    case True
    with "1.prems" show ?thesis by (subst (asm) recv_all.simps) auto
  next
    case False
    obtain r b1 sk1 where s: "recv sk n = (r, b1, sk1)" by (cases "recv sk n")
    note fc = recv_frame_conditions [OF s]
    show ?thesis
    proof (cases "r \<le> 0")
      case True
      with False s "1.prems" fc show ?thesis by (subst (asm) recv_all.simps) auto
    next
      case ok: False
      with False s "1.prems" have rest: "recv_all sk1 (n - nat r) (got @ b1) = (rc, bs, sk')"
        by (subst (asm) recv_all.simps) simp
      note p = recv_positive [OF s]
      have len: "length b1 = nat r" "nat r \<le> n" "sk_in sk = b1 @ sk_in sk1" using p ok by auto
      from "1.IH" [OF False s [symmetric] refl _ rest] ok fc(1,2) len show ?thesis
        by (auto simp: take_append)
    qed
  qed
qed

lemma recv_all_unscripted:
  "sk_rd sk = [] \<Longrightarrow> n \<le> length (sk_in sk) \<Longrightarrow>
   recv_all sk n got = (0, got @ take n (sk_in sk), sk\<lparr>sk_in := drop n (sk_in sk)\<rparr>)"
proof (cases "n = 0")
  case False
  assume "sk_rd sk = []" "n \<le> length (sk_in sk)"
  moreover then have "recv sk n = (int n, take n (sk_in sk), sk\<lparr>sk_in := drop n (sk_in sk)\<rparr>)"
    by (simp add: recv_def Let_def)
  ultimately show ?thesis
    using False by (subst recv_all.simps) (simp, subst recv_all.simps, simp)
qed (subst recv_all.simps, simp)

section \<open>Whole frames\<close>

text \<open>A frame on the wire, and the header that the sender puts in it.\<close>

definition sent_header :: "byte \<Rightarrow> u32 \<Rightarrow> u64 \<Rightarrow> u64 \<Rightarrow> u32 \<Rightarrow> wzcp_header" where
  "sent_header msg_type agent_id seq ts body_len =
     \<lparr>wh_magic = WZCP_MAGIC, wh_version = WZCP_VERSION, wh_header_len = 32, wh_flags = 0,
      wh_msg_type = msg_type, wh_agent_id = agent_id, wh_seq = seq, wh_timestamp_ms = ts,
      wh_body_len = body_len\<rparr>"

definition frame_of :: "wzcp_header \<Rightarrow> bytes \<Rightarrow> bytes" where
  "frame_of h body = put_be32 (32 + wh_body_len h) @ xsiam_wzcp_pack_header h @ body"

lemma length_frame_of [simp]: "length (frame_of h body) = 36 + length body"
  by (simp add: frame_of_def)

text \<open>
  Sending: with a body of the stated length the call never faults. It returns 0 exactly when
  the whole frame went out; otherwise it returns -1 and a proper prefix of the frame went out.
\<close>

lemma send_frame_outcome:
  fixes ty :: byte and aid body_len :: u32 and sq ts :: u64 and body :: bytes
  assumes "unat body_len \<le> length body" "unat body_len \<le> WZCP_MAX_FRAME"
  defines "fr \<equiv> frame_of (sent_header ty aid sq ts body_len) (take (unat body_len) body)"
  shows "\<exists>rc sk' k. xsiam_wzcp_send_frame sk ty aid sq body body_len ts = Some (rc, sk') \<and>
     only_writes sk (take k fr) sk' \<and> (rc = 0 \<and> k = length fr \<or> rc = -1 \<and> k < length fr)"
proof -
  let ?l = "put_be32 (32 + body_len)" and ?h = "xsiam_wzcp_pack_header (sent_header ty aid sq ts body_len)"
  let ?b = "take (unat body_len) body"
  have fr: "fr = ?l @ ?h @ ?b" by (simp add: fr_def frame_of_def sent_header_def)
  have pk: "peek body 0 (unat body_len) = Some ?b" using assms(1) by (simp add: peek_def)
  obtain r1 s1 where s1: "send_all sk ?l = (r1, s1)" by (cases "send_all sk ?l")
  obtain r2 s2 where s2: "send_all s1 ?h = (r2, s2)" by (cases "send_all s1 ?h")
  obtain r3 s3 where s3: "send_all s2 ?b = (r3, s3)" by (cases "send_all s2 ?b")
  obtain k1 where k1: "only_writes sk (take k1 ?l) s1" "r1 = 0 \<and> k1 = length ?l \<or> r1 = -1 \<and> k1 < length ?l"
    using send_all_outcome [OF s1] by blast
  obtain k2 where k2: "only_writes s1 (take k2 ?h) s2" "r2 = 0 \<and> k2 = length ?h \<or> r2 = -1 \<and> k2 < length ?h"
    using send_all_outcome [OF s2] by blast
  obtain k3 where k3: "only_writes s2 (take k3 ?b) s3" "r3 = 0 \<and> k3 = length ?b \<or> r3 = -1 \<and> k3 < length ?b"
    using send_all_outcome [OF s3] by blast
  have big: "\<not> unat body_len > WZCP_MAX_FRAME" using assms(2) by simp
  note def = xsiam_wzcp_send_frame_def [of sk ty aid sq body body_len ts, folded sent_header_def]
  consider "r1 < 0" | "r1 = 0" "r2 < 0" | "r1 = 0" "r2 = 0" using k1 k2 by linarith
  then show ?thesis
  proof cases
    case 1
    then show ?thesis
      using k1 s1 big fr by (intro exI [of _ "-1"] exI [of _ s1] exI [of _ k1])
        (simp add: def Let_def)
  next
    case 2
    then show ?thesis
      using only_writes_trans [OF k1(1) k2(1)] k1 k2 s1 s2 big fr
      by (intro exI [of _ "-1"] exI [of _ s2] exI [of _ "4 + k2"]) (simp add: def Let_def)
  next
    case 3
    note w = only_writes_trans [OF k1(1) only_writes_trans [OF k2(1) k3(1)]]
    show ?thesis
    proof (cases "0 < body_len")
      case True
      then show ?thesis
        using 3 w k1 k2 k3 s1 s2 s3 big fr pk
        by (intro exI [of _ r3] exI [of _ s3] exI [of _ "36 + k3"]) (auto simp: def Let_def)
    next
      case False
      then have "body_len = 0" by (simp add: word_gt_0)
      then have "fr = ?l @ ?h" "length fr = 36" using fr by simp_all
      then show ?thesis
        using 3 False only_writes_trans [OF k1(1) k2(1)] k1 k2 s1 s2 big
        by (intro exI [of _ 0] exI [of _ s2] exI [of _ 36]) (simp add: def Let_def)
    qed
  qed
qed

lemma send_frame_unscripted:
  assumes "unat body_len = length body" "unat body_len \<le> WZCP_MAX_FRAME" "sk_wr sk = []"
  shows "xsiam_wzcp_send_frame sk ty aid sq body body_len ts =
     Some (0, sk\<lparr>sk_out := sk_out sk @ frame_of (sent_header ty aid sq ts body_len) body\<rparr>)"
proof (cases "0 < body_len")
  case True
  then show ?thesis
    using assms by (simp add: xsiam_wzcp_send_frame_def send_all_unscripted peek_def Let_def
        frame_of_def sent_header_def)
next
  case False
  then have "body_len = 0" by (simp add: word_gt_0)
  with assms(1) have "body = []" by simp
  then show ?thesis
    using assms False by (simp add: xsiam_wzcp_send_frame_def send_all_unscripted Let_def
        frame_of_def sent_header_def)
qed

text \<open>
  Receiving: for every peer, whatever bytes it sends, \<open>xsiam_wzcp_recv_frame\<close> never overruns the
  body buffer, and when it delivers a header and a body then exactly that valid frame was at the
  front of the stream.
\<close>

lemma read_header_sound:
  assumes "read_header buf 0 = Some h" "length buf = WZCP_HEADER_SIZE"
  shows "buf = xsiam_wzcp_pack_header h"
proof -
  have nth4: "take 4 (drop 4 buf) = [buf ! 4, buf ! 5, buf ! 6, buf ! 7]"
    using assms(2) by (simp add: list_eq_iff_nth_eq less_Suc_eq numeral_eq_Suc nth_append nth_Cons')
  have w: "wh_magic h = get_be32 (take 4 buf)" "wh_version h = buf ! 4" "wh_header_len h = buf ! 5"
      "wh_flags h = buf ! 6" "wh_msg_type h = buf ! 7" "wh_agent_id h = get_be32 (take 4 (drop 8 buf))"
      "wh_seq h = get_be64 (take 8 (drop 12 buf))" "wh_timestamp_ms h = get_be64 (take 8 (drop 20 buf))"
      "wh_body_len h = get_be32 (take 4 (drop 28 buf))"
    using assms by (auto simp: read_header_def be_at_in_bounds byte_at_def)
  have "xsiam_wzcp_pack_header h =
      take 4 buf @ take 4 (drop 4 buf) @ take 4 (drop 8 buf) @ take 8 (drop 12 buf) @
      take 8 (drop 20 buf) @ take 4 (drop 28 buf)"
    using assms(2) by (simp add: xsiam_wzcp_pack_header_def w nth4 be32.enc_dec be64.enc_dec)
  also have "\<dots> = take 32 buf"
    using assms(2) by (simp add: take_add [symmetric] flip: append_assoc)
  finally show ?thesis using assms(2) by simp
qed

lemma recv_frame_outcome:
  assumes "unat body_cap + 32 < 2 ^ 32"
  shows "\<exists>r sk'. xsiam_wzcp_recv_frame sk body_cap = Some (r, sk') \<and>
     sk_out sk' = sk_out sk \<and>
     (case r of None \<Rightarrow> True
      | Some (h, body) \<Rightarrow> header_ok h \<and> unat (wh_body_len h) = length body \<and>
          length body \<le> unat body_cap \<and> sk_in sk = frame_of h body @ sk_in sk')"
proof -
  obtain r1 lb s1 where 1: "recv_all sk 4 [] = (r1, lb, s1)" by (cases "recv_all sk 4 []")
  note o1 = recv_all_outcome [OF 1]
  show ?thesis
  proof (cases "r1 < 0")
    case True
    with 1 o1 show ?thesis by (simp add: xsiam_wzcp_recv_frame_def)
  next
    case ok1: False
    with o1 have lb: "length lb = 4" "sk_in sk = lb @ sk_in s1" by auto
    define fl where "fl = get_be32 lb"
    have fl: "be32_at lb 0 = Some fl" "put_be32 fl = lb"
      using lb by (simp_all add: fl_def be_at_in_bounds be32.enc_dec)
    obtain r2 hb s2 where 2: "recv_all s1 WZCP_HEADER_SIZE [] = (r2, hb, s2)"
      by (cases "recv_all s1 WZCP_HEADER_SIZE []")
    note o2 = recv_all_outcome [OF 2]
    show ?thesis
    proof (cases "fl < 32 \<or> fl > 32 + body_cap \<or> r2 < 0")
      case True
      with 1 o1 ok1 fl 2 o2 show ?thesis by (auto simp: xsiam_wzcp_recv_frame_def Let_def)
    next
      case ok2: False
      with o2 have hb: "length hb = WZCP_HEADER_SIZE" "sk_in s1 = hb @ sk_in s2" by auto
      obtain h where h: "read_header hb 0 = Some h"
        using read_header_in_bounds [of 0 hb] hb by auto
      have hbp: "hb = xsiam_wzcp_pack_header h" using read_header_sound h hb by blast
      show ?thesis
      proof (cases "header_ok h \<and> wh_body_len h = fl - 32")
        case False
        with 1 o1 ok1 fl ok2 2 o2 h show ?thesis
          by (auto simp: xsiam_wzcp_recv_frame_def xsiam_wzcp_unpack_header_def Let_def)
      next
        case True
        then have hok: "header_ok h" and bl: "wh_body_len h = fl - 32" by auto
        have fle: "32 + wh_body_len h = fl" using bl by simp
        have cap: "unat (wh_body_len h) \<le> unat body_cap"
          using ok2 assms unat_plus_small [of 32 body_cap] bl
          by (simp add: not_less word_le_nat_alt unat_minus_small) linarith
        let ?n = "unat (wh_body_len h)"
        obtain r3 bd s3 where 3: "recv_all s2 ?n [] = (r3, bd, s3)" by (cases "recv_all s2 ?n []")
        note o3 = recv_all_outcome [OF 3]
        have run: "xsiam_wzcp_recv_frame sk body_cap =
            (if 0 < wh_body_len h then Some (if r3 < 0 then None else Some (h, bd), s3)
             else Some (Some (h, []), s2))"
          using 1 ok1 fl ok2 2 h True cap 3
          by (simp add: xsiam_wzcp_recv_frame_def xsiam_wzcp_unpack_header_def)
        show ?thesis
        proof (cases "0 < wh_body_len h")
          case pos: True
          show ?thesis
            using run pos o1 o2 o3 hok cap lb(2) hb(2) fl(2) hbp fle
            by (cases "r3 < 0") (auto simp: frame_of_def)
        next
          case False
          then have "wh_body_len h = 0" by (simp add: word_gt_0)
          then show ?thesis
            using run o1 o2 hok lb(2) hb(2) fl(2) hbp fle by (auto simp: frame_of_def)
        qed
      qed
    qed
  qed
qed

text \<open>Receiving a frame that the peer sent delivers its header and body, and nothing more.\<close>

lemma recv_frame_delivers:
  assumes "header_ok h" "unat (wh_body_len h) = length body" "length body \<le> unat body_cap"
    and "unat body_cap + 32 < 2 ^ 32" "sk_in sk = frame_of h body @ rest" "sk_rd sk = []"
  shows "xsiam_wzcp_recv_frame sk body_cap = Some (Some (h, body), sk\<lparr>sk_in := rest\<rparr>)"
proof -
  let ?fl = "32 + wh_body_len h"
  have u: "unat ?fl = 32 + unat (wh_body_len h)" "unat (32 + body_cap) = 32 + unat body_cap"
    using assms by (simp_all add: unat_plus_small)
  have 1: "recv_all sk 4 [] = (0, put_be32 ?fl, sk\<lparr>sk_in := xsiam_wzcp_pack_header h @ body @ rest\<rparr>)"
    using assms by (simp add: recv_all_unscripted frame_of_def)
  have 2: "recv_all (sk\<lparr>sk_in := xsiam_wzcp_pack_header h @ body @ rest\<rparr>) WZCP_HEADER_SIZE [] =
      (0, xsiam_wzcp_pack_header h, sk\<lparr>sk_in := body @ rest\<rparr>)"
    using assms by (simp add: recv_all_unscripted)
  have 3: "recv_all (sk\<lparr>sk_in := body @ rest\<rparr>) (unat (wh_body_len h)) [] = (0, body, sk\<lparr>sk_in := rest\<rparr>)"
    using assms by (simp add: recv_all_unscripted)
  have fl: "be32_at (put_be32 ?fl) 0 = Some ?fl"
    using be_at_hit(2) [of 0 "[]" ?fl "[]"] by simp
  have h: "read_header (xsiam_wzcp_pack_header h) 0 = Some h"
    using read_packed_header [of 0 "[]" h "[]"] by simp
  have rng: "\<not> (?fl < 32 \<or> ?fl > 32 + body_cap)"
    using u assms by (simp add: word_less_nat_alt)
  show ?thesis
  proof (cases "0 < wh_body_len h")
    case True
    then show ?thesis
      using 1 2 3 fl h rng assms by (simp add: xsiam_wzcp_recv_frame_def xsiam_wzcp_unpack_header_def)
  next
    case False
    then have "body = []" using assms(2) by (simp add: word_gt_0)
    then show ?thesis
      using 1 2 fl h rng assms(1) False
      by (simp add: xsiam_wzcp_recv_frame_def xsiam_wzcp_unpack_header_def)
  qed
qed

lemma header_ok_sent: "unat body_len \<le> WZCP_MAX_FRAME \<Longrightarrow> header_ok (sent_header ty aid sq ts body_len)"
  by (simp add: header_ok_def sent_header_def)

end
