(* ===== verification/Wzcp_Bodies.thy ===== *)
theory Wzcp_Bodies
  imports Wzcp
begin

text \<open>
  The message bodies that the agent library builds, as byte strings: what the builders write into
  the caller's buffer, when they refuse, and that they stay inside it.
\<close>

section \<open>Writing into a bounded buffer\<close>

text \<open>
  \<open>emits cap m out off xs\<close>: the computation \<open>m\<close>, started on buffer \<open>out\<close> at offset \<open>off\<close>, does
  not fault; it returns 0 with \<open>xs\<close> written at \<open>off\<close> exactly when \<open>xs\<close> fits below \<open>cap\<close>, and
  returns -1 otherwise. Bytes before \<open>off\<close> are kept.
\<close>

definition emits :: "u32 \<Rightarrow> (int \<times> bytes \<times> u32) option \<Rightarrow> bytes \<Rightarrow> u32 \<Rightarrow> bytes \<Rightarrow> bool" where
  "emits cap m out off xs \<longleftrightarrow>
     (\<exists>rc out' off'. m = Some (rc, out', off') \<and> length out' = length out \<and>
        (if unat off + length xs \<le> unat cap
         then rc = 0 \<and> unat off' = unat off + length xs \<and> take (unat off') out' = take (unat off) out @ xs
         else rc = -1))"

text \<open>
  The buffer really has \<open>cap\<close> bytes, and \<open>cap\<close> is far enough below \<open>2 ^ 32\<close> for the bounds
  checks not to wrap.
\<close>

definition room :: "bytes \<Rightarrow> u32 \<Rightarrow> bool" where
  "room out cap \<longleftrightarrow> unat cap \<le> length out \<and> unat cap + 65538 \<le> 2 ^ 32"

lemma emits_then:
  assumes "emits cap m out off xs"
    and "\<And>out' off'. length out' = length out \<Longrightarrow> unat off' = unat off + length xs \<Longrightarrow>
      off' \<le> cap \<Longrightarrow> emits cap (g out' off') out' off' ys"
  shows "emits cap (then_ok m g) out off (xs @ ys)"
proof -
  obtain rc out' off' where m: "m = Some (rc, out', off')" "length out' = length out"
    and c: "if unat off + length xs \<le> unat cap
         then rc = 0 \<and> unat off' = unat off + length xs \<and> take (unat off') out' = take (unat off) out @ xs
         else rc = -1"
    using assms(1) by (auto simp: emits_def)
  show ?thesis
  proof (cases "unat off + length xs \<le> unat cap")
    case True
    with c have o: "rc = 0" "unat off' = unat off + length xs"
        "take (unat off') out' = take (unat off) out @ xs" by auto
    with True have "off' \<le> cap" by (simp add: word_le_nat_alt)
    from assms(2) [OF m(2) o(2) this] m o show ?thesis
      by (auto simp: emits_def split: if_splits)
  next
    case False
    with m c show ?thesis by (auto simp: emits_def)
  qed
qed

lemma emits_poke:
  assumes "room out cap" "off \<le> cap" "length xs = 2"
  shows "emits cap (if off + 2 > cap then Some (-1, out, off)
      else do { out1 \<leftarrow> poke out (unat off) xs; Some (0, out1, off + 2) }) out off xs"
proof -
  have o2: "unat (off + 2) = unat off + 2"
    using assms by (intro unat_plus_small [THEN trans]) (auto simp: room_def word_le_nat_alt)
  show ?thesis
  proof (cases "off + 2 > cap")
    case True
    with o2 assms show ?thesis by (simp add: emits_def word_less_nat_alt)
  next
    case False
    with o2 have le: "unat off + 2 \<le> unat cap" by (simp add: not_less word_le_nat_alt)
    then obtain out1 where p: "poke out (unat off) xs = Some out1"
      using assms by (auto simp: room_def mem_simps)
    show ?thesis
      using False p le o2 length_poke [OF p] take_poke [OF p] assms(3) by (simp add: emits_def)
  qed
qed

section \<open>Strings\<close>

text \<open>A length-prefixed string of the protocol.\<close>

definition str16 :: "bytes \<Rightarrow> bytes" where
  "str16 v = put_be16 (of_nat (length v)) @ v"

lemma length_str16 [simp]: "length (str16 v) = length v + 2"
  by (simp add: str16_def)

definition opt_str :: "bytes option \<Rightarrow> bytes" where
  "opt_str v = (case v of None \<Rightarrow> [] | Some s \<Rightarrow> s)"

lemma put_string_emits:
  assumes "room out cap" "off \<le> cap" "length (opt_str w) < 65536"
  shows "emits cap (put_string cap w out off) out off (str16 (opt_str w))"
proof -
  let ?v = "opt_str w" and ?len = "of_nat (length (opt_str w)) :: u16"
  have ul: "unat ?len = length ?v" using assms(3) by (simp add: unat_of_nat_small)
  have uu: "unat (ucast ?len :: u32) = length ?v" using ul by (simp add: unat_ucast_up)
  have o2: "unat (off + 2) = unat off + 2"
    using assms by (intro unat_plus_small [THEN trans]) (auto simp: room_def word_le_nat_alt)
  have o3: "unat (off + 2 + ucast ?len) = unat off + 2 + length ?v"
    using assms o2 uu by (intro unat_plus_small [THEN trans]) (auto simp: room_def word_le_nat_alt)
  note def = put_string_def [of cap w out off, folded opt_str_def]
  show ?thesis
  proof (cases "off + 2 + ucast ?len > cap")
    case True
    with o3 show ?thesis by (simp add: emits_def def word_less_nat_alt Let_def)
  next
    case False
    with o3 have le: "unat off + 2 + length ?v \<le> unat cap" by (simp add: not_less word_le_nat_alt)
    have fit: "unat cap \<le> length out" using assms(1) by (simp add: room_def)
    obtain out1 where p1: "poke out (unat off) (put_be16 ?len) = Some out1"
      using le fit by (auto simp: mem_simps)
    have l1: "length out1 = length out" by (rule length_poke [OF p1])
    have t1: "take (unat off + 2) out1 = take (unat off) out @ put_be16 ?len"
      using take_poke [OF p1] by simp
    obtain out2 where p2: "poke out1 (unat off + 2) ?v = Some out2"
      using le fit l1 by (auto simp: mem_simps)
    have t2: "take (unat off + 2 + length ?v) out2 = take (unat off) out @ put_be16 ?len @ ?v"
      using take_poke [OF p2] t1 by simp
    show ?thesis
    proof (cases "0 < ?len")
      case True
      with False p1 p2 o2 ul have "put_string cap w out off = Some (0, out2, off + 2 + ucast ?len)"
        by (simp add: def)
      with le o3 t2 l1 length_poke [OF p2] show ?thesis by (simp add: emits_def str16_def)
    next
      case False
      then have z: "?len = 0" by (simp add: word_gt_0)
      then have "?v = []" using ul by simp
      with \<open>\<not> off + 2 + ucast ?len > cap\<close> False p1 o2 z
      have "put_string cap w out off = Some (0, out1, off + 2)"
        by (simp add: def)
      with le o2 t1 l1 \<open>?v = []\<close> show ?thesis by (simp add: emits_def str16_def)
    qed
  qed
qed

section \<open>MAC address lists\<close>

text \<open>The addresses that the loop writes: blank-stripped, non-empty, at most 64.\<close>

definition mac_items :: "bytes list \<Rightarrow> bytes list" where
  "mac_items ts = filter (\<lambda>t. t \<noteq> []) (map (dropWhile (\<lambda>c. c = 32)) ts)"

definition macs_of_csv :: "bytes option \<Rightarrow> bytes list" where
  "macs_of_csv csv = take 64 (mac_items (comma_tokens (take 511 (opt_str csv))))"

definition mac_list :: "bytes list \<Rightarrow> bytes" where
  "mac_list ms = put_be16 (of_nat (length ms)) @ concat (map str16 ms)"

lemma mac_items_simps:
  "mac_items [] = []"
  "mac_items (t # ts) =
     (if dropWhile (\<lambda>c. c = 32) t = [] then mac_items ts
      else dropWhile (\<lambda>c. c = 32) t # mac_items ts)"
  by (simp_all add: mac_items_def)

text \<open>As \<open>emits\<close>, for a loop that writes the strings \<open>ms\<close> and counts them.\<close>

definition emits_macs ::
  "u32 \<Rightarrow> (int \<times> bytes \<times> u32 \<times> u16) option \<Rightarrow> bytes \<Rightarrow> u32 \<Rightarrow> u16 \<Rightarrow> bytes list \<Rightarrow> bool" where
  "emits_macs cap m out off count ms \<longleftrightarrow>
     (\<exists>rc out' off' count'. m = Some (rc, out', off', count') \<and> length out' = length out \<and>
        (if unat off + length (concat (map str16 ms)) \<le> unat cap
         then rc = 0 \<and> unat off' = unat off + length (concat (map str16 ms)) \<and>
              take (unat off') out' = take (unat off) out @ concat (map str16 ms) \<and>
              unat count' = unat count + length ms
         else rc = -1))"

lemma emits_macs_Nil: "off \<le> cap \<Longrightarrow> emits_macs cap (Some (0, out, off, count)) out off count []"
  by (simp add: emits_macs_def word_le_nat_alt)

lemma emits_macs_Cons:
  assumes s: "emits cap (put_string cap (Some t) out off) out off (str16 t)"
    and c: "unat (count + 1) = unat count + 1"
    and r: "\<And>out' off'. length out' = length out \<Longrightarrow> off' \<le> cap \<Longrightarrow>
       put_string cap (Some t) out off = Some (0, out', off') \<Longrightarrow>
       emits_macs cap (g out' off') out' off' (count + 1) ms"
  shows "emits_macs cap (do { (rc, out', off') \<leftarrow> put_string cap (Some t) out off;
       if rc < 0 then Some (-1, out', off', count) else g out' off' }) out off count (t # ms)"
proof (cases "unat off + length (str16 t) \<le> unat cap")
  case False
  with s show ?thesis by (auto simp: emits_def emits_macs_def)
next
  case True
  with s obtain out1 off1 where p: "put_string cap (Some t) out off = Some (0, out1, off1)"
      "length out1 = length out" "unat off1 = unat off + length (str16 t)"
      "take (unat off1) out1 = take (unat off) out @ str16 t"
    by (auto simp: emits_def)
  with True have "off1 \<le> cap" by (simp add: word_le_nat_alt)
  from r [OF p(2) this p(1)] obtain rc out' off' count' where
      q: "g out1 off1 = Some (rc, out', off', count')" "length out' = length out1"
        "if unat off1 + length (concat (map str16 ms)) \<le> unat cap
         then rc = 0 \<and> unat off' = unat off1 + length (concat (map str16 ms)) \<and>
              take (unat off') out' = take (unat off1) out1 @ concat (map str16 ms) \<and>
              unat count' = unat (count + 1) + length ms
         else rc = -1"
    unfolding emits_macs_def by blast
  then show ?thesis
    using p(2-4) c by (auto simp: emits_macs_def p(1) q(1) split: if_splits)
qed

lemma put_macs_emits:
  assumes "room out cap" "off \<le> cap" "unat count \<le> 64" "\<forall>t \<in> set items. length t < 65536"
  shows "emits_macs cap (put_macs cap items count out off) out off count
           (take (64 - unat count) (mac_items items))"
  using assms
proof (induction items arbitrary: count out off)
  case Nil
  then show ?case by (simp add: emits_macs_Nil mac_items_simps)
next
  case (Cons item items)
  let ?t = "dropWhile (\<lambda>c. c = 32) item"
  show ?case
  proof (cases "count < 64")
    case False
    with Cons.prems have "unat count = 64" by (simp add: not_less word_le_nat_alt)
    with False Cons.prems show ?thesis by (simp add: emits_macs_Nil)
  next
    case lt: True
    then have c1: "unat (count + 1) = unat count + 1" "unat count < 64"
      by (simp_all add: word_less_nat_alt unat_plus_small)
    have tl: "\<forall>t\<in>set items. length t < 65536" using Cons.prems(4) by simp
    show ?thesis
    proof (cases "?t = []")
      case True
      with lt have same: "put_macs cap (item # items) count out off = put_macs cap items count out off"
          "mac_items (item # items) = mac_items items" by (simp_all add: mac_items_simps)
      from Cons.IH [OF Cons.prems(1-3) tl] show ?thesis unfolding same .
    next
      case ne: False
      have "length (opt_str (Some ?t)) < 65536"
        using Cons.prems(4) length_dropWhile_le [of "\<lambda>c. c = 32" item] by (simp add: opt_str_def)
      from put_string_emits [OF Cons.prems(1,2) this]
      have s: "emits cap (put_string cap (Some ?t) out off) out off (str16 ?t)" by (simp add: opt_str_def)
      have items: "take (64 - unat count) (mac_items (item # items)) =
          ?t # take (64 - unat (count + 1)) (mac_items items)"
      proof -
        obtain k where k: "64 - unat count = Suc k" "64 - unat (count + 1) = k"
          using c1 by (metis Suc_diff_Suc Suc_eq_plus1)
        have "mac_items (item # items) = ?t # mac_items items" using ne by (simp only: mac_items_simps if_False)
        then show ?thesis unfolding k by (simp only: take_Suc_Cons)
      qed
      have step: "put_macs cap (item # items) count out off =
          do { (rc, out', off') \<leftarrow> put_string cap (Some ?t) out off;
               if rc < 0 then Some (-1, out', off', count) else put_macs cap items (count + 1) out' off' }"
        using lt ne by (simp only: put_macs.simps Let_def if_True simp_thms)
      show ?thesis unfolding items step
        using Cons.prems(1) c1 tl
        by (intro emits_macs_Cons [OF s c1(1)] Cons.IH) (auto simp: room_def)
    qed
  qed
qed

lemma put_mac_csv_emits:
  assumes "room out cap" "off \<le> cap"
  shows "emits cap (put_mac_csv cap csv out off) out off (mac_list (macs_of_csv csv))"
proof (cases "opt_str csv")
  case Nil
  then have "macs_of_csv csv = []"
    by (simp add: macs_of_csv_def mac_items_simps comma_tokens_def)
  moreover have "put_mac_csv cap csv out off = (if off + 2 > cap then Some (-1, out, off)
      else do { out1 \<leftarrow> poke out (unat off) (put_be16 0); Some (0, out1, off + 2) })"
    using Nil by (auto simp: put_mac_csv_def opt_str_def split: option.splits)
  ultimately show ?thesis
    using emits_poke [OF assms, of "put_be16 0"] by (simp add: mac_list_def)
next
  case (Cons c cs)
  then have csv: "csv = Some (c # cs)" by (auto simp: opt_str_def split: option.splits)
  let ?items = "comma_tokens (take 511 (c # cs))"
  let ?ms = "macs_of_csv csv"
  have o2: "unat (off + 2) = unat off + 2"
    using assms by (intro unat_plus_small [THEN trans]) (auto simp: room_def word_le_nat_alt)
  show ?thesis
  proof (cases "off + 2 > cap")
    case True
    then show ?thesis using o2 by (simp add: csv put_mac_csv_def emits_def mac_list_def word_less_nat_alt)
  next
    case False
    have "\<forall>t \<in> set ?items. length t < 65536"
      using length_comma_tokens_from [of _ "[]" "take 511 (c # cs)"] by (fastforce simp: comma_tokens_def)
    then have "emits_macs cap (put_macs cap ?items 0 out (off + 2)) out (off + 2) 0 ?ms"
      using put_macs_emits [of out cap "off + 2" 0 ?items] assms(1) False
      by (simp add: macs_of_csv_def csv opt_str_def not_less)
    then obtain rc out1 off1 count where
      q: "put_macs cap ?items 0 out (off + 2) = Some (rc, out1, off1, count)" "length out1 = length out"
        and c: "if unat off + 2 + length (concat (map str16 ?ms)) \<le> unat cap
         then rc = 0 \<and> unat off1 = unat off + 2 + length (concat (map str16 ?ms)) \<and>
              take (unat off1) out1 = take (unat off + 2) out @ concat (map str16 ?ms) \<and>
              unat count = length ?ms
         else rc = -1"
      unfolding emits_macs_def o2 unsigned_0 add_0 by blast
    show ?thesis
    proof (cases "unat off + 2 + length (concat (map str16 ?ms)) \<le> unat cap")
      case False
      with c q \<open>\<not> off + 2 > cap\<close> show ?thesis
        by (simp add: emits_def csv put_mac_csv_def mac_list_def Let_def)
    next
      case True
      with c have d: "rc = 0" "unat off1 = unat off + 2 + length (concat (map str16 ?ms))"
          "take (unat off1) out1 = take (unat off + 2) out @ concat (map str16 ?ms)" "unat count = length ?ms"
        by auto
      have fit: "unat off + 2 \<le> length out" using True assms(1) by (simp add: room_def)
      then obtain out2 where p: "poke out1 (unat off) (put_be16 count) = Some out2"
        using q(2) by (auto simp: mem_simps)
      have cnt: "count = of_nat (length ?ms)" by (simp flip: d(4))
      have "take (unat off1) out2 = take (unat off) out1 @ put_be16 count @ drop (unat off + 2) (take (unat off1) out1)"
        using take_poke_inside [OF p, of "unat off1"] d(2) by simp
      moreover have "take (unat off) out1 = take (unat off) (take (unat off1) out1)"
        using d(2) by (simp add: min_def)
      ultimately have "take (unat off1) out2 = take (unat off) out @ mac_list ?ms"
        using fit by (simp add: d(3) mac_list_def cnt)
      then show ?thesis
        using q p d True \<open>\<not> off + 2 > cap\<close> length_poke [OF p]
        by (simp add: emits_def csv put_mac_csv_def mac_list_def Let_def)
    qed
  qed
qed

section \<open>HELLO\<close>

text \<open>
  The body of a HELLO: a schema number, a reserved word, the strings, and in the extended form
  the host type and the list of MAC addresses.
\<close>

definition hello_body :: "bytes option \<Rightarrow> bytes option \<Rightarrow> bytes option \<Rightarrow> bytes" where
  "hello_body agent_id agent_name agent_version =
     put_be16 1 @ put_be16 0 @ str16 (opt_str agent_id) @ str16 (opt_str agent_name) @
     str16 (opt_str agent_version)"

definition hello_ex_body ::
  "bytes option \<Rightarrow> bytes option \<Rightarrow> bytes option \<Rightarrow> bytes option \<Rightarrow> bytes option \<Rightarrow> bytes" where
  "hello_ex_body agent_id agent_name agent_version host_type macs =
     put_be16 2 @ put_be16 0 @ str16 (opt_str agent_id) @ str16 (opt_str agent_name) @
     str16 (opt_str agent_version) @ str16 (opt_str host_type) @ mac_list (macs_of_csv macs)"

text \<open>The outcome that every body builder has: the body if it fits, otherwise -1; never a fault.\<close>

definition builds_body :: "bytes \<Rightarrow> u32 \<Rightarrow> (int \<times> bytes) option \<Rightarrow> bytes \<Rightarrow> bool" where
  "builds_body out cap m body \<longleftrightarrow>
     (\<exists>rc out'. m = Some (rc, out') \<and> length out' = length out \<and>
        (if length body \<le> unat cap then rc = int (length body) \<and> take (length body) out' = body
         else rc = -1))"

lemma builds_after_schema:
  assumes r: "room out cap" and e: "\<And>out1. room out1 cap \<Longrightarrow> 4 \<le> cap \<Longrightarrow> emits cap (m out1) out1 4 xs"
  shows "builds_body out cap
     (if cap < 4 then Some (-1, out)
      else do {
        out1 \<leftarrow> put_schema v out;
        (rc, out2, off) \<leftarrow> m out1;
        Some (if rc < 0 then -1 else int (unat off), out2)
      }) (put_be16 v @ put_be16 0 @ xs)"
proof (cases "cap < 4")
  case True
  then show ?thesis by (simp add: builds_body_def word_less_nat_alt)
next
  case False
  then have c4: "4 \<le> cap" "4 \<le> length out" using r by (auto simp: room_def word_less_nat_alt word_le_nat_alt)
  then obtain o1 where p1: "poke out 0 (put_be16 v) = Some o1" by (auto simp: mem_simps)
  then obtain o2 where p2: "poke o1 2 (put_be16 0) = Some o2"
    using c4 length_poke [OF p1] by (auto simp: mem_simps)
  have l2: "length o2 = length out" using length_poke [OF p1] length_poke [OF p2] by simp
  have "take 2 o1 = put_be16 v" using take_poke [OF p1] by (simp add: numeral_2_eq_2)
  then have t2: "take 4 o2 = put_be16 v @ put_be16 0" using take_poke [OF p2] by simp
  from l2 r have r2: "room o2 cap" by (simp add: room_def)
  have u4: "unat (4 :: u32) = 4" by simp
  from e [OF r2 c4(1)] obtain rc out' off' where q: "m o2 = Some (rc, out', off')" "length out' = length out"
    and c: "if 4 + length xs \<le> unat cap
        then rc = 0 \<and> unat off' = 4 + length xs \<and> take (unat off') out' = take 4 o2 @ xs else rc = -1"
    using l2 u4 unfolding emits_def by (metis (no_types, lifting))
  have "length (put_be16 v @ put_be16 0 @ xs) = 4 + length xs" by simp
  then show ?thesis
    unfolding builds_body_def using False p1 p2 q c t2
    by (auto simp add: put_schema_def simp del: of_nat_unat length_append split: if_splits)
qed

lemma emits_weaken_then:
  assumes "room out cap" "emits cap m out off xs"
    and "\<And>out' off'. room out' cap \<Longrightarrow> off' \<le> cap \<Longrightarrow> emits cap (g out' off') out' off' ys"
  shows "emits cap (then_ok m g) out off (xs @ ys)"
  using assms by (intro emits_then) (auto simp: room_def)

lemma build_hello_builds:
  assumes "room out cap"
    and "length (opt_str agent_id) < 65536" "length (opt_str agent_name) < 65536"
      "length (opt_str agent_version) < 65536"
  shows "builds_body out cap (xsiam_wzcp_build_hello out cap agent_id agent_name agent_version)
     (hello_body agent_id agent_name agent_version)"
  unfolding xsiam_wzcp_build_hello_def hello_body_def
  by (intro builds_after_schema emits_weaken_then put_string_emits assms)

lemma build_hello_ex_builds:
  assumes "room out cap"
    and "length (opt_str agent_id) < 65536" "length (opt_str agent_name) < 65536"
      "length (opt_str agent_version) < 65536" "length (opt_str host_type) < 65536"
  shows "builds_body out cap
     (xsiam_wzcp_build_hello_ex out cap agent_id agent_name agent_version host_type macs)
     (hello_ex_body agent_id agent_name agent_version host_type macs)"
  unfolding xsiam_wzcp_build_hello_ex_def hello_ex_body_def
  by (intro builds_after_schema emits_weaken_then put_string_emits put_mac_csv_emits assms)

section \<open>EVENT_BATCH and ACK\<close>

definition event_body :: "byte \<Rightarrow> bytes \<Rightarrow> u64 \<Rightarrow> u64 \<Rightarrow> bytes" where
  "event_body kind payload now_ms event_id =
     put_be16 1 @ [kind, 0] @ put_be64 now_ms @ put_be64 event_id @
     put_be16 (of_nat (length payload)) @ payload"

lemma length_event_body [simp]: "length (event_body kind payload now_ms event_id) = 22 + length payload"
  by (simp add: event_body_def)

lemma event_batch_writes:
  assumes "22 + length payload \<le> length out" "21 + length payload \<le> unat cap" "length payload \<le> 0xffff"
  shows "\<exists>out'. xsiam_wzcp_build_event_batch out cap kind payload now_ms seq =
       Some (22 + int (length payload), out', seq + 1) \<and> length out' = length out \<and>
     take (22 + length payload) out' = event_body kind payload now_ms (seq + 1)"
proof -
  obtain o1 where p1: "poke out 0 (put_be16 1) = Some o1" using assms by (auto simp: mem_simps)
  note l1 = length_poke [OF p1]
  obtain o2 where p2: "poke o1 2 [kind] = Some o2" using assms l1 by (auto simp: mem_simps)
  note l2 = length_poke [OF p2]
  obtain o3 where p3: "poke o2 3 [0] = Some o3" using assms l1 l2 by (auto simp: mem_simps)
  note l3 = length_poke [OF p3]
  obtain o4 where p4: "poke o3 4 (put_be64 now_ms) = Some o4" using assms l1 l2 l3 by (auto simp: mem_simps)
  note l4 = length_poke [OF p4]
  obtain o5 where p5: "poke o4 12 (put_be64 (seq + 1)) = Some o5"
    using assms l1 l2 l3 l4 by (auto simp: mem_simps)
  note l5 = length_poke [OF p5]
  obtain o6 where p6: "poke o5 20 (put_be16 (of_nat (length payload))) = Some o6"
    using assms l1 l2 l3 l4 l5 by (auto simp: mem_simps)
  note l6 = length_poke [OF p6]
  obtain o7 where p7: "poke o6 22 payload = Some o7" using assms l1 l2 l3 l4 l5 l6 by (auto simp: mem_simps)
  note l7 = length_poke [OF p7]
  have t1: "take 2 o1 = put_be16 1" using take_poke [OF p1] by (simp add: numeral_2_eq_2)
  have "take 22 o6 = put_be16 1 @ [kind, 0] @ put_be64 now_ms @ put_be64 (seq + 1) @
      put_be16 (of_nat (length payload))"
    using t1 take_poke [OF p2] take_poke [OF p3] take_poke [OF p4] take_poke [OF p5]
      take_poke [OF p6] by simp
  then have t7: "take (22 + length payload) o7 = event_body kind payload now_ms (seq + 1)"
    using take_poke [OF p7] by (simp add: event_body_def)
  have same: "payload = [] \<Longrightarrow> o7 = o6" using p7 by (auto simp: poke_def split: if_splits)
  show ?thesis
    using assms p1 p2 p3 p4 p5 p6 p7 t7 same l1 l2 l3 l4 l5 l6 l7
    by (auto simp: xsiam_wzcp_build_event_batch_def xsiam_wzcp_next_seq_def)
qed

text \<open>
  With a buffer of exactly \<open>21 + payload_len\<close> bytes the check passes and the write is one byte
  past the end.
\<close>

lemma event_batch_overruns:
  assumes "length out = 21 + length payload" "unat cap = 21 + length payload" "length payload \<le> 0xffff"
  shows "xsiam_wzcp_build_event_batch out cap kind payload now_ms seq = None"
  using assms by (cases "payload = []")
    (auto simp: xsiam_wzcp_build_event_batch_def xsiam_wzcp_next_seq_def poke_def split: Option.bind_splits)

lemma ack_roundtrip:
  assumes "unat cap \<le> length out" "8 \<le> cap"
  shows "\<exists>out'. xsiam_wzcp_build_ack out cap s = Some (8, out') \<and>
     xsiam_wzcp_parse_ack out' 8 = Some (0, s)"
proof -
  from assms obtain out' where p: "poke out 0 (put_be64 s) = Some out'"
    by (auto simp: mem_simps word_le_nat_alt)
  then have "out' = put_be64 s @ drop 8 out" by (auto simp: poke_def split: if_splits)
  then have "be64_at out' 0 = Some s" using be_at_hit(3) [of 0 "[]" s "drop 8 out"] by simp
  with p assms(2) show ?thesis
    by (auto simp: xsiam_wzcp_build_ack_def xsiam_wzcp_parse_ack_def not_less)
qed

section \<open>Agent identity\<close>

lemma cstring_read_uuid_file: "read_uuid_file ho = Some u \<Longrightarrow> u \<noteq> [] \<and> length u \<le> 63 \<and> cstring u"
proof -
  assume "read_uuid_file ho = Some u"
  then obtain c l where f: "fgets 64 c = Some l"
    and u: "u = takeWhile (\<lambda>c. c \<noteq> 13) (takeWhile (\<lambda>c. c \<noteq> 10) (cstr_of l))" "u \<noteq> []"
    by (auto simp: read_uuid_file_def Let_def split: option.splits if_splits)
  have "length l \<le> 63" using f by (auto simp: fgets_def Let_def split: if_splits)
  moreover have "length u \<le> length l"
    unfolding u(1) by (meson length_cstr_of_le length_takeWhile_le order_trans)
  moreover have "cstring u" unfolding u(1)
    by (metis (no_types, lifting) cstring_cstr_of cstring_def set_takeWhileD)
  ultimately show ?thesis using u(2) by simp
qed

text \<open>Once cached, the identity never changes and no environment is consulted.\<close>

lemma agent_uuid_cached: "cached \<noteq> [] \<Longrightarrow> xsiam_wzcp_agent_uuid ho cached = (cached, cached, ho)"
  by (simp add: xsiam_wzcp_agent_uuid_def)

text \<open>An identity that survived a write to the file reads back from it.\<close>

lemma read_written_uuid:
  assumes "ho_uuid_writable ho" "u \<noteq> []" "length u \<le> 63" "cstring u" "10 \<notin> set u" "13 \<notin> set u"
  shows "read_uuid_file (write_uuid_file ho u) = Some u"
proof -
  have t10: "takeWhile (\<lambda>c. c \<noteq> 10) (u @ [10]) = u" using assms(5) by (intro takeWhile_append_stop) auto
  have f: "fgets 64 (u @ [10]) = Some (take 63 (u @ [10]))" unfolding fgets_def t10 by simp
  have s: "takeWhile (\<lambda>c. c \<noteq> 10) (cstr_of (take 63 (u @ [10]))) = u"
  proof (cases "length u = 63")
    case True
    with assms(4,5) show ?thesis by (auto simp: takeWhile_eq_all_conv)
  next
    case False
    with assms(3) have "take 63 (u @ [10]) = u @ [10]" by simp
    with t10 assms(4) show ?thesis by simp
  qed
  have r: "takeWhile (\<lambda>c. c \<noteq> 13) u = u" using assms(6) by (auto simp: takeWhile_eq_all_conv)
  have c: "ho_uuid_file (write_uuid_file ho u) = Some (u @ [10])" using assms(1) by (simp add: write_uuid_file_def)
  show ?thesis
    unfolding read_uuid_file_def c option.case f s Let_def r using assms(2) by simp
qed

end
