(* ===== verification/Agent_Client_Lemmas.thy ===== *)
theory Agent_Client_Lemmas
  imports Agent_Client Wzcp_Frames Wzcp_Bodies
begin

text \<open>
  What the client operations do to the connection: every one of them is free of faults for every
  behaviour of the socket, and what they put on the wire is a whole frame or a prefix of one.
\<close>

section \<open>Frame conditions\<close>

lemma now_ms_frame:
  assumes "now_ms a = (t, a')"
  shows "ag_host a' = ag_host a" "ag_uuid a' = ag_uuid a" "ag_seq a' = ag_seq a" "ag_fd a' = ag_fd a"
    "ag_sock a' = ag_sock a" "ag_servers a' = ag_servers a" "ag_rip_id a' = ag_rip_id a"
    "ag_key_id a' = ag_key_id a" "ag_key_name a' = ag_key_name a" "ag_version a' = ag_version a"
    "ag_stats a' = ag_stats a" "ag_connects a' = ag_connects a" "ag_rand a' = ag_rand a"
  using assms by (auto simp: now_ms_def split: list.splits)

lemma time_now_frame:
  assumes "time_now a = (t, a')"
  shows "ag_host a' = ag_host a" "ag_uuid a' = ag_uuid a" "ag_seq a' = ag_seq a" "ag_fd a' = ag_fd a"
    "ag_sock a' = ag_sock a" "ag_servers a' = ag_servers a" "ag_rip_id a' = ag_rip_id a"
    "ag_key_id a' = ag_key_id a" "ag_key_name a' = ag_key_name a" "ag_version a' = ag_version a"
    "ag_stats a' = ag_stats a" "ag_connects a' = ag_connects a" "ag_rand a' = ag_rand a"
  using assms now_ms_frame [of a] by (auto simp: time_now_def Let_def split: prod.splits)

text \<open>
  \<open>sends a a' fr rc\<close>: of the frame \<open>fr\<close> a prefix went out, all of it exactly when \<open>rc\<close> is 0.
\<close>

definition sends :: "agent \<Rightarrow> agent \<Rightarrow> bytes \<Rightarrow> int \<Rightarrow> bool" where
  "sends a a' fr rc \<longleftrightarrow>
     (\<exists>k. only_writes (ag_sock a) (take k fr) (ag_sock a') \<and>
        (rc = 0 \<and> k = length fr \<or> rc = -1 \<and> k < length fr))"

lemma send_wzcp_outcome:
  assumes "unat body_len \<le> length body" "unat body_len \<le> WZCP_MAX_FRAME"
  shows "\<exists>rc a' ts. send_wzcp ty aid body body_len a = Some (rc, a') \<and>
     sends a a' (frame_of (sent_header ty aid (ag_seq a + 1) ts body_len) (take (unat body_len) body)) rc \<and>
     ag_seq a' = ag_seq a + 1 \<and> ag_fd a' = ag_fd a \<and> ag_stats a' = ag_stats a \<and>
     ag_key_id a' = ag_key_id a \<and> ag_servers a' = ag_servers a \<and> ag_connects a' = ag_connects a"
proof -
  obtain t a1 where t: "now_ms (a\<lparr>ag_seq := ag_seq a + 1\<rparr>) = (t, a1)" by force
  note f = now_ms_frame [OF t]
  obtain rc sk k where s: "xsiam_wzcp_send_frame (ag_sock a1) ty aid (ag_seq a + 1) body body_len (of_nat t) = Some (rc, sk)"
      "only_writes (ag_sock a1) (take k (frame_of (sent_header ty aid (ag_seq a + 1) (of_nat t) body_len) (take (unat body_len) body))) sk"
      "rc = 0 \<and> k = length (frame_of (sent_header ty aid (ag_seq a + 1) (of_nat t) body_len) (take (unat body_len) body)) \<or>
       rc = -1 \<and> k < length (frame_of (sent_header ty aid (ag_seq a + 1) (of_nat t) body_len) (take (unat body_len) body))"
    using send_frame_outcome [OF assms, of "ag_sock a1" ty aid "ag_seq a + 1" "of_nat t"] by blast
  have "send_wzcp ty aid body body_len a = Some (rc, a1\<lparr>ag_sock := sk\<rparr>)"
    using t s(1) by (simp add: send_wzcp_def xsiam_wzcp_next_seq_def Let_def)
  moreover have "sends a (a1\<lparr>ag_sock := sk\<rparr>) (frame_of (sent_header ty aid (ag_seq a + 1) (of_nat t) body_len) (take (unat body_len) body)) rc"
    unfolding sends_def using s(2,3) f by (intro exI [of _ k]) simp
  ultimately show ?thesis using f by auto
qed

section \<open>Sending events\<close>

lemma maxstr_room: "OS_MAXSTR + 128 = 65664" "unat (of_nat (OS_MAXSTR + 128) :: u32) = 65664"
  by (simp_all add: OS_MAXSTR_def)

text \<open>
  The body of an event fits the buffer of \<open>send_msg\<close> with room to spare, so the one byte that the
  builder's capacity check misses is never written out of bounds here.
\<close>

lemma send_msg_outcome:
  assumes "length msg \<le> 0xffff" "cstring msg"
  shows "\<exists>rc a' t ts. send_msg msg (-1) a = Some (rc, a') \<and>
     sends a a' (frame_of (sent_header MSG_EVENT_BATCH (atoi (ag_key_id a)) (ag_seq a + 2) ts (of_nat (22 + length msg)))
                  (event_body EVENT_LOG msg t (ag_seq a + 1))) rc \<and>
     ag_seq a' = ag_seq a + 2 \<and>
     ag_stats a' = (if rc = 0 then w_agentd_state_update INCREMENT_MSG_SEND (ag_stats a) else ag_stats a)"
proof -
  obtain t a1 where t: "now_ms a = (t, a1)" by force
  note f = now_ms_frame [OF t]
  have pk: "peek msg 0 (length (cstr_of msg)) = Some msg" using assms(2) by (simp add: peek_def)
  obtain body where b: "xsiam_wzcp_build_event_batch (replicate (OS_MAXSTR + 128) 0) (of_nat (OS_MAXSTR + 128))
        EVENT_LOG msg (of_nat t) (ag_seq a1) = Some (22 + int (length msg), body, ag_seq a1 + 1)"
      "length body = 65664" "take (22 + length msg) body = event_body EVENT_LOG msg (of_nat t) (ag_seq a1 + 1)"
    using event_batch_writes [of msg "replicate (OS_MAXSTR + 128) 0" "of_nat (OS_MAXSTR + 128)" EVENT_LOG "of_nat t" "ag_seq a1"]
      assms(1) maxstr_room by auto
  define a2 where "a2 = a1\<lparr>ag_seq := ag_seq a1 + 1\<rparr>"
  let ?bl = "word_of_int (22 + int (length msg)) :: u32"
  have bl: "?bl = of_nat (22 + length msg)" by simp
  have ubl: "unat ?bl = 22 + length msg" unfolding bl using assms(1) by (intro unat_of_nat_small) simp
  obtain rc a3 ts where s: "send_wzcp MSG_EVENT_BATCH (atoi (ag_key_id a2)) body ?bl a2 = Some (rc, a3)"
      "sends a2 a3 (frame_of (sent_header MSG_EVENT_BATCH (atoi (ag_key_id a2)) (ag_seq a2 + 1) ts ?bl) (take (unat ?bl) body)) rc"
      "ag_seq a3 = ag_seq a2 + 1" "ag_stats a3 = ag_stats a2"
    using send_wzcp_outcome [of ?bl body MSG_EVENT_BATCH "atoi (ag_key_id a2)" a2] ubl b(2) assms(1)
    by (auto simp: WZCP_MAX_FRAME_def)
  define a4 where "a4 = (if rc = 0 then update_stats INCREMENT_MSG_SEND a3 else a3)"
  have r: "send_msg msg (-1) a = Some (rc, a4)"
    using t pk b(1) s(1) unfolding send_msg_def Let_def
    by (simp add: a2_def a4_def)
  have keep: "ag_sock a2 = ag_sock a" "ag_key_id a2 = ag_key_id a" "ag_seq a2 = ag_seq a + 1" "ag_stats a2 = ag_stats a"
    using f by (simp_all add: a2_def)
  have "sends a a4 (frame_of (sent_header MSG_EVENT_BATCH (atoi (ag_key_id a)) (ag_seq a + 2) ts (of_nat (22 + length msg)))
      (event_body EVENT_LOG msg (of_nat t) (ag_seq a + 1))) rc"
  proof -
    have "take (unat ?bl) body = event_body EVENT_LOG msg (of_nat t) (ag_seq a + 1)"
      unfolding ubl b(3) f(3) ..
    moreover have "ag_seq a2 + 1 = ag_seq a + 2" "ag_sock a4 = ag_sock a3"
      by (simp_all add: keep(3) a4_def update_stats_def)
    ultimately show ?thesis
      using s(2) unfolding sends_def keep(1,2) bl by (simp only:)
  qed
  moreover have "ag_seq a4 = ag_seq a + 2"
      "ag_stats a4 = (if rc = 0 then w_agentd_state_update INCREMENT_MSG_SEND (ag_stats a) else ag_stats a)"
    using s(3,4) keep by (simp_all add: a4_def update_stats_def)
  ultimately show ?thesis using r by blast
qed

lemma send_msg_too_long:
  assumes "0xffff < length msg" "cstring msg"
  shows "\<exists>a'. send_msg msg (-1) a = Some (-1, a') \<and> ag_sock a' = ag_sock a \<and> ag_stats a' = ag_stats a"
proof -
  obtain t a1 where t: "now_ms a = (t, a1)" by force
  note f = now_ms_frame [OF t]
  have "peek msg 0 (length (cstr_of msg)) = Some msg" using assms(2) by (simp add: peek_def)
  with t assms f show ?thesis by (simp add: send_msg_def xsiam_wzcp_build_event_batch_def)
qed

section \<open>Receiving\<close>

lemma parse_ack_total: "unat n \<le> length body \<Longrightarrow> \<exists>rc s. xsiam_wzcp_parse_ack body n = Some (rc, s)"
  by (auto simp: xsiam_wzcp_parse_ack_def be_at_in_bounds not_less word_le_nat_alt)

lemma build_ack_total: "\<exists>ack. xsiam_wzcp_build_ack (replicate 8 0) 8 s = Some (8, ack) \<and> ack = put_be64 s"
  by (simp add: xsiam_wzcp_build_ack_def poke_def)

lemma receive_msg_total: "\<exists>rc a'. receive_msg a = Some (rc, a')"
proof -
  obtain r sk where r: "xsiam_wzcp_recv_frame (ag_sock a) 2048 = Some (r, sk)"
      "case r of None \<Rightarrow> True | Some (h, body) \<Rightarrow> unat (wh_body_len h) = length body \<and> length body \<le> 2048"
    using recv_frame_outcome [of 2048 "ag_sock a"] by (auto split: option.splits)
  show ?thesis
  proof (cases r)
    case None
    with r show ?thesis by (simp add: receive_msg_def)
  next
    case (Some hb)
    obtain h body where hb: "hb = (h, body)" by force
    with Some r have l: "unat (wh_body_len h) = length body" "length body \<le> 2048" by auto
    let ?a1 = "a\<lparr>ag_sock := sk\<rparr>"
    obtain rc s where p: "xsiam_wzcp_parse_ack body (wh_body_len h) = Some (rc, s)"
      using parse_ack_total [of "wh_body_len h" body] l by auto
    obtain rc2 a2 where q: "send_wzcp MSG_ACK (atoi (ag_key_id ?a1)) (put_be64 (wh_seq h)) (word_of_int 8) ?a1 = Some (rc2, a2)"
      using send_wzcp_outcome [of "word_of_int 8" "put_be64 (wh_seq h)" MSG_ACK] by (fastforce simp: WZCP_MAX_FRAME_def)
    have pk: "poke (body @ replicate (2048 - length body) 0) (if unat (wh_body_len h) < 2048 then unat (wh_body_len h) else 2047) [0] \<noteq> None"
      using l by (auto simp: poke_eq_None_iff)
    show ?thesis
      using r(1) Some hb p q pk build_ack_total [of "wh_seq h"]
      by (auto simp: receive_msg_def Let_def split: prod.splits)
  qed
qed

section \<open>The handshake\<close>

text \<open>The HELLO of an agent.\<close>

definition agent_hello :: "agent \<Rightarrow> bytes" where
  "agent_hello a =
     (let (agent_id, _, ho) = xsiam_wzcp_agent_uuid (ag_host a) (ag_uuid a)
      in hello_ex_body (Some agent_id)
           (Some (case ag_key_name a of Some n \<Rightarrow> n | None \<Rightarrow> asc ''unknown''))
           (Some (ag_version a)) (Some (xsiam_wzcp_host_type ho))
           (Some (snd (xsiam_wzcp_collect_mac_addresses ho 512))))"

text \<open>The texts that the agent is configured with are shorter than 64 KB.\<close>

definition short_texts :: "agent \<Rightarrow> bool" where
  "short_texts a \<longleftrightarrow>
     length (ag_uuid a) < 65536 \<and> length (ag_version a) < 65536 \<and>
     (case ag_key_name a of None \<Rightarrow> True | Some n \<Rightarrow> length n < 65536) \<and> length (ho_random (ag_host a)) = 16"

lemma length_generate_uuid: "length (ho_random ho) = 16 \<Longrightarrow> length (generate_uuid ho) \<le> 63"
proof (cases "ho_kernel_uuid ho")
  case None
  assume "length (ho_random ho) = 16"
  with None show ?thesis by (simp add: generate_uuid_def uuid_v4_bits_def length_uuid_text)
next
  case (Some k)
  assume r: "length (ho_random ho) = 16"
  show ?thesis
  proof (cases k)
    case Nil
    with Some r show ?thesis by (simp add: generate_uuid_def uuid_v4_bits_def length_uuid_text)
  next
    case (Cons c cs)
    have "length (takeWhile (\<lambda>c. c \<noteq> 10) (cstr_of (take 63 (c # cs)))) \<le> length (take 63 (c # cs))"
      by (meson length_cstr_of_le length_takeWhile_le order_trans)
    with Some Cons show ?thesis by (simp add: generate_uuid_def)
  qed
qed

lemma length_agent_uuid:
  assumes "xsiam_wzcp_agent_uuid ho c = (u, c', ho')" "length c < 65536" "length (ho_random ho) = 16"
  shows "length u < 65536"
  using assms length_generate_uuid [of ho] cstring_read_uuid_file [of ho]
  by (auto simp: xsiam_wzcp_agent_uuid_def Let_def split: if_splits option.splits list.splits)

lemma length_host_type: "length (xsiam_wzcp_host_type ho) \<le> 6"
  by (auto simp: xsiam_wzcp_host_type_def split: option.splits)

lemma room_2048: "room (replicate 2048 0) 2048"
  by (simp add: room_def)

text \<open>The HELLO body as \<open>wzcp_handshake_to_gateway\<close> builds it.\<close>

lemma hello_built:
  assumes u: "xsiam_wzcp_agent_uuid (ag_host a) (ag_uuid a) = (u, c', ho)" and s: "short_texts a"
  shows "builds_body (replicate 2048 0) 2048
     (xsiam_wzcp_build_hello_ex (replicate 2048 0) 2048 (Some u)
        (Some (case ag_key_name a of Some n \<Rightarrow> n | None \<Rightarrow> asc ''unknown''))
        (Some (ag_version a)) (Some (xsiam_wzcp_host_type ho))
        (Some (snd (xsiam_wzcp_collect_mac_addresses ho 512)))) (agent_hello a)"
proof -
  have "length u < 65536" using length_agent_uuid [OF u] s by (simp add: short_texts_def)
  then have "builds_body (replicate 2048 0) 2048
     (xsiam_wzcp_build_hello_ex (replicate 2048 0) 2048 (Some u)
        (Some (case ag_key_name a of Some n \<Rightarrow> n | None \<Rightarrow> asc ''unknown''))
        (Some (ag_version a)) (Some (xsiam_wzcp_host_type ho))
        (Some (snd (xsiam_wzcp_collect_mac_addresses ho 512))))
     (hello_ex_body (Some u) (Some (case ag_key_name a of Some n \<Rightarrow> n | None \<Rightarrow> asc ''unknown''))
        (Some (ag_version a)) (Some (xsiam_wzcp_host_type ho))
        (Some (snd (xsiam_wzcp_collect_mac_addresses ho 512))))"
    using s length_host_type [of ho]
    by (intro build_hello_ex_builds room_2048) (auto simp: opt_str_def short_texts_def split: option.splits)
  then show ?thesis by (simp add: agent_hello_def u)
qed

lemma connect_server_outcome:
  assumes "server_id < length (ag_servers a)"
  shows "\<exists>ok a'. connect_server resolve server_id a = Some (ok, a') \<and>
     ag_host a' = ag_host a \<and> ag_uuid a' = ag_uuid a \<and> ag_key_name a' = ag_key_name a \<and>
     ag_version a' = ag_version a \<and> ag_servers a' = ag_servers a \<and> ag_seq a' = ag_seq a \<and>
     (if ok then 0 \<le> ag_fd a' \<and> ag_rip_id a' = server_id else ag_rip_id a' = ag_rip_id a)"
proof -
  have "0 \<le> fd \<Longrightarrow> \<not> fd < (0 :: int)" for fd by simp
  then show ?thesis
    using assms time_now_frame
    by (auto simp: connect_server_def Let_def split: option.splits list.splits prod.splits if_splits)
qed

end
