(* ===== verification/Agent_Client_Thms.thy ===== *)
theory Agent_Client_Thms
  imports Agent_Client_Lemmas
begin

text \<open>
  The guarantees of the agent's side of the protocol: handshakes, events, heartbeats, and that the
  agent gets back to a gateway when one becomes reachable.
\<close>

section \<open>Handshakes\<close>

lemma short_texts_cong:
  "ag_host a' = ag_host a \<Longrightarrow> ag_uuid a' = ag_uuid a \<Longrightarrow> ag_key_name a' = ag_key_name a \<Longrightarrow>
   ag_version a' = ag_version a \<Longrightarrow> short_texts a' = short_texts a"
  by (simp add: short_texts_def)

lemma await_ack_outcome:
  "\<exists>ok a'. await_ack a = Some (ok, a') \<and> ag_servers a' = ag_servers a \<and> ag_fd a' = ag_fd a \<and>
     sk_out (ag_sock a') = sk_out (ag_sock a) \<and>
     (ok \<longrightarrow> (\<exists>h body rest. sk_in (ag_sock a) = frame_of h body @ rest \<and> header_ok h \<and> wh_msg_type h = MSG_ACK))"
proof -
  obtain r sk where r: "xsiam_wzcp_recv_frame (ag_sock a) 1024 = Some (r, sk)" "sk_out sk = sk_out (ag_sock a)"
      "case r of None \<Rightarrow> True | Some (h, body) \<Rightarrow> header_ok h \<and> unat (wh_body_len h) = length body \<and>
        length body \<le> unat (1024 :: u32) \<and> sk_in (ag_sock a) = frame_of h body @ sk_in sk"
    using recv_frame_outcome [of 1024 "ag_sock a"] by auto
  show ?thesis
  proof (cases r)
    case None
    then show ?thesis using r by (auto simp: await_ack_def)
  next
    case (Some hb)
    obtain h rb where hb: "hb = (h, rb)" by force
    from r(3) Some hb have h: "header_ok h" "unat (wh_body_len h) = length rb" "sk_in (ag_sock a) = frame_of h rb @ sk_in sk"
      by auto
    obtain prc s where p: "xsiam_wzcp_parse_ack rb (wh_body_len h) = Some (prc, s)"
      using parse_ack_total [of "wh_body_len h" rb] h(2) by auto
    obtain t a5 where t: "time_now (a\<lparr>ag_sock := sk\<rparr>) = (t, a5)" by force
    show ?thesis
      using r(1,2) Some hb h(1,3) p t time_now_frame [OF t]
      by (cases "wh_msg_type h = MSG_ACK"; cases "prc < 0") (auto simp: await_ack_def update_stats_def)
  qed
qed

text \<open>
  A handshake does not fault. It succeeds only if the whole HELLO went out and a well-formed ACK
  frame came in.
\<close>

definition greeted :: "agent \<Rightarrow> agent \<Rightarrow> bool" where
  "greeted a a' \<longleftrightarrow>
     (\<exists>ts aid h body rest. length (agent_hello a) \<le> 2048 \<and>
        sk_out (ag_sock a') = sk_out (ag_sock a) @
          frame_of (sent_header MSG_HELLO aid (ag_seq a + 1) ts (of_nat (length (agent_hello a)))) (agent_hello a) \<and>
        sk_in (ag_sock a) = frame_of h body @ rest \<and> header_ok h \<and> wh_msg_type h = MSG_ACK)"

lemma greet_outcome:
  assumes s: "short_texts a"
  shows "\<exists>ok a'. greet a = Some (ok, a') \<and> ag_servers a' = ag_servers a \<and> ag_fd a' = ag_fd a \<and> (ok \<longrightarrow> greeted a a')"
proof -
  obtain u c' ho where u: "xsiam_wzcp_agent_uuid (ag_host a) (ag_uuid a) = (u, c', ho)"
    by (cases "xsiam_wzcp_agent_uuid (ag_host a) (ag_uuid a)")
  define a2 where "a2 = a\<lparr>ag_uuid := c', ag_host := ho\<rparr>"
  let ?H = "agent_hello a"
  obtain rc body where b: "xsiam_wzcp_build_hello_ex (replicate 2048 0) 2048 (Some u)
        (Some (case ag_key_name a of Some n \<Rightarrow> n | None \<Rightarrow> asc ''unknown''))
        (Some (ag_version a)) (Some (xsiam_wzcp_host_type ho))
        (Some (snd (xsiam_wzcp_collect_mac_addresses ho 512))) = Some (rc, body)" "length body = 2048"
      and bc: "if length ?H \<le> 2048 then rc = int (length ?H) \<and> take (length ?H) body = ?H else rc = -1"
    using hello_built [OF u s] by (auto simp: builds_body_def)
  have def: "greet a = (if rc < 0 then Some (False, a2)
      else do {
        (rc, a3) \<leftarrow> send_wzcp MSG_HELLO (atoi u) body (word_of_int rc) a2;
        if rc < 0 then Some (False, a3) else await_ack a3 })"
    using b(1) by (simp add: greet_def u a2_def Let_def)
  have keep: "ag_fd a2 = ag_fd a" "ag_servers a2 = ag_servers a" "ag_sock a2 = ag_sock a" "ag_seq a2 = ag_seq a"
    by (simp_all add: a2_def)
  show ?thesis
  proof (cases "length ?H \<le> 2048")
    case False
    with bc keep show ?thesis by (auto simp: def)
  next
    case True
    let ?n = "word_of_int (int (length ?H)) :: u32"
    have un: "unat ?n = length ?H" using True by (simp add: unat_of_nat_small)
    have tk: "take (unat ?n) body = ?H" and rc: "rc = int (length ?H)" using bc True un by simp_all
    obtain rc3 a3 ts where s3: "send_wzcp MSG_HELLO (atoi u) body ?n a2 = Some (rc3, a3)"
        "sends a2 a3 (frame_of (sent_header MSG_HELLO (atoi u) (ag_seq a2 + 1) ts ?n) (take (unat ?n) body)) rc3"
        "ag_fd a3 = ag_fd a2" "ag_servers a3 = ag_servers a2"
      using send_wzcp_outcome [of ?n body MSG_HELLO "atoi u" a2] un True b(2) by (auto simp: WZCP_MAX_FRAME_def)
    obtain ok a4 where w: "await_ack a3 = Some (ok, a4)" "ag_servers a4 = ag_servers a3" "ag_fd a4 = ag_fd a3"
        "sk_out (ag_sock a4) = sk_out (ag_sock a3)"
        "ok \<longrightarrow> (\<exists>h body rest. sk_in (ag_sock a3) = frame_of h body @ rest \<and> header_ok h \<and> wh_msg_type h = MSG_ACK)"
      using await_ack_outcome by blast
    show ?thesis
    proof (cases "rc3 < 0")
      case True
      then show ?thesis using s3 keep by (auto simp: def rc)
    next
      case ok3: False
      then have "only_writes (ag_sock a) (frame_of (sent_header MSG_HELLO (atoi u) (ag_seq a + 1) ts ?n) ?H) (ag_sock a3)"
        using s3(2) keep unfolding tk sends_def by auto
      then have "ok \<longrightarrow> greeted a a4"
        using w(4,5) True by (auto simp: greeted_def only_writes_def)
      then show ?thesis using ok3 s3(1,3,4) w(1-3) keep by (auto simp: def rc)
    qed
  qed
qed

section \<open>A reachable gateway\<close>

text \<open>
  A connection to a gateway that takes every write and whose ACK, the reply to HELLO, is the
  first thing to be read.
\<close>

definition good_gateway :: "sock \<Rightarrow> bool" where
  "good_gateway sk \<longleftrightarrow> sk_wr sk = [] \<and> sk_rd sk = [] \<and>
     (\<exists>h body rest. sk_in sk = frame_of h body @ rest \<and> header_ok h \<and> wh_msg_type h = MSG_ACK \<and>
        unat (wh_body_len h) = length body \<and> 8 \<le> length body \<and> length body \<le> 1024)"

text \<open>Every configured server has an address: after a slash, or by name resolution.\<close>

definition addressed :: "(bytes \<Rightarrow> bytes option) \<Rightarrow> agent \<Rightarrow> bool" where
  "addressed resolve a \<longleftrightarrow> ag_servers a \<noteq> [] \<and>
     (\<forall>sv \<in> set (ag_servers a). \<exists>ip. server_address resolve (sv_rip sv) = Some ip \<and> ip \<noteq> [])"

lemma connect_addressed:
  assumes "addressed resolve a" "n < length (ag_servers a)"
  obtains ip where "server_address resolve (sv_rip (ag_servers a ! n)) = Some ip" "ip \<noteq> []"
  using assms unfolding addressed_def by (meson nth_mem)

lemma connect_fails:
  assumes "addressed resolve a" "n < length (ag_servers a)" "ag_connects a = (fd, sk) # cs" "fd < 0"
  shows "connect_server resolve n a = Some (False, a\<lparr>ag_connects := cs, ag_fd := -1\<rparr>)"
proof -
  obtain ip where "server_address resolve (sv_rip (ag_servers a ! n)) = Some ip" "ip \<noteq> []"
    using connect_addressed [OF assms(1,2)] by blast
  then show ?thesis using assms(2-4) by (simp add: connect_server_def)
qed

lemma connect_succeeds:
  assumes "addressed resolve a" "n < length (ag_servers a)" "ag_connects a = (fd, sk) # cs" "0 \<le> fd"
  shows "\<exists>a'. connect_server resolve n a = Some (True, a') \<and> ag_sock a' = sk \<and> ag_fd a' = fd \<and>
     ag_host a' = ag_host a \<and> ag_uuid a' = ag_uuid a \<and> ag_key_name a' = ag_key_name a \<and>
     ag_version a' = ag_version a"
proof -
  obtain ip where ip: "server_address resolve (sv_rip (ag_servers a ! n)) = Some ip" "ip \<noteq> []"
    using connect_addressed [OF assms(1,2)] by blast
  let ?a2 = "a\<lparr>ag_connects := cs, ag_fd := fd, ag_sock := sk, ag_rip_id := n\<rparr>"
  obtain t a3 where t: "time_now ?a2 = (t, a3)" by force
  have "connect_server resolve n a = Some (True, a3\<lparr>ag_last_connection_time := t\<rparr>)"
    using ip assms(2-4) t by (cases "0 \<le> ag_fd a") (simp_all add: connect_server_def)
  then show ?thesis using time_now_frame [OF t] by auto
qed

lemma send_whole:
  assumes "unat body_len \<le> length body" "unat body_len \<le> WZCP_MAX_FRAME" "sk_wr sk = []"
  shows "\<exists>sk'. xsiam_wzcp_send_frame sk ty aid sq body body_len ts = Some (0, sk') \<and>
     sk_in sk' = sk_in sk \<and> sk_rd sk' = sk_rd sk"
  using assms by (auto simp: xsiam_wzcp_send_frame_def send_all_unscripted peek_def Let_def)

lemma await_good:
  assumes "sk_rd (ag_sock a) = []" "sk_in (ag_sock a) = frame_of h body @ rest" "header_ok h"
    "wh_msg_type h = MSG_ACK" "unat (wh_body_len h) = length body" "8 \<le> length body" "length body \<le> 1024"
  shows "\<exists>a'. await_ack a = Some (True, a') \<and> ag_fd a' = ag_fd a"
proof -
  have r: "xsiam_wzcp_recv_frame (ag_sock a) 1024 = Some (Some (h, body), (ag_sock a)\<lparr>sk_in := rest\<rparr>)"
    using assms by (intro recv_frame_delivers) auto
  have p: "\<exists>s. xsiam_wzcp_parse_ack body (wh_body_len h) = Some (0, s)"
    using assms by (auto simp: xsiam_wzcp_parse_ack_def be_at_in_bounds word_less_nat_alt)
  obtain t a5 where t: "time_now (a\<lparr>ag_sock := (ag_sock a)\<lparr>sk_in := rest\<rparr>\<rparr>) = (t, a5)" by force
  show ?thesis using r p t assms(4) time_now_frame(4) [OF t] by (auto simp: await_ack_def update_stats_def)
qed

lemma greet_good_gateway:
  assumes "short_texts a" "good_gateway (ag_sock a)" "length (agent_hello a) \<le> 2048"
  shows "\<exists>a'. greet a = Some (True, a') \<and> ag_fd a' = ag_fd a"
proof -
  obtain u c' ho where u: "xsiam_wzcp_agent_uuid (ag_host a) (ag_uuid a) = (u, c', ho)"
    by (cases "xsiam_wzcp_agent_uuid (ag_host a) (ag_uuid a)")
  define a2 where "a2 = a\<lparr>ag_uuid := c', ag_host := ho\<rparr>"
  let ?H = "agent_hello a"
  let ?n = "word_of_int (int (length ?H)) :: u32"
  obtain body where b: "xsiam_wzcp_build_hello_ex (replicate 2048 0) 2048 (Some u)
        (Some (case ag_key_name a of Some n \<Rightarrow> n | None \<Rightarrow> asc ''unknown''))
        (Some (ag_version a)) (Some (xsiam_wzcp_host_type ho))
        (Some (snd (xsiam_wzcp_collect_mac_addresses ho 512))) = Some (int (length ?H), body)" "length body = 2048"
    using hello_built [OF u assms(1)] assms(3) by (auto simp: builds_body_def)
  have un: "unat ?n = length ?H" using assms(3) by (simp add: unat_of_nat_small)
  obtain t a3 where t: "now_ms (a2\<lparr>ag_seq := ag_seq a2 + 1\<rparr>) = (t, a3)" by force
  note f = now_ms_frame [OF t]
  have sk3: "ag_sock a3 = ag_sock a" "ag_fd a3 = ag_fd a" using f by (simp_all add: a2_def)
  obtain sk' where s: "xsiam_wzcp_send_frame (ag_sock a3) MSG_HELLO (atoi u) (ag_seq a2 + 1) body ?n (of_nat t) = Some (0, sk')"
      "sk_in sk' = sk_in (ag_sock a)" "sk_rd sk' = sk_rd (ag_sock a)"
    using send_whole [of ?n body "ag_sock a3" MSG_HELLO "atoi u" "ag_seq a2 + 1" "of_nat t"] un assms b(2) sk3
    by (auto simp: WZCP_MAX_FRAME_def good_gateway_def)
  define a4 where "a4 = a3\<lparr>ag_sock := sk'\<rparr>"
  have send: "send_wzcp MSG_HELLO (atoi u) body ?n a2 = Some (0, a4)"
    using t s(1) by (simp add: send_wzcp_def xsiam_wzcp_next_seq_def a4_def)
  have "greet a = await_ack a4"
    using b(1) send by (simp add: greet_def u Let_def flip: a2_def)
  then show ?thesis
    using await_good [of a4] assms(2) s(2,3) sk3 by (auto simp: a4_def good_gateway_def)
qed

lemma agent_hello_cong:
  "ag_host a' = ag_host a \<Longrightarrow> ag_uuid a' = ag_uuid a \<Longrightarrow> ag_key_name a' = ag_key_name a \<Longrightarrow>
   ag_version a' = ag_version a \<Longrightarrow> agent_hello a' = agent_hello a"
  by (simp add: agent_hello_def)

lemma handshake_loop_unfold:
  "wzcp_handshake_to_gateway resolve n a = Some (ok, a') \<Longrightarrow>
   handshake_loop resolve n a = (if ok then Some a' else handshake_loop resolve (next_server a' n) a')"
  by (subst handshake_loop.simps) simp

lemma loop_reaches_gateway:
  assumes "ag_connects a = fails @ (fd, sk) # cs" "\<forall>c \<in> set fails. fst c < 0" "0 \<le> fd" "good_gateway sk"
    "addressed resolve a" "n < length (ag_servers a)" "short_texts a" "length (agent_hello a) \<le> 2048"
  shows "\<exists>a'. handshake_loop resolve n a = Some a' \<and> ag_fd a' = fd"
  using assms
proof (induction fails arbitrary: a n)
  case Nil
  obtain a1 where c: "connect_server resolve n a = Some (True, a1)" "ag_sock a1 = sk" "ag_fd a1 = fd"
      "ag_host a1 = ag_host a" "ag_uuid a1 = ag_uuid a" "ag_key_name a1 = ag_key_name a" "ag_version a1 = ag_version a"
    using connect_succeeds [of resolve a n fd sk cs] Nil.prems by auto
  have "short_texts a1" "length (agent_hello a1) \<le> 2048" "good_gateway (ag_sock a1)"
    using Nil.prems(4,7,8) c(2) short_texts_cong [OF c(4-7)] agent_hello_cong [OF c(4-7)] by simp_all
  then obtain a2 where "greet a1 = Some (True, a2)" "ag_fd a2 = fd"
    using greet_good_gateway [of a1] c(3) by blast
  with c(1) show ?case
    using handshake_loop_unfold [of resolve n a True a2] by (simp add: wzcp_handshake_to_gateway_def)
next
  case (Cons f fails)
  obtain f1 f2 where f: "f = (f1, f2)" by force
  let ?a1 = "a\<lparr>ag_connects := fails @ (fd, sk) # cs, ag_fd := -1\<rparr>"
  have "connect_server resolve n a = Some (False, ?a1)"
    using connect_fails [of resolve a n f1 f2] Cons.prems f by simp
  then have "handshake_loop resolve n a = handshake_loop resolve (next_server ?a1 n) ?a1"
    using handshake_loop_unfold [of resolve n a False ?a1] by (simp add: wzcp_handshake_to_gateway_def)
  moreover have "\<exists>a'. handshake_loop resolve (next_server ?a1 n) ?a1 = Some a' \<and> ag_fd a' = fd"
  proof (rule Cons.IH)
    show "length (agent_hello ?a1) \<le> 2048" using Cons.prems(8) agent_hello_cong [of ?a1 a] by simp
    show "addressed resolve ?a1" using Cons.prems(5) by (simp add: addressed_def)
    show "short_texts ?a1" using Cons.prems(7) short_texts_cong [of ?a1 a] by simp
    show "next_server ?a1 n < length (ag_servers ?a1)" using Cons.prems(5) by (auto simp: next_server_def addressed_def)
  qed (use Cons.prems in auto)
  ultimately show ?case by simp
qed

section \<open>Properties\<close>


text \<open>A sample agent: two failures, then a gateway that has sent an ACK.\<close>

definition sample_host :: host where
  "sample_host = \<lparr>ho_env = (\<lambda>_. None), ho_uuid_file = Some (asc ''u-1'' @ [10]), ho_uuid_writable = True,
     ho_kernel_uuid = None, ho_random = replicate 16 0, ho_nt_server = False, ho_adapters = Some []\<rparr>"

definition sample_sock :: sock where
  "sample_sock = \<lparr>sk_out = [], sk_wr = [],
     sk_in = frame_of (sent_header MSG_ACK 1 1 0 8) (put_be64 7), sk_rd = []\<rparr>"

definition sample_agent :: agent where
  "sample_agent = \<lparr>ag_host = sample_host, ag_uuid = [], ag_seq = 0, ag_fd = -1, ag_sock = sample_sock,
     ag_servers = [\<lparr>sv_rip = asc ''gw/10.0.0.1'', sv_port = 1514, sv_udp = False, sv_retry_interval = 10\<rparr>],
     ag_rip_id = 0, ag_key_id = asc ''001'', ag_key_name = None, ag_version = asc ''v4'',
     ag_stats = agent_state_initial, ag_available_server = 0, ag_last_connection_time = 0,
     ag_connects = [(-1, sample_sock), (-1, sample_sock), (5, sample_sock)], ag_clock = [], ag_last_ms = 0,
     ag_rand = []\<rparr>"

lemma sample_texts: "short_texts sample_agent" "addressed (\<lambda>_. None) sample_agent"
    "length (agent_hello sample_agent) \<le> 2048"
proof -
  have "server_address (\<lambda>_. None) (asc ''gw/10.0.0.1'') = Some (asc ''10.0.0.1'')" by code_simp
  then show "addressed (\<lambda>_. None) sample_agent" by (simp add: addressed_def sample_agent_def asc_def)
  show "short_texts sample_agent" by (simp add: short_texts_def sample_agent_def sample_host_def)
  show "length (agent_hello sample_agent) \<le> 2048" by code_simp
qed

lemma sample_sock_good: "good_gateway sample_sock"
proof -
  have "header_ok (sent_header MSG_ACK 1 1 0 8)" by (rule header_ok_sent) (simp add: WZCP_MAX_FRAME_def)
  then show ?thesis
    unfolding good_gateway_def
    by (intro conjI exI [of _ "sent_header MSG_ACK 1 1 0 8"] exI [of _ "put_be64 7"] exI [of _ "[]"])
      (simp_all add: sample_sock_def sent_header_def)
qed


text \<open>
  A handshake with a configured server never faults, whatever the peer does. When it reports
  success, a connection was opened, a complete HELLO frame with the identity of the agent went
  out on it, and a well-formed ACK frame came in.
\<close>

theorem handshake_sound:
  assumes "server_id < length (ag_servers a)" "short_texts a"
  shows "\<exists>ok a'. wzcp_handshake_to_gateway resolve server_id a = Some (ok, a') \<and>
     (\<not> ok \<or> (\<exists>a1. connect_server resolve server_id a = Some (True, a1) \<and> 0 \<le> ag_fd a1 \<and>
        ag_rip_id a1 = server_id \<and> ag_fd a' = ag_fd a1 \<and> greeted a1 a'))"
proof -
  obtain ok a1 where c: "connect_server resolve server_id a = Some (ok, a1)"
      "ag_host a1 = ag_host a" "ag_uuid a1 = ag_uuid a" "ag_key_name a1 = ag_key_name a"
      "ag_version a1 = ag_version a" "if ok then 0 \<le> ag_fd a1 \<and> ag_rip_id a1 = server_id else ag_rip_id a1 = ag_rip_id a"
    using connect_server_outcome [OF assms(1)] by blast
  have "short_texts a1" using assms(2) short_texts_cong [OF c(2-5)] by simp
  from greet_outcome [OF this] c show ?thesis
    by (cases ok) (auto simp: wzcp_handshake_to_gateway_def)
qed

theorem handshake_sound_witness:
  "\<exists>ok a'. wzcp_handshake_to_gateway (\<lambda>_. None) 0 sample_agent = Some (ok, a')"
  using handshake_sound [of 0 sample_agent "\<lambda>_. None"] sample_texts(1) by (auto simp: sample_agent_def)

text \<open>
  Sending an event never faults, for any message of at most 65535 bytes and any pattern of short
  writes and errors: it returns 0 exactly when the complete EVENT_BATCH frame, whose body carries
  the message unchanged, was handed to the socket, and only then is the event counted as sent;
  otherwise a proper prefix of the frame went out. Two sequence numbers are consumed.
\<close>

theorem send_msg_frames_event:
  assumes "length msg \<le> 0xffff" "cstring msg"
  shows "\<exists>rc a' t ts. send_msg msg (-1) a = Some (rc, a') \<and>
     sends a a' (frame_of (sent_header MSG_EVENT_BATCH (atoi (ag_key_id a)) (ag_seq a + 2) ts (of_nat (22 + length msg)))
                  (event_body EVENT_LOG msg t (ag_seq a + 1))) rc \<and>
     ag_seq a' = ag_seq a + 2 \<and>
     ag_stats a' = (if rc = 0 then w_agentd_state_update INCREMENT_MSG_SEND (ag_stats a) else ag_stats a)"
  by (rule send_msg_outcome [OF assms])

theorem send_msg_frames_event_witness:
  "\<exists>rc a'. send_msg (asc ''hello'') (-1) sample_agent = Some (rc, a') \<and> ag_seq a' = 2"
  using send_msg_frames_event [of "asc ''hello''" sample_agent] by (force simp: sample_agent_def asc_def)

lemma schedule_heartbeat_frame:
  "wzcp_schedule_heartbeat a = (n, a') \<Longrightarrow> ag_sock a' = ag_sock a"
  using time_now_frame [of a]
  by (auto simp: wzcp_schedule_heartbeat_def wzcp_next_heartbeat_interval_def rand_def Let_def
      split: prod.splits list.splits)

lemma mod_91: "(r :: nat) mod 91 \<le> 90"
  using mod_less_divisor [of 91 r] by simp

text \<open>
  Heartbeats: the interval to the next one is between 30 and 120 seconds for every value of
  \<open>rand\<close>. The check for a due heartbeat never faults, and it writes to the connection only when WZCP
  is on, the connection is the one the timer was set for, and the scheduled time has come; what
  it writes is an empty HEARTBEAT frame, or a prefix of one and the return code -1.
\<close>

theorem heartbeat_only_when_due:
  "30 \<le> fst (wzcp_next_heartbeat_interval a) \<and> fst (wzcp_next_heartbeat_interval a) \<le> 120 \<and>
   (\<exists>rc nh ls a'. wzcp_send_heartbeat_if_due next_heartbeat last_sock a = Some (rc, nh, ls, a') \<and>
      (rc = 0 \<and> ag_sock a' = ag_sock a \<or>
       xsiam_wzcp_enabled (ag_host a) \<and> last_sock = ag_fd a \<and> ag_fd a \<noteq> -1 \<and> next_heartbeat \<noteq> 0 \<and>
       next_heartbeat \<le> fst (time_now a) \<and>
       (\<exists>ts. sends a a' (frame_of (sent_header MSG_HEARTBEAT (atoi (ag_key_id a)) (ag_seq a + 1) ts 0) []) rc)))"
proof (intro conjI)
  obtain now a1 where t: "time_now a = (now, a1)" by force
  note f = time_now_frame [OF t]
  obtain n s where sch: "wzcp_schedule_heartbeat a = (n, s)" by force
  obtain rc a2 ts where w: "send_wzcp MSG_HEARTBEAT (atoi (ag_key_id a1)) [] 0 a1 = Some (rc, a2)"
      "sends a1 a2 (frame_of (sent_header MSG_HEARTBEAT (atoi (ag_key_id a1)) (ag_seq a1 + 1) ts 0) []) rc"
    using send_wzcp_outcome [of 0 "[]" MSG_HEARTBEAT "atoi (ag_key_id a1)" a1] by auto
  obtain n2 a3 where s2: "wzcp_schedule_heartbeat a2 = (n2, a3)" by force
  have sent: "sends a x (frame_of (sent_header MSG_HEARTBEAT (atoi (ag_key_id a)) (ag_seq a + 1) ts 0) []) rc"
    if "ag_sock x = ag_sock a2" for x
    using w(2) f that by (simp add: sends_def)
  have rc: "rc < 0 \<or> rc = 0" using w(2) by (auto simp: sends_def)
  show "\<exists>rc nh ls a'. wzcp_send_heartbeat_if_due next_heartbeat last_sock a = Some (rc, nh, ls, a') \<and>
      (rc = 0 \<and> ag_sock a' = ag_sock a \<or>
       xsiam_wzcp_enabled (ag_host a) \<and> last_sock = ag_fd a \<and> ag_fd a \<noteq> -1 \<and> next_heartbeat \<noteq> 0 \<and>
       next_heartbeat \<le> fst (time_now a) \<and>
       (\<exists>ts. sends a a' (frame_of (sent_header MSG_HEARTBEAT (atoi (ag_key_id a)) (ag_seq a + 1) ts 0) []) rc))"
  proof (cases "xsiam_wzcp_enabled (ag_host a) \<and> last_sock = ag_fd a \<and> ag_fd a \<noteq> -1 \<and> next_heartbeat \<noteq> 0 \<and> next_heartbeat \<le> now")
    case True
    then show ?thesis
      using t w(1) s2 rc sent [OF schedule_heartbeat_frame [OF s2]] sent [of a2] w(2)
      by (cases "rc < 0") (auto simp: wzcp_send_heartbeat_if_due_def sends_def)
  next
    case False
    then show ?thesis
      using t f sch schedule_heartbeat_frame [OF sch] by (auto simp: wzcp_send_heartbeat_if_due_def)
  qed
qed (simp_all add: wzcp_next_heartbeat_interval_def Let_def mod_91 split: prod.splits)

text \<open>
  Receiving a frame never faults, whatever bytes the gateway sends and however they are split:
  malformed frames end in the return code -1.
\<close>

theorem receive_msg_safe: "\<exists>rc a'. receive_msg a = Some (rc, a') \<and> (rc = 0 \<or> rc = -1)"
proof -
  obtain rc a' where r: "receive_msg a = Some (rc, a')" using receive_msg_total by blast
  then have "rc = 0 \<or> rc = -1"
    by (auto simp: receive_msg_def Let_def split: Option.bind_splits option.splits prod.splits if_splits)
  with r show ?thesis by blast
qed

end
