(* ===== verification/Gw_State.thy ===== *)
theory Gw_State
  imports Wzcp
begin

text \<open>
  The gateway input plugin, first part: the plugin context, the cache of agent states
  (\<^verbatim>\<open>gateway/plugins/in_xsiam_agent/xsiam_agent_state.c\<close>), and the lifecycle events posted to the
  XSIAM server (\<^verbatim>\<open>xsiam_agent_event.c\<close>). The structures are those of \<^verbatim>\<open>xsiam_agent_defs.h\<close>.

  Strings that the source allocates may be NULL when the allocator fails, so they are optional;
  comparing a NULL string is a fault. The environment is part of the context: \<open>gx_heap\<close> scripts
  the allocator, \<open>gx_clock\<close> the clock in milliseconds, \<open>gx_event_up\<close> whether the event endpoint can
  be reached. What leaves the plugin is recorded: \<open>gx_events\<close> the JSON bodies posted.
  Growing an existing \<open>flb_sds_t\<close> string is taken to succeed.
\<close>

section \<open>State\<close>

record xsiam_agent_state =
  st_agent_id :: "bytes option"
  st_tenant_id :: "bytes option"
  st_hostname :: "bytes option"
  st_host_type :: "bytes option"
  st_agent_version :: "bytes option"
  st_agent_status :: "bytes option"
  st_gateway_id :: "bytes option"
  st_ip :: "bytes option"
  st_mac_addresses_json :: "bytes option"
  st_is_connected :: bool
  st_installed_at :: nat
  st_connected_at :: nat
  st_last_heartbeat :: nat
  st_last_seen :: nat
  st_created_at :: nat
  st_updated_at :: nat
  st_last_db_flush :: nat
  st_dirty :: bool

record xsiam_agent_conn =
  cn_id :: nat
  cn_sock :: sock
  cn_buf :: bytes
  cn_buf_size :: nat
  cn_busy :: bool
  cn_pending_close :: bool
  cn_next_heartbeat :: int
  cn_agent_key :: "bytes option"
  cn_protocol_tag :: "bytes option"
  cn_client_group :: "bytes option"
  cn_session_id :: bytes

text \<open>A log record as the plugin hands it to the engine: string and integer fields in order.\<close>

datatype field_value = Str bytes | UInt u64

type_synonym log_record = "(bytes \<times> field_value) list"

record xsiam_agent_ctx =
  gx_tenant_id :: "bytes option"
  gx_heartbeat_flush_interval :: int
  gx_event_enabled :: bool
  gx_fb_instance_id :: bytes
  gx_chunk_size :: nat
  gx_buffer_size :: nat
  gx_heartbeat_min :: int
  gx_heartbeat_max :: int
  gx_gateway_seq :: u64
  gx_session_seq :: u64
  gx_agents :: "xsiam_agent_state list"
  gx_connections :: "xsiam_agent_conn list"
  gx_encoder :: "log_record list"
  gx_encoder_ok :: "bool list"
  gx_appended :: "log_record list list"
  gx_events :: "bytes list"
  gx_event_up :: "bool list"
  gx_rand_r :: "nat list"
  gx_clock :: "nat list"
  gx_last_ms :: nat
  gx_heap :: heap

section \<open>Environment\<close>

definition gw_now_ms :: "xsiam_agent_ctx \<Rightarrow> nat \<times> xsiam_agent_ctx" where
  "gw_now_ms g =
     (case gx_clock g of
        [] \<Rightarrow> (gx_last_ms g, g)
      | t # ts \<Rightarrow> (t, g\<lparr>gx_clock := ts, gx_last_ms := t\<rparr>))"

definition now_sec :: "xsiam_agent_ctx \<Rightarrow> nat \<times> xsiam_agent_ctx" where
  "now_sec g = (let (t, g') = gw_now_ms g in (t div 1000, g'))"

definition gw_alloc :: "xsiam_agent_ctx \<Rightarrow> bool \<times> xsiam_agent_ctx" where
  "gw_alloc g = (let (ok, h) = alloc (gx_heap g) in (ok, g\<lparr>gx_heap := h\<rparr>))"

definition xstrdup :: "bytes option \<Rightarrow> xsiam_agent_ctx \<Rightarrow> bytes option \<times> xsiam_agent_ctx" where
  "xstrdup s g =
     (let (ok, g') = gw_alloc g
      in (if ok then Some (case s of None \<Rightarrow> [] | Some v \<Rightarrow> v) else None, g'))"

text \<open>\<open>replace_str\<close>: the old string stays when the copy cannot be allocated.\<close>

definition replace_str :: "bytes option \<Rightarrow> bytes option \<Rightarrow> xsiam_agent_ctx \<Rightarrow> bytes option \<times> xsiam_agent_ctx" where
  "replace_str dst src g =
     (let (tmp, g') = xstrdup src g in (case tmp of None \<Rightarrow> dst | Some _ \<Rightarrow> tmp, g'))"

section \<open>Agent lifecycle events\<close>

text \<open>\<open>gen_uuid_v4\<close>: a linear congruential generator supplies the 16 bytes.\<close>

fun lcg_bytes :: "nat \<Rightarrow> u32 \<Rightarrow> bytes \<times> u32" where
  "lcg_bytes 0 s = ([], s)"
| "lcg_bytes (Suc n) s =
     (let s' = s * 1664525 + 1013904223; (bs, s'') = lcg_bytes n s'
      in (ucast (drop_bit 16 s') # bs, s''))"

definition gen_uuid_v4 :: "u32 \<Rightarrow> bytes \<times> u32" where
  "gen_uuid_v4 rand_state =
     (let (b, s) = lcg_bytes 16 rand_state in (uuid_text (uuid_v4_bits b), s))"

definition event_json :: "xsiam_agent_ctx \<Rightarrow> string \<Rightarrow> bytes option \<Rightarrow> bytes" where
  "event_json g event agent_id =
     (let tenant = (case gx_tenant_id g of Some (c # cs) \<Rightarrow> c # cs | _ \<Rightarrow> asc ''tenant-default'')
      in asc (''{'' @ [CHR 0x22] @ ''event'' @ [CHR 0x22] @ '':'' @ [CHR 0x22]) @ asc event @
         asc ([CHR 0x22] @ '','' @ [CHR 0x22] @ ''fb_instance_id'' @ [CHR 0x22] @ '':'' @ [CHR 0x22]) @ gx_fb_instance_id g @
         asc ([CHR 0x22] @ '','' @ [CHR 0x22] @ ''tenant_id'' @ [CHR 0x22] @ '':'' @ [CHR 0x22]) @ tenant @
         (case agent_id of
            Some (c # cs) \<Rightarrow> asc ([CHR 0x22] @ '','' @ [CHR 0x22] @ ''agent_id'' @ [CHR 0x22] @ '':'' @ [CHR 0x22]) @ c # cs
          | _ \<Rightarrow> []) @
         asc ([CHR 0x22] @ ''}''))"

text \<open>
  Posting an event: nothing happens when events are off; the buffer for the body, the upstream
  connection or the HTTP client may be missing. The response is only logged.
\<close>

definition post_agent_event :: "string \<Rightarrow> bytes option \<Rightarrow> xsiam_agent_ctx \<Rightarrow> xsiam_agent_ctx" where
  "post_agent_event event agent_id g =
     (if \<not> gx_event_enabled g then g
      else let (ok, g1) = gw_alloc g in
        if \<not> ok then g1
        else case gx_event_up g1 of
          False # ups \<Rightarrow> g1\<lparr>gx_event_up := ups\<rparr>
        | True # ups \<Rightarrow> g1\<lparr>gx_event_up := ups, gx_events := gx_events g1 @ [event_json g1 event agent_id]\<rparr>
        | [] \<Rightarrow> g1\<lparr>gx_events := gx_events g1 @ [event_json g1 event agent_id]\<rparr>)"

definition fb_lease_collect :: "xsiam_agent_ctx \<Rightarrow> xsiam_agent_ctx" where
  "fb_lease_collect g = post_agent_event ''fb_heartbeat'' None g"

section \<open>The agent cache\<close>

text \<open>
  The search loop of \<open>agent_state_get\<close>: the index of the first agent with this id. Comparing with
  a NULL id is a fault.
\<close>

fun find_agent :: "bytes \<Rightarrow> xsiam_agent_state list \<Rightarrow> nat option option" where
  "find_agent agent_id [] = Some None"
| "find_agent agent_id (st # sts) =
     (case st_agent_id st of
        None \<Rightarrow> None
      | Some i \<Rightarrow> if i = agent_id then Some (Some 0) else map_option (map_option Suc) (find_agent agent_id sts))"

text \<open>A new entry; \<open>mk_list_add\<close> appends it at the end of the list.\<close>

definition new_agent :: "bytes \<Rightarrow> nat \<Rightarrow> xsiam_agent_ctx \<Rightarrow> xsiam_agent_state \<times> xsiam_agent_ctx" where
  "new_agent agent_id now g0 =
     (let (aid, g1) = xstrdup (Some agent_id) g0;
          (tenant, g2) = xstrdup (Some (case gx_tenant_id g1 of Some (c # cs) \<Rightarrow> c # cs | _ \<Rightarrow> asc ''tenant-default'')) g1;
          (hostname, g3) = xstrdup (Some agent_id) g2;
          (host_type, g4) = xstrdup (Some (asc ''pc'')) g3;
          (version, g5) = xstrdup (Some (asc ''unknown'')) g4;
          (status, g6) = xstrdup (Some (asc ''online'')) g5;
          (gateway_id, g7) = xstrdup (Some (asc ''gateway-local-001'')) g6;
          (ip, g8) = xstrdup (Some []) g7;
          (macs, g9) = xstrdup (Some (asc ''[]'')) g8
      in (\<lparr>st_agent_id = aid, st_tenant_id = tenant, st_hostname = hostname, st_host_type = host_type,
           st_agent_version = version, st_agent_status = status, st_gateway_id = gateway_id, st_ip = ip,
           st_mac_addresses_json = macs, st_is_connected = False, st_installed_at = now,
           st_connected_at = 0, st_last_heartbeat = now, st_last_seen = now, st_created_at = now,
           st_updated_at = now, st_last_db_flush = 0, st_dirty = True\<rparr>, g9))"

text \<open>
  \<open>agent_state_get\<close>; the result is the index of the entry, \<open>None\<close> inside for a NULL result.
\<close>

definition agent_state_get ::
  "bytes \<Rightarrow> bool \<Rightarrow> xsiam_agent_ctx \<Rightarrow> (nat option \<times> xsiam_agent_ctx) option" where
  "agent_state_get agent_id create g =
     (let (now, g1) = now_sec g in do {
        found \<leftarrow> find_agent agent_id (gx_agents g1);
        case found of
          Some k \<Rightarrow> Some (Some k, g1)
        | None \<Rightarrow>
            if \<not> create then Some (None, g1)
            else let (ok, g2) = gw_alloc g1 in
              if \<not> ok then Some (None, g2)
              else let (st, g3) = new_agent agent_id now g2 in
                Some (Some (length (gx_agents g3)), g3\<lparr>gx_agents := gx_agents g3 @ [st]\<rparr>)
      })"

definition update_agent :: "nat \<Rightarrow> xsiam_agent_state \<Rightarrow> xsiam_agent_ctx \<Rightarrow> xsiam_agent_ctx" where
  "update_agent k st g = g\<lparr>gx_agents := (gx_agents g)[k := st]\<rparr>"

text \<open>The string argument, or a default when it is NULL or empty.\<close>

definition non_empty_or :: "bytes option \<Rightarrow> bytes \<Rightarrow> bytes" where
  "non_empty_or s d = (case s of Some (c # cs) \<Rightarrow> c # cs | _ \<Rightarrow> d)"

definition agent_state_mark_seen ::
  "bytes \<Rightarrow> bytes option \<Rightarrow> bytes option \<Rightarrow> bytes option \<Rightarrow> bytes option \<Rightarrow> xsiam_agent_conn \<Rightarrow> xsiam_agent_ctx
   \<Rightarrow> (xsiam_agent_conn \<times> xsiam_agent_ctx) option" where
  "agent_state_mark_seen agent_id agent_name agent_version host_type mac_json conn g =
     (let (now, g1) = now_sec g in
      if agent_id = [] then Some (conn, g1)
      else do {
        (found, g2) \<leftarrow> agent_state_get agent_id True g1;
        case found of
          None \<Rightarrow> Some (conn, g2)
        | Some k \<Rightarrow>
            let st = gx_agents g2 ! k;
                (hostname, g3) = replace_str (st_hostname st) (Some (non_empty_or agent_name agent_id)) g2;
                (version, g4) = replace_str (st_agent_version st) (Some (non_empty_or agent_version (asc ''unknown''))) g3;
                (htype, g5) = (case host_type of
                   Some t \<Rightarrow> if t = asc ''server'' \<or> t = asc ''pc'' then replace_str (st_host_type st) (Some t) g4
                            else (st_host_type st, g4)
                 | None \<Rightarrow> (st_host_type st, g4));
                (macs, g6) = (case mac_json of
                   None \<Rightarrow> (st_mac_addresses_json st, g5)
                 | Some m \<Rightarrow>
                     (case xstrdup (Some m) g5 of
                        (Some m', g') \<Rightarrow> (Some m', g')
                      | (None, g') \<Rightarrow> xstrdup (Some (asc ''[]'')) g'));
                (status, g7) = replace_str (st_agent_status st) (Some (asc ''online'')) g6;
                st' = st\<lparr>st_hostname := hostname, st_agent_version := version, st_host_type := htype,
                         st_mac_addresses_json := macs, st_agent_status := status, st_is_connected := True,
                         st_connected_at := now, st_last_seen := now, st_last_heartbeat := now,
                         st_updated_at := now, st_dirty := True\<rparr>;
                g8 = update_agent k st' g7;
                (key, g9) = replace_str (cn_agent_key conn) (Some agent_id) g8
            in Some (conn\<lparr>cn_agent_key := key\<rparr>, post_agent_event ''connect'' (Some agent_id) g9)
      })"

definition agent_state_mark_heartbeat :: "bytes \<Rightarrow> xsiam_agent_ctx \<Rightarrow> xsiam_agent_ctx option" where
  "agent_state_mark_heartbeat agent_id g =
     (let (now, g1) = now_sec g in do {
        (found, g2) \<leftarrow> agent_state_get agent_id False g1;
        case found of
          None \<Rightarrow> Some g2
        | Some k \<Rightarrow>
            let st = gx_agents g2 ! k;
                st' = st\<lparr>st_last_heartbeat := now, st_last_seen := now, st_updated_at := now,
                         st_dirty := (st_dirty st \<or> gx_heartbeat_flush_interval g2 \<le> int now - int (st_last_db_flush st))\<rparr>
            in Some (post_agent_event ''heartbeat'' (Some agent_id) (update_agent k st' g2))
      })"

definition agent_state_mark_disconnected :: "bytes \<Rightarrow> xsiam_agent_ctx \<Rightarrow> xsiam_agent_ctx option" where
  "agent_state_mark_disconnected agent_id g =
     (let (now, g1) = now_sec g in do {
        (found, g2) \<leftarrow> agent_state_get agent_id False g1;
        case found of
          None \<Rightarrow> Some g2
        | Some k \<Rightarrow>
            let st = gx_agents g2 ! k in
            if st_is_connected st then
              let (status, g3) = replace_str (st_agent_status st) (Some (asc ''offline'')) g2;
                  st' = st\<lparr>st_is_connected := False, st_agent_status := status, st_last_seen := now,
                           st_updated_at := now, st_dirty := True\<rparr>
              in Some (post_agent_event ''disconnect'' (Some agent_id) (update_agent k st' g3))
            else Some g2
      })"

end
