(* ===== verification/Gw_Conn.thy ===== *)
theory Gw_Conn
  imports Gw_State
begin

text \<open>
  The gateway input plugin, second part: connections and protocol handling
  (\<^verbatim>\<open>gateway/plugins/in_xsiam_agent/xsiam_agent_conn.c\<close>).

  A connection is passed together with the plugin context; the receive buffer \<open>cn_buf\<close> holds the
  \<open>buf_len\<close> bytes received and not yet consumed. Every read of the buffer and of a frame body is
  bounds-checked: a read outside is a fault. The record encoder of the engine is scripted
  (\<open>gx_encoder_ok\<close>): a record is added or the encoder reports an error. Records handed to the engine
  are in \<open>gx_appended\<close>, one list per call of \<open>flb_input_log_append\<close>.
\<close>

section \<open>Constants\<close>

abbreviation SESSION_PROTO_UNKNOWN :: bytes where "SESSION_PROTO_UNKNOWN \<equiv> asc ''unknown''"
abbreviation SESSION_PROTO_AGENT_WZCP :: bytes where "SESSION_PROTO_AGENT_WZCP \<equiv> asc ''agent_wzcp''"
abbreviation SESSION_PROTO_SYSLOG :: bytes where "SESSION_PROTO_SYSLOG \<equiv> asc ''syslog''"
abbreviation SESSION_GROUP_UNKNOWN :: bytes where "SESSION_GROUP_UNKNOWN \<equiv> asc ''unknown''"
abbreviation SESSION_GROUP_AGENT :: bytes where "SESSION_GROUP_AGENT \<equiv> asc ''agent''"
abbreviation SESSION_GROUP_DEVICE :: bytes where "SESSION_GROUP_DEVICE \<equiv> asc ''device''"

section \<open>Wire helpers and frame output\<close>

text \<open>\<open>flb_io_net_write\<close> is \<open>send\<close>: an error or a write of nothing ends the loop.\<close>

function write_all :: "sock \<Rightarrow> bytes \<Rightarrow> int \<times> sock" where
  "write_all sk buf =
     (if buf = [] then (0, sk)
      else case send sk buf of
        (ret, sk') \<Rightarrow> if ret \<le> 0 then (-1, sk') else write_all sk' (drop (nat ret) buf))"
  by pat_completeness auto
termination
  by (relation "measure (\<lambda>(sk, buf). length buf)") auto

declare write_all.simps [simp del]

definition rand_r :: "xsiam_agent_ctx \<Rightarrow> nat \<times> xsiam_agent_ctx" where
  "rand_r g = (case gx_rand_r g of [] \<Rightarrow> (0, g) | r # rs \<Rightarrow> (r, g\<lparr>gx_rand_r := rs\<rparr>))"

definition heartbeat_random_interval :: "xsiam_agent_ctx \<Rightarrow> int \<times> xsiam_agent_ctx" where
  "heartbeat_random_interval g =
     (let range = gx_heartbeat_max g - gx_heartbeat_min g + 1 in
      if range \<le> 1 then (gx_heartbeat_min g, g)
      else let (r, g') = rand_r g in (gx_heartbeat_min g + int r mod range, g'))"

definition schedule_next_heartbeat ::
  "xsiam_agent_conn \<Rightarrow> xsiam_agent_ctx \<Rightarrow> xsiam_agent_conn \<times> xsiam_agent_ctx" where
  "schedule_next_heartbeat conn g =
     (let (t, g1) = now_sec g; (i, g2) = heartbeat_random_interval g1
      in (conn\<lparr>cn_next_heartbeat := int t + i\<rparr>, g2))"

text \<open>The header that \<open>send_frame\<close> lays out byte by byte.\<close>

definition gw_header :: "byte \<Rightarrow> u32 \<Rightarrow> u64 \<Rightarrow> u64 \<Rightarrow> u32 \<Rightarrow> bytes" where
  "gw_header msg_type agent_id seq ms body_len =
     put_be32 WZCP_MAGIC @ [WZCP_VERSION, 32, 0, msg_type] @ put_be32 agent_id @ put_be64 seq @
     put_be64 ms @ put_be32 body_len"

definition send_frame ::
  "xsiam_agent_conn \<Rightarrow> byte \<Rightarrow> u32 \<Rightarrow> u64 \<Rightarrow> bytes \<Rightarrow> xsiam_agent_ctx
   \<Rightarrow> int \<times> xsiam_agent_conn \<times> xsiam_agent_ctx" where
  "send_frame conn msg_type agent_id seq body g =
     (let body_len = of_nat (length body);
          frame_len = 32 + body_len;
          (ms, g1) = gw_now_ms g;
          hdr = gw_header msg_type agent_id seq (of_nat ms) body_len;
          (r1, s1) = write_all (cn_sock conn) (put_be32 frame_len)
      in if r1 \<noteq> 0 then (-1, conn\<lparr>cn_sock := s1\<rparr>, g1)
         else let (r2, s2) = write_all s1 hdr in
           if r2 \<noteq> 0 then (-1, conn\<lparr>cn_sock := s2\<rparr>, g1)
           else if 0 < length body then
             let (r3, s3) = write_all s2 body in (r3, conn\<lparr>cn_sock := s3\<rparr>, g1)
           else (0, conn\<lparr>cn_sock := s2\<rparr>, g1))"

definition send_ack ::
  "xsiam_agent_conn \<Rightarrow> u64 \<Rightarrow> xsiam_agent_ctx \<Rightarrow> int \<times> xsiam_agent_conn \<times> xsiam_agent_ctx" where
  "send_ack conn seq g = send_frame conn MSG_ACK 0 seq (put_be64 seq) g"

section \<open>Parsing\<close>

text \<open>\<open>unpack_header\<close> at offset \<open>p\<close> of a buffer.\<close>

definition unpack_header :: "bytes \<Rightarrow> nat \<Rightarrow> (int \<times> wzcp_header) option" where
  "unpack_header buf p = do {
     h \<leftarrow> read_header buf p;
     Some (if wh_magic h \<noteq> WZCP_MAGIC \<or> wh_version h \<noteq> WZCP_VERSION \<or>
              unat (wh_header_len h) \<noteq> WZCP_HEADER_SIZE \<or> unat (wh_body_len h) > WZCP_MAX_FRAME
           then -1 else 0, h) }"

definition looks_like_wzcp :: "bytes \<Rightarrow> bool option" where
  "looks_like_wzcp buf =
     (if length buf < 4 + WZCP_HEADER_SIZE then Some False
      else do {
        frame_len \<leftarrow> be32_at buf 0;
        if unat frame_len < WZCP_HEADER_SIZE \<or> unat frame_len > WZCP_MAX_FRAME then Some False
        else do { m \<leftarrow> be32_at buf 4; Some (m = WZCP_MAGIC) } })"

text \<open>The scan of at most 128 bytes for a line end or a byte that is not text.\<close>

fun scan_text :: "nat \<Rightarrow> bytes \<Rightarrow> bool" where
  "scan_text 0 cs = False"
| "scan_text (Suc n) [] = False"
| "scan_text (Suc n) (c # cs) =
     (if c = 10 then True
      else if c = 0 \<or> c < 9 \<or> (c > 13 \<and> c < 32) then False
      else scan_text n cs)"

definition looks_like_syslog :: "bytes \<Rightarrow> bool" where
  "looks_like_syslog buf =
     (if length buf = 0 then False
      else if buf ! 0 = 60 \<and> 2 < length buf \<and> 48 \<le> buf ! 1 \<and> buf ! 1 \<le> 57 then True
      else scan_text 128 buf)"

text \<open>Tags are only replaced when they change.\<close>

definition set_tag :: "bytes option \<Rightarrow> bytes \<Rightarrow> xsiam_agent_ctx \<Rightarrow> bytes option \<times> xsiam_agent_ctx" where
  "set_tag old tag g = (if old = Some tag then (old, g) else replace_str old (Some tag) g)"

definition conn_set_classification ::
  "bytes \<Rightarrow> bytes \<Rightarrow> xsiam_agent_conn \<Rightarrow> xsiam_agent_ctx \<Rightarrow> xsiam_agent_conn \<times> xsiam_agent_ctx" where
  "conn_set_classification protocol_tag client_group conn g =
     (let (p, g1) = set_tag (cn_protocol_tag conn) protocol_tag g;
          (c, g2) = set_tag (cn_client_group conn) client_group g1
      in (conn\<lparr>cn_protocol_tag := p, cn_client_group := c\<rparr>, g2))"

text \<open>
  \<open>read_string\<close>: the bytes copied to the caller's array as the C string they are used as; a
  return code of -1 leaves the array empty. All arithmetic is 32-bit.
\<close>

definition read_string :: "bytes \<Rightarrow> u32 \<Rightarrow> u32 \<Rightarrow> nat \<Rightarrow> (int \<times> bytes \<times> u32) option" where
  "read_string body body_len off out_size =
     (if off + 2 > body_len \<or> out_size = 0 then Some (-1, [], off)
      else do {
        len \<leftarrow> be16_at body (unat off);
        if off + 2 + ucast len > body_len \<or> unat len \<ge> out_size then Some (-1, [], off + 2)
        else do {
          s \<leftarrow> peek body (unat (off + 2)) (unat len);
          Some (0, cstr_of s, off + 2 + ucast len) } })"

text \<open>\<open>json_escape_append\<close>, on a C string.\<close>

definition json_escape_byte :: "byte \<Rightarrow> bytes" where
  "json_escape_byte c =
     (if c = 92 then [92, 92]
      else if c = 34 then [92, 34]
      else if c = 10 then [92, 110]
      else if c = 13 then [92, 114]
      else if c = 9 then [92, 116]
      else if c < 32 then asc [CHR 0x5C, CHR ''u'', CHR ''0'', CHR ''0''] @ hex2 c
      else [c])"

definition json_escape :: "bytes \<Rightarrow> bytes" where
  "json_escape s = concat (map json_escape_byte s)"

section \<open>Records\<close>

definition encode_record :: "log_record \<Rightarrow> xsiam_agent_ctx \<Rightarrow> int \<times> xsiam_agent_ctx" where
  "encode_record r g =
     (case gx_encoder_ok g of
        [] \<Rightarrow> (0, g\<lparr>gx_encoder := gx_encoder g @ [r]\<rparr>)
      | True # oks \<Rightarrow> (0, g\<lparr>gx_encoder := gx_encoder g @ [r], gx_encoder_ok := oks\<rparr>)
      | False # oks \<Rightarrow> (-1, g\<lparr>gx_encoder_ok := oks\<rparr>))"

definition wzcp_record :: "xsiam_agent_conn \<Rightarrow> wzcp_header \<Rightarrow> byte \<Rightarrow> u64 \<Rightarrow> bytes \<Rightarrow> log_record" where
  "wzcp_record conn h kind event_id payload =
     [(asc ''protocol'', Str (asc ''wzcp'')),
      (asc ''session_id'', Str (cn_session_id conn)),
      (asc ''session_protocol'', Str (case cn_protocol_tag conn of Some t \<Rightarrow> t | None \<Rightarrow> SESSION_PROTO_AGENT_WZCP)),
      (asc ''client_group'', Str (case cn_client_group conn of Some t \<Rightarrow> t | None \<Rightarrow> SESSION_GROUP_AGENT)),
      (asc ''agent_id'', UInt (ucast (wh_agent_id h))),
      (asc ''frame_seq'', UInt (wh_seq h)),
      (asc ''event_id'', UInt event_id),
      (asc ''kind'', UInt (ucast kind)),
      (asc ''log'', Str payload)]"

definition append_record ::
  "xsiam_agent_conn \<Rightarrow> wzcp_header \<Rightarrow> byte \<Rightarrow> u64 \<Rightarrow> bytes \<Rightarrow> xsiam_agent_ctx \<Rightarrow> int \<times> xsiam_agent_ctx" where
  "append_record conn h kind event_id payload g = encode_record (wzcp_record conn h kind event_id payload) g"

text \<open>The length of a line is cut to 16 bits by the call.\<close>

definition syslog_record :: "xsiam_agent_conn \<Rightarrow> bytes \<Rightarrow> log_record" where
  "syslog_record conn payload =
     [(asc ''protocol'', Str (asc ''syslog'')),
      (asc ''session_id'', Str (cn_session_id conn)),
      (asc ''session_protocol'', Str (case cn_protocol_tag conn of Some t \<Rightarrow> t | None \<Rightarrow> SESSION_PROTO_SYSLOG)),
      (asc ''client_group'', Str (case cn_client_group conn of Some t \<Rightarrow> t | None \<Rightarrow> SESSION_GROUP_DEVICE)),
      (asc ''log'', Str payload)]"

definition append_syslog_record ::
  "xsiam_agent_conn \<Rightarrow> bytes \<Rightarrow> u16 \<Rightarrow> xsiam_agent_ctx \<Rightarrow> (int \<times> xsiam_agent_ctx) option" where
  "append_syslog_record conn payload payload_len g = do {
     p \<leftarrow> peek payload 0 (unat payload_len);
     Some (encode_record (syslog_record conn p) g) }"

text \<open>Handing the encoded records to the engine, when there are any.\<close>

definition flush_encoder :: "xsiam_agent_ctx \<Rightarrow> xsiam_agent_ctx" where
  "flush_encoder g = (if gx_encoder g \<noteq> [] then g\<lparr>gx_appended := gx_appended g @ [gx_encoder g]\<rparr> else g)"

section \<open>Message handlers\<close>

text \<open>The loop over the MAC addresses of a HELLO: \<open>i\<close> counts up to \<open>mac_count\<close>.\<close>

fun read_macs :: "nat \<Rightarrow> bool \<Rightarrow> bytes \<Rightarrow> u32 \<Rightarrow> u32 \<Rightarrow> bytes \<Rightarrow> (int \<times> bytes) option" where
  "read_macs 0 first body body_len off json = Some (0, json)"
| "read_macs (Suc n) first body body_len off json = do {
     (rc, mac, off') \<leftarrow> read_string body body_len off 32;
     if rc < 0 then Some (-1, json)
     else read_macs n False body body_len off'
            (json @ (if first then [] else [44]) @ [34] @ json_escape mac @ [34]) }"

text \<open>The schema 2 part of a HELLO: the host type and the addresses as a JSON array.\<close>

definition read_hello_ex ::
  "bytes \<Rightarrow> u32 \<Rightarrow> u32 \<Rightarrow> xsiam_agent_ctx \<Rightarrow> (int \<times> bytes \<times> bytes option \<times> xsiam_agent_ctx) option" where
  "read_hello_ex body body_len off g = do {
     (rc, host_type, off1) \<leftarrow> read_string body body_len off 16;
     if rc < 0 \<or> off1 + 2 > body_len then Some (-1, [], None, g)
     else do {
       mac_count \<leftarrow> be16_at body (unat off1);
       let (ok, g1) = gw_alloc g;
       if \<not> ok then Some (-1, [], None, g1)
       else do {
         (mrc, json) \<leftarrow> read_macs (unat mac_count) True body body_len (off1 + 2) [91];
         if mrc < 0 then Some (-1, [], None, g1)
         else Some (0, host_type, Some (json @ [93]), g1) } } }"

definition process_hello ::
  "xsiam_agent_conn \<Rightarrow> wzcp_header \<Rightarrow> bytes \<Rightarrow> xsiam_agent_ctx \<Rightarrow> (int \<times> xsiam_agent_conn \<times> xsiam_agent_ctx) option" where
  "process_hello conn h body g =
     (if wh_body_len h < 4 then Some (-1, conn, g)
      else do {
        schema_version \<leftarrow> be16_at body 0;
        if schema_version < 1 then Some (-1, conn, g)
        else do {
          (r1, agent_id, off1) \<leftarrow> read_string body (wh_body_len h) 4 128;
          if r1 < 0 then Some (-1, conn, g)
          else do {
            (r2, agent_name, off2) \<leftarrow> read_string body (wh_body_len h) off1 256;
            if r2 < 0 then Some (-1, conn, g)
            else do {
              (r3, agent_version, off3) \<leftarrow> read_string body (wh_body_len h) off2 64;
              if r3 < 0 then Some (-1, conn, g)
              else do {
                (r4, host_type, macs, g1) \<leftarrow>
                  (if 2 \<le> schema_version then read_hello_ex body (wh_body_len h) off3 g
                   else Some (0, [], None, g));
                if r4 < 0 then Some (-1, conn, g1)
                else do {
                  (conn1, g2) \<leftarrow> agent_state_mark_seen agent_id (Some agent_name) (Some agent_version)
                    (if host_type \<noteq> [] then Some host_type else None) macs conn g1;
                  let (conn2, g3) = conn_set_classification SESSION_PROTO_AGENT_WZCP SESSION_GROUP_AGENT conn1 g2;
                  Some (send_ack conn2 (wh_seq h) g3) } } } } } })"

text \<open>The loop over the events of a batch.\<close>

fun read_events ::
  "nat \<Rightarrow> xsiam_agent_conn \<Rightarrow> wzcp_header \<Rightarrow> bytes \<Rightarrow> u32 \<Rightarrow> xsiam_agent_ctx \<Rightarrow> (int \<times> xsiam_agent_ctx) option" where
  "read_events 0 conn h body off g = Some (0, g)"
| "read_events (Suc n) conn h body off g =
     (if off + 20 > wh_body_len h then Some (-1, g)
      else do {
        kind \<leftarrow> byte_at body (unat off);
        event_id \<leftarrow> be64_at body (unat (off + 10));
        payload_len \<leftarrow> be16_at body (unat (off + 18));
        if off + 20 + ucast payload_len > wh_body_len h then Some (-1, g)
        else do {
          payload \<leftarrow> peek body (unat (off + 20)) (unat payload_len);
          let (rc, g1) = append_record conn h kind event_id payload g;
          if rc < 0 then Some (-1, g1)
          else read_events n conn h body (off + 20 + ucast payload_len) g1 } })"

definition process_event_batch ::
  "xsiam_agent_conn \<Rightarrow> wzcp_header \<Rightarrow> bytes \<Rightarrow> xsiam_agent_ctx \<Rightarrow> (int \<times> xsiam_agent_conn \<times> xsiam_agent_ctx) option" where
  "process_event_batch conn h body g =
     (if wh_body_len h < 2 then Some (-1, conn, g)
      else do {
        count \<leftarrow> be16_at body 0;
        (rc, g1) \<leftarrow> read_events (unat count) conn h body 2 (g\<lparr>gx_encoder := []\<rparr>);
        if rc < 0 then Some (-1, conn, g1)
        else Some (send_ack conn (wh_seq h) (flush_encoder g1)) })"

text \<open>
  Syslog: every complete line of the buffer, from position \<open>i\<close> on, becomes a record; a trailing
  CR is dropped and empty lines are skipped. The result is the number of bytes consumed.
\<close>

fun syslog_loop ::
  "xsiam_agent_conn \<Rightarrow> nat \<Rightarrow> nat \<Rightarrow> nat \<Rightarrow> nat \<Rightarrow> xsiam_agent_ctx \<Rightarrow> (int \<times> xsiam_agent_ctx) option" where
  "syslog_loop conn 0 i line_start consumed g = Some (int consumed, g)"
| "syslog_loop conn (Suc n) i line_start consumed g =
     (if cn_buf conn ! i \<noteq> 10 then syslog_loop conn n (i + 1) line_start consumed g
      else
        let len0 = i - line_start;
            line_len = (if 0 < len0 \<and> cn_buf conn ! (line_start + len0 - 1) = 13 then len0 - 1 else len0)
        in if 0 < line_len then do {
             (rc, g1) \<leftarrow> append_syslog_record conn (drop line_start (cn_buf conn)) (of_nat line_len) g;
             if rc < 0 then Some (-1, g1)
             else syslog_loop conn n (i + 1) (i + 1) (i + 1) g1
           }
           else syslog_loop conn n (i + 1) (i + 1) (i + 1) g)"

definition process_syslog_lines :: "xsiam_agent_conn \<Rightarrow> xsiam_agent_ctx \<Rightarrow> (int \<times> xsiam_agent_ctx) option" where
  "process_syslog_lines conn g = do {
     (consumed, g1) \<leftarrow> syslog_loop conn (length (cn_buf conn)) 0 0 0 (g\<lparr>gx_encoder := []\<rparr>);
     if consumed < 0 then Some (-1, g1)
     else Some (consumed, flush_encoder g1) }"

section \<open>Frames and buffers\<close>

definition dispatch_frame ::
  "xsiam_agent_conn \<Rightarrow> wzcp_header \<Rightarrow> bytes \<Rightarrow> xsiam_agent_ctx \<Rightarrow> (int \<times> xsiam_agent_conn \<times> xsiam_agent_ctx) option" where
  "dispatch_frame conn h body g =
     (if wh_msg_type h = MSG_HELLO then process_hello conn h body g
      else if wh_msg_type h = MSG_HEARTBEAT then do {
        g1 \<leftarrow> (case cn_agent_key conn of Some k \<Rightarrow> agent_state_mark_heartbeat k g | None \<Rightarrow> Some g);
        Some (send_ack conn (wh_seq h) g1)
      }
      else if wh_msg_type h = MSG_EVENT_BATCH then do {
        g1 \<leftarrow> (case cn_agent_key conn of Some k \<Rightarrow> agent_state_mark_heartbeat k g | None \<Rightarrow> Some g);
        process_event_batch conn h body g1
      }
      else Some (0, conn, g))"

text \<open>
  The \<open>while\<close> loop of \<open>process_frames\<close>; \<open>consumed\<close> counts the bytes of complete frames. The
  handlers leave the receive buffer alone, which the loop states by passing it on.
\<close>

function frames_loop ::
  "xsiam_agent_conn \<Rightarrow> nat \<Rightarrow> xsiam_agent_ctx \<Rightarrow> (int \<times> xsiam_agent_conn \<times> xsiam_agent_ctx) option" where
  "frames_loop conn consumed g =
     (if length (cn_buf conn) - consumed < 4 + WZCP_HEADER_SIZE then Some (int consumed, conn, g)
      else case be32_at (cn_buf conn) consumed of
        None \<Rightarrow> None
      | Some frame_len \<Rightarrow>
          if unat frame_len < WZCP_HEADER_SIZE \<or> unat frame_len > WZCP_MAX_FRAME then Some (-1, conn, g)
          else if length (cn_buf conn) - consumed < 4 + unat frame_len then Some (int consumed, conn, g)
          else case unpack_header (cn_buf conn) (consumed + 4) of
            None \<Rightarrow> None
          | Some (urc, h) \<Rightarrow>
              if urc < 0 \<or> wh_body_len h \<noteq> frame_len - 32 then Some (-1, conn, g)
              else case peek (cn_buf conn) (consumed + 36) (unat (wh_body_len h)) of
                None \<Rightarrow> None
              | Some body \<Rightarrow>
                  (case dispatch_frame conn h body g of
                     None \<Rightarrow> None
                   | Some (ret, conn1, g1) \<Rightarrow>
                       if ret < 0 then Some (-1, conn1, g1)
                       else frames_loop (conn1\<lparr>cn_buf := cn_buf conn\<rparr>) (consumed + 4 + unat frame_len) g1))"
  by pat_completeness auto
termination
  by (relation "measure (\<lambda>(conn, consumed, g). length (cn_buf conn) - consumed)") auto

declare frames_loop.simps [simp del]

definition process_frames ::
  "xsiam_agent_conn \<Rightarrow> xsiam_agent_ctx \<Rightarrow> (int \<times> xsiam_agent_conn \<times> xsiam_agent_ctx) option" where
  "process_frames conn g =
     (let (conn1, g1) = conn_set_classification SESSION_PROTO_AGENT_WZCP SESSION_GROUP_AGENT conn g
      in frames_loop conn1 0 g1)"

definition process_buffer ::
  "xsiam_agent_conn \<Rightarrow> xsiam_agent_ctx \<Rightarrow> (int \<times> xsiam_agent_conn \<times> xsiam_agent_ctx) option" where
  "process_buffer conn g = do {
     w \<leftarrow> looks_like_wzcp (cn_buf conn);
     if w then process_frames conn g
     else if looks_like_syslog (cn_buf conn) then
       let (conn1, g1) = conn_set_classification SESSION_PROTO_SYSLOG SESSION_GROUP_DEVICE conn g in do {
         (consumed, g2) \<leftarrow> process_syslog_lines conn1 g1;
         Some (consumed, conn1, g2) }
     else if 4 + WZCP_HEADER_SIZE \<le> length (cn_buf conn) then Some (-1, conn, g)
     else Some (0, conn, g) }"

text \<open>\<open>memmove\<close> of the unconsumed rest to the front of the buffer.\<close>

definition consume_bytes :: "nat \<Rightarrow> bytes \<Rightarrow> bytes" where
  "consume_bytes n buf = (if 0 < n \<and> n \<le> length buf then drop n buf else buf)"

section \<open>Connections\<close>

text \<open>
  A new connection: \<open>NULL\<close> (inner \<open>None\<close>) when an allocation or the registration with the event loop
  fails; \<open>ev_ok\<close> is the result of \<open>mk_event_add\<close>.
\<close>

definition conn_add ::
  "nat \<Rightarrow> sock \<Rightarrow> bool \<Rightarrow> xsiam_agent_ctx \<Rightarrow> xsiam_agent_conn option \<times> xsiam_agent_ctx" where
  "conn_add cid sk ev_ok g =
     (let (ok1, g1) = gw_alloc g in
      if \<not> ok1 then (None, g1)
      else
        let g2 = g1\<lparr>gx_session_seq := gx_session_seq g1 + 1\<rparr>;
            (ok2, g3) = gw_alloc g2 in
        if \<not> ok2 then (None, g3)
        else
          let (ptag, g4) = xstrdup (Some SESSION_PROTO_UNKNOWN) g3;
              (grp, g5) = xstrdup (Some SESSION_GROUP_UNKNOWN) g4 in
          if ptag = None \<or> grp = None then (None, g5)
          else
            let conn = \<lparr>cn_id = cid, cn_sock = sk, cn_buf = [], cn_buf_size = gx_chunk_size g5, cn_busy = False,
                        cn_pending_close = False, cn_next_heartbeat = 0, cn_agent_key = None,
                        cn_protocol_tag = ptag, cn_client_group = grp,
                        cn_session_id = asc ''session-'' @ dec (unat (gx_session_seq g5))\<rparr>;
                (conn1, g6) = schedule_next_heartbeat conn g5 in
            if \<not> ev_ok then (None, g6)
            else (Some conn1, g6\<lparr>gx_connections := gx_connections g6 @ [conn1]\<rparr>))"

definition conn_del :: "xsiam_agent_conn \<Rightarrow> xsiam_agent_ctx \<Rightarrow> xsiam_agent_ctx option" where
  "conn_del conn g = do {
     g1 \<leftarrow> (case cn_agent_key conn of Some k \<Rightarrow> agent_state_mark_disconnected k g | None \<Rightarrow> Some g);
     Some (g1\<lparr>gx_connections := filter (\<lambda>c. cn_id c \<noteq> cn_id conn) (gx_connections g1)\<rparr>) }"

definition close_conn :: "xsiam_agent_conn \<Rightarrow> xsiam_agent_ctx \<Rightarrow> (int \<times> xsiam_agent_ctx) option" where
  "close_conn conn g = do { g1 \<leftarrow> conn_del conn g; Some (-1, g1) }"

text \<open>A connection that lives on is written back to the list.\<close>

definition keep_conn :: "xsiam_agent_conn \<Rightarrow> xsiam_agent_ctx \<Rightarrow> xsiam_agent_ctx" where
  "keep_conn conn g =
     g\<lparr>gx_connections := map (\<lambda>c. if cn_id c = cn_id conn then conn else c) (gx_connections g)\<rparr>"

text \<open>
  Making room for at least one byte: the connection with its buffer as it is after the step, or
  the reason why there is none.
\<close>

datatype room_result = Room nat | Too_big | No_memory

definition make_room :: "xsiam_agent_conn \<Rightarrow> xsiam_agent_ctx \<Rightarrow> room_result \<times> xsiam_agent_ctx" where
  "make_room conn g =
     (if cn_buf_size conn - length (cn_buf conn) < 1 then
        if cn_buf_size conn + gx_chunk_size g > gx_buffer_size g then (Too_big, g)
        else let (ok, g1) = gw_alloc g in
          if ok then (Room (cn_buf_size conn + gx_chunk_size g), g1) else (No_memory, g1)
      else (Room (cn_buf_size conn), g))"

text \<open>The end of \<open>conn_event\<close>: a close event or a pending close deletes the connection.\<close>

definition finish_event :: "bool \<Rightarrow> xsiam_agent_conn \<Rightarrow> xsiam_agent_ctx \<Rightarrow> (int \<times> xsiam_agent_ctx) option" where
  "finish_event ev_close conn g =
     (if ev_close then close_conn conn g
      else
        let conn1 = conn\<lparr>cn_busy := False\<rparr> in
        if cn_pending_close conn1 then close_conn conn1 g
        else Some (0, keep_conn conn1 g))"

definition conn_event ::
  "bool \<Rightarrow> bool \<Rightarrow> xsiam_agent_conn \<Rightarrow> xsiam_agent_ctx \<Rightarrow> (int \<times> xsiam_agent_ctx) option" where
  "conn_event ev_read ev_close conn0 g =
     (let conn = conn0\<lparr>cn_busy := True\<rparr> in
      if \<not> ev_read then finish_event ev_close conn g
      else case make_room conn g of
        (Too_big, g1) \<Rightarrow> close_conn conn g1
      | (No_memory, g1) \<Rightarrow> Some (-1, keep_conn (conn\<lparr>cn_busy := False\<rparr>) g1)
      | (Room new_size, g1) \<Rightarrow>
          let conn1 = conn\<lparr>cn_buf_size := new_size\<rparr>;
              (bytes, data, sk) = recv (cn_sock conn1) (new_size - length (cn_buf conn1));
              conn2 = conn1\<lparr>cn_sock := sk\<rparr>
          in if bytes \<le> 0 then close_conn conn2 g1
             else do {
               (processed, conn3, g2) \<leftarrow> process_buffer (conn2\<lparr>cn_buf := cn_buf conn2 @ data\<rparr>) g1;
               if processed < 0 then close_conn conn3 g2
               else finish_event ev_close
                      (conn3\<lparr>cn_buf := consume_bytes (nat processed) (cn_buf conn3)\<rparr>) g2 })"

section \<open>Collectors\<close>

definition collect ::
  "(nat \<times> sock \<times> bool) option \<Rightarrow> xsiam_agent_ctx \<Rightarrow> int \<times> xsiam_agent_ctx" where
  "collect incoming g =
     (case incoming of
        None \<Rightarrow> (0, g)
      | Some (cid, sk, ev_ok) \<Rightarrow>
          (case conn_add cid sk ev_ok g of
             (None, g1) \<Rightarrow> (-1, g1)
           | (Some _, g1) \<Rightarrow> (0, g1)))"

text \<open>The loop over the connections as they were when it started.\<close>

fun heartbeat_loop :: "xsiam_agent_conn list \<Rightarrow> int \<Rightarrow> xsiam_agent_ctx \<Rightarrow> xsiam_agent_ctx option" where
  "heartbeat_loop [] now g = Some g"
| "heartbeat_loop (conn # conns) now g =
     (if cn_protocol_tag conn \<noteq> Some SESSION_PROTO_AGENT_WZCP then heartbeat_loop conns now g
      else if now < cn_next_heartbeat conn then heartbeat_loop conns now g
      else
        let g1 = g\<lparr>gx_gateway_seq := gx_gateway_seq g + 1\<rparr>;
            (rc, conn1, g2) = send_frame conn MSG_HEARTBEAT 0 (gx_gateway_seq g1) [] g1
        in if rc \<noteq> 0 then do { g3 \<leftarrow> conn_del conn1 g2; heartbeat_loop conns now g3 }
           else
             let (conn2, g3) = schedule_next_heartbeat conn1 g2
             in heartbeat_loop conns now (keep_conn conn2 g3))"

definition heartbeat_collect :: "xsiam_agent_ctx \<Rightarrow> xsiam_agent_ctx option" where
  "heartbeat_collect g =
     (let (now, g1) = now_sec g in heartbeat_loop (gx_connections g1) (int now) g1)"

end
