(* ===== verification/Gw_Registry.thy ===== *)
theory Gw_Registry
  imports Gw_State
begin

text \<open>
  The agent cache as a registry. \<open>status\<close> is the abstract view: which agents are known and
  whether they are connected. The locale \<open>presence\<close> is the contract the rest of the plugin relies
  on, the agent cache is its interpretation.
\<close>

section \<open>The contract\<close>

datatype lifecycle = Seen bytes | Beat bytes | Gone bytes

fun presence_spec :: "lifecycle \<Rightarrow> (bytes \<rightharpoonup> bool) \<Rightarrow> (bytes \<rightharpoonup> bool)" where
  "presence_spec (Seen a) m = (if a = [] then m else m(a \<mapsto> True))"
| "presence_spec (Beat a) m = m"
| "presence_spec (Gone a) m = (if m a = None then m else m(a \<mapsto> False))"

locale presence =
  fixes ok :: "'s \<Rightarrow> bool"
    and status :: "'s \<Rightarrow> bytes \<rightharpoonup> bool"
    and seen heartbeat gone :: "bytes \<Rightarrow> 's \<Rightarrow> 's option"
  assumes seen_step: "ok s \<Longrightarrow> \<exists>s'. seen a s = Some s' \<and> ok s' \<and> status s' = presence_spec (Seen a) (status s)"
    and heartbeat_step: "ok s \<Longrightarrow> \<exists>s'. heartbeat a s = Some s' \<and> ok s' \<and> status s' = presence_spec (Beat a) (status s)"
    and gone_step: "ok s \<Longrightarrow> \<exists>s'. gone a s = Some s' \<and> ok s' \<and> status s' = presence_spec (Gone a) (status s)"
begin

fun apply_lifecycle :: "lifecycle \<Rightarrow> 's \<Rightarrow> 's option" where
  "apply_lifecycle (Seen a) s = seen a s"
| "apply_lifecycle (Beat a) s = heartbeat a s"
| "apply_lifecycle (Gone a) s = gone a s"

fun run_lifecycle :: "lifecycle list \<Rightarrow> 's \<Rightarrow> 's option" where
  "run_lifecycle [] s = Some s"
| "run_lifecycle (e # es) s = Option.bind (apply_lifecycle e s) (run_lifecycle es)"

lemma lifecycle_step:
  "ok s \<Longrightarrow> \<exists>s'. apply_lifecycle e s = Some s' \<and> ok s' \<and> status s' = presence_spec e (status s)"
  using seen_step heartbeat_step gone_step by (cases e) auto

text \<open>Any sequence of lifecycle events is carried out, with the effect the specification gives.\<close>

lemma run_refines:
  "ok s \<Longrightarrow> \<exists>s'. run_lifecycle es s = Some s' \<and> ok s' \<and> status s' = fold presence_spec es (status s)"
proof (induction es arbitrary: s)
  case (Cons e es)
  from lifecycle_step [OF Cons.prems] obtain s1 where
    s1: "apply_lifecycle e s = Some s1" "ok s1" "status s1 = presence_spec e (status s)" by blast
  from Cons.IH [OF s1(2)] s1 show ?case by auto
qed simp

end

section \<open>Frame conditions of the environment\<close>

text \<open>Everything but the scripts, the clock and the posted events.\<close>

definition inner where
  "inner g = (gx_tenant_id g, gx_heartbeat_flush_interval g, gx_event_enabled g, gx_fb_instance_id g,
     gx_chunk_size g, gx_buffer_size g, gx_heartbeat_min g, gx_heartbeat_max g, gx_gateway_seq g,
     gx_session_seq g, gx_agents g, gx_connections g, gx_encoder g, gx_appended g)"

definition quiet :: "xsiam_agent_ctx \<Rightarrow> xsiam_agent_ctx \<Rightarrow> bool" where
  "quiet g g' \<longleftrightarrow> inner g' = inner g \<and> (roomy (gx_heap g) \<longrightarrow> roomy (gx_heap g')) \<and> gx_encoder_ok g' = gx_encoder_ok g"

lemma quiet_refl [simp]: "quiet g g"
  by (simp add: quiet_def)

lemma quiet_trans [trans]: "quiet g g1 \<Longrightarrow> quiet g1 g2 \<Longrightarrow> quiet g g2"
  by (auto simp: quiet_def)

lemma quiet_fields:
  assumes "quiet g g'"
  shows "gx_agents g' = gx_agents g" "gx_connections g' = gx_connections g" "gx_encoder g' = gx_encoder g"
    "gx_appended g' = gx_appended g" "gx_gateway_seq g' = gx_gateway_seq g" "gx_chunk_size g' = gx_chunk_size g"
    "gx_buffer_size g' = gx_buffer_size g" "gx_encoder_ok g' = gx_encoder_ok g" "gx_session_seq g' = gx_session_seq g"
    "gx_tenant_id g' = gx_tenant_id g" "gx_heartbeat_flush_interval g' = gx_heartbeat_flush_interval g"
    "roomy (gx_heap g) \<Longrightarrow> roomy (gx_heap g')"
  using assms by (auto simp: quiet_def inner_def)

text \<open>The connections and the buffer limits are as they were.\<close>

definition conns_kept :: "xsiam_agent_ctx \<Rightarrow> xsiam_agent_ctx \<Rightarrow> bool" where
  "conns_kept g g' \<longleftrightarrow> gx_connections g' = gx_connections g \<and> gx_chunk_size g' = gx_chunk_size g \<and>
     gx_buffer_size g' = gx_buffer_size g"

lemma conns_kept_refl [simp]: "conns_kept g g"
  by (simp add: conns_kept_def)

lemma conns_kept_trans [trans]: "conns_kept g g1 \<Longrightarrow> conns_kept g1 g2 \<Longrightarrow> conns_kept g g2"
  by (simp add: conns_kept_def)

lemma quiet_kept: "quiet g g' \<Longrightarrow> conns_kept g g'"
  using quiet_fields by (simp add: conns_kept_def)

lemma conns_kept_update [simp]: "conns_kept g (update_agent k st g') = conns_kept g g'"
  by (simp add: conns_kept_def update_agent_def)

lemma quiet_now_ms: "gw_now_ms g = (t, g') \<Longrightarrow> quiet g g'"
  by (auto simp: gw_now_ms_def quiet_def inner_def split: list.splits)

lemma quiet_now_sec: "now_sec g = (t, g') \<Longrightarrow> quiet g g'"
  using quiet_now_ms [of g] by (auto simp: now_sec_def Let_def split: prod.splits)

lemma quiet_alloc: "gw_alloc g = (r, g') \<Longrightarrow> quiet g g'"
  by (cases "gx_heap g") (auto simp: gw_alloc_def quiet_def inner_def roomy_def)

lemma quiet_xstrdup: "xstrdup s g = (r, g') \<Longrightarrow> quiet g g'"
  using quiet_alloc [of g] by (auto simp: xstrdup_def Let_def split: prod.splits)

lemma quiet_replace_str: "replace_str d s g = (r, g') \<Longrightarrow> quiet g g'"
  using quiet_xstrdup [of s g] by (auto simp: replace_str_def Let_def split: prod.splits)

lemma quiet_post: "quiet g (post_agent_event ev aid g)"
proof -
  obtain r g1 where a: "gw_alloc g = (r, g1)" by force
  note q = quiet_alloc [OF a]
  have "quiet g1 (g1\<lparr>gx_event_up := u, gx_events := e\<rparr>)" "quiet g1 (g1\<lparr>gx_event_up := u\<rparr>)" "quiet g1 (g1\<lparr>gx_events := e\<rparr>)" for u e
    by (simp_all add: quiet_def inner_def)
  with q a show ?thesis
    by (auto simp: post_agent_event_def Let_def split: list.splits bool.splits intro: quiet_trans)
qed

lemma quiet_new_agent: "new_agent aid now g = (st, g') \<Longrightarrow> quiet g g'"
  unfolding new_agent_def Let_def
  by (auto split: prod.splits dest!: quiet_xstrdup) (simp add: quiet_def)

text \<open>With memory available, copies succeed.\<close>

lemma roomy_xstrdup:
  "roomy (gx_heap g) \<Longrightarrow> xstrdup (Some s) g = (r, g') \<Longrightarrow> r = Some s"
  by (cases "gx_heap g") (auto simp: xstrdup_def gw_alloc_def roomy_def)

lemma roomy_replace_str:
  "roomy (gx_heap g) \<Longrightarrow> replace_str d (Some s) g = (r, g') \<Longrightarrow> r = Some s"
  using roomy_xstrdup [of g s] by (auto simp: replace_str_def Let_def split: prod.splits)

section \<open>The registry\<close>

definition registry :: "xsiam_agent_ctx \<Rightarrow> bytes \<rightharpoonup> xsiam_agent_state" where
  "registry g a = find (\<lambda>st. st_agent_id st = Some a) (gx_agents g)"

definition connected :: "xsiam_agent_ctx \<Rightarrow> bytes \<rightharpoonup> bool" where
  "connected g a = map_option st_is_connected (registry g a)"

text \<open>Every entry has an id, no two the same, and an address list, and memory is available.\<close>

definition registry_ok :: "xsiam_agent_ctx \<Rightarrow> bool" where
  "registry_ok g \<longleftrightarrow>
     (\<forall>st \<in> set (gx_agents g). st_agent_id st \<noteq> None \<and> st_mac_addresses_json st \<noteq> None) \<and> distinct (map st_agent_id (gx_agents g)) \<and>
     roomy (gx_heap g)"

lemma registry_ok_quiet: "registry_ok g \<Longrightarrow> quiet g g' \<Longrightarrow> registry_ok g'"
  using quiet_fields by (simp add: registry_ok_def)

lemma registry_quiet: "quiet g g' \<Longrightarrow> registry g' = registry g"
  using quiet_fields(1) by (simp add: registry_def fun_eq_iff)

lemma connected_quiet: "quiet g g' \<Longrightarrow> connected g' = connected g"
  by (simp add: connected_def registry_quiet fun_eq_iff)

lemma connected_update: "registry g' = (registry g)(a \<mapsto> st) \<Longrightarrow> connected g' = (connected g)(a \<mapsto> st_is_connected st)"
  by (simp add: connected_def fun_eq_iff)

lemma find_agent_cases:
  "\<forall>st \<in> set sts. st_agent_id st \<noteq> None \<Longrightarrow>
   (case find (\<lambda>st. st_agent_id st = Some a) sts of
      None \<Rightarrow> find_agent a sts = Some None
    | Some st \<Rightarrow> \<exists>k < length sts. find_agent a sts = Some (Some k) \<and> sts ! k = st \<and> st_agent_id st = Some a)"
  by (induction sts) (auto split: option.splits)

text \<open>Replacing entry \<open>k\<close> by one with the same id is an update of the map at that id.\<close>

lemma find_update:
  assumes "k < length sts" "distinct (map st_agent_id sts)" "st_agent_id (sts ! k) = Some a" "st_agent_id st = Some a"
  shows "find (\<lambda>s. st_agent_id s = Some b) (sts[k := st]) =
     (if b = a then Some st else find (\<lambda>s. st_agent_id s = Some b) sts)"
  using assms
proof (induction sts arbitrary: k)
  case (Cons x xs)
  show ?case
  proof (cases k)
    case 0
    with Cons.prems show ?thesis by auto
  next
    case (Suc l)
    with Cons.prems have "Some a \<in> st_agent_id ` set xs" by (metis image_eqI length_Cons nth_Cons_Suc nth_mem Suc_less_eq)
    with Cons.prems(2) have "st_agent_id x \<noteq> Some a" by auto
    with Suc Cons show ?thesis by auto
  qed
qed simp

lemma map_id_update:
  "k < length sts \<Longrightarrow> st_agent_id (sts ! k) = Some a \<Longrightarrow> st_agent_id st = Some a \<Longrightarrow>
   map st_agent_id (sts[k := st]) = map st_agent_id sts"
  by (metis list_update_id map_update nth_map)

lemma update_agent_registry:
  assumes "registry_ok g" "k < length (gx_agents g)" "st_agent_id (gx_agents g ! k) = Some a" "st_agent_id st = Some a"
    "st_mac_addresses_json st \<noteq> None"
  shows "registry_ok (update_agent k st g)" "registry (update_agent k st g) = (registry g)(a \<mapsto> st)"
proof -
  have "distinct (map st_agent_id (gx_agents g))" using assms(1) by (simp add: registry_ok_def)
  then show "registry (update_agent k st g) = (registry g)(a \<mapsto> st)"
    using find_update [OF assms(2) _ assms(3,4)] by (auto simp: registry_def update_agent_def fun_eq_iff)
  show "registry_ok (update_agent k st g)"
    using assms map_id_update [OF assms(2-4)]
    by (auto simp: registry_ok_def update_agent_def dest!: set_update_subset_insert [THEN subsetD])
qed

text \<open>Looking an agent up.\<close>

lemma agent_state_get_known:
  assumes "registry_ok g" "registry g a = Some st"
  shows "\<exists>k g'. agent_state_get a create g = Some (Some k, g') \<and> quiet g g' \<and>
     k < length (gx_agents g') \<and> gx_agents g' ! k = st \<and> st_agent_id st = Some a"
proof -
  obtain t g1 where t: "now_sec g = (t, g1)" by force
  note q = quiet_now_sec [OF t]
  from assms find_agent_cases [of "gx_agents g" a] obtain k where
    "k < length (gx_agents g)" "find_agent a (gx_agents g) = Some (Some k)" "gx_agents g ! k = st" "st_agent_id st = Some a"
    by (auto simp: registry_ok_def registry_def)
  then show ?thesis using t q quiet_fields(1) [OF q] by (auto simp: agent_state_get_def)
qed

lemma agent_state_get_unknown:
  assumes "registry_ok g" "registry g a = None"
  shows "\<exists>g'. agent_state_get a False g = Some (None, g') \<and> quiet g g'"
proof -
  obtain t g1 where t: "now_sec g = (t, g1)" by force
  note q = quiet_now_sec [OF t]
  from assms find_agent_cases [of "gx_agents g" a] have "find_agent a (gx_agents g) = Some None"
    by (auto simp: registry_ok_def registry_def)
  then show ?thesis using t q quiet_fields(1) [OF q] by (auto simp: agent_state_get_def)
qed

lemma new_agent_id:
  assumes "roomy (gx_heap g)" "new_agent a now g = (st, g')"
  shows "st_agent_id st = Some a" "\<not> st_is_connected st" "st_mac_addresses_json st \<noteq> None"
proof -
  show "st_agent_id st = Some a" "\<not> st_is_connected st"
    using assms(2) roomy_xstrdup [OF assms(1), of a] unfolding new_agent_def Let_def by (auto split: prod.splits)
  have step: "xstrdup (Some s) h = (r, h') \<Longrightarrow> roomy (gx_heap h) \<Longrightarrow> r = Some s \<and> roomy (gx_heap h')" for s h r h'
    using roomy_xstrdup quiet_fields(12) [OF quiet_xstrdup] by blast
  show "st_mac_addresses_json st \<noteq> None"
    using assms unfolding new_agent_def Let_def by (auto split: prod.splits dest!: step)
qed

text \<open>
  The database \<open>db\<close> has the presence of every agent whose entry is not waiting for an upload.
\<close>

definition synced :: "(bytes \<rightharpoonup> bool) \<Rightarrow> xsiam_agent_ctx \<Rightarrow> bool" where
  "synced db g \<longleftrightarrow> (\<forall>a st. registry g a = Some st \<and> \<not> st_dirty st \<longrightarrow> db a = Some (st_is_connected st))"

lemma synced_quiet: "quiet g g' \<Longrightarrow> synced db g' = synced db g"
  by (simp add: synced_def registry_quiet)

lemma synced_update:
  "registry g' = (registry g)(a \<mapsto> st') \<Longrightarrow> synced db g \<Longrightarrow>
   st_dirty st' \<or> (\<exists>st. registry g a = Some st \<and> \<not> st_dirty st \<and> st_is_connected st' = st_is_connected st) \<Longrightarrow> synced db g'"
  by (auto simp: synced_def split: if_splits)

lemma registry_macs: "registry_ok g \<Longrightarrow> registry g a = Some st \<Longrightarrow> st_mac_addresses_json st \<noteq> None"
  by (auto simp: registry_ok_def registry_def find_Some_iff)

lemma agent_state_get_new:
  assumes "registry_ok g" "registry g a = None"
  shows "\<exists>k g' st. agent_state_get a True g = Some (Some k, g') \<and> registry_ok g' \<and>
     registry g' = (registry g)(a \<mapsto> st) \<and> conns_kept g g' \<and>
     k < length (gx_agents g') \<and> gx_agents g' ! k = st \<and> st_agent_id st = Some a"
proof -
  obtain t g1 where t: "now_sec g = (t, g1)" by force
  obtain r g2 where a: "gw_alloc g1 = (r, g2)" by force
  obtain st g3 where n: "new_agent a t g2 = (st, g3)" by force
  have q1: "quiet g g1" and q3: "quiet g g3"
    using quiet_now_sec [OF t] quiet_alloc [OF a] quiet_new_agent [OF n] quiet_trans by blast+
  have q2: "quiet g g2" using quiet_now_sec [OF t] quiet_alloc [OF a] quiet_trans by blast
  have roomy: "roomy (gx_heap g1)" "roomy (gx_heap g2)"
    using assms(1) quiet_fields(12) [OF q1] quiet_fields(12) [OF q2] by (auto simp: registry_ok_def)
  have r: "r" using roomy(1) a by (cases "gx_heap g1") (auto simp: gw_alloc_def roomy_def)
  have st: "st_agent_id st = Some a" "st_mac_addresses_json st \<noteq> None" using new_agent_id [OF roomy(2) n] by simp_all
  from assms find_agent_cases [of "gx_agents g" a] have f: "find_agent a (gx_agents g) = Some None"
      "find (\<lambda>st. st_agent_id st = Some a) (gx_agents g) = None"
    by (auto simp: registry_ok_def registry_def)
  define g' where "g' = g3\<lparr>gx_agents := gx_agents g @ [st]\<rparr>"
  have "agent_state_get a True g = Some (Some (length (gx_agents g)), g')"
    using t a n r f(1) quiet_fields(1) [OF q1] quiet_fields(1) [OF q3] by (simp add: agent_state_get_def g'_def)
  moreover have "registry_ok g'"
    using assms(1) st f(2) quiet_fields(12) [OF q3] by (auto simp: registry_ok_def g'_def find_None_iff)
  moreover have "registry g' = (registry g)(a \<mapsto> st)"
    using st f(2) by (auto simp: registry_def g'_def fun_eq_iff find_append split: option.splits)
  ultimately show ?thesis using st quiet_kept [OF q3] by (auto simp: g'_def conns_kept_def)
qed

section \<open>State transitions\<close>

text \<open>What a HELLO leaves in the registry.\<close>

definition seen_entry ::
  "bytes \<Rightarrow> bytes option \<Rightarrow> bytes option \<Rightarrow> bytes option \<Rightarrow> bytes option \<Rightarrow> xsiam_agent_state \<Rightarrow> bool" where
  "seen_entry a name version host_type macs st \<longleftrightarrow>
     st_agent_id st = Some a \<and> st_hostname st = Some (non_empty_or name a) \<and>
     st_agent_version st = Some (non_empty_or version (asc ''unknown'')) \<and>
     (host_type \<in> {Some (asc ''server''), Some (asc ''pc'')} \<longrightarrow> st_host_type st = host_type) \<and>
     (macs = None \<or> st_mac_addresses_json st = macs) \<and>
     st_agent_status st = Some (asc ''online'') \<and> st_is_connected st \<and> st_dirty st"

lemma agent_state_get_create:
  assumes "registry_ok g"
  shows "\<exists>k g' st. agent_state_get a True g = Some (Some k, g') \<and> registry_ok g' \<and>
     (\<forall>st'. (registry g')(a \<mapsto> st') = (registry g)(a \<mapsto> st')) \<and> conns_kept g g' \<and>
     k < length (gx_agents g') \<and> gx_agents g' ! k = st \<and> st_agent_id st = Some a"
proof (cases "registry g a")
  case None
  from agent_state_get_new [OF assms None] show ?thesis by (auto simp: fun_eq_iff)
next
  case (Some st)
  from agent_state_get_known [OF assms Some, of True] obtain k g' where
    "agent_state_get a True g = Some (Some k, g')" "quiet g g'" "k < length (gx_agents g')"
    "gx_agents g' ! k = st" "st_agent_id st = Some a" by blast
  then show ?thesis
    using registry_ok_quiet [OF assms] registry_quiet [of g g'] quiet_kept [of g g'] by auto
qed

lemma mark_seen_registers:
  assumes ok: "registry_ok g" and "a \<noteq> []"
  shows "\<exists>conn' g' st. agent_state_mark_seen a name version host_type macs conn g = Some (conn', g') \<and>
     conn' = conn\<lparr>cn_agent_key := Some a\<rparr> \<and> registry_ok g' \<and> registry g' = (registry g)(a \<mapsto> st) \<and>
     conns_kept g g' \<and> seen_entry a name version host_type macs st"
proof -
  obtain now g1 where t: "now_sec g = (now, g1)" by force
  have q1: "quiet g g1" using quiet_now_sec [OF t] .
  from agent_state_get_create [OF registry_ok_quiet [OF ok q1]] obtain k g2 st where
    g2: "agent_state_get a True g1 = Some (Some k, g2)" "registry_ok g2"
      "\<forall>st'. (registry g2)(a \<mapsto> st') = (registry g1)(a \<mapsto> st')" "conns_kept g1 g2"
      "k < length (gx_agents g2)" "gx_agents g2 ! k = st" "st_agent_id st = Some a" by blast
  obtain h3 g3 where r3: "replace_str (st_hostname st) (Some (non_empty_or name a)) g2 = (h3, g3)" by force
  obtain v4 g4 where r4: "replace_str (st_agent_version st) (Some (non_empty_or version (asc ''unknown''))) g3 = (v4, g4)" by force
  obtain t5 g5 where r5: "(case host_type of
      Some t \<Rightarrow> if t = asc ''server'' \<or> t = asc ''pc'' then replace_str (st_host_type st) (Some t) g4
               else (st_host_type st, g4)
    | None \<Rightarrow> (st_host_type st, g4)) = (t5, g5)" by force
  obtain m6 g6 where r6: "(case macs of
      None \<Rightarrow> (st_mac_addresses_json st, g5)
    | Some m \<Rightarrow> (case xstrdup (Some m) g5 of
                   (Some m', g') \<Rightarrow> (Some m', g') | (None, g') \<Rightarrow> xstrdup (Some (asc ''[]'')) g')) = (m6, g6)" by force
  obtain s7 g7 where r7: "replace_str (st_agent_status st) (Some (asc ''online'')) g6 = (s7, g7)" by force
  have q: "quiet g2 g3" "quiet g3 g4" "quiet g4 g5" "quiet g5 g6" "quiet g6 g7"
    using quiet_replace_str [OF r3] quiet_replace_str [OF r4] r5 r6 quiet_replace_str [OF r7]
    by (auto split: option.splits if_splits prod.splits dest!: quiet_replace_str quiet_xstrdup intro: quiet_trans)
  have room: "roomy (gx_heap g2)" "roomy (gx_heap g3)" "roomy (gx_heap g4)" "roomy (gx_heap g5)" "roomy (gx_heap g6)"
    using g2(2) quiet_fields(12) [OF q(1)] quiet_fields(12) [OF q(2)] quiet_fields(12) [OF q(3)] quiet_fields(12) [OF q(4)]
    by (auto simp: registry_ok_def)
  define st' where "st' = st\<lparr>st_hostname := h3, st_agent_version := v4, st_host_type := t5,
      st_mac_addresses_json := m6, st_agent_status := s7, st_is_connected := True,
      st_connected_at := now, st_last_seen := now, st_last_heartbeat := now, st_updated_at := now, st_dirty := True\<rparr>"
  have e: "seen_entry a name version host_type macs st'"
    using roomy_replace_str [OF room(1) r3] roomy_replace_str [OF room(2) r4] roomy_replace_str [OF room(3)]
      roomy_replace_str [OF room(5) r7] r5 r6 roomy_xstrdup [OF room(4)] g2(7)
    by (auto simp: seen_entry_def st'_def split: option.splits if_splits prod.splits)
  have q7: "quiet g2 g7" using q quiet_trans by meson
  let ?g8 = "update_agent k st' g7"
  have "st_mac_addresses_json st \<noteq> None" using g2(2,5,6) by (auto simp: registry_ok_def)
  then have "m6 \<noteq> None" using r6 roomy_xstrdup [OF room(4)] by (cases macs) (auto split: option.splits prod.splits)
  then have idx: "k < length (gx_agents g7)" "st_agent_id (gx_agents g7 ! k) = Some a" "st_agent_id st' = Some a"
      "st_mac_addresses_json st' \<noteq> None"
    using g2(5-7) quiet_fields(1) [OF q7] by (simp_all add: st'_def)
  note u = update_agent_registry [OF registry_ok_quiet [OF g2(2) q7] idx]
  obtain key g9 where r9: "replace_str (cn_agent_key conn) (Some a) ?g8 = (key, g9)" by force
  have key: "key = Some a" using roomy_replace_str [OF _ r9] u(1) by (simp add: registry_ok_def)
  have q9: "quiet ?g8 (post_agent_event ''connect'' (Some a) g9)"
    using quiet_replace_str [OF r9] quiet_post quiet_trans by blast
  have "agent_state_mark_seen a name version host_type macs conn g =
      Some (conn\<lparr>cn_agent_key := Some a\<rparr>, post_agent_event ''connect'' (Some a) g9)"
    unfolding agent_state_mark_seen_def Let_def t prod.case if_not_P [OF assms(2)] g2(1) bind.bind_lunit
      option.case g2(6) r3 r4 r5 r6 r7 st'_def [symmetric] r9 key ..
  moreover have "registry (post_agent_event ''connect'' (Some a) g9) = (registry g)(a \<mapsto> st')"
    using registry_quiet [OF q9] u(2) registry_quiet [OF q7] g2(3) registry_quiet [OF q1] by simp
  moreover have "conns_kept g (post_agent_event ''connect'' (Some a) g9)"
    using quiet_kept [OF q9] quiet_kept [OF q7] g2(4) quiet_kept [OF q1] by (simp add: conns_kept_def update_agent_def)
  ultimately show ?thesis using e registry_ok_quiet [OF u(1) q9] by blast
qed

lemma mark_heartbeat_keeps:
  assumes ok: "registry_ok g"
  shows "\<exists>g'. agent_state_mark_heartbeat a g = Some g' \<and> registry_ok g' \<and> connected g' = connected g \<and>
     conns_kept g g' \<and> dom (registry g') = dom (registry g) \<and> (\<forall>db. synced db g \<longrightarrow> synced db g')"
proof -
  obtain now g1 where t: "now_sec g = (now, g1)" by force
  have q1: "quiet g g1" using quiet_now_sec [OF t] .
  have ok1: "registry_ok g1" using registry_ok_quiet [OF ok q1] .
  show ?thesis
  proof (cases "registry g1 a")
    case None
    from agent_state_get_unknown [OF ok1 None] obtain g2 where
      g2: "agent_state_get a False g1 = Some (None, g2)" "quiet g1 g2" by blast
    have q2: "quiet g g2" using q1 g2(2) quiet_trans by blast
    have "agent_state_mark_heartbeat a g = Some g2" using t g2(1) by (simp add: agent_state_mark_heartbeat_def)
    then show ?thesis
      using registry_ok_quiet [OF ok q2] registry_quiet [OF q2] connected_quiet [OF q2] quiet_kept [OF q2]
        synced_quiet [OF q2] by simp
  next
    case (Some st)
    from agent_state_get_known [OF ok1 Some, of False] obtain k g2 where
      g2: "agent_state_get a False g1 = Some (Some k, g2)" "quiet g1 g2" "k < length (gx_agents g2)"
        "gx_agents g2 ! k = st" "st_agent_id st = Some a" by blast
    have q2: "quiet g g2" using q1 g2(2) quiet_trans by blast
    define st' where "st' = st\<lparr>st_last_heartbeat := now, st_last_seen := now, st_updated_at := now,
        st_dirty := (st_dirty st \<or> gx_heartbeat_flush_interval g2 \<le> int now - int (st_last_db_flush st))\<rparr>"
    let ?g3 = "update_agent k st' g2"
    note u = update_agent_registry [OF registry_ok_quiet [OF ok q2] g2(3), of a st']
    have u': "registry_ok ?g3" "registry ?g3 = (registry g2)(a \<mapsto> st')"
      using u g2(4,5) registry_macs [OF ok1 Some] by (auto simp: st'_def)
    let ?g4 = "post_agent_event ''heartbeat'' (Some a) ?g3"
    have q4: "quiet ?g3 ?g4" by (rule quiet_post)
    have "agent_state_mark_heartbeat a g = Some ?g4"
      unfolding agent_state_mark_heartbeat_def Let_def t prod.case g2(1) bind.bind_lunit option.case g2(4) st'_def ..
    moreover have rg: "registry ?g4 = (registry g)(a \<mapsto> st')" "registry g a = Some st"
      using registry_quiet [OF q4] u'(2) registry_quiet [OF q2] Some registry_quiet [OF q1] by simp_all
    moreover have "connected ?g4 = connected g"
      using connected_update [OF rg(1)] rg(2) by (auto simp: connected_def fun_eq_iff st'_def)
    moreover have "synced db ?g4" if "synced db g" for db
      using synced_update [OF rg(1) that] rg(2) by (auto simp: st'_def)
    moreover have "dom (registry ?g4) = dom (registry g)" unfolding rg(1) using rg(2) by auto
    moreover have "conns_kept g ?g4"
      using quiet_kept [OF q4] quiet_kept [OF q2] by (simp add: conns_kept_def update_agent_def)
    ultimately show ?thesis using registry_ok_quiet [OF u'(1) q4] by blast
  qed
qed

lemma mark_disconnected_drops:
  assumes ok: "registry_ok g"
  shows "\<exists>g'. agent_state_mark_disconnected a g = Some g' \<and> registry_ok g' \<and>
     connected g' = presence_spec (Gone a) (connected g) \<and> conns_kept g g' \<and>
     (\<forall>db. synced db g \<longrightarrow> synced db g')"
proof -
  obtain now g1 where t: "now_sec g = (now, g1)" by force
  have q1: "quiet g g1" using quiet_now_sec [OF t] .
  have ok1: "registry_ok g1" using registry_ok_quiet [OF ok q1] .
  show ?thesis
  proof (cases "registry g1 a")
    case None
    from agent_state_get_unknown [OF ok1 None] obtain g2 where
      g2: "agent_state_get a False g1 = Some (None, g2)" "quiet g1 g2" by blast
    have q2: "quiet g g2" using q1 g2(2) quiet_trans by blast
    have "agent_state_mark_disconnected a g = Some g2" using t g2(1) by (simp add: agent_state_mark_disconnected_def)
    then show ?thesis using registry_ok_quiet [OF ok q2] registry_quiet [OF q2] quiet_kept [OF q2]
        synced_quiet [OF q2] None registry_quiet [OF q1] by (simp add: connected_def fun_eq_iff)
  next
    case (Some st)
    from agent_state_get_known [OF ok1 Some, of False] obtain k g2 where
      g2: "agent_state_get a False g1 = Some (Some k, g2)" "quiet g1 g2" "k < length (gx_agents g2)"
        "gx_agents g2 ! k = st" "st_agent_id st = Some a" by blast
    have q2: "quiet g g2" using q1 g2(2) quiet_trans by blast
    have here: "registry g a = Some st" "registry g2 = registry g"
      using Some registry_quiet [OF q1] registry_quiet [OF q2] by simp_all
    show ?thesis
    proof (cases "st_is_connected st")
      case False
      then have "agent_state_mark_disconnected a g = Some g2"
        using t g2(1,4) by (simp add: agent_state_mark_disconnected_def)
      then show ?thesis using False registry_ok_quiet [OF ok q2] here quiet_kept [OF q2] synced_quiet [OF q2]
        by (auto simp: connected_def fun_eq_iff)
    next
      case True
      obtain s3 g3 where r3: "replace_str (st_agent_status st) (Some (asc ''offline'')) g2 = (s3, g3)" by force
      have q3: "quiet g g3" using q2 quiet_replace_str [OF r3] quiet_trans by blast
      define st' where "st' = st\<lparr>st_is_connected := False, st_agent_status := s3, st_last_seen := now,
          st_updated_at := now, st_dirty := True\<rparr>"
      have g3: "k < length (gx_agents g3)" "st_agent_id (gx_agents g3 ! k) = Some a" "st_agent_id st' = Some a"
          "st_mac_addresses_json st' \<noteq> None"
        using registry_macs [OF ok1 Some] g2 quiet_fields(1) [OF quiet_replace_str [OF r3]] by (simp_all add: st'_def)
      note u = update_agent_registry [OF registry_ok_quiet [OF ok q3] g3]
      let ?g5 = "post_agent_event ''disconnect'' (Some a) (update_agent k st' g3)"
      have q5: "quiet (update_agent k st' g3) ?g5" by (rule quiet_post)
      have "agent_state_mark_disconnected a g = Some ?g5"
        unfolding agent_state_mark_disconnected_def Let_def t prod.case g2(1) bind.bind_lunit option.case
          g2(4) if_P [OF True] r3 st'_def ..
      moreover have rg: "registry ?g5 = (registry g)(a \<mapsto> st')"
        using registry_quiet [OF q5] u(2) registry_quiet [OF q3] by simp
      moreover have "conns_kept g ?g5"
        using quiet_kept [OF q5] quiet_kept [OF q3] by (simp add: conns_kept_def update_agent_def)
      moreover have "synced db ?g5" if "synced db g" for db
        using synced_update [OF rg that] by (simp add: st'_def)
      ultimately show ?thesis using registry_ok_quiet [OF u(1) q5] here(1) True
        by (auto simp: connected_def fun_eq_iff st'_def)
    qed
  qed
qed

lemma mark_seen_empty_id: "agent_state_mark_seen [] name version host_type macs conn g = Some (conn, snd (now_sec g))"
  by (simp add: agent_state_mark_seen_def split: prod.splits)

lemma mark_seen_connects:
  assumes ok: "registry_ok g"
  shows "\<exists>s'. map_option snd (agent_state_mark_seen a name version host_type macs conn g) = Some s' \<and>
      registry_ok s' \<and> connected s' = presence_spec (Seen a) (connected g)"
proof (cases "a = []")
  case True
  have q: "quiet g (snd (now_sec g))" by (cases "now_sec g") (simp add: quiet_now_sec)
  with True show ?thesis
    using registry_ok_quiet [OF ok q] connected_quiet [OF q] by (simp add: mark_seen_empty_id)
next
  case False
  from mark_seen_registers [OF ok False, of name version host_type macs conn] obtain g' st where
    s: "agent_state_mark_seen a name version host_type macs conn g = Some (conn\<lparr>cn_agent_key := Some a\<rparr>, g')"
      "registry_ok g'" "registry g' = (registry g)(a \<mapsto> st)" "seen_entry a name version host_type macs st" by blast
  with False connected_update [OF s(3)] show ?thesis by (simp add: seen_entry_def)
qed

interpretation reg: presence registry_ok connected
  "\<lambda>a g. map_option snd (agent_state_mark_seen a name version host_type macs conn g)"
  agent_state_mark_heartbeat agent_state_mark_disconnected
  for name version host_type macs conn
proof unfold_locales
  fix g a
  assume ok: "registry_ok g"
  show "\<exists>s'. map_option snd (agent_state_mark_seen a name version host_type macs conn g) = Some s' \<and>
      registry_ok s' \<and> connected s' = presence_spec (Seen a) (connected g)"
    by (rule mark_seen_connects [OF ok])
  show "\<exists>s'. agent_state_mark_heartbeat a g = Some s' \<and> registry_ok s' \<and> connected s' = presence_spec (Beat a) (connected g)"
    using mark_heartbeat_keeps [OF ok, of a] by auto
  show "\<exists>s'. agent_state_mark_disconnected a g = Some s' \<and> registry_ok s' \<and> connected s' = presence_spec (Gone a) (connected g)"
    using mark_disconnected_drops [OF ok, of a] by auto
qed

end
