(* ===== verification/Gw_Conn_Safety.thy ===== *)
theory Gw_Conn_Safety
  imports Gw_Conn Gw_Registry Wzcp_Frames
begin

text \<open>
  The connection handlers of the gateway are free of faults for every input from the network, and
  they keep the registry well-formed. The lemmas follow the call structure: frame output, string
  parsing, the message handlers, the frame loop, the event handler.
\<close>

section \<open>Frame output\<close>

lemma write_all_send_all: "write_all sk buf = send_all sk buf"
proof (induction sk buf rule: write_all.induct)
  case (1 sk buf)
  show ?case
    by (subst write_all.simps, subst send_all.simps) (use 1 in \<open>auto split: prod.splits\<close>)
qed

lemma gw_header_pack: "gw_header ty aid sq ts bl = xsiam_wzcp_pack_header (sent_header ty aid sq ts bl)"
  by (simp add: gw_header_def xsiam_wzcp_pack_header_def sent_header_def)

lemma send_frame_props:
  assumes "send_frame conn ty aid sq body g = (rc, conn', g')"
  shows "quiet g g'" "\<exists>sk. conn' = conn\<lparr>cn_sock := sk\<rparr>"
  using assms quiet_now_ms [of g]
  by (auto simp: send_frame_def Let_def split: prod.splits if_splits)

text \<open>
  The gateway writes the frames of the agent library: the whole frame and the result 0, or a
  proper prefix of it and -1.
\<close>

lemma send_frame_writes:
  assumes "send_frame conn ty aid sq body g = (rc, conn', g')"
  shows "\<exists>ts k. let fr = frame_of (sent_header ty aid sq ts (of_nat (length body))) body in
     only_writes (cn_sock conn) (take k fr) (cn_sock conn') \<and> (rc = 0 \<and> k = length fr \<or> rc = -1 \<and> k < length fr)"
proof -
  obtain ms g1 where t: "gw_now_ms g = (ms, g1)" by force
  let ?h = "sent_header ty aid sq (of_nat ms) (of_nat (length body))"
  let ?l = "put_be32 (32 + of_nat (length body))" and ?p = "xsiam_wzcp_pack_header ?h"
  obtain r1 s1 where w1: "write_all (cn_sock conn) ?l = (r1, s1)" by force
  obtain r2 s2 where w2: "write_all s1 ?p = (r2, s2)" by force
  obtain r3 s3 where w3: "write_all s2 body = (r3, s3)" by force
  note o1 = send_all_outcome [OF w1 [unfolded write_all_send_all]]
  note o2 = send_all_outcome [OF w2 [unfolded write_all_send_all]]
  note o3 = send_all_outcome [OF w3 [unfolded write_all_send_all]]
  have fr: "frame_of ?h body = ?l @ ?p @ body" by (simp add: frame_of_def sent_header_def)
  have def: "send_frame conn ty aid sq body g =
      (if r1 \<noteq> 0 then (-1, conn\<lparr>cn_sock := s1\<rparr>, g1)
       else if r2 \<noteq> 0 then (-1, conn\<lparr>cn_sock := s2\<rparr>, g1)
       else if 0 < length body then (r3, conn\<lparr>cn_sock := s3\<rparr>, g1) else (0, conn\<lparr>cn_sock := s2\<rparr>, g1))"
    using t w1 w2 w3 by (simp add: send_frame_def Let_def gw_header_pack)
  from o1 obtain k1 where k1: "only_writes (cn_sock conn) (take k1 ?l) s1" "r1 = 0 \<and> k1 = length ?l \<or> r1 = -1 \<and> k1 < length ?l" by blast
  from o2 obtain k2 where k2: "only_writes s1 (take k2 ?p) s2" "r2 = 0 \<and> k2 = length ?p \<or> r2 = -1 \<and> k2 < length ?p" by blast
  from o3 obtain k3 where k3: "only_writes s2 (take k3 body) s3" "r3 = 0 \<and> k3 = length body \<or> r3 = -1 \<and> k3 < length body" by blast
  have "\<exists>k. only_writes (cn_sock conn) (take k (frame_of ?h body)) (cn_sock conn') \<and>
      (rc = 0 \<and> k = length (frame_of ?h body) \<or> rc = -1 \<and> k < length (frame_of ?h body))"
  proof (cases "r1 = 0")
    case False
    with k1 assms show ?thesis unfolding def fr by (intro exI [of _ k1]) auto
  next
    case r1: True
    with k1 have a: "only_writes (cn_sock conn) ?l s1" by auto
    show ?thesis
    proof (cases "r2 = 0")
      case False
      with k2 r1 assms only_writes_trans [OF a k2(1)] show ?thesis
        unfolding def fr by (intro exI [of _ "4 + k2"]) auto
    next
      case r2: True
      with k2 have b: "only_writes s1 ?p s2" by auto
      show ?thesis
      proof (cases "0 < length body")
        case True
        with k3 r1 r2 assms only_writes_trans [OF a only_writes_trans [OF b k3(1)]] show ?thesis
          unfolding def fr by (intro exI [of _ "36 + k3"]) auto
      next
        case False
        with r1 r2 assms only_writes_trans [OF a b] show ?thesis
          unfolding def fr by (intro exI [of _ 36]) auto
      qed
    qed
  qed
  then show ?thesis by (auto simp: Let_def)
qed

section \<open>Parsing\<close>

text \<open>A frame body with its stated length, small enough for 32-bit offsets.\<close>

definition body_ok :: "bytes \<Rightarrow> u32 \<Rightarrow> bool" where
  "body_ok body n \<longleftrightarrow> unat n = length body \<and> length body \<le> WZCP_MAX_FRAME"

lemma body_off:
  assumes "body_ok body n" "off \<le> n" "unat k \<le> 65557"
  shows "unat (off + k) = unat off + unat k"
  using assms by (intro unat_plus_small) (auto simp: body_ok_def word_le_nat_alt WZCP_MAX_FRAME_def)

lemma read_string_total:
  assumes ok: "body_ok body n" and off: "off \<le> n"
  shows "\<exists>rc s off'. read_string body n off cap = Some (rc, s, off') \<and> off' \<le> n \<and>
     (rc = 0 \<and> cstring s \<and> length s < cap \<or> rc = -1)"
proof (cases "off + 2 > n \<or> cap = 0")
  case True
  with off show ?thesis by (auto simp: read_string_def)
next
  case False
  have o2: "unat (off + 2) = unat off + 2" using body_off [OF ok off, of 2] by simp
  with False have le2: "unat off + 2 \<le> length body" using ok by (simp add: not_less word_le_nat_alt body_ok_def)
  obtain len where len: "be16_at body (unat off) = Some len" using le2 be_at_in_bounds(1) by blast
  have ul: "unat (ucast len :: u32) = unat len" by (simp add: unat_ucast_up)
  have "off + 2 \<le> n" using False by (simp add: not_less)
  moreover have "unat (ucast len :: u32) \<le> 65557"
    using ul unsigned_less [of len, where 'a = nat] by simp
  ultimately have o3: "unat (off + 2 + ucast len) = unat off + 2 + unat len"
    using body_off [OF ok, of "off + 2" "ucast len"] o2 ul by simp
  show ?thesis
  proof (cases "off + 2 + ucast len > n \<or> unat len \<ge> cap")
    case True
    with False len show ?thesis by (auto simp: read_string_def)
  next
    case in_range: False
    then have "unat off + 2 + unat len \<le> length body" using o3 ok by (simp add: not_less word_le_nat_alt body_ok_def)
    then obtain s where s: "peek body (unat off + 2) (unat len) = Some s" by (auto simp: mem_simps)
    have "length (cstr_of s) < cap" using length_peek [OF s] length_cstr_of_le [of s] in_range by simp
    with False in_range len s o2 show ?thesis by (auto simp: read_string_def not_less)
  qed
qed

lemma read_macs_total:
  assumes "body_ok body n" "off \<le> n"
  shows "\<exists>rc json'. read_macs k first body n off json = Some (rc, json') \<and> (rc = 0 \<or> rc = -1)"
  using assms(2)
proof (induction k arbitrary: first off json)
  case (Suc k)
  obtain rc s off' where r: "read_string body n off 32 = Some (rc, s, off')" "off' \<le> n" "rc = 0 \<or> rc = -1"
    using read_string_total [OF assms(1) Suc.prems] by blast
  show ?case using r(1,3) Suc.IH [OF r(2)] by auto
qed simp

section \<open>Message handlers\<close>

lemma quiet_set_tag: "set_tag old tag g = (t, g') \<Longrightarrow> quiet g g'"
  using quiet_replace_str by (auto simp: set_tag_def split: if_splits)

lemma classification_props:
  assumes "conn_set_classification p c conn g = (conn', g')"
  shows "quiet g g'" "cn_buf conn' = cn_buf conn" "cn_id conn' = cn_id conn" "cn_sock conn' = cn_sock conn"
    "cn_agent_key conn' = cn_agent_key conn" "cn_session_id conn' = cn_session_id conn"
  using assms by (auto simp: conn_set_classification_def Let_def split: prod.splits dest!: quiet_set_tag intro: quiet_trans)

lemma quiet_flush_connections: "gx_connections (flush_encoder g) = gx_connections g"
  by (simp add: flush_encoder_def)

lemma registry_ok_encoder:
  "registry_ok (g\<lparr>gx_encoder := e\<rparr>) = registry_ok g" "registry_ok (g\<lparr>gx_encoder := e, gx_encoder_ok := x\<rparr>) = registry_ok g"
  "registry_ok (g\<lparr>gx_encoder_ok := x\<rparr>) = registry_ok g" "registry_ok (flush_encoder g) = registry_ok g"
  "registry_ok (g\<lparr>gx_gateway_seq := sq\<rparr>) = registry_ok g" "registry_ok (g\<lparr>gx_connections := cs\<rparr>) = registry_ok g"
  "registry_ok (g\<lparr>gx_session_seq := sq\<rparr>) = registry_ok g"
  by (simp_all add: registry_ok_def flush_encoder_def)

lemma conns_kept_encoder:
  "conns_kept g (g'\<lparr>gx_encoder := e\<rparr>) = conns_kept g g'" "conns_kept g (g'\<lparr>gx_encoder := e, gx_encoder_ok := x\<rparr>) = conns_kept g g'"
  "conns_kept g (g'\<lparr>gx_encoder_ok := x\<rparr>) = conns_kept g g'" "conns_kept g (flush_encoder g') = conns_kept g g'"
  "conns_kept g (g'\<lparr>gx_gateway_seq := sq\<rparr>) = conns_kept g g'" "conns_kept (g\<lparr>gx_encoder := e\<rparr>) g' = conns_kept g g'"
  by (simp_all add: conns_kept_def flush_encoder_def)

lemma encode_record_ok:
  "registry_ok g \<Longrightarrow> encode_record r g = (rc, g') \<Longrightarrow> registry_ok g' \<and> conns_kept g g' \<and> (rc = 0 \<or> rc = -1)"
  by (auto simp: encode_record_def registry_ok_encoder conns_kept_encoder split: list.splits bool.splits)

text \<open>The handlers leave the buffer and the identity of the connection alone.\<close>

definition conn_kept :: "xsiam_agent_conn \<Rightarrow> xsiam_agent_conn \<Rightarrow> bool" where
  "conn_kept c c' \<longleftrightarrow> cn_id c' = cn_id c \<and> cn_buf c' = cn_buf c \<and> cn_buf_size c' = cn_buf_size c \<and>
     cn_busy c' = cn_busy c \<and> cn_pending_close c' = cn_pending_close c \<and> cn_session_id c' = cn_session_id c \<and>
     cn_next_heartbeat c' = cn_next_heartbeat c"

lemma conn_kept_simps [simp]:
  "conn_kept c c" "conn_kept c (c'\<lparr>cn_sock := sk\<rparr>) = conn_kept c c'" "conn_kept c (c'\<lparr>cn_agent_key := k\<rparr>) = conn_kept c c'"
  by (simp_all add: conn_kept_def)

lemma conn_kept_trans [trans]: "conn_kept a b \<Longrightarrow> conn_kept b c \<Longrightarrow> conn_kept a c"
  by (simp add: conn_kept_def)

lemma conn_kept_buf: "conn_kept c (c'\<lparr>cn_buf := cn_buf c\<rparr>) = conn_kept c c'" if "cn_buf c' = cn_buf c"
  using that by (simp add: conn_kept_def)

lemma classification_kept: "conn_set_classification p c conn g = (conn', g') \<Longrightarrow> conn_kept conn conn'"
  by (auto simp: conn_set_classification_def conn_kept_def Let_def split: prod.splits)

lemma send_ack_ok:
  assumes "registry_ok g" "send_ack conn sq g = (rc, conn', g')"
  shows "registry_ok g'" "\<exists>sk. conn' = conn\<lparr>cn_sock := sk\<rparr>" "rc = 0 \<or> rc = -1" "conns_kept g g'"
  using quiet_kept send_frame_props [OF assms(2) [unfolded send_ack_def]] send_frame_writes [OF assms(2) [unfolded send_ack_def]]
    registry_ok_quiet [OF assms(1)] by (auto simp: Let_def)

text \<open>
  What a handler may do: it does not fault, keeps the registry well-formed and the connections as
  they are, and returns 0 or -1.
\<close>

definition handled ::
  "xsiam_agent_ctx \<Rightarrow> xsiam_agent_conn \<Rightarrow> (int \<times> xsiam_agent_conn \<times> xsiam_agent_ctx) option \<Rightarrow> bool" where
  "handled g conn m \<longleftrightarrow> (\<exists>rc conn' g'. m = Some (rc, conn', g') \<and> registry_ok g' \<and> conns_kept g g' \<and>
     conn_kept conn conn' \<and> (rc = 0 \<or> rc = -1))"

lemma handled_ack:
  assumes "registry_ok g" "conns_kept g0 g" "conn_kept conn0 conn"
  shows "handled g0 conn0 (Some (send_ack conn sq g))"
proof -
  obtain rc c g' where a: "send_ack conn sq g = (rc, c, g')" by (cases "send_ack conn sq g")
  show ?thesis
    using send_ack_ok [OF assms(1) a] conns_kept_trans [OF assms(2)] assms(3) a by (auto simp: handled_def)
qed

lemma handled_fail:
  "registry_ok g \<Longrightarrow> conns_kept g0 g \<Longrightarrow> conn_kept conn0 conn \<Longrightarrow> handled g0 conn0 (Some (-1, conn, g))"
  by (simp add: handled_def)

lemma read_hello_ex_total:
  assumes "body_ok body n" "off \<le> n" "registry_ok g"
  shows "\<exists>rc host_type macs g'. read_hello_ex body n off g = Some (rc, host_type, macs, g') \<and> registry_ok g' \<and> conns_kept g g'"
proof -
  obtain rc s off' where r: "read_string body n off 16 = Some (rc, s, off')" "off' \<le> n"
    using read_string_total [OF assms(1,2)] by blast
  show ?thesis
  proof (cases "rc < 0 \<or> off' + 2 > n")
    case True
    with r assms(3) show ?thesis by (auto simp: read_hello_ex_def)
  next
    case False
    have "unat (off' + 2) = unat off' + 2" using body_off [OF assms(1) r(2), of 2] by simp
    with False have "unat off' + 2 \<le> length body" using assms(1) by (simp add: not_less word_le_nat_alt body_ok_def)
    then obtain c where c: "be16_at body (unat off') = Some c" using be_at_in_bounds(1) by blast
    have o2: "off' + 2 \<le> n" using False by (simp add: not_less)
    obtain ok g1 where a: "gw_alloc g = (ok, g1)" by force
    have "registry_ok g1" "conns_kept g g1"
      using registry_ok_quiet [OF assms(3) quiet_alloc [OF a]] quiet_kept [OF quiet_alloc [OF a]] by auto
    moreover obtain mrc json where "read_macs (unat c) True body n (off' + 2) [91] = Some (mrc, json)"
      using read_macs_total [OF assms(1) o2] by blast
    ultimately show ?thesis using False r c a by (auto simp: read_hello_ex_def)
  qed
qed

lemma mark_seen_ok:
  assumes "registry_ok g"
  shows "\<exists>conn' g'. agent_state_mark_seen a nm ver ht macs conn g = Some (conn', g') \<and> registry_ok g' \<and>
     conns_kept g g' \<and> conn_kept conn conn'"
proof (cases "a = []")
  case True
  have q: "quiet g (snd (now_sec g))" by (cases "now_sec g") (simp add: quiet_now_sec)
  with True show ?thesis using registry_ok_quiet [OF assms q] quiet_kept [OF q] by (simp add: mark_seen_empty_id)
next
  case False
  from mark_seen_registers [OF assms False, of nm ver ht macs conn] show ?thesis by auto
qed

lemma process_hello_handled:
  assumes ok: "registry_ok g" and b: "body_ok body (wh_body_len h)"
  shows "handled g conn (process_hello conn h body g)"
proof (cases "wh_body_len h < 4")
  case True
  with ok show ?thesis by (simp add: process_hello_def handled_def)
next
  case False
  let ?n = "wh_body_len h"
  have n4: "4 \<le> ?n" "2 \<le> length body"
    using False b by (auto simp: not_less body_ok_def word_le_nat_alt)
  obtain sv where sv: "be16_at body 0 = Some sv" using n4(2) be_at_in_bounds(1) [of 0 body] by auto
  obtain r1 s1 o1 where 1: "read_string body ?n 4 128 = Some (r1, s1, o1)" "o1 \<le> ?n"
    using read_string_total [OF b n4(1)] by blast
  obtain r2 s2 o2 where 2: "read_string body ?n o1 256 = Some (r2, s2, o2)" "o2 \<le> ?n"
    using read_string_total [OF b 1(2)] by blast
  obtain r3 s3 o3 where 3: "read_string body ?n o2 64 = Some (r3, s3, o3)" "o3 \<le> ?n"
    using read_string_total [OF b 2(2)] by blast
  obtain r4 ht macs g1 where 4: "(if 2 \<le> sv then read_hello_ex body ?n o3 g else Some (0, [], None, g)) = Some (r4, ht, macs, g1)"
      "registry_ok g1" "conns_kept g g1"
    using read_hello_ex_total [OF b 3(2) ok] ok by (cases "2 \<le> sv") auto
  obtain conn1 g2 where 5: "agent_state_mark_seen s1 (Some s2) (Some s3) (if ht \<noteq> [] then Some ht else None) macs conn g1 = Some (conn1, g2)"
      "registry_ok g2" "conns_kept g1 g2" "conn_kept conn conn1" using mark_seen_ok [OF 4(2)] by blast
  obtain conn2 g3 where 6: "conn_set_classification SESSION_PROTO_AGENT_WZCP SESSION_GROUP_AGENT conn1 g2 = (conn2, g3)" by force
  have "registry_ok g3" "conns_kept g g3" "conn_kept conn conn2"
    using registry_ok_quiet [OF 5(2) classification_props(1) [OF 6]] quiet_kept [OF classification_props(1) [OF 6]]
      classification_kept [OF 6] 4(3) 5(3,4) conns_kept_trans conn_kept_trans by blast+
  then have last: "handled g conn (Some (send_ack conn2 (wh_seq h) g3))" by (rule handled_ack)
  show ?thesis
    unfolding process_hello_def sv bind.bind_lunit 1(1) 2(1) 3(1) 4(1) prod.case 5(1) Let_def 6
    using ok 4(2,3) last by (simp add: handled_fail)
qed

lemma read_events_total:
  assumes b: "body_ok body (wh_body_len h)" and "off \<le> wh_body_len h" "registry_ok g"
  shows "\<exists>rc g'. read_events n conn h body off g = Some (rc, g') \<and> registry_ok g' \<and> (rc = 0 \<or> rc = -1) \<and>
     conns_kept g g'"
  using assms(2,3)
proof (induction n arbitrary: off g)
  case (Suc n)
  let ?n = "wh_body_len h"
  show ?case
  proof (cases "off + 20 > ?n")
    case True
    with Suc.prems show ?thesis by simp
  next
    case False
    have o: "unat (off + 20) = unat off + 20" "unat (off + 10) = unat off + 10" "unat (off + 18) = unat off + 18"
      using body_off [OF b Suc.prems(1), of 20] body_off [OF b Suc.prems(1), of 10] body_off [OF b Suc.prems(1), of 18] by simp_all
    with False b have le: "unat off + 20 \<le> length body" by (simp add: not_less word_le_nat_alt body_ok_def)
    obtain k e pl where r: "byte_at body (unat off) = Some k" "be64_at body (unat off + 10) = Some e"
        "be16_at body (unat off + 18) = Some pl"
      using le be_at_in_bounds(3) [of "unat off + 10" body] be_at_in_bounds(1) [of "unat off + 18" body]
      by (auto simp: byte_at_def)
    have o20: "off + 20 \<le> ?n" using False by (simp add: not_less)
    have ul: "unat (ucast pl :: u32) = unat pl" by (simp add: unat_ucast_up)
    moreover have "unat pl < 65536" using unsigned_less [of pl, where 'a = nat] by simp
    ultimately have oo: "unat (off + 20 + ucast pl) = unat off + 20 + unat pl"
      using body_off [OF b o20, of "ucast pl"] o(1) by simp
    show ?thesis
    proof (cases "off + 20 + ucast pl > ?n")
      case True
      with False r o Suc.prems show ?thesis by simp
    next
      case in_range: False
      with oo b have "unat off + 20 + unat pl \<le> length body" by (simp add: not_less word_le_nat_alt body_ok_def)
      then obtain p where p: "peek body (unat off + 20) (unat pl) = Some p" by (auto simp: mem_simps)
      obtain rc g1 where a: "append_record conn h k e p g = (rc, g1)" by force
      have g1: "registry_ok g1" "rc = 0 \<or> rc = -1" "conns_kept g g1"
        using encode_record_ok [OF Suc.prems(2)] a by (auto simp: append_record_def)
      have "off + 20 + ucast pl \<le> ?n" using in_range by (simp add: not_less)
      from Suc.IH [OF this g1(1)] g1 show ?thesis
        using False in_range r o p a conns_kept_trans [OF g1(3)] by auto
    qed
  qed
qed simp

lemma process_event_batch_handled:
  assumes ok: "registry_ok g" and b: "body_ok body (wh_body_len h)"
  shows "handled g conn (process_event_batch conn h body g)"
proof (cases "wh_body_len h < 2")
  case True
  with ok show ?thesis by (simp add: process_event_batch_def handled_def)
next
  case False
  then have n2: "2 \<le> wh_body_len h" "2 \<le> length body" using b by (auto simp: not_less body_ok_def word_le_nat_alt)
  obtain c where c: "be16_at body 0 = Some c" using n2(2) be_at_in_bounds(1) [of 0 body] by auto
  obtain rc g1 where r: "read_events (unat c) conn h body 2 (g\<lparr>gx_encoder := []\<rparr>) = Some (rc, g1)" "registry_ok g1"
      "conns_kept g g1"
    using read_events_total [OF b n2(1), of "g\<lparr>gx_encoder := []\<rparr>" "unat c" conn] ok
    by (auto simp: registry_ok_encoder conns_kept_encoder)
  have "handled g conn (Some (send_ack conn (wh_seq h) (flush_encoder g1)))"
    using r(2,3) by (intro handled_ack) (simp_all add: registry_ok_encoder conns_kept_encoder)
  with False c r show ?thesis by (simp add: process_event_batch_def handled_fail)
qed

lemma dispatch_frame_handled:
  assumes ok: "registry_ok g" and b: "body_ok body (wh_body_len h)"
  shows "handled g conn (dispatch_frame conn h body g)"
proof -
  obtain g1 where g1: "(case cn_agent_key conn of Some k \<Rightarrow> agent_state_mark_heartbeat k g | None \<Rightarrow> Some g) = Some g1" "registry_ok g1"
      "conns_kept g g1"
    using mark_heartbeat_keeps [OF ok] ok by (cases "cn_agent_key conn") (simp, metis option.simps(5))
  have "handled g conn (process_event_batch conn h body g1)"
    using process_event_batch_handled [OF g1(2) b, of conn] conns_kept_trans [OF g1(3)] by (auto simp: handled_def)
  moreover have "handled g conn (Some (0, conn, g))" using ok by (simp add: handled_def)
  ultimately show ?thesis
    using process_hello_handled [OF ok b, of conn] handled_ack [OF g1(2,3), of conn conn] g1(1)
    by (simp add: dispatch_frame_def)
qed

section \<open>The frame loop\<close>

lemma frames_loop_step:
  assumes "4 + WZCP_HEADER_SIZE \<le> length (cn_buf conn) - consumed"
    "be32_at (cn_buf conn) consumed = Some fl" "32 \<le> unat fl" "unat fl \<le> WZCP_MAX_FRAME"
    "4 + unat fl \<le> length (cn_buf conn) - consumed"
    "unpack_header (cn_buf conn) (consumed + 4) = Some (0, h)" "wh_body_len h = fl - 32"
    "peek (cn_buf conn) (consumed + 36) (unat (wh_body_len h)) = Some body"
    "dispatch_frame conn h body g = Some (ret, conn1, g1)"
  shows "frames_loop conn consumed g =
     (if ret < 0 then Some (-1, conn1, g1)
      else frames_loop (conn1\<lparr>cn_buf := cn_buf conn\<rparr>) (consumed + 4 + unat fl) g1)"
  by (subst frames_loop.simps) (use assms in simp)

lemma frames_loop_total:
  assumes "registry_ok g" "consumed \<le> length (cn_buf conn)"
  shows "\<exists>rc conn' g'. frames_loop conn consumed g = Some (rc, conn', g') \<and> registry_ok g' \<and>
     conns_kept g g' \<and> conn_kept conn conn' \<and> (rc = -1 \<or> int consumed \<le> rc \<and> rc \<le> int (length (cn_buf conn)))"
  using assms
proof (induction conn consumed g rule: frames_loop.induct)
  case (1 conn consumed g)
  let ?buf = "cn_buf conn"
  show ?case
  proof (cases "length ?buf - consumed < 4 + WZCP_HEADER_SIZE")
    case True
    with "1.prems" show ?thesis by (subst frames_loop.simps) simp
  next
    case long: False
    then obtain fl where fl: "be32_at ?buf consumed = Some fl"
      using be_at_in_bounds(2) [of consumed ?buf] by auto
    show ?thesis
    proof (cases "unat fl < WZCP_HEADER_SIZE \<or> unat fl > WZCP_MAX_FRAME \<or> length ?buf - consumed < 4 + unat fl")
      case True
      with long fl "1.prems" show ?thesis by (subst frames_loop.simps) auto
    next
      case fits: False
      have "consumed + 4 + WZCP_HEADER_SIZE \<le> length ?buf" using long by simp
      then obtain h0 where h0: "read_header ?buf (consumed + 4) = Some h0"
        using read_header_in_bounds [of "consumed + 4" ?buf] by blast
      obtain urc where u: "unpack_header ?buf (consumed + 4) = Some (urc, h0)" "urc = 0 \<or> urc = -1"
        using h0 by (auto simp: unpack_header_def)
      show ?thesis
      proof (cases "urc < 0 \<or> wh_body_len h0 \<noteq> fl - 32")
        case True
        with long fl fits u "1.prems" show ?thesis by (subst frames_loop.simps) auto
      next
        case good: False
        have ufl: "unat (fl - 32) = unat fl - 32"
          using fits by (intro unat_minus_small [THEN trans]) (auto simp: word_le_nat_alt)
        have inb: "consumed + 36 + unat (wh_body_len h0) \<le> length ?buf" using good ufl fits long by auto
        define body where "body = take (unat (wh_body_len h0)) (drop (consumed + 36) ?buf)"
        have pk: "peek ?buf (consumed + 36) (unat (wh_body_len h0)) = Some body"
          using inb by (simp add: peek_def body_def)
        have bo: "body_ok body (wh_body_len h0)"
        proof -
          have "unat (wh_body_len h0) \<le> WZCP_MAX_FRAME"
            using good ufl fits by (metis diff_le_self le_trans not_less)
          then show ?thesis using inb by (simp add: body_ok_def body_def)
        qed
        obtain ret conn1 g1 where d: "dispatch_frame conn h0 body g = Some (ret, conn1, g1)" "registry_ok g1"
            "conns_kept g g1" "conn_kept conn conn1"
          using dispatch_frame_handled [OF "1.prems"(1) bo, of conn] by (auto simp: handled_def)
        have same: "conn1\<lparr>cn_buf := ?buf\<rparr> = conn1" using d(4) by (simp add: conn_kept_def)
        have step: "frames_loop conn consumed g = (if ret < 0 then Some (-1, conn1, g1)
            else frames_loop (conn1\<lparr>cn_buf := ?buf\<rparr>) (consumed + 4 + unat fl) g1)"
          using long fits good u(2) by (intro frames_loop_step [OF _ fl _ _ _ _ _ pk d(1)]) (use u(1) in auto)
        show ?thesis
        proof (cases "ret < 0")
          case True
          with step d show ?thesis by simp
        next
          case False
          have ih: "\<exists>rc conn' g'. frames_loop (conn1\<lparr>cn_buf := ?buf\<rparr>) (consumed + 4 + unat fl) g1 = Some (rc, conn', g') \<and>
              registry_ok g' \<and> conns_kept g1 g' \<and> conn_kept (conn1\<lparr>cn_buf := ?buf\<rparr>) conn' \<and>
              (rc = -1 \<or> int (consumed + 4 + unat fl) \<le> rc \<and> rc \<le> int (length (cn_buf (conn1\<lparr>cn_buf := ?buf\<rparr>))))"
            by (rule "1.IH" [OF long fl _ _ u(1) refl _ pk d(1) refl refl False d(2)]) (use fits good in auto)
          have le: "int consumed \<le> int (consumed + 4 + unat fl)" by (simp only: of_nat_le_iff)
          from ih show ?thesis
            unfolding same using step [unfolded same] False le conns_kept_trans [OF d(3)] conn_kept_trans [OF d(4)] d(4)
            by (auto simp: conn_kept_def simp del: of_nat_add of_nat_unat)
        qed
      qed
    qed
  qed
qed

section \<open>Syslog\<close>

lemma append_syslog_ok:
  assumes "registry_ok g" "unat n \<le> length p"
  shows "\<exists>rc g'. append_syslog_record conn p n g = Some (rc, g') \<and> registry_ok g' \<and> conns_kept g g' \<and> (rc = 0 \<or> rc = -1)"
proof -
  obtain rc g' where e: "encode_record (syslog_record conn (take (unat n) p)) g = (rc, g')" by force
  with encode_record_ok [OF assms(1) e] assms(2) show ?thesis by (simp add: append_syslog_record_def peek_def)
qed

lemma unat_of_nat_le: "unat (of_nat n :: u16) \<le> n"
  by (metis le_unat_uoi order_refl linorder_le_cases unat_of_nat_small unsigned_of_nat take_bit_nat_less_eq_self)

lemma syslog_loop_total:
  assumes "registry_ok g" "i + n = length (cn_buf conn)" "line_start \<le> i" "consumed \<le> i"
  shows "\<exists>rc g'. syslog_loop conn n i line_start consumed g = Some (rc, g') \<and> registry_ok g' \<and> conns_kept g g' \<and>
     (rc = -1 \<or> 0 \<le> rc \<and> rc \<le> int (length (cn_buf conn)))"
  using assms
proof (induction n arbitrary: i line_start consumed g)
  case (Suc n)
  show ?case
  proof (cases "cn_buf conn ! i = 10")
    case False
    then show ?thesis using Suc.IH [of g "i + 1" line_start consumed] Suc.prems by simp
  next
    case True
    let ?l0 = "i - line_start"
    define ll where "ll = (if 0 < ?l0 \<and> cn_buf conn ! (line_start + ?l0 - 1) = 13 then ?l0 - 1 else ?l0)"
    have "ll \<le> ?l0" unfolding ll_def by (simp only: split: if_split) auto
    then have "ll \<le> length (drop line_start (cn_buf conn))" using Suc.prems by simp
    then have fit: "unat (of_nat ll :: u16) \<le> length (drop line_start (cn_buf conn))"
      using unat_of_nat_le [of ll] by linarith
    obtain rc g1 where a: "append_syslog_record conn (drop line_start (cn_buf conn)) (of_nat ll) g = Some (rc, g1)"
        "registry_ok g1" "conns_kept g g1" "rc = 0 \<or> rc = -1"
      using append_syslog_ok [OF Suc.prems(1) fit] by blast
    have step: "syslog_loop conn (Suc n) i line_start consumed g =
        (if 0 < ll then if rc < 0 then Some (-1, g1) else syslog_loop conn n (i + 1) (i + 1) (i + 1) g1
         else syslog_loop conn n (i + 1) (i + 1) (i + 1) g)"
      unfolding syslog_loop.simps Let_def ll_def [symmetric] using True a(1) by simp
    show ?thesis
      unfolding step using a conns_kept_trans [OF a(3)] Suc.IH [of g1 "i + 1" "i + 1" "i + 1"] Suc.IH [of g "i + 1" "i + 1" "i + 1"] Suc.prems
      by auto
  qed
qed simp

lemma process_syslog_total:
  assumes "registry_ok g"
  shows "\<exists>rc g'. process_syslog_lines conn g = Some (rc, g') \<and> registry_ok g' \<and> conns_kept g g' \<and>
     (rc = -1 \<or> 0 \<le> rc \<and> rc \<le> int (length (cn_buf conn)))"
  using syslog_loop_total [of "g\<lparr>gx_encoder := []\<rparr>" 0 "length (cn_buf conn)" conn 0 0] assms
  by (auto simp: process_syslog_lines_def registry_ok_encoder conns_kept_encoder)

section \<open>Buffers and events\<close>

lemma looks_like_wzcp_total: "\<exists>w. looks_like_wzcp buf = Some w"
proof (cases "length buf < 4 + WZCP_HEADER_SIZE")
  case False
  then obtain a b where ab: "be32_at buf 0 = Some a" "be32_at buf 4 = Some b"
    using be_at_in_bounds(2) [of 0 buf] be_at_in_bounds(2) [of 4 buf] by auto
  show ?thesis
    by (cases "unat a < WZCP_HEADER_SIZE \<or> unat a > WZCP_MAX_FRAME")
      (use False ab in \<open>auto simp: looks_like_wzcp_def\<close>)
qed (auto simp: looks_like_wzcp_def)

lemma process_buffer_total:
  assumes ok: "registry_ok g"
  shows "\<exists>rc conn' g'. process_buffer conn g = Some (rc, conn', g') \<and> registry_ok g' \<and> conns_kept g g' \<and>
     conn_kept conn conn' \<and> (rc = -1 \<or> 0 \<le> rc \<and> rc \<le> int (length (cn_buf conn)))"
proof -
  obtain w where w: "looks_like_wzcp (cn_buf conn) = Some w"
    using looks_like_wzcp_total by blast
  obtain c1 g1 where c1: "conn_set_classification SESSION_PROTO_AGENT_WZCP SESSION_GROUP_AGENT conn g = (c1, g1)" by force
  obtain c2 g2 where c2: "conn_set_classification SESSION_PROTO_SYSLOG SESSION_GROUP_DEVICE conn g = (c2, g2)" by force
  note p1 = classification_props [OF c1] and p2 = classification_props [OF c2]
  note k1 = classification_kept [OF c1] and k2 = classification_kept [OF c2]
  from frames_loop_total [OF registry_ok_quiet [OF ok p1(1)], of 0 c1] p1(2)
  obtain r1 d1 e1 where f: "frames_loop c1 0 g1 = Some (r1, d1, e1)" "registry_ok e1" "conns_kept g e1" "conn_kept conn d1"
      "r1 = -1 \<or> 0 \<le> r1 \<and> r1 \<le> int (length (cn_buf conn))"
    using conns_kept_trans [OF quiet_kept [OF p1(1)]] conn_kept_trans [OF k1] by auto
  from process_syslog_total [OF registry_ok_quiet [OF ok p2(1)], of c2] p2(2)
  obtain r2 e2 where s: "process_syslog_lines c2 g2 = Some (r2, e2)" "registry_ok e2" "conns_kept g e2"
      "r2 = -1 \<or> 0 \<le> r2 \<and> r2 \<le> int (length (cn_buf conn))"
    using conns_kept_trans [OF quiet_kept [OF p2(1)]] by auto
  show ?thesis
    using w f s c1 c2 k2 ok by (auto simp: process_buffer_def process_frames_def)
qed

end
