(* ===== verification/Gw_Messages.thy ===== *)
theory Gw_Messages
  imports Gw_Conn_Safety Wzcp_Bodies
begin

text \<open>
  What the gateway understands of the messages that the agent library builds: HELLO bodies,
  event batches, and streams of frames.
\<close>

section \<open>Strings\<close>

lemma off_advance: "unat (off :: u32) + k \<le> WZCP_MAX_FRAME \<Longrightarrow> unat (off + of_nat k) = unat off + k"
  using unat_plus_small [of off "of_nat k"] unat_of_nat_small [where 'a = 32, of k]
  by (simp add: WZCP_MAX_FRAME_def)

lemma read_string_str16:
  assumes off: "unat off = length pre" and n: "body_ok (pre @ str16 s @ post) n"
    and s: "cstring s" "length s < cap" "length s < 65536"
  shows "read_string (pre @ str16 s @ post) n off cap = Some (0, s, off + of_nat (2 + length s))"
proof -
  let ?body = "pre @ str16 s @ post" and ?len = "of_nat (length s) :: u16"
  have le: "off \<le> n" using off n by (simp add: body_ok_def word_le_nat_alt)
  have ul: "unat ?len = length s" using s(3) by (simp add: unat_of_nat_small)
  have uu: "ucast ?len = (of_nat (length s) :: u32)"
    using ul s(3) by (simp add: word_unat_eq_iff unat_ucast_up unat_of_nat_small)
  have o2: "unat (off + 2) = length pre + 2" using body_off [OF n le, of 2] off by simp
  have le2: "off + 2 \<le> n" using o2 n by (simp add: body_ok_def word_le_nat_alt)
  have o3: "unat (off + 2 + ucast ?len) = length pre + 2 + length s"
    using body_off [OF n le2, of "ucast ?len"] o2 ul s(3) by (simp add: unat_ucast_up)
  have "be16_at ?body (unat off) = Some ?len"
    using be_at_hit(1) [of "unat off" pre ?len "s @ post"] off by (simp add: str16_def)
  moreover have "peek ?body (unat (off + 2)) (unat ?len) = Some s"
    using peek_append [of "unat (off + 2)" "pre @ put_be16 ?len" "unat ?len" s post] o2 ul by (simp add: str16_def)
  moreover have "\<not> off + 2 > n" "\<not> off + 2 + ucast ?len > n"
    using o2 o3 n by (auto simp: body_ok_def word_less_nat_alt not_less)
  ultimately show ?thesis
    using s ul by (simp add: read_string_def) (simp add: uu)
qed

section \<open>MAC addresses\<close>

text \<open>The JSON array of strings that the gateway stores.\<close>

definition quoted :: "bytes \<Rightarrow> bytes" where
  "quoted m = [34] @ json_escape m @ [34]"

fun mac_items_json :: "bool \<Rightarrow> bytes list \<Rightarrow> bytes" where
  "mac_items_json first [] = []"
| "mac_items_json first (m # ms) = (if first then [] else [44]) @ quoted m @ mac_items_json False ms"

definition mac_json :: "bytes list \<Rightarrow> bytes" where
  "mac_json ms = [91] @ mac_items_json True ms @ [93]"

lemma read_macs_str16:
  assumes "unat off = length pre" "body_ok (pre @ concat (map str16 ms) @ post) n"
    "\<forall>m \<in> set ms. cstring m \<and> length m < 32"
  shows "read_macs (length ms) first (pre @ concat (map str16 ms) @ post) n off json =
     Some (0, json @ mac_items_json first ms)"
  using assms
proof (induction ms arbitrary: off pre first json)
  case (Cons m ms)
  let ?body = "pre @ str16 m @ concat (map str16 ms) @ post"
  have b: "body_ok ?body n" using Cons.prems(2) by simp
  have r: "read_string ?body n off 32 = Some (0, m, off + of_nat (2 + length m))"
    using Cons.prems(1,3) by (intro read_string_str16 [OF _ b]) auto
  have "length pre + 2 + length m \<le> WZCP_MAX_FRAME" using b by (simp add: body_ok_def)
  then have "unat (off + of_nat (2 + length m)) = length (pre @ str16 m)"
    using Cons.prems(1) off_advance [of off "2 + length m"] by (simp del: of_nat_add)
  from Cons.IH [OF this, of False] Cons.prems(2,3) r show ?case by (simp add: quoted_def)
qed simp

section \<open>HELLO\<close>

text \<open>The limits that the gateway's fixed-size arrays put on a HELLO.\<close>

definition hello_fits :: "bytes \<Rightarrow> bytes \<Rightarrow> bytes \<Rightarrow> bytes \<Rightarrow> bytes list \<Rightarrow> bool" where
  "hello_fits agent_id name version host_type macs \<longleftrightarrow>
     cstring agent_id \<and> length agent_id < 128 \<and> cstring name \<and> length name < 256 \<and>
     cstring version \<and> length version < 64 \<and> cstring host_type \<and> length host_type < 16 \<and>
     (\<forall>m \<in> set macs. cstring m \<and> length m < 32) \<and> length macs \<le> 64"

lemma length_mac_list: "length (mac_list ms) = 2 + length (concat (map str16 ms))"
  by (simp add: mac_list_def)

lemma read_hello_ex_body:
  assumes "unat off = length pre" "body_ok (pre @ str16 ht @ mac_list ms) n" "roomy (gx_heap g)"
    "cstring ht" "length ht < 16" "\<forall>m \<in> set ms. cstring m \<and> length m < 32" "length ms \<le> 64"
  shows "\<exists>g'. read_hello_ex (pre @ str16 ht @ mac_list ms) n off g = Some (0, ht, Some (mac_json ms), g') \<and> quiet g g'"
proof -
  let ?body = "pre @ str16 ht @ mac_list ms"
  let ?o1 = "off + of_nat (2 + length ht)"
  have r: "read_string ?body n off 16 = Some (0, ht, ?o1)"
    using assms by (intro read_string_str16) auto
  have len: "length pre + 4 + length ht \<le> unat n" "unat n \<le> WZCP_MAX_FRAME"
    using assms(2) by (auto simp: body_ok_def length_mac_list)
  have o1: "unat ?o1 = length (pre @ str16 ht)"
    using assms(1) len off_advance [of off "2 + length ht"] by (simp del: of_nat_add)
  have o1n: "?o1 \<le> n" using o1 len by (simp add: word_le_nat_alt del: of_nat_add)
  have o2: "unat (?o1 + 2) = length (pre @ str16 ht @ put_be16 (of_nat (length ms)))"
    using body_off [OF assms(2) o1n, of 2] o1 by simp
  have o2n: "\<not> ?o1 + 2 > n" using o2 len by (simp add: not_less word_le_nat_alt del: of_nat_add)
  have c: "be16_at ?body (unat ?o1) = Some (of_nat (length ms))"
    using be_at_hit(1) [of "unat ?o1" "pre @ str16 ht" "of_nat (length ms)" "concat (map str16 ms)"] o1
    by (simp add: mac_list_def)
  have uc: "unat (of_nat (length ms) :: u16) = length ms" using assms(7) by (simp add: unat_of_nat_small)
  obtain ok g1 where a: "gw_alloc g = (ok, g1)" by force
  have ok: "ok" using a assms(3) by (cases "gx_heap g") (auto simp: gw_alloc_def roomy_def)
  have m: "read_macs (length ms) True ?body n (?o1 + 2) [91] = Some (0, [91] @ mac_items_json True ms)"
    using read_macs_str16 [of "?o1 + 2" "pre @ str16 ht @ put_be16 (of_nat (length ms))" ms "[]" n True "[91]"]
      o2 assms(2,6) by (simp add: mac_list_def del: of_nat_add)
  show ?thesis
    unfolding read_hello_ex_def r bind.bind_lunit prod.case
    using o2n c a ok uc m quiet_alloc [OF a] by (simp add: mac_json_def del: of_nat_add)
qed

text \<open>An extended HELLO of the agent library, within the limits, registers the agent.\<close>

lemma hello_accepted:
  fixes agent_id name version host_type :: bytes and macs :: "bytes list"
  defines "body \<equiv> put_be16 2 @ put_be16 0 @ str16 agent_id @ str16 name @ str16 version @ str16 host_type @ mac_list macs"
  assumes ok: "registry_ok g" and b: "body_ok body (wh_body_len h)" and id: "agent_id \<noteq> []"
    and fits: "hello_fits agent_id name version host_type macs"
  shows "\<exists>rc conn' g' st ts k. process_hello conn h body g = Some (rc, conn', g') \<and> registry_ok g' \<and>
     registry g' = (registry g)(agent_id \<mapsto> st) \<and>
     seen_entry agent_id (Some name) (Some version) (if host_type \<noteq> [] then Some host_type else None) (Some (mac_json macs)) st \<and>
     cn_agent_key conn' = Some agent_id \<and> cn_buf conn' = cn_buf conn \<and>
     only_writes (cn_sock conn) (take k (frame_of (sent_header MSG_ACK 0 (wh_seq h) ts 8) (put_be64 (wh_seq h)))) (cn_sock conn') \<and>
     (rc = 0 \<and> k = 44 \<or> rc = -1 \<and> k < 44)"
proof -
  let ?n = "wh_body_len h" and ?o = "\<lambda>k. 4 + of_nat k :: u32"
  note f = fits [unfolded hello_fits_def]
  let ?r3 = "str16 host_type @ mac_list macs"
  have lb: "length body \<le> WZCP_MAX_FRAME" "unat ?n = length body" using b by (auto simp: body_ok_def)
  have lb': "length body = 14 + length agent_id + length name + length version + length host_type + length (concat (map str16 macs))"
    by (simp add: body_def length_mac_list)
  have "4 \<le> unat ?n" using lb(2) lb' by linarith
  then have n4: "\<not> ?n < 4" by (simp add: word_less_nat_alt)
  have sv: "be16_at body 0 = Some 2" using be_at_hit(1) [of 0 "[]" 2] by (simp add: body_def)
  define o1 :: u32 where "o1 = 4 + of_nat (2 + length agent_id)"
  define o2 :: u32 where "o2 = o1 + of_nat (2 + length name)"
  define o3 :: u32 where "o3 = o2 + of_nat (2 + length version)"
  have u1: "unat o1 = 6 + length agent_id" using off_advance [of 4 "2 + length agent_id"] lb lb' by (simp add: o1_def del: of_nat_add)
  have u2: "unat o2 = 8 + length agent_id + length name"
    using off_advance [of o1 "2 + length name"] u1 lb lb' by (simp add: o2_def del: of_nat_add)
  have u3: "unat o3 = 10 + length agent_id + length name + length version"
    using off_advance [of o2 "2 + length version"] u2 lb lb' by (simp add: o3_def del: of_nat_add)
  let ?p0 = "put_be16 2 @ put_be16 0" and ?s1 = "str16 agent_id" and ?s2 = "str16 name" and ?s3 = "str16 version"
  have b0: "body = ?p0 @ ?s1 @ (?s2 @ ?s3 @ ?r3)" "body = (?p0 @ ?s1) @ ?s2 @ (?s3 @ ?r3)"
      "body = (?p0 @ ?s1 @ ?s2) @ ?s3 @ ?r3" "body = (?p0 @ ?s1 @ ?s2 @ ?s3) @ str16 host_type @ mac_list macs"
    by (simp_all add: body_def)
  have r1: "read_string body ?n 4 128 = Some (0, agent_id, o1)"
    unfolding b0(1) o1_def by (rule read_string_str16) (use b f in \<open>auto simp: body_def\<close>)
  have r2: "read_string body ?n o1 256 = Some (0, name, o2)"
    unfolding b0(2) o2_def by (rule read_string_str16) (use b f u1 in \<open>auto simp: body_def\<close>)
  have r3: "read_string body ?n o2 64 = Some (0, version, o3)"
    unfolding b0(3) o3_def by (rule read_string_str16) (use b f u2 in \<open>auto simp: body_def\<close>)
  obtain g1 where r4: "read_hello_ex body ?n o3 g = Some (0, host_type, Some (mac_json macs), g1)" "quiet g g1"
    using read_hello_ex_body [of o3 "?p0 @ ?s1 @ ?s2 @ ?s3" host_type macs ?n g] b f u3 ok
    unfolding b0(4) [symmetric] by (auto simp: registry_ok_def)
  have ok1: "registry_ok g1" using registry_ok_quiet [OF ok r4(2)] .
  from mark_seen_registers [OF ok1 id, of "Some name" "Some version" "if host_type \<noteq> [] then Some host_type else None" "Some (mac_json macs)" conn]
  obtain g2 st where r5: "agent_state_mark_seen agent_id (Some name) (Some version) (if host_type \<noteq> [] then Some host_type else None)
        (Some (mac_json macs)) conn g1 = Some (conn\<lparr>cn_agent_key := Some agent_id\<rparr>, g2)" "registry_ok g2"
      "registry g2 = (registry g1)(agent_id \<mapsto> st)"
      "seen_entry agent_id (Some name) (Some version) (if host_type \<noteq> [] then Some host_type else None) (Some (mac_json macs)) st"
    by blast
  obtain conn2 g3 where r6: "conn_set_classification SESSION_PROTO_AGENT_WZCP SESSION_GROUP_AGENT (conn\<lparr>cn_agent_key := Some agent_id\<rparr>) g2 = (conn2, g3)" by force
  note p6 = classification_props [OF r6]
  have ok3: "registry_ok g3" using registry_ok_quiet [OF r5(2) p6(1)] .
  obtain rc conn3 g4 where r7: "send_ack conn2 (wh_seq h) g3 = (rc, conn3, g4)" by (cases "send_ack conn2 (wh_seq h) g3")
  have def: "process_hello conn h body g = Some (rc, conn3, g4)"
    unfolding process_hello_def sv bind.bind_lunit r1 r2 r3 prod.case Let_def
    using n4 r4(1) r5(1) r6 r7 by simp
  note w = send_frame_writes [OF r7 [unfolded send_ack_def]]
  have q7: "quiet g3 g4" "\<exists>sk. conn3 = conn2\<lparr>cn_sock := sk\<rparr>" using send_frame_props [OF r7 [unfolded send_ack_def]] by auto
  have reg: "registry g4 = (registry g)(agent_id \<mapsto> st)"
    using registry_quiet [OF q7(1)] registry_quiet [OF p6(1)] r5(3) registry_quiet [OF r4(2)] by simp
  have keep: "cn_agent_key conn3 = Some agent_id" "cn_buf conn3 = cn_buf conn" using q7(2) p6 by auto
  show ?thesis
    using def registry_ok_quiet [OF ok3 q7(1)] reg r5(4) keep w p6(4) by (auto simp: Let_def)
qed

section \<open>Events\<close>

lemma event_accepted:
  assumes b: "body_ok (event_body kind payload ms eid) (wh_body_len h)" and p: "length payload \<le> 0xffff"
    and e: "gx_encoder_ok g = []"
  shows "process_event_batch conn h (event_body kind payload ms eid) g =
     Some (send_ack conn (wh_seq h) (g\<lparr>gx_encoder := [wzcp_record conn h kind eid payload],
       gx_appended := gx_appended g @ [[wzcp_record conn h kind eid payload]]\<rparr>))"
proof -
  let ?b = "event_body kind payload ms eid"
  have n: "unat (wh_body_len h) = 22 + length payload" using b by (simp add: body_ok_def)
  have upl: "unat (of_nat (length payload) :: u16) = length payload" using p by (simp add: unat_of_nat_small)
  have ucp: "ucast (of_nat (length payload) :: u16) = (of_nat (length payload) :: u32)"
    using upl p by (simp add: word_unat_eq_iff unat_ucast_up unat_of_nat_small)
  have c: "be16_at ?b 0 = Some 1" using be_at_hit(1) [of 0 "[]" 1] by (simp add: event_body_def)
  have k: "byte_at ?b 2 = Some kind" by (simp add: event_body_def byte_at_def nth_append)
  have i: "be64_at ?b 12 = Some eid"
    using be_at_hit(3) [of 12 "put_be16 1 @ [kind, 0] @ put_be64 ms" eid] by (simp add: event_body_def)
  have l: "be16_at ?b 20 = Some (of_nat (length payload))"
    using be_at_hit(1) [of 20 "put_be16 1 @ [kind, 0] @ put_be64 ms @ put_be64 eid" "of_nat (length payload)" payload]
    by (simp add: event_body_def)
  have pk: "peek ?b 22 (length payload) = Some payload"
    using peek_append [of 22 "put_be16 1 @ [kind, 0] @ put_be64 ms @ put_be64 eid @ put_be16 (of_nat (length payload))" "length payload" payload "[]"]
    by (simp add: event_body_def)
  have o: "\<not> wh_body_len h < 22" "\<not> wh_body_len h < 22 + of_nat (length payload)" "\<not> wh_body_len h < 2"
    using n p off_advance [of 22 "length payload"] by (auto simp: word_less_nat_alt WZCP_MAX_FRAME_def)
  have rec: "read_events (Suc 0) conn h ?b 2 (g\<lparr>gx_encoder := []\<rparr>) = Some (0, g\<lparr>gx_encoder := [wzcp_record conn h kind eid payload]\<rparr>)"
    using o k i l pk upl e by (simp add: ucp append_record_def encode_record_def)
  show ?thesis
    using o(3) c rec by (simp add: process_event_batch_def flush_encoder_def)
qed

end
