(* ===== verification/Gw_Stream.thy ===== *)
theory Gw_Stream
  imports Gw_Messages
begin

text \<open>
  Streams of frames. TCP delivers bytes, not frames: the receive buffer holds some complete frames
  and the beginning of another. \<open>process_frames\<close> handles exactly the complete ones, in order, and
  leaves the rest for the next event.
\<close>

section \<open>One frame\<close>

text \<open>A frame as the gateway accepts it.\<close>

definition valid_frame :: "wzcp_header \<times> bytes \<Rightarrow> bool" where
  "valid_frame f \<longleftrightarrow> header_ok (fst f) \<and> unat (wh_body_len (fst f)) = length (snd f) \<and>
     32 + length (snd f) \<le> WZCP_MAX_FRAME"

definition wire :: "wzcp_header \<times> bytes \<Rightarrow> bytes" where
  "wire f = frame_of (fst f) (snd f)"

lemma length_wire [simp]: "length (wire f) = 36 + length (snd f)"
  by (simp add: wire_def)

lemma frame_len_word:
  assumes "valid_frame f"
  shows "unat (32 + wh_body_len (fst f)) = 32 + length (snd f)"
  using assms by (intro unat_plus_small [THEN trans]) (auto simp: valid_frame_def WZCP_MAX_FRAME_def)

lemma wire_length_field:
  assumes "valid_frame f" "p = length pre"
  shows "be32_at (pre @ wire f @ rest) p = Some (32 + wh_body_len (fst f))"
  using be_at_hit(2) [of p pre "32 + wh_body_len (fst f)"] assms(2) by (simp add: wire_def frame_of_def)

lemma wire_header:
  assumes "valid_frame f" "p = length pre + 4"
  shows "unpack_header (pre @ wire f @ rest) p = Some (0, fst f)"
proof -
  have "read_header (pre @ wire f @ rest) p = Some (fst f)"
    using read_packed_header [of p "pre @ put_be32 (32 + wh_body_len (fst f))" "fst f" "snd f @ rest"] assms(2)
    by (simp add: wire_def frame_of_def)
  with assms(1) show ?thesis by (simp add: unpack_header_def valid_frame_def header_ok_def)
qed

lemma wire_body:
  assumes "valid_frame f" "p = length pre + 36"
  shows "peek (pre @ wire f @ rest) p (unat (wh_body_len (fst f))) = Some (snd f)"
  using peek_append [of p "pre @ put_be32 (32 + wh_body_len (fst f)) @ xsiam_wzcp_pack_header (fst f)" "length (snd f)" "snd f" rest] assms
  by (simp add: wire_def frame_of_def valid_frame_def)

lemma frames_loop_frame:
  assumes f: "valid_frame f" and buf: "cn_buf conn = pre @ wire f @ rest"
    and d: "dispatch_frame conn (fst f) (snd f) g = Some (ret, conn1, g1)"
  shows "frames_loop conn (length pre) g =
     (if ret < 0 then Some (-1, conn1, g1)
      else frames_loop (conn1\<lparr>cn_buf := cn_buf conn\<rparr>) (length (pre @ wire f)) g1)"
proof -
  note fl = frame_len_word [OF f]
  have "frames_loop conn (length pre) g =
      (if ret < 0 then Some (-1, conn1, g1)
       else frames_loop (conn1\<lparr>cn_buf := cn_buf conn\<rparr>) (length pre + 4 + unat (32 + wh_body_len (fst f))) g1)"
  proof (rule frames_loop_step [OF _ _ _ _ _ _ _ _ d])
    show "be32_at (cn_buf conn) (length pre) = Some (32 + wh_body_len (fst f))"
      unfolding buf by (rule wire_length_field [OF f refl])
    show "unpack_header (cn_buf conn) (length pre + 4) = Some (0, fst f)"
      unfolding buf by (rule wire_header [OF f refl])
    show "peek (cn_buf conn) (length pre + 36) (unat (wh_body_len (fst f))) = Some (snd f)"
      unfolding buf by (rule wire_body [OF f refl])
  qed (use fl f buf in \<open>auto simp: valid_frame_def\<close>)
  then show ?thesis unfolding fl by (simp add: add.assoc)
qed

section \<open>An incomplete frame\<close>

text \<open>The beginning of a valid frame stops the loop without any effect.\<close>

lemma frames_loop_partial:
  assumes f: "valid_frame f" and k: "k < length (wire f)" and buf: "cn_buf conn = pre @ take k (wire f)"
  shows "frames_loop conn (length pre) g = Some (int (length pre), conn, g)"
proof (cases "k < 36")
  case True
  then show ?thesis by (subst frames_loop.simps) (simp add: buf)
next
  case False
  have lf: "length (take k (wire f)) = k" using k by simp
  have "take k (wire f) = put_be32 (32 + wh_body_len (fst f)) @ drop 4 (take k (wire f))"
    using False by (simp add: wire_def frame_of_def)
  then have fl: "be32_at (cn_buf conn) (length pre) = Some (32 + wh_body_len (fst f))"
    using be_at_hit(2) [of "length pre" pre "32 + wh_body_len (fst f)" "drop 4 (take k (wire f))"] by (simp add: buf)
  show ?thesis
    by (subst frames_loop.simps)
      (use False fl frame_len_word [OF f] k f in \<open>simp add: buf valid_frame_def\<close>)
qed

lemma frames_loop_end:
  "length (cn_buf conn) = n \<Longrightarrow> frames_loop conn n g = Some (int n, conn, g)"
  by (subst frames_loop.simps) simp

section \<open>Many frames\<close>

text \<open>The effect of a sequence of frames, one after the other.\<close>

fun dispatch_all ::
  "(wzcp_header \<times> bytes) list \<Rightarrow> xsiam_agent_conn \<Rightarrow> xsiam_agent_ctx \<Rightarrow> (int \<times> xsiam_agent_conn \<times> xsiam_agent_ctx) option" where
  "dispatch_all [] conn g = Some (0, conn, g)"
| "dispatch_all (f # fs) conn g = do {
     (ret, conn1, g1) \<leftarrow> dispatch_frame conn (fst f) (snd f) g;
     if ret < 0 then Some (-1, conn1, g1) else dispatch_all fs (conn1\<lparr>cn_buf := cn_buf conn\<rparr>) g1 }"

lemma frames_loop_stream:
  assumes "registry_ok g" "\<forall>f \<in> set fs. valid_frame f" "cn_buf conn = pre @ concat (map wire fs) @ tail"
    and tail: "\<And>c g'. cn_buf c = cn_buf conn \<Longrightarrow>
       frames_loop c (length (pre @ concat (map wire fs))) g' = Some (int (length (pre @ concat (map wire fs))), c, g')"
  shows "\<exists>rc conn' g'. dispatch_all fs conn g = Some (rc, conn', g') \<and>
     frames_loop conn (length pre) g =
       (if rc < 0 then Some (-1, conn', g') else Some (int (length (pre @ concat (map wire fs))), conn', g'))"
  using assms
proof (induction fs arbitrary: conn g pre)
  case Nil
  then show ?case using Nil.prems(4) [of conn g] by simp
next
  case (Cons f fs)
  have vf: "valid_frame f" using Cons.prems(2) by simp
  then have bo: "body_ok (snd f) (wh_body_len (fst f))" by (simp add: valid_frame_def body_ok_def)
  obtain ret conn1 g1 where d: "dispatch_frame conn (fst f) (snd f) g = Some (ret, conn1, g1)" "registry_ok g1"
    using dispatch_frame_handled [OF Cons.prems(1) bo, of conn] by (auto simp: handled_def)
  let ?c = "conn1\<lparr>cn_buf := cn_buf conn\<rparr>"
  have buf: "cn_buf conn = pre @ wire f @ (concat (map wire fs) @ tail)" using Cons.prems(3) by simp
  note step = frames_loop_frame [OF vf buf d(1)]
  show ?case
  proof (cases "ret < 0")
    case True
    with step d show ?thesis by simp
  next
    case False
    have "\<exists>rc conn' g'. dispatch_all fs ?c g1 = Some (rc, conn', g') \<and>
       frames_loop ?c (length (pre @ wire f)) g1 =
         (if rc < 0 then Some (-1, conn', g') else Some (int (length ((pre @ wire f) @ concat (map wire fs))), conn', g'))"
      using Cons.prems(2,3,4) d(2) by (intro Cons.IH) auto
    with step d(1) False show ?thesis by auto
  qed
qed

end
