(* ===== verification/Gw_System.thy ===== *)
theory Gw_System
  imports Gw_Stream
begin

text \<open>
  The gateway input plugin as a whole: the events the engine's loop delivers, the invariant of the
  plugin state and its preservation by every event. The invariant bounds the memory of a
  connection: its buffer never exceeds the configured limit.
\<close>

section \<open>Invariant\<close>

definition conn_ok :: "nat \<Rightarrow> xsiam_agent_conn \<Rightarrow> bool" where
  "conn_ok lim c \<longleftrightarrow> length (cn_buf c) \<le> cn_buf_size c \<and> cn_buf_size c \<le> lim"

definition gw_ok :: "xsiam_agent_ctx \<Rightarrow> bool" where
  "gw_ok g \<longleftrightarrow> registry_ok g \<and> distinct (map cn_id (gx_connections g)) \<and>
     (\<forall>c \<in> set (gx_connections g). conn_ok (gx_buffer_size g) c) \<and> gx_chunk_size g \<le> gx_buffer_size g"

lemma gw_ok_kept: "gw_ok g \<Longrightarrow> conns_kept g g' \<Longrightarrow> registry_ok g' \<Longrightarrow> gw_ok g'"
  by (simp add: gw_ok_def conns_kept_def)

lemma gw_ok_quiet: "gw_ok g \<Longrightarrow> quiet g g' \<Longrightarrow> gw_ok g'"
  using gw_ok_kept quiet_kept registry_ok_quiet gw_ok_def by blast

lemma gw_ok_subset:
  assumes "gw_ok g"
  shows "gw_ok (g\<lparr>gx_connections := filter P (gx_connections g)\<rparr>)"
  using assms by (simp add: gw_ok_def registry_ok_encoder distinct_map_filter)

lemma keep_conn_ids: "map cn_id (gx_connections (keep_conn c g)) = map cn_id (gx_connections g)"
  by (simp add: keep_conn_def)

lemma gw_ok_keep:
  assumes "gw_ok g" "conn_ok (gx_buffer_size g) c"
  shows "gw_ok (keep_conn c g)"
  unfolding gw_ok_def keep_conn_ids
  using assms by (auto simp: gw_ok_def keep_conn_def registry_ok_encoder)

section \<open>Closing a connection\<close>

definition live :: "xsiam_agent_ctx \<Rightarrow> nat set" where
  "live g = set (map cn_id (gx_connections g))"

lemma conn_del_ok:
  assumes "gw_ok g"
  shows "\<exists>g'. conn_del c g = Some g' \<and> gw_ok g' \<and> live g' = live g - {cn_id c} \<and> gx_buffer_size g' = gx_buffer_size g"
proof -
  obtain g1 where g1: "(case cn_agent_key c of Some k \<Rightarrow> agent_state_mark_disconnected k g | None \<Rightarrow> Some g) = Some g1"
      "registry_ok g1" "conns_kept g g1"
  proof (cases "cn_agent_key c")
    case None
    with assms show ?thesis by (intro that [of g]) (auto simp: gw_ok_def)
  next
    case (Some k)
    from mark_disconnected_drops [of g k] assms obtain g1 where
      "agent_state_mark_disconnected k g = Some g1" "registry_ok g1" "conns_kept g g1" by (auto simp: gw_ok_def)
    with Some show ?thesis by (intro that [of g1]) auto
  qed
  have k: "gx_connections g1 = gx_connections g" "gx_buffer_size g1 = gx_buffer_size g"
    using g1(3) by (auto simp: conns_kept_def)
  show ?thesis
    using g1(1) gw_ok_subset [OF gw_ok_kept [OF assms g1(3,2)]] k by (auto simp: conn_del_def live_def)
qed

lemma close_conn_ok:
  assumes "gw_ok g"
  shows "\<exists>g'. close_conn c g = Some (-1, g') \<and> gw_ok g' \<and> live g' = live g - {cn_id c}"
  using conn_del_ok [OF assms, of c] by (auto simp: close_conn_def)

lemma live_keep [simp]: "live (keep_conn c g) = live g"
  by (simp only: live_def keep_conn_ids)

lemma live_kept: "conns_kept g g' \<Longrightarrow> live g' = live g"
  by (simp add: live_def conns_kept_def)

section \<open>Socket events\<close>

lemma finish_event_ok:
  assumes "gw_ok g" "conn_ok (gx_buffer_size g) c"
  shows "\<exists>rc g'. finish_event cl c g = Some (rc, g') \<and> gw_ok g' \<and> live g - {cn_id c} \<subseteq> live g' \<and> live g' \<subseteq> live g"
proof -
  have k: "conn_ok (gx_buffer_size g) (c\<lparr>cn_busy := False\<rparr>)" using assms(2) by (simp add: conn_ok_def)
  show ?thesis
    using close_conn_ok [OF assms(1), of c] close_conn_ok [OF assms(1), of "c\<lparr>cn_busy := False\<rparr>"] gw_ok_keep [OF assms(1) k]
    by (auto simp: finish_event_def Let_def)
qed

lemma length_consume_bytes: "length (consume_bytes n b) \<le> length b"
  by (simp add: consume_bytes_def)

lemma make_room_ok:
  assumes "make_room c g = (rr, g')" "conn_ok (gx_buffer_size g) c"
  shows "quiet g g'" "rr = Room n \<Longrightarrow> length (cn_buf c) \<le> n \<and> n \<le> gx_buffer_size g"
  using assms quiet_alloc [of g] by (auto simp: make_room_def conn_ok_def Let_def split: if_splits prod.splits)

lemma conn_event_ok:
  assumes ok: "gw_ok g" and c: "conn_ok (gx_buffer_size g) conn"
  shows "\<exists>rc g'. conn_event ev_read ev_close conn g = Some (rc, g') \<and> gw_ok g' \<and>
     live g - {cn_id conn} \<subseteq> live g' \<and> live g' \<subseteq> live g"
proof (cases ev_read)
  case False
  have "conn_ok (gx_buffer_size g) (conn\<lparr>cn_busy := True\<rparr>)" using c by (simp add: conn_ok_def)
  from finish_event_ok [OF ok this, of ev_close] False show ?thesis by (simp add: conn_event_def)
next
  case True
  let ?c = "conn\<lparr>cn_busy := True\<rparr>"
  obtain rr g1 where m: "make_room ?c g = (rr, g1)" by force
  have c': "conn_ok (gx_buffer_size g) ?c" using c by (simp add: conn_ok_def)
  note q = make_room_ok(1) [OF m c']
  have ok1: "gw_ok g1" and lv: "live g1 = live g" and sz: "gx_buffer_size g1 = gx_buffer_size g"
    using gw_ok_quiet [OF ok q] live_kept [OF quiet_kept [OF q]] quiet_fields(7) [OF q] by auto
  show ?thesis
  proof (cases rr)
    case Too_big
    with True m close_conn_ok [OF ok1, of ?c] lv show ?thesis by (auto simp: conn_event_def)
  next
    case No_memory
    have "conn_ok (gx_buffer_size g1) (conn\<lparr>cn_busy := False\<rparr>)" using c sz by (simp add: conn_ok_def)
    with True m gw_ok_keep [OF ok1] lv No_memory show ?thesis by (auto simp: conn_event_def)
  next
    case (Room n)
    let ?c1 = "?c\<lparr>cn_buf_size := n\<rparr>"
    obtain k data sk where r: "recv (cn_sock ?c1) (n - length (cn_buf ?c1)) = (k, data, sk)"
      by (cases "recv (cn_sock ?c1) (n - length (cn_buf ?c1))")
    let ?c2 = "?c1\<lparr>cn_sock := sk\<rparr>" and ?c2' = "?c1\<lparr>cn_sock := sk, cn_buf := cn_buf conn @ data\<rparr>"
    have "registry_ok g1" using ok1 by (simp add: gw_ok_def)
    from process_buffer_total [OF this, of ?c2'] obtain p c3 g2 where
      b: "process_buffer ?c2' g1 = Some (p, c3, g2)" "registry_ok g2" "conns_kept g1 g2" "conn_kept ?c2' c3" by blast
    have ok2: "gw_ok g2" and lv2: "live g2 = live g" and sz2: "gx_buffer_size g2 = gx_buffer_size g"
      using gw_ok_kept [OF ok1 b(3,2)] live_kept [OF b(3)] lv sz b(3) by (auto simp: conns_kept_def)
    have def: "conn_event ev_read ev_close conn g =
        (if k \<le> 0 then close_conn ?c2 g1
         else if p < 0 then close_conn c3 g2
         else finish_event ev_close (c3\<lparr>cn_buf := consume_bytes (nat p) (cn_buf c3)\<rparr>) g2)"
      using True m Room r b(1) by (simp add: conn_event_def)
    have id3: "cn_id c3 = cn_id conn" using b(4) by (simp add: conn_kept_def)
    have c3: "conn_ok (gx_buffer_size g2) (c3\<lparr>cn_buf := consume_bytes (nat p) (cn_buf c3)\<rparr>)" if "0 < k"
      using b(4) make_room_ok(2) [OF m c' Room] recv_positive(1,2) [OF r that] sz2
        length_consume_bytes [of "nat p" "cn_buf c3"] by (auto simp: conn_ok_def conn_kept_def)
    show ?thesis
      unfolding def using close_conn_ok [OF ok1, of ?c2] close_conn_ok [OF ok2, of c3] id3 lv lv2
        finish_event_ok [OF ok2 c3, of ev_close] by auto
  qed
qed

section \<open>Collectors\<close>

lemma quiet_schedule:
  assumes s: "schedule_next_heartbeat conn g = (conn', g')"
  shows "quiet g g'" "\<exists>t. conn' = conn\<lparr>cn_next_heartbeat := t\<rparr>"
proof -
  obtain t g1 where t: "now_sec g = (t, g1)" by force
  have "\<And>i g2. heartbeat_random_interval g1 = (i, g2) \<Longrightarrow> quiet g1 g2"
    by (auto simp: heartbeat_random_interval_def rand_r_def Let_def quiet_def inner_def split: if_splits list.splits)
  with s t quiet_now_sec [OF t] show "quiet g g'"
    by (auto simp: schedule_next_heartbeat_def Let_def split: prod.splits intro: quiet_trans)
  show "\<exists>t. conn' = conn\<lparr>cn_next_heartbeat := t\<rparr>"
    using s by (auto simp: schedule_next_heartbeat_def Let_def split: prod.splits)
qed

text \<open>With memory available a new connection is refused only when the event loop refuses it.\<close>

lemma conn_add_ok:
  assumes ok: "gw_ok g" and new: "cid \<notin> live g"
  shows "\<exists>c g'. conn_add cid sk ev g = (c, g') \<and> gw_ok g' \<and> live g' = (if ev then insert cid (live g) else live g) \<and>
     (ev \<longleftrightarrow> c \<noteq> None)"
proof -
  obtain o1 g1 where 1: "gw_alloc g = (o1, g1)" by force
  let ?g2 = "g1\<lparr>gx_session_seq := gx_session_seq g1 + 1\<rparr>"
  obtain o2 g3 where 2: "gw_alloc ?g2 = (o2, g3)" by force
  obtain p g4 where 3: "xstrdup (Some SESSION_PROTO_UNKNOWN) g3 = (p, g4)" by force
  obtain q g5 where 4: "xstrdup (Some SESSION_GROUP_UNKNOWN) g4 = (q, g5)" by force
  define cn where "cn = \<lparr>cn_id = cid, cn_sock = sk, cn_buf = [], cn_buf_size = gx_chunk_size g5, cn_busy = False,
      cn_pending_close = False, cn_next_heartbeat = 0, cn_agent_key = None, cn_protocol_tag = p, cn_client_group = q,
      cn_session_id = asc ''session-'' @ dec (unat (gx_session_seq g5))\<rparr>"
  obtain c1 g6 where 5: "schedule_next_heartbeat cn g5 = (c1, g6)" by force
  have k1: "gw_ok g1" using gw_ok_quiet [OF ok quiet_alloc [OF 1]] .
  have "gw_ok ?g2" using k1 by (simp add: gw_ok_def registry_ok_encoder)
  then have k3: "gw_ok g3" using gw_ok_quiet [OF _ quiet_alloc [OF 2]] by blast
  have k4: "gw_ok g4" using gw_ok_quiet [OF k3 quiet_xstrdup [OF 3]] .
  have k5: "gw_ok g5" using gw_ok_quiet [OF k4 quiet_xstrdup [OF 4]] .
  have k6: "gw_ok g6" using gw_ok_quiet [OF k5 quiet_schedule(1) [OF 5]] .
  have room: "roomy (gx_heap g)" "roomy (gx_heap ?g2)" "roomy (gx_heap g3)" "roomy (gx_heap g4)"
    using ok k1 k3 k4 by (auto simp: gw_ok_def registry_ok_def)
  have o: "o1" "o2" "p \<noteq> None" "q \<noteq> None"
    using 1 2 room(1,2) roomy_xstrdup [OF room(3) 3] roomy_xstrdup [OF room(4) 4]
    by (cases "gx_heap g"; cases "gx_heap ?g2"; auto simp: gw_alloc_def roomy_def)+
  have "conn_add cid sk ev g = (if \<not> ev then (None, g6) else (Some c1, g6\<lparr>gx_connections := gx_connections g6 @ [c1]\<rparr>))"
    unfolding conn_add_def Let_def 1 2 3 4 prod.case cn_def [symmetric] 5 using o by auto
  moreover have q6: "gx_connections g6 = gx_connections g" "gx_buffer_size g6 = gx_buffer_size g" "gx_chunk_size g5 = gx_chunk_size g"
    using quiet_fields [OF quiet_alloc [OF 1]] quiet_fields [OF quiet_alloc [OF 2]] quiet_fields [OF quiet_xstrdup [OF 3]]
      quiet_fields [OF quiet_xstrdup [OF 4]] quiet_fields [OF quiet_schedule(1) [OF 5]] by simp_all
  moreover have "gw_ok (g6\<lparr>gx_connections := gx_connections g6 @ [c1]\<rparr>)" "cn_id c1 = cid"
    using k6 new quiet_schedule(2) [OF 5] q6 ok
    by (auto simp: gw_ok_def registry_ok_encoder live_def conn_ok_def cn_def)
  ultimately show ?thesis using k6 by (auto simp: live_def)
qed

lemma heartbeat_loop_ok:
  assumes "gw_ok g" "\<forall>c \<in> set conns. conn_ok (gx_buffer_size g) c"
  shows "\<exists>g'. heartbeat_loop conns now g = Some g' \<and> gw_ok g' \<and> live g' \<subseteq> live g"
  using assms
proof (induction conns arbitrary: g)
  case (Cons conn conns)
  let ?g1 = "g\<lparr>gx_gateway_seq := gx_gateway_seq g + 1\<rparr>"
  obtain rc c1 g2 where s: "send_frame conn MSG_HEARTBEAT 0 (gx_gateway_seq ?g1) [] ?g1 = (rc, c1, g2)"
    by (cases "send_frame conn MSG_HEARTBEAT 0 (gx_gateway_seq ?g1) [] ?g1")
  note p = send_frame_props [OF s]
  have "gw_ok ?g1" using Cons.prems(1) by (simp add: gw_ok_def registry_ok_encoder)
  from gw_ok_quiet [OF this p(1)] have ok2: "gw_ok g2" .
  have e2: "live g2 = live g" "gx_buffer_size g2 = gx_buffer_size g"
    using live_kept [OF quiet_kept [OF p(1)]] quiet_fields(7) [OF p(1)] by (simp_all add: live_def)
  obtain c2 g3 where sch: "schedule_next_heartbeat c1 g2 = (c2, g3)" by force
  note q3 = quiet_schedule [OF sch]
  have ok3: "gw_ok g3" and e3: "live g3 = live g" "gx_buffer_size g3 = gx_buffer_size g"
    using gw_ok_quiet [OF ok2 q3(1)] live_kept [OF quiet_kept [OF q3(1)]] quiet_fields(7) [OF q3(1)] e2 by simp_all
  have "conn_ok (gx_buffer_size g3) c2" using Cons.prems(2) p(2) q3(2) e3 by (auto simp: conn_ok_def)
  note k = gw_ok_keep [OF ok3 this]
  have kb: "gx_buffer_size (keep_conn c2 g3) = gx_buffer_size g" using e3 by (simp add: keep_conn_def)
  from conn_del_ok [OF ok2, of c1] obtain g4 where
    d: "conn_del c1 g2 = Some g4" "gw_ok g4" "live g4 = live g2 - {cn_id c1}" "gx_buffer_size g4 = gx_buffer_size g2" by blast
  have step: "heartbeat_loop (conn # conns) now g =
      (if cn_protocol_tag conn \<noteq> Some SESSION_PROTO_AGENT_WZCP \<or> now < cn_next_heartbeat conn then heartbeat_loop conns now g
       else if rc \<noteq> 0 then heartbeat_loop conns now g4 else heartbeat_loop conns now (keep_conn c2 g3))"
    using s sch d(1) by (simp add: Let_def)
  show ?case
    unfolding step using Cons.IH [OF Cons.prems(1)] Cons.IH [OF d(2)] Cons.IH [OF k] Cons.prems(2) d(3,4) e2 e3 kb by auto
qed auto

lemma heartbeat_collect_ok:
  assumes "gw_ok g"
  shows "\<exists>g'. heartbeat_collect g = Some g' \<and> gw_ok g' \<and> live g' \<subseteq> live g"
proof -
  obtain t g1 where t: "now_sec g = (t, g1)" by force
  note q = quiet_now_sec [OF t]
  have "gw_ok g1" using gw_ok_quiet [OF assms q] .
  from heartbeat_loop_ok [OF this, of "gx_connections g1" "int t"] this t live_kept [OF quiet_kept [OF q]]
  show ?thesis by (auto simp: heartbeat_collect_def gw_ok_def)
qed

section \<open>The event loop\<close>

text \<open>
  What the engine delivers: a connection on the listening socket (its descriptor is not in use),
  a socket event with what the network has for that connection, and the two timers.
\<close>

datatype gw_event = Accept nat sock bool | Ready nat bool bool sock | Heartbeat_timer | Lease_timer

fun gw_handle :: "gw_event \<Rightarrow> xsiam_agent_ctx \<Rightarrow> xsiam_agent_ctx option" where
  "gw_handle (Accept cid sk ev_ok) g =
     (if cid \<in> set (map cn_id (gx_connections g)) then Some g else Some (snd (collect (Some (cid, sk, ev_ok)) g)))"
| "gw_handle (Ready cid ev_read ev_close sk) g =
     (case find (\<lambda>c. cn_id c = cid) (gx_connections g) of
        None \<Rightarrow> Some g
      | Some conn \<Rightarrow> map_option snd (conn_event ev_read ev_close (conn\<lparr>cn_sock := sk\<rparr>) g))"
| "gw_handle Heartbeat_timer g = heartbeat_collect g"
| "gw_handle Lease_timer g = Some (fb_lease_collect g)"

fun gw_run :: "gw_event list \<Rightarrow> xsiam_agent_ctx \<Rightarrow> xsiam_agent_ctx option" where
  "gw_run [] g = Some g"
| "gw_run (e # es) g = Option.bind (gw_handle e g) (gw_run es)"

lemma gw_handle_ok:
  assumes "gw_ok g"
  shows "\<exists>g'. gw_handle e g = Some g' \<and> gw_ok g'"
proof (cases e)
  case (Accept cid sk ev)
  show ?thesis
  proof (cases "cid \<in> live g")
    case False
    from conn_add_ok [OF assms False, of sk ev] obtain c g' where "conn_add cid sk ev g = (c, g')" "gw_ok g'" by blast
    with False Accept show ?thesis by (auto simp: collect_def live_def split: option.splits)
  qed (use Accept assms in \<open>simp add: live_def\<close>)
next
  case (Ready cid r c sk)
  show ?thesis
  proof (cases "find (\<lambda>c. cn_id c = cid) (gx_connections g)")
    case (Some conn)
    then have "conn_ok (gx_buffer_size g) (conn\<lparr>cn_sock := sk\<rparr>)"
      using assms by (auto simp: gw_ok_def find_Some_iff conn_ok_def)
    from conn_event_ok [OF assms this, of r c] Ready Some show ?thesis by auto
  qed (use Ready assms in simp)
next
  case Heartbeat_timer
  with heartbeat_collect_ok [OF assms] show ?thesis by auto
next
  case Lease_timer
  with gw_ok_quiet [OF assms quiet_post] show ?thesis by (simp add: fb_lease_collect_def)
qed

lemma gw_run_ok: "gw_ok g \<Longrightarrow> \<exists>g'. gw_run es g = Some g' \<and> gw_ok g'"
proof (induction es arbitrary: g)
  case (Cons e es)
  from gw_handle_ok [OF Cons.prems, of e] obtain g1 where "gw_handle e g = Some g1" "gw_ok g1" by blast
  with Cons.IH [of g1] show ?case by simp
qed simp

end
