(* ===== verification/Gw_Segments.thy ===== *)
theory Gw_Segments
  imports Gw_System
begin

text \<open>
  Segmentation: the gateway's view of a session does not depend on how TCP cuts the stream of
  frames into pieces.
\<close>

section \<open>The receive buffer is not visible to the handlers\<close>

definition with_buf ::
  "bytes \<Rightarrow> (int \<times> xsiam_agent_conn \<times> xsiam_agent_ctx) option \<Rightarrow> (int \<times> xsiam_agent_conn \<times> xsiam_agent_ctx) option" where
  "with_buf b m = map_option (\<lambda>(rc, c, g). (rc, c\<lparr>cn_buf := b\<rparr>, g)) m"

lemma with_buf_simps [simp]: "with_buf b None = None" "with_buf b (Some (rc, c, g)) = Some (rc, c\<lparr>cn_buf := b\<rparr>, g)"
  by (simp_all add: with_buf_def)

lemma with_buf_bind: "with_buf b (Option.bind m f) = Option.bind m (\<lambda>x. with_buf b (f x))"
  by (cases m) simp_all

lemma bind_map: "Option.bind (map_option f m) k = Option.bind m (\<lambda>x. k (f x))"
  by (cases m) simp_all

lemma send_ack_buf: "Some (send_ack (c\<lparr>cn_buf := b\<rparr>) sq g) = with_buf b (Some (send_ack c sq g))"
  by (simp add: send_ack_def send_frame_def Let_def split: prod.splits)

lemma mark_seen_buf:
  "agent_state_mark_seen a nm ver ht macs (c\<lparr>cn_buf := b\<rparr>) g =
   map_option (\<lambda>(c', g'). (c'\<lparr>cn_buf := b\<rparr>, g')) (agent_state_mark_seen a nm ver ht macs c g)"
  by (cases "agent_state_get a True (snd (now_sec g))")
    (auto simp: agent_state_mark_seen_def Let_def split: prod.splits option.splits)

lemma classification_buf:
  "conn_set_classification p q (c\<lparr>cn_buf := b\<rparr>) g = (let (c', g') = conn_set_classification p q c g in (c'\<lparr>cn_buf := b\<rparr>, g'))"
  by (simp add: conn_set_classification_def Let_def split: prod.splits)

lemma process_hello_buf:
  "process_hello (c\<lparr>cn_buf := b\<rparr>) h body g = with_buf b (process_hello c h body g)"
  unfolding process_hello_def
  by (auto simp: with_buf_bind mark_seen_buf bind_map classification_buf send_ack_buf Let_def
        intro!: Option.bind_cong split: prod.splits)

lemma read_events_buf: "read_events n (c\<lparr>cn_buf := b\<rparr>) h body off g = read_events n c h body off g"
  by (induction n arbitrary: off g)
    (auto simp: append_record_def wzcp_record_def Let_def intro!: Option.bind_cong split: prod.splits)

lemma process_event_batch_buf:
  "process_event_batch (c\<lparr>cn_buf := b\<rparr>) h body g = with_buf b (process_event_batch c h body g)"
  unfolding process_event_batch_def
  by (auto simp: with_buf_bind read_events_buf send_ack_buf intro!: Option.bind_cong split: prod.splits)

lemma dispatch_frame_buf:
  "dispatch_frame (c\<lparr>cn_buf := b\<rparr>) h body g = with_buf b (dispatch_frame c h body g)"
proof -
  have "process_event_batch (c\<lparr>cn_buf := b\<rparr>) h body = (\<lambda>x. with_buf b (process_event_batch c h body x))"
    by (rule ext) (rule process_event_batch_buf)
  then show ?thesis by (simp add: dispatch_frame_def with_buf_bind process_hello_buf send_ack_buf)
qed

section \<open>Classification\<close>

definition tagged :: "xsiam_agent_conn \<Rightarrow> bool" where
  "tagged c \<longleftrightarrow> cn_protocol_tag c = Some SESSION_PROTO_AGENT_WZCP \<and> cn_client_group c = Some SESSION_GROUP_AGENT"

lemma tagged_simps [simp]:
  "tagged (c\<lparr>cn_buf := b\<rparr>) = tagged c" "tagged (c\<lparr>cn_sock := sk\<rparr>) = tagged c" "tagged (c\<lparr>cn_agent_key := k\<rparr>) = tagged c"
  by (simp_all add: tagged_def)

lemma classification_tagged:
  "tagged c \<Longrightarrow> conn_set_classification SESSION_PROTO_AGENT_WZCP SESSION_GROUP_AGENT c g = (c, g)"
  by (simp add: tagged_def conn_set_classification_def set_tag_def)

lemma classification_tags:
  assumes "roomy (gx_heap g)" "conn_set_classification SESSION_PROTO_AGENT_WZCP SESSION_GROUP_AGENT c g = (c', g')"
  shows "tagged c'"
proof -
  obtain p g1 where p: "set_tag (cn_protocol_tag c) SESSION_PROTO_AGENT_WZCP g = (p, g1)" by force
  obtain q g2 where q: "set_tag (cn_client_group c) SESSION_GROUP_AGENT g1 = (q, g2)" by force
  have tag: "\<And>old t h r h'. roomy (gx_heap h) \<Longrightarrow> set_tag old t h = (r, h') \<Longrightarrow> r = Some t"
    by (auto simp: set_tag_def roomy_replace_str split: if_splits)
  have "roomy (gx_heap g1)" using quiet_fields(12) [OF quiet_set_tag [OF p] assms(1)] .
  with p q tag [OF assms(1) p] tag [OF _ q] assms(2) show ?thesis
    by (auto simp: conn_set_classification_def tagged_def)
qed

lemma send_ack_tagged: "send_ack c sq g = (rc, c', g') \<Longrightarrow> tagged c' = tagged c"
  using send_frame_props(2) [of c] by (force simp: send_ack_def)

lemma mark_seen_tagged: "agent_state_mark_seen a nm ver ht macs c g = Some (c', g') \<Longrightarrow> tagged c' = tagged c"
  by (auto simp: agent_state_mark_seen_def Let_def tagged_def split: prod.splits option.splits if_splits Option.bind_splits)

lemma process_hello_tagged:
  "tagged c \<Longrightarrow> process_hello c h body g = Some (rc, c', g') \<Longrightarrow> tagged c'"
  by (auto simp: process_hello_def Let_def mark_seen_tagged classification_tagged dest!: mark_seen_tagged send_ack_tagged
      split: prod.splits if_splits Option.bind_splits)

lemma dispatch_frame_tagged:
  "tagged c \<Longrightarrow> dispatch_frame c h body g = Some (rc, c', g') \<Longrightarrow> tagged c'"
  by (auto simp: dispatch_frame_def process_event_batch_def dest: process_hello_tagged send_ack_tagged
      split: prod.splits if_splits Option.bind_splits)

section \<open>The head of a stream\<close>

lemma first_byte_of_frame:
  assumes "valid_frame f"
  shows "ucast (drop_bit 24 (32 + wh_body_len (fst f))) = (0 :: byte)"
proof -
  have "unat (drop_bit 24 (32 + wh_body_len (fst f))) = drop_bit 24 (32 + length (snd f))"
    unfolding unat_drop_bit_eq frame_len_word [OF assms] ..
  then have "unat (drop_bit 24 (32 + wh_body_len (fst f))) = 0"
    using assms by (simp add: drop_bit_eq_div valid_frame_def WZCP_MAX_FRAME_def)
  then have "drop_bit 24 (32 + wh_body_len (fst f)) = 0" by (simp only: unat_eq_0)
  then show ?thesis by simp
qed

lemma scan_text_zero: "\<not> scan_text n (0 # bs)"
  by (cases n) simp_all

lemma stream_not_syslog:
  assumes "valid_frame f" "buf = take j (wire f @ rest)"
  shows "\<not> looks_like_syslog buf"
proof (cases j)
  case (Suc n)
  then have "buf = 0 # take n (drop 1 (wire f @ rest))"
    using assms first_byte_of_frame [OF assms(1)] by (simp add: wire_def frame_of_def put_be32_def)
  then obtain bs where "buf = 0 # bs" by blast
  then show ?thesis by (simp add: looks_like_syslog_def scan_text_zero)
qed (use assms in \<open>simp add: looks_like_syslog_def\<close>)

lemma stream_is_wzcp:
  assumes "valid_frame f" "buf = take j (wire f @ rest)" "36 \<le> length buf"
  shows "looks_like_wzcp buf = Some True"
proof -
  have "buf = put_be32 (32 + wh_body_len (fst f)) @ put_be32 WZCP_MAGIC @ drop 8 buf"
    using assms by (auto simp: wire_def frame_of_def xsiam_wzcp_pack_header_def valid_frame_def header_ok_def)
  then obtain r where r: "buf = put_be32 (32 + wh_body_len (fst f)) @ put_be32 WZCP_MAGIC @ r" by blast
  have "be32_at buf 0 = Some (32 + wh_body_len (fst f))" "be32_at buf 4 = Some WZCP_MAGIC"
    using be_at_hit(2) [of 0 "[]" "32 + wh_body_len (fst f)"] be_at_hit(2) [of 4 "put_be32 (32 + wh_body_len (fst f))" WZCP_MAGIC r]
    by (simp_all add: r)
  then show ?thesis
    using assms(1,3) frame_len_word [OF assms(1)] by (simp add: looks_like_wzcp_def valid_frame_def)
qed

section \<open>Processing a buffer\<close>

text \<open>The stream of the frames \<open>fs\<close> followed by the beginning of the frame \<open>f\<close>.\<close>

definition stream :: "(wzcp_header \<times> bytes) list \<Rightarrow> wzcp_header \<times> bytes \<Rightarrow> nat \<Rightarrow> bytes" where
  "stream fs f k = concat (map wire fs) @ take k (wire f)"

lemma stream_head:
  assumes "\<forall>x \<in> set (f # fs). valid_frame x"
  obtains f0 j rest where "valid_frame f0" "stream fs f k = take j (wire f0 @ rest)"
proof (cases fs)
  case Nil
  with assms show ?thesis using that [of f k "[]"] by (simp add: stream_def)
next
  case (Cons a as)
  then have "stream fs f k = take (length (stream fs f k)) (wire a @ stream as f k)" by (simp add: stream_def del: take_append)
  with Cons assms show ?thesis using that [of a] by auto
qed

lemma process_buffer_stream:
  assumes t: "tagged conn" and ok: "registry_ok g" and v: "\<forall>x \<in> set (f # fs). valid_frame x"
    and k: "k < length (wire f)" and buf: "cn_buf conn = stream fs f k"
  shows "\<exists>rc c' g'. dispatch_all fs conn g = Some (rc, c', g') \<and>
     process_buffer conn g = Some (if rc < 0 then -1 else int (length (concat (map wire fs))), c', g')"
proof -
  from stream_head [OF v, of k] obtain f0 j rest where h: "valid_frame f0" "cn_buf conn = take j (wire f0 @ rest)"
    unfolding buf by blast
  note ns = stream_not_syslog [OF h]
  show ?thesis
  proof (cases "36 \<le> length (cn_buf conn)")
    case True
    note w = stream_is_wzcp [OF h True]
    have tail: "frames_loop c (length ([] @ concat (map wire fs))) g' = Some (int (length ([] @ concat (map wire fs))), c, g')"
      if "cn_buf c = cn_buf conn" for c g'
      using frames_loop_partial [OF _ k, of c "concat (map wire fs)" g'] v that buf by (simp add: stream_def)
    have "cn_buf conn = [] @ concat (map wire fs) @ take k (wire f)" "\<forall>x \<in> set fs. valid_frame x"
      using buf v by (auto simp: stream_def)
    from frames_loop_stream [OF ok this(2,1) tail] obtain rc c' g' where
      "dispatch_all fs conn g = Some (rc, c', g')"
      "frames_loop conn 0 g = (if rc < 0 then Some (-1, c', g') else Some (int (length (concat (map wire fs))), c', g'))"
      by auto
    with w show ?thesis by (simp add: process_buffer_def process_frames_def classification_tagged [OF t])
  next
    case False
    have "fs = []" using False buf by (cases fs) (auto simp: stream_def)
    moreover have "looks_like_wzcp (cn_buf conn) = Some False" using False by (simp add: looks_like_wzcp_def)
    ultimately show ?thesis using False ns by (simp add: process_buffer_def)
  qed
qed

section \<open>Segments\<close>

text \<open>
  What \<open>conn_event\<close> does with the bytes of one read: append them to the buffer, process it, drop
  what was consumed. A negative result is a closed connection, and nothing more is read from it.
\<close>

definition feed :: "bytes \<Rightarrow> xsiam_agent_conn \<Rightarrow> xsiam_agent_ctx \<Rightarrow> (int \<times> xsiam_agent_conn \<times> xsiam_agent_ctx) option" where
  "feed data conn g = do {
     (p, c, g') \<leftarrow> process_buffer (conn\<lparr>cn_buf := cn_buf conn @ data\<rparr>) g;
     if p < 0 then Some (-1, c, g') else Some (0, c\<lparr>cn_buf := consume_bytes (nat p) (cn_buf c)\<rparr>, g') }"

fun feed_all :: "bytes list \<Rightarrow> xsiam_agent_conn \<Rightarrow> xsiam_agent_ctx \<Rightarrow> (int \<times> xsiam_agent_conn \<times> xsiam_agent_ctx) option" where
  "feed_all [] conn g = Some (0, conn, g)"
| "feed_all (d # ds) conn g = do {
     (rc, c, g') \<leftarrow> feed d conn g;
     if rc < 0 then Some (-1, c, g') else feed_all ds c g' }"

lemma conn_event_feed:
  assumes "cn_buf_size conn > length (cn_buf conn)"
    "recv (cn_sock conn) (cn_buf_size conn - length (cn_buf conn)) = (k, data, sk)" "0 < k"
    "feed data (conn\<lparr>cn_busy := True, cn_sock := sk\<rparr>) g = Some (rc, c, g')"
  shows "conn_event True ev_close conn g = (if rc < 0 then close_conn c g' else finish_event ev_close c g')"
proof -
  have m: "make_room (conn\<lparr>cn_busy := True\<rparr>) g = (Room (cn_buf_size conn), g)" using assms(1) by (simp add: make_room_def)
  have "conn_event True ev_close conn g = do {
      (processed, conn3, g2) \<leftarrow> process_buffer (conn\<lparr>cn_busy := True, cn_sock := sk, cn_buf := cn_buf conn @ data\<rparr>) g;
      if processed < 0 then close_conn conn3 g2
      else finish_event ev_close (conn3\<lparr>cn_buf := consume_bytes (nat processed) (cn_buf conn3)\<rparr>) g2 }"
    using m assms(2,3) by (simp add: conn_event_def)
  with assms(4) show ?thesis by (auto simp: feed_def split: Option.bind_splits prod.splits if_splits)
qed

lemma dispatch_all_buf:
  "dispatch_all fs (c\<lparr>cn_buf := b\<rparr>) g = with_buf b (dispatch_all fs c g)"
proof (induction fs arbitrary: c g)
  case (Cons f fs)
  show ?case
  proof (cases "dispatch_frame c (fst f) (snd f) g")
    case (Some r)
    obtain rc c1 g1 where r: "r = (rc, c1, g1)" by (cases r)
    show ?thesis using Cons.IH [of "c1\<lparr>cn_buf := cn_buf c\<rparr>" g1] Some r by (simp add: dispatch_frame_buf)
  qed (simp add: dispatch_frame_buf)
qed simp

lemma dispatch_all_append:
  "dispatch_all (fs @ fs') c g = do {
     (rc, c1, g1) \<leftarrow> dispatch_all fs c g;
     if rc < 0 then Some (-1, c1, g1) else dispatch_all fs' c1 g1 }"
  by (induction fs arbitrary: c g) (auto intro!: Option.bind_cong)

lemma dispatch_all_props:
  assumes "registry_ok g" "\<forall>f \<in> set fs. valid_frame f"
  shows "\<exists>rc c' g'. dispatch_all fs c g = Some (rc, c', g') \<and> registry_ok g' \<and> (rc = 0 \<or> rc = -1) \<and>
     conn_kept c c' \<and> (tagged c \<longrightarrow> tagged c')"
  using assms
proof (induction fs arbitrary: c g)
  case (Cons f fs)
  have "body_ok (snd f) (wh_body_len (fst f))" using Cons.prems(2) by (simp add: valid_frame_def body_ok_def)
  from dispatch_frame_handled [OF Cons.prems(1) this, of c] obtain rc c1 g1 where
    d: "dispatch_frame c (fst f) (snd f) g = Some (rc, c1, g1)" "registry_ok g1" "conn_kept c c1" "rc = 0 \<or> rc = -1"
    by (auto simp: handled_def)
  have same: "c1\<lparr>cn_buf := cn_buf c\<rparr> = c1" using d(3) by (simp add: conn_kept_def)
  from Cons.IH [OF d(2), of c1] Cons.prems(2) obtain rc' c' g' where
    "dispatch_all fs c1 g1 = Some (rc', c', g')" "registry_ok g'" "rc' = 0 \<or> rc' = -1" "conn_kept c1 c'" "tagged c1 \<longrightarrow> tagged c'"
    by auto
  with d same dispatch_frame_tagged [OF _ d(1)] show ?case
    by (auto intro: conn_kept_trans)
qed simp

lemma prefix_split:
  assumes "p @ q = stream fs f k" "k < length (wire f)"
  shows "\<exists>fs1 fs' k1. fs = fs1 @ fs' \<and> p = stream fs1 (hd (fs' @ [f])) k1 \<and> k1 < length (wire (hd (fs' @ [f]))) \<and>
     drop (length (concat (map wire fs1))) p @ q = stream fs' f k"
  using assms(1)
proof (induction fs arbitrary: p)
  case Nil
  then have t: "p @ q = take k (wire f)" by (simp add: stream_def)
  then have "p = take (length p) (take k (wire f))" by (metis append_eq_conv_conj)
  moreover have "length p \<le> k" using arg_cong [OF t, of length] by simp
  ultimately show ?case using t assms(2) Nil.prems by (intro exI [of _ "[]"] exI [of _ "length p"]) (simp add: stream_def min_def)
next
  case (Cons a fs)
  have eq: "p @ q = wire a @ stream fs f k" using Cons.prems by (simp add: stream_def)
  show ?case
  proof (cases "length p < length (wire a)")
    case True
    then have "p = take (length p) (wire a)"
      using eq by (simp add: append_eq_append_conv_if)
    with True Cons.prems show ?thesis
      by (intro exI [of _ "[]"] exI [of _ "a # fs"] exI [of _ "length p"]) (simp add: stream_def)
  next
    case False
    define p' where "p' = drop (length (wire a)) p"
    have "take (length (wire a)) p = wire a \<and> p' @ q = stream fs f k"
      using eq False by (simp add: append_eq_append_conv_if p'_def split: if_splits)
    then have p': "p = wire a @ p'" "p' @ q = stream fs f k"
      using append_take_drop_id [of "length (wire a)" p] by (auto simp: p'_def)
    from Cons.IH [OF p'(2)] obtain fs1 fs' k1 where
      "fs = fs1 @ fs'" "p' = stream fs1 (hd (fs' @ [f])) k1" "k1 < length (wire (hd (fs' @ [f])))"
      "drop (length (concat (map wire fs1))) p' @ q = stream fs' f k" by blast
    then show ?thesis
      using p' by (intro exI [of _ "a # fs1"] exI [of _ fs'] exI [of _ k1]) (simp add: stream_def)
  qed
qed

lemma feed_segment:
  assumes t: "tagged conn" and ok: "registry_ok g" and v: "\<forall>x \<in> set (f # fs). valid_frame x" and k: "k < length (wire f)"
    and buf: "cn_buf conn @ d = stream fs f k"
  shows "\<exists>rc c' g'. dispatch_all fs conn g = Some (rc, c', g') \<and>
     feed d conn g = Some (rc, c'\<lparr>cn_buf := (if rc < 0 then cn_buf conn @ d else take k (wire f))\<rparr>, g')"
proof -
  let ?p = "cn_buf conn @ d"
  from process_buffer_stream [of "conn\<lparr>cn_buf := ?p\<rparr>" g f fs k] t ok v k buf obtain rc c' g' where
    pb: "dispatch_all fs (conn\<lparr>cn_buf := ?p\<rparr>) g = Some (rc, c', g')"
      "process_buffer (conn\<lparr>cn_buf := ?p\<rparr>) g = Some (if rc < 0 then -1 else int (length (concat (map wire fs))), c', g')" by auto
  from dispatch_all_props [OF ok, of fs conn] v obtain rc1 c1 g1 where
    d1: "dispatch_all fs conn g = Some (rc1, c1, g1)" "rc1 = 0 \<or> rc1 = -1" by auto
  have e: "rc1 = rc" "c' = c1\<lparr>cn_buf := ?p\<rparr>" "g1 = g'" using pb(1) d1(1) by (simp_all add: dispatch_all_buf)
  have "consume_bytes (length (concat (map wire fs))) ?p = take k (wire f)"
    unfolding buf by (simp add: consume_bytes_def stream_def)
  then show ?thesis using pb(2) d1 e by (auto simp: feed_def simp del: length_concat)
qed

lemma feed_all_stream:
  assumes "tagged conn" "registry_ok g" "\<forall>x \<in> set (f # fs). valid_frame x" "k < length (wire f)"
    "cn_buf conn @ concat ds = stream fs f k" "length (cn_buf conn) < length (wire (hd (fs @ [f])))"
  shows "\<exists>rc c' g' b. dispatch_all fs conn g = Some (rc, c', g') \<and> feed_all ds conn g = Some (rc, c'\<lparr>cn_buf := b\<rparr>, g') \<and>
     (rc = 0 \<longrightarrow> b = take k (wire f))"
  using assms(1-3,5,6)
proof (induction ds arbitrary: conn g fs)
  case Nil
  then have "fs = []" by (cases fs) (auto simp: stream_def)
  with Nil.prems show ?case by (auto simp: stream_def intro!: exI [of _ "take k (wire f)"])
next
  case (Cons d ds)
  have "(cn_buf conn @ d) @ concat ds = stream fs f k" using Cons.prems(4) by simp
  from prefix_split [OF this assms(4)] obtain fs1 fs' k1 where
    sp: "fs = fs1 @ fs'" "cn_buf conn @ d = stream fs1 (hd (fs' @ [f])) k1" "k1 < length (wire (hd (fs' @ [f])))"
      "drop (length (concat (map wire fs1))) (cn_buf conn @ d) @ concat ds = stream fs' f k" by blast
  have v1: "\<forall>x \<in> set (hd (fs' @ [f]) # fs1). valid_frame x" using Cons.prems(3) sp(1) by (cases fs') auto
  from feed_segment [OF Cons.prems(1,2) v1 sp(3,2)] obtain rc c1 g1 where
    fd: "dispatch_all fs1 conn g = Some (rc, c1, g1)"
      "feed d conn g = Some (rc, c1\<lparr>cn_buf := (if rc < 0 then cn_buf conn @ d else take k1 (wire (hd (fs' @ [f]))))\<rparr>, g1)" by blast
  from dispatch_all_props [OF Cons.prems(2), of fs1 conn] v1 fd(1) have
    p1: "registry_ok g1" "rc = 0 \<or> rc = -1" "tagged c1" using Cons.prems(1) by auto
  show ?case
  proof (cases "rc < 0")
    case True
    with fd p1(2) show ?thesis by (auto simp: sp(1) dispatch_all_append)
  next
    case False
    let ?c = "c1\<lparr>cn_buf := take k1 (wire (hd (fs' @ [f])))\<rparr>"
    have "take k1 (wire (hd (fs' @ [f]))) @ concat ds = stream fs' f k"
      using sp(4) unfolding sp(2) by (simp add: stream_def)
    then have "\<exists>rc c' g' b. dispatch_all fs' ?c g1 = Some (rc, c', g') \<and> feed_all ds ?c g1 = Some (rc, c'\<lparr>cn_buf := b\<rparr>, g') \<and>
        (rc = 0 \<longrightarrow> b = take k (wire f))"
      using p1 Cons.prems(3) sp(1,3) by (intro Cons.IH) auto
    then show ?thesis
      using fd False by (auto simp: sp(1) dispatch_all_append dispatch_all_buf with_buf_def)
  qed
qed

end
