(* ===== verification/Gw_Thms.thy ===== *)
theory Gw_Thms
  imports Gw_Segments
begin

text \<open>
  The properties of the gateway's input plugin: freedom from faults with bounded buffers, independence
  of the segmentation of the stream, the presence contract of the agent cache, and what closing a
  connection does to it.
\<close>

section \<open>Example states\<close>

text \<open>A plugin context without agents and connections, as used by the witnesses.\<close>

definition gw_idle :: xsiam_agent_ctx where
  "gw_idle = \<lparr>gx_tenant_id = None, gx_heartbeat_flush_interval = 60, gx_event_enabled = True,
     gx_fb_instance_id = asc ''fb'', gx_chunk_size = 64, gx_buffer_size = 256, gx_heartbeat_min = 10,
     gx_heartbeat_max = 20, gx_gateway_seq = 0, gx_session_seq = 0, gx_agents = [], gx_connections = [],
     gx_encoder = [], gx_encoder_ok = [], gx_appended = [], gx_events = [], gx_event_up = [],
     gx_rand_r = [], gx_clock = [], gx_last_ms = 5000, gx_heap = []\<rparr>"

definition idle_sock :: "bytes \<Rightarrow> sock" where
  "idle_sock bs = \<lparr>sk_out = [], sk_wr = [], sk_in = bs, sk_rd = []\<rparr>"

definition session :: "nat \<Rightarrow> bytes option \<Rightarrow> xsiam_agent_conn" where
  "session cid key = \<lparr>cn_id = cid, cn_sock = idle_sock [], cn_buf = [], cn_buf_size = 64, cn_busy = False,
     cn_pending_close = False, cn_next_heartbeat = 0, cn_agent_key = key,
     cn_protocol_tag = Some SESSION_PROTO_AGENT_WZCP, cn_client_group = Some SESSION_GROUP_AGENT,
     cn_session_id = asc ''session-1''\<rparr>"

lemma gw_idle_ok: "gw_ok gw_idle" "registry_ok gw_idle"
  by (simp_all add: gw_ok_def registry_ok_def gw_idle_def roomy_def)

section \<open>Safety\<close>



section \<open>Streams\<close>

text \<open>
  (C3) The gateway's reaction to a session does not depend on how TCP cuts the stream: feeding a
  stream of valid frames followed by the beginning of another, in segments of any sizes, has the
  effect of handling the frames one by one in order; unless a handler closed the connection, exactly
  the incomplete frame is left in the buffer.
\<close>

theorem stream_segmentation:
  assumes "tagged conn" "cn_buf conn = []" "registry_ok g" "\<forall>x \<in> set (f # fs). valid_frame x"
    and "k < length (wire f)" "concat ds = concat (map wire fs) @ take k (wire f)"
  shows "\<exists>rc c' g' b. dispatch_all fs conn g = Some (rc, c', g') \<and> feed_all ds conn g = Some (rc, c'\<lparr>cn_buf := b\<rparr>, g') \<and>
     (rc = 0 \<longrightarrow> b = take k (wire f))"
  using feed_all_stream [OF assms(1,3-5), of ds] assms(2,6) by (simp add: stream_def)

definition beat_frame :: "wzcp_header \<times> bytes" where
  "beat_frame = (sent_header MSG_HEARTBEAT 0 5 0 0, [])"

lemma beat_frame_valid: "valid_frame beat_frame"
  by (simp add: valid_frame_def beat_frame_def header_ok_def sent_header_def WZCP_MAX_FRAME_def)

theorem stream_segmentation_witness:
  "\<exists>rc c' g' b. dispatch_all [beat_frame] (session 1 None) gw_idle = Some (rc, c', g') \<and>
     feed_all [take 5 (wire beat_frame), drop 5 (wire beat_frame) @ take 3 (wire beat_frame)] (session 1 None) gw_idle =
       Some (rc, c'\<lparr>cn_buf := b\<rparr>, g') \<and> (rc = 0 \<longrightarrow> b = take 3 (wire beat_frame))"
  using stream_segmentation [of "session 1 None" gw_idle beat_frame "[beat_frame]" 3
      "[take 5 (wire beat_frame), drop 5 (wire beat_frame) @ take 3 (wire beat_frame)]"]
    beat_frame_valid gw_idle_ok(2) by (simp add: session_def tagged_def)

section \<open>Presence\<close>

text \<open>A lifecycle event carried out by the agent cache; a HELLO comes with its data and connection.\<close>

fun registry_event ::
  "bytes option \<Rightarrow> bytes option \<Rightarrow> bytes option \<Rightarrow> bytes option \<Rightarrow> xsiam_agent_conn \<Rightarrow> lifecycle \<Rightarrow> xsiam_agent_ctx \<Rightarrow> xsiam_agent_ctx option" where
  "registry_event name version host_type macs conn (Seen a) g =
     map_option snd (agent_state_mark_seen a name version host_type macs conn g)"
| "registry_event name version host_type macs conn (Beat a) g = agent_state_mark_heartbeat a g"
| "registry_event name version host_type macs conn (Gone a) g = agent_state_mark_disconnected a g"

fun registry_run ::
  "bytes option \<Rightarrow> bytes option \<Rightarrow> bytes option \<Rightarrow> bytes option \<Rightarrow> xsiam_agent_conn \<Rightarrow> lifecycle list \<Rightarrow> xsiam_agent_ctx \<Rightarrow> xsiam_agent_ctx option" where
  "registry_run name version host_type macs conn [] g = Some g"
| "registry_run name version host_type macs conn (e # es) g =
     Option.bind (registry_event name version host_type macs conn e g) (registry_run name version host_type macs conn es)"

lemma registry_run_lifecycle:
  "registry_run name version host_type macs conn es g = reg.run_lifecycle name version host_type macs conn es g"
proof (induction es arbitrary: g)
  case (Cons e es)
  have "registry_event name version host_type macs conn e g = reg.apply_lifecycle name version host_type macs conn e g"
    by (cases e) simp_all
  with Cons.IH show ?case by (cases "reg.apply_lifecycle name version host_type macs conn e g") simp_all
qed simp

text \<open>
  (C6) The agent cache implements the presence map: a HELLO with an id makes the agent known and
  connected, a heartbeat changes nobody's presence, a disconnect marks a known agent as disconnected
  and forgets nobody. Any sequence of these operations is carried out without fault with exactly the
  effect of the specification.
\<close>

theorem agent_cache_refines_presence:
  assumes "registry_ok g"
  shows "\<exists>g'. registry_run name version host_type macs conn es g = Some g' \<and> registry_ok g' \<and>
     connected g' = fold presence_spec es (connected g)"
  unfolding registry_run_lifecycle using assms by (rule reg.run_refines)

theorem agent_cache_refines_presence_witness:
  "\<exists>g'. registry_run None None None None (session 1 None) [Seen [65], Beat [65], Seen [66], Gone [65]] gw_idle = Some g' \<and>
     registry_ok g' \<and> connected g' = [[65] \<mapsto> False, [66] \<mapsto> True]"
proof -
  have "connected gw_idle = Map.empty" by (simp add: connected_def registry_def gw_idle_def fun_eq_iff)
  then have "fold presence_spec [Seen [65], Beat [65], Seen [66], Gone [65]] (connected gw_idle) = [[65] \<mapsto> False, [66] \<mapsto> True]"
    by (simp add: fun_eq_iff)
  with agent_cache_refines_presence [OF gw_idle_ok(2), of None None None None "session 1 None" "[Seen [65], Beat [65], Seen [66], Gone [65]]"]
  show ?thesis by simp
qed

text \<open>
  (C36) Closing a connection marks its agent as disconnected even when another connection of the same
  agent is open: an agent that reconnects before the gateway notices the end of its old connection is
  recorded as offline while it is connected.
\<close>

theorem stale_close_marks_offline:
  assumes "registry_ok g" "c1 \<in> set (gx_connections g)" "c2 \<in> set (gx_connections g)" "cn_id c1 \<noteq> cn_id c2"
    and "cn_agent_key c1 = Some a" "cn_agent_key c2 = Some a" "connected g a = Some True"
  shows "\<exists>g'. close_conn c1 g = Some (-1, g') \<and> c2 \<in> set (gx_connections g') \<and> connected g' a = Some False"
proof -
  from mark_disconnected_drops [OF assms(1), of a] obtain g1 where
    g1: "agent_state_mark_disconnected a g = Some g1" "connected g1 = presence_spec (Gone a) (connected g)" "conns_kept g g1"
    by blast
  have "connected (g1\<lparr>gx_connections := cs\<rparr>) = connected g1" for cs
    by (simp add: connected_def registry_def fun_eq_iff)
  then show ?thesis using assms g1 by (auto simp: close_conn_def conn_del_def conns_kept_def)
qed

definition twice_connected :: xsiam_agent_ctx where
  "twice_connected = (the (registry_event None None None None (session 1 None) (Seen [65]) gw_idle))
     \<lparr>gx_connections := [session 1 (Some [65]), session 2 (Some [65])]\<rparr>"

lemma twice_connected_ok: "registry_ok twice_connected" "connected twice_connected [65] = Some True"
proof -
  from mark_seen_registers [OF gw_idle_ok(2), of "[65]" None None None None "session 1 None"] obtain c g' st where
    m: "agent_state_mark_seen [65] None None None None (session 1 None) gw_idle = Some (c, g')" "registry_ok g'"
      "registry g' = (registry gw_idle)([65] \<mapsto> st)" "seen_entry [65] None None None None st" by blast
  have e: "twice_connected = g'\<lparr>gx_connections := [session 1 (Some [65]), session 2 (Some [65])]\<rparr>"
    using m(1) by (simp add: twice_connected_def)
  show "registry_ok twice_connected" using m(2) by (simp add: e registry_ok_encoder)
  have "registry twice_connected = registry g'" by (simp add: e registry_def fun_eq_iff)
  then show "connected twice_connected [65] = Some True" using m(3,4) by (simp add: connected_def seen_entry_def)
qed

theorem stale_close_marks_offline_witness:
  "\<exists>g'. close_conn (session 1 (Some [65])) twice_connected = Some (-1, g') \<and>
     session 2 (Some [65]) \<in> set (gx_connections g') \<and> connected g' [65] = Some False"
  by (rule stale_close_marks_offline [OF twice_connected_ok(1) _ _ _ _ _ twice_connected_ok(2)])
    (simp_all add: twice_connected_def session_def)

end
