(* ===== verification/Out_Log.thy ===== *)
theory Out_Log
  imports Ingest Text
begin

text \<open>
  The gateway's output plugin, \<^verbatim>\<open>gateway/plugins/out_xsiam_log/out_xsiam_log.c\<close>: every chunk of log
  events becomes rows of a TSV buffer, which are compressed and posted to the ingest endpoint as
  XLOG frames of at most \<open>max_batch_rows\<close> rows.

  The event decoder of the engine delivers a list of events whose bodies are msgpack objects; of these
  the plugin distinguishes maps, strings and non-negative integers. The zstd library is the parameter
  \<open>zstd\<close> (level and data; \<open>None\<close> is an error), the clock and the outcomes of the HTTP exchange are
  scripts of the environment \<open>out_env\<close>, which also records what was posted.
\<close>

section \<open>Context and environment\<close>

datatype flb_status = FLB_OK | FLB_RETRY | FLB_ERROR

datatype post_outcome = No_Connection | No_Client | Response int int

record xsiam_log_ctx =
  lx_ingest_token :: "bytes option"
  lx_compress_level :: int
  lx_max_batch_rows :: int
  lx_host :: bytes
  lx_port :: int

record out_env =
  oe_heap :: heap
  oe_clock :: "(int \<times> int) list"
  oe_posts :: "post_outcome list"
  oe_posted :: "(bytes \<times> bytes option) list"

definition out_alloc :: "out_env \<Rightarrow> bool \<times> out_env" where
  "out_alloc e = (let (ok, h) = alloc (oe_heap e) in (ok, e\<lparr>oe_heap := h\<rparr>))"

definition out_clock :: "out_env \<Rightarrow> (int \<times> int) \<times> out_env" where
  "out_clock e = (case oe_clock e of [] \<Rightarrow> ((0, 0), e) | t # ts \<Rightarrow> (t, e\<lparr>oe_clock := ts\<rparr>))"

section \<open>Dynamic buffer\<close>

record dbuf =
  db_d :: bytes
  db_len :: nat
  db_cap :: nat

definition dbuf_init :: "nat \<Rightarrow> heap \<Rightarrow> dbuf option \<times> heap" where
  "dbuf_init init h =
     (let n = (if init \<noteq> 0 then init else 4096); (ok, h') = alloc h
      in (if ok then Some \<lparr>db_d = replicate n 0, db_len = 0, db_cap = n\<rparr> else None, h'))"

definition dbuf_grow :: "dbuf \<Rightarrow> nat \<Rightarrow> heap \<Rightarrow> (int \<times> dbuf \<times> heap) option" where
  "dbuf_grow b need h =
     (if db_len b + need \<le> db_cap b then Some (0, b, h)
      else do {
        nc \<leftarrow> grow_cap (db_cap b * 2) (db_len b + need);
        let (ok, h') = alloc h;
        Some (if ok then (0, b\<lparr>db_d := db_d b @ replicate (nc - db_cap b) 0, db_cap := nc\<rparr>, h')
              else (-1, b, h')) })"

definition dbuf_append :: "dbuf \<Rightarrow> bytes \<Rightarrow> heap \<Rightarrow> (int \<times> dbuf \<times> heap) option" where
  "dbuf_append b src h = do {
     (rc, b1, h1) \<leftarrow> dbuf_grow b (length src) h;
     if rc \<noteq> 0 then Some (-1, b1, h1)
     else do {
       d \<leftarrow> poke (db_d b1) (db_len b1) src;
       Some (0, b1\<lparr>db_d := d, db_len := db_len b1 + length src\<rparr>, h1) } }"

definition dbuf_free :: "dbuf \<Rightarrow> dbuf" where
  "dbuf_free b = \<lparr>db_d = [], db_len = 0, db_cap = 0\<rparr>"

definition dbuf_bytes :: "dbuf \<Rightarrow> bytes" where
  "dbuf_bytes b = take (db_len b) (db_d b)"

text \<open>\<open>tlv_append\<close> of this file.\<close>

definition dbuf_tlv :: "dbuf \<Rightarrow> byte \<Rightarrow> bytes \<Rightarrow> u16 \<Rightarrow> heap \<Rightarrow> (int \<times> dbuf \<times> heap) option" where
  "dbuf_tlv body tag val vlen h = do {
     (rc, b1, h1) \<leftarrow> dbuf_append body (tag # put_be16 vlen) h;
     if rc \<noteq> 0 then Some (-1, b1, h1)
     else if vlen \<noteq> 0 then do {
       v \<leftarrow> peek val 0 (unat vlen);
       (rc2, b2, h2) \<leftarrow> dbuf_append b1 v h1;
       Some (if rc2 \<noteq> 0 then -1 else 0, b2, h2) }
     else Some (0, b1, h1) }"

section \<open>One XLOG frame\<close>

definition XLOG_COLUMNS_CSV :: bytes where
  "XLOG_COLUMNS_CSV = asc ''agent_id,_time,event_id,kind,tag,log''"

text \<open>The TLV body; the results of the appends are not looked at.\<close>

definition out_body ::
  "nat \<Rightarrow> u32 \<Rightarrow> bytes \<Rightarrow> dbuf \<Rightarrow> heap \<Rightarrow> (dbuf \<times> heap) option" where
  "out_body tsv_len row_count cmp body h = do {
     (_, b1, h1) \<leftarrow> dbuf_tlv body XLOG_TAG_SCHEMA_VERSION (put_be16 1) 2 h;
     (_, b2, h2) \<leftarrow> dbuf_tlv b1 XLOG_TAG_ROW_COUNT (put_be32 row_count) 4 h1;
     (_, b3, h3) \<leftarrow> dbuf_tlv b2 XLOG_TAG_ORIG_SIZE (put_be32 (of_nat tsv_len)) 4 h2;
     (_, b4, h4) \<leftarrow> dbuf_tlv b3 XLOG_TAG_COLUMNS XLOG_COLUMNS_CSV (of_nat (length XLOG_COLUMNS_CSV)) h3;
     if length cmp \<le> 0xFFFF then do {
       (_, b5, h5) \<leftarrow> dbuf_tlv b4 XLOG_TAG_DATA cmp (of_nat (length cmp)) h4;
       Some (b5, h5) }
     else do {
       (_, b5, h5) \<leftarrow> dbuf_append b4 (XLOG_TAG_DATA # put_be16 (of_nat (length cmp)) @ put_be32 (of_nat (length cmp))) h4;
       (_, b6, h6) \<leftarrow> dbuf_append b5 cmp h5;
       Some (b6, h6) } }"

text \<open>The frame header as the plugin lays it out, followed by the body.\<close>

definition out_frame :: "bytes \<Rightarrow> u64 \<Rightarrow> u64 \<Rightarrow> u64 \<Rightarrow> bytes \<Rightarrow> bytes" where
  "out_frame tag agent_id seq ts_ms body =
     (let tlen = (if length tag > 255 then 255 else length tag)
      in put_be32 XLOG_MAGIC @ [XLOG_VERSION] @ [XLOG_TYPE_LOG_BATCH] @ [0] @ [of_nat tlen] @
         take tlen tag @ put_be64 agent_id @ put_be64 seq @ put_be64 ts_ms @
         put_be32 (of_nat (length body)) @ body)"

text \<open>The Authorization header: \<open>snprintf\<close> into 512 bytes.\<close>

definition auth_header :: "xsiam_log_ctx \<Rightarrow> bytes option" where
  "auth_header ctx =
     (case lx_ingest_token ctx of
        Some (c # cs) \<Rightarrow> Some (take 511 (asc ''Bearer '' @ c # cs))
      | _ \<Rightarrow> None)"

text \<open>The HTTP exchange: the frame counts as posted when the request was made.\<close>

definition http_post :: "xsiam_log_ctx \<Rightarrow> bytes \<Rightarrow> out_env \<Rightarrow> flb_status \<times> out_env" where
  "http_post ctx frame e =
     (let (oc, e1) = (case oe_posts e of [] \<Rightarrow> (Response 0 204, e) | r # rs \<Rightarrow> (r, e\<lparr>oe_posts := rs\<rparr>))
      in case oc of
        No_Connection \<Rightarrow> (FLB_RETRY, e1)
      | No_Client \<Rightarrow> (FLB_RETRY, e1)
      | Response ret status \<Rightarrow>
          (if ret \<noteq> 0 \<or> status \<noteq> 204 then FLB_RETRY else FLB_OK,
           e1\<lparr>oe_posted := oe_posted e1 @ [(frame, auth_header ctx)]\<rparr>))"

definition send_xlog_frame ::
  "(int \<Rightarrow> bytes \<Rightarrow> bytes option) \<Rightarrow> xsiam_log_ctx \<Rightarrow> u64 \<Rightarrow> bytes option \<Rightarrow> dbuf \<Rightarrow> u32 \<Rightarrow> out_env
   \<Rightarrow> (flb_status \<times> out_env) option" where
  "send_xlog_frame zstd ctx agent_id tag_label tsv row_count e =
     (if db_len tsv = 0 then Some (FLB_OK, e)
      else let (ok, e1) = out_alloc e in
      if \<not> ok then Some (FLB_RETRY, e1)
      else case zstd (lx_compress_level ctx) (dbuf_bytes tsv) of
        None \<Rightarrow> Some (FLB_ERROR, e1)
      | Some cmp \<Rightarrow>
          (case dbuf_init (length cmp + 128) (oe_heap e1) of
             (None, h) \<Rightarrow> Some (FLB_RETRY, e1\<lparr>oe_heap := h\<rparr>)
           | (Some body0, h) \<Rightarrow> do {
               (body, h') \<leftarrow> out_body (db_len tsv) row_count cmp body0 h;
               let (ok2, e2) = out_alloc (e1\<lparr>oe_heap := h'\<rparr>);
               if \<not> ok2 then Some (FLB_RETRY, e2)
               else
                 let tag = (case tag_label of Some t \<Rightarrow> t | None \<Rightarrow> asc ''agent_log'');
                     (t1, e3) = out_clock e2;
                     (t2, e4) = out_clock e3;
                     frame = out_frame tag agent_id (of_int (fst t1)) (xlog_ts_ms t2) (dbuf_bytes body)
                 in Some (http_post ctx frame e4) }))"

section \<open>Rows\<close>

datatype mp_object = MP_uint u64 | MP_str bytes | MP_other

record log_event =
  ev_sec :: nat
  ev_body :: "(mp_object \<times> mp_object) list option"

record row_fields =
  rf_agent_id :: u64
  rf_event_id :: u64
  rf_kind :: byte
  rf_log :: bytes

definition no_fields :: row_fields where
  "no_fields = \<lparr>rf_agent_id = 0, rf_event_id = 0, rf_kind = 0, rf_log = []\<rparr>"

text \<open>One pair of the body map; \<open>cur_tag\<close> is a \<open>char[128]\<close>.\<close>

definition take_field :: "mp_object \<times> mp_object \<Rightarrow> row_fields \<times> bytes \<Rightarrow> row_fields \<times> bytes" where
  "take_field kv s =
     (let (f, cur_tag) = s in
      case kv of
        (MP_str k, v) \<Rightarrow>
          if k = asc ''agent_id'' then
            (case v of MP_uint n \<Rightarrow> f\<lparr>rf_agent_id := n\<rparr> | _ \<Rightarrow> f, cur_tag)
          else if k = asc ''event_id'' then
            (case v of MP_uint n \<Rightarrow> f\<lparr>rf_event_id := n\<rparr> | _ \<Rightarrow> f, cur_tag)
          else if k = asc ''kind'' then
            (case v of MP_uint n \<Rightarrow> f\<lparr>rf_kind := ucast n\<rparr> | _ \<Rightarrow> f, cur_tag)
          else if k = asc ''log'' then
            (case v of MP_str l \<Rightarrow> f\<lparr>rf_log := l\<rparr> | _ \<Rightarrow> f, cur_tag)
          else if k = asc ''session_protocol'' then
            (f, case v of MP_str t \<Rightarrow> cstr_of (take 127 t) | _ \<Rightarrow> cur_tag)
          else s
      | _ \<Rightarrow> s)"

definition event_fields :: "log_event \<Rightarrow> bytes \<Rightarrow> row_fields \<times> bytes" where
  "event_fields ev cur_tag =
     fold take_field (case ev_body ev of Some kvs \<Rightarrow> kvs | None \<Rightarrow> []) (no_fields, cur_tag)"

text \<open>What \<open>snprintf\<close> produces for the columns before the log text.\<close>

definition row_prefix :: "nat \<Rightarrow> row_fields \<Rightarrow> bytes \<Rightarrow> bytes" where
  "row_prefix sec f tag =
     dec (unat (rf_agent_id f)) @ [9] @ rfc3339 sec @ [9] @ dec (unat (rf_event_id f)) @ [9] @
     dec (unat (rf_kind f)) @ [9] @ tag @ [9]"

text \<open>The number of bytes taken from \<open>row\<close>; \<open>sizeof(row) - log_len - 2\<close> is computed in \<open>size_t\<close>.\<close>

definition row_len :: "nat \<Rightarrow> nat \<Rightarrow> nat" where
  "row_len rlen log_len =
     (let lim = 4096 - of_nat log_len - 2 :: u64
      in if unat lim \<le> rlen then unat lim else rlen)"

text \<open>The three appends of a row; their results are not looked at.\<close>

definition append_event_row :: "nat \<Rightarrow> row_fields \<Rightarrow> bytes \<Rightarrow> dbuf \<Rightarrow> heap \<Rightarrow> (dbuf \<times> heap) option" where
  "append_event_row sec f tag tsv h = do {
     let prefix = row_prefix sec f tag;
     row \<leftarrow> peek (take 4095 prefix) 0 (row_len (length prefix) (length (rf_log f)));
     (_, t1, h1) \<leftarrow> dbuf_append tsv row h;
     (_, t2, h2) \<leftarrow> (if 0 < length (rf_log f) then dbuf_append t1 (rf_log f) h1 else Some (0, t1, h1));
     (_, t3, h3) \<leftarrow> dbuf_append t2 [10] h2;
     Some (t3, h3) }"

section \<open>The flush callback\<close>

fun flush_loop ::
  "(int \<Rightarrow> bytes \<Rightarrow> bytes option) \<Rightarrow> xsiam_log_ctx \<Rightarrow> int \<Rightarrow> log_event list
   \<Rightarrow> dbuf \<Rightarrow> u32 \<Rightarrow> u64 \<Rightarrow> bytes \<Rightarrow> out_env \<Rightarrow> (flb_status \<times> out_env) option" where
  "flush_loop zstd ctx max_rows [] tsv row_count cur_agent_id cur_tag e =
     (if 0 < row_count then send_xlog_frame zstd ctx cur_agent_id (Some cur_tag) tsv row_count e
      else Some (FLB_OK, e))"
| "flush_loop zstd ctx max_rows (ev # evs) tsv row_count cur_agent_id cur_tag e =
     (let (f, tag) = event_fields ev cur_tag in do {
        (tsv1, h) \<leftarrow> append_event_row (ev_sec ev) f tag tsv (oe_heap e);
        let e1 = e\<lparr>oe_heap := h\<rparr>;
        let rows = row_count + 1;
        if max_rows \<le> sint rows then do {
          (sr, e2) \<leftarrow> send_xlog_frame zstd ctx (rf_agent_id f) (Some tag) tsv1 rows e1;
          if sr \<noteq> FLB_OK then Some (sr, e2)
          else flush_loop zstd ctx max_rows evs (tsv1\<lparr>db_len := 0\<rparr>) 0 (rf_agent_id f) tag e2 }
        else flush_loop zstd ctx max_rows evs tsv1 rows (rf_agent_id f) tag e1 })"

definition cb_flush ::
  "(int \<Rightarrow> bytes \<Rightarrow> bytes option) \<Rightarrow> xsiam_log_ctx \<Rightarrow> log_event list option \<Rightarrow> out_env
   \<Rightarrow> (flb_status \<times> out_env) option" where
  "cb_flush zstd ctx chunk e =
     (case chunk of
        None \<Rightarrow> Some (FLB_ERROR, e)
      | Some evs \<Rightarrow>
          (case dbuf_init 65536 (oe_heap e) of
             (None, h) \<Rightarrow> Some (FLB_RETRY, e\<lparr>oe_heap := h\<rparr>)
           | (Some tsv, h) \<Rightarrow>
               flush_loop zstd ctx (if 0 < lx_max_batch_rows ctx then lx_max_batch_rows ctx else 8192)
                 evs tsv 0 0 (asc ''agent_log'') (e\<lparr>oe_heap := h\<rparr>)))"

section \<open>Configuration\<close>

text \<open>The host and port of \<open>Ingest_URL\<close>; \<open>host\<close> is a \<open>char[256]\<close>.\<close>

definition strip_scheme :: "bytes \<Rightarrow> bytes" where
  "strip_scheme url =
     (if take 7 url = asc ''http://'' then drop 7 url
      else if take 8 url = asc ''https://'' then drop 8 url
      else url)"

definition parse_ingest_url :: "bytes \<Rightarrow> bytes \<times> int" where
  "parse_ingest_url url =
     (let s = strip_scheme url;
          h = takeWhile (\<lambda>c. c \<noteq> 58) s;
          port = (if 58 \<in> set s then sint (atoi (drop (length h + 1) s)) else 18090)
      in (takeWhile (\<lambda>c. c \<noteq> 47) (take 255 h), port))"

definition out_cb_init ::
  "bytes option \<Rightarrow> bytes option \<Rightarrow> int \<Rightarrow> int \<Rightarrow> bool \<Rightarrow> bool \<Rightarrow> heap \<Rightarrow> (int \<times> xsiam_log_ctx option) \<times> heap" where
  "out_cb_init ingest_url ingest_token compress_level max_batch_rows config_ok upstream_ok h =
     (let (ok, h') = alloc h in
      if \<not> ok \<or> \<not> config_ok then ((-1, None), h')
      else
        let (host, port) = parse_ingest_url (case ingest_url of Some u \<Rightarrow> u | None \<Rightarrow> asc ''http://127.0.0.1:18090'')
        in if \<not> upstream_ok then ((-1, None), h')
           else ((0, Some \<lparr>lx_ingest_token = ingest_token, lx_compress_level = compress_level,
                           lx_max_batch_rows = max_batch_rows, lx_host = host, lx_port = port\<rparr>), h'))"

end
