(* ===== verification/Out_Log_Lemmas.thy ===== *)
theory Out_Log_Lemmas
  imports Out_Log
begin

text \<open>
  The output plugin's buffer is the buffer of the XLOG library under another name, hence a byte sink;
  the frame body never has to grow, so that ignoring the results of the appends is harmless; rows
  and frames in closed form.
\<close>

section \<open>The buffer\<close>

definition as_xlog :: "dbuf \<Rightarrow> xlog_buf" where
  "as_xlog b = \<lparr>buf_data = db_d b, buf_len = db_len b, buf_cap = db_cap b\<rparr>"

definition dbuf_inv :: "dbuf \<Rightarrow> bool" where
  "dbuf_inv b \<longleftrightarrow> length (db_d b) = db_cap b \<and> db_len b \<le> db_cap b \<and> 0 < db_cap b"

lemma as_xlog_simps:
  "buf_inv (as_xlog b) = dbuf_inv b" "buf_bytes (as_xlog b) = dbuf_bytes b"
  by (simp_all add: as_xlog_def buf_inv_def dbuf_inv_def buf_bytes_def dbuf_bytes_def)

lemma dbuf_append_as_xlog:
  "buf_append (as_xlog b) s h = map_option (\<lambda>(rc, b', h'). (rc, as_xlog b', h')) (dbuf_append b s h)"
proof -
  have g: "buf_grow (as_xlog b) n h = map_option (\<lambda>(rc, b', h'). (rc, as_xlog b', h')) (dbuf_grow b n h)" for n
    by (cases "grow_cap (db_cap b * 2) (db_len b + n)")
      (auto simp: buf_grow_def dbuf_grow_def as_xlog_def split: prod.splits)
  show ?thesis
  proof (cases "dbuf_grow b (length s) h")
    case (Some r)
    obtain rc b1 h1 where r: "r = (rc, b1, h1)" by (cases r)
    have rc: "rc = 0 \<or> rc = -1"
      using Some r by (auto simp: dbuf_grow_def split: if_splits Option.bind_splits prod.splits)
    have gl: "buf_grow (as_xlog b) (length s) h = Some (rc, as_xlog b1, h1)" using Some r by (simp add: g)
    have sel: "buf_data (as_xlog b1) = db_d b1" "buf_len (as_xlog b1) = db_len b1"
        "as_xlog b1\<lparr>buf_data := d, buf_len := l\<rparr> = as_xlog (b1\<lparr>db_d := d, db_len := l\<rparr>)" for d l
      by (simp_all add: as_xlog_def)
    show ?thesis
      using Some r rc by (cases "poke (db_d b1) (db_len b1) s")
        (auto simp: buf_append_def dbuf_append_def gl sel)
  qed (simp add: buf_append_def dbuf_append_def g then_ok_def)
qed

interpretation dsink: byte_sink dbuf_inv dbuf_bytes dbuf_append "-1"
proof unfold_locales
  fix b src h assume "dbuf_inv b"
  then have "buf_inv (as_xlog b)" by (simp add: as_xlog_simps)
  from buf_append_spec [OF this, of src h] show "\<exists>b' h'. dbuf_inv b' \<and>
     (dbuf_append b src h = Some (0, b', h') \<and> dbuf_bytes b' = dbuf_bytes b @ src \<and> (roomy h \<longrightarrow> roomy h') \<or>
      dbuf_append b src h = Some (-1, b', h') \<and> dbuf_bytes b' = dbuf_bytes b \<and> \<not> roomy h)"
    by (auto simp: dbuf_append_as_xlog as_xlog_simps simp flip: as_xlog_simps)
qed simp

lemma dbuf_init_inv: "dbuf_init n h = (Some b, h') \<Longrightarrow> dbuf_inv b \<and> dbuf_bytes b = [] \<and> n \<le> db_cap b \<and> db_len b = 0"
  by (auto simp: dbuf_init_def dbuf_inv_def dbuf_bytes_def split: if_splits prod.splits)

lemma dbuf_init_roomy: "roomy h \<Longrightarrow> dbuf_init n h = (ob, h') \<Longrightarrow> ob \<noteq> None \<and> roomy h'"
  by (cases "alloc h") (auto simp: dbuf_init_def Let_def dest: roomy_alloc)

lemma length_dbuf_bytes: "dbuf_inv b \<Longrightarrow> length (dbuf_bytes b) = db_len b"
  by (simp add: dbuf_inv_def dbuf_bytes_def)

text \<open>An append within the capacity needs no memory.\<close>

lemma dbuf_append_fits:
  assumes "dbuf_inv b" "db_len b + length s \<le> db_cap b"
  shows "\<exists>b'. dbuf_append b s h = Some (0, b', h) \<and> dbuf_inv b' \<and> dbuf_bytes b' = dbuf_bytes b @ s \<and>
     db_cap b' = db_cap b \<and> db_len b' = db_len b + length s"
proof -
  obtain d where d: "poke (db_d b) (db_len b) s = Some d"
    using assms by (auto simp: dbuf_inv_def mem_simps)
  with assms length_poke [OF d] take_poke [OF d] show ?thesis
    by (auto simp: dbuf_append_def dbuf_grow_def dbuf_inv_def dbuf_bytes_def)
qed

lemma dbuf_tlv_fits:
  assumes b: "dbuf_inv b" and l: "length v < 2 ^ 16" and c: "db_len b + 3 + length v \<le> db_cap b"
  shows "\<exists>b'. dbuf_tlv b tag v (of_nat (length v)) h = Some (0, b', h) \<and> dbuf_inv b' \<and>
     dbuf_bytes b' = dbuf_bytes b @ tlv tag v \<and> db_cap b' = db_cap b \<and> db_len b' = db_len b + 3 + length v"
proof -
  let ?n = "of_nat (length v) :: u16"
  have u: "unat ?n = length v" using l by (simp add: unat_of_nat_small)
  from dbuf_append_fits [OF b, of "tag # put_be16 ?n" h] c obtain b1 where
    b1: "dbuf_append b (tag # put_be16 ?n) h = Some (0, b1, h)" "dbuf_inv b1" "dbuf_bytes b1 = dbuf_bytes b @ tag # put_be16 ?n"
      "db_cap b1 = db_cap b" "db_len b1 = db_len b + 3" by auto
  from dbuf_append_fits [OF b1(2), of v h] b1 c obtain b2 where
    b2: "dbuf_append b1 v h = Some (0, b2, h)" "dbuf_inv b2" "dbuf_bytes b2 = dbuf_bytes b1 @ v"
      "db_cap b2 = db_cap b1" "db_len b2 = db_len b1 + length v" by auto
  show ?thesis
  proof (cases "?n = 0")
    case True
    then have "v = []" using u by simp
    with b1 show ?thesis by (auto simp: dbuf_tlv_def tlv_def)
  next
    case False
    then show ?thesis using b1 b2 u by (auto simp: dbuf_tlv_def tlv_def mem_simps)
  qed
qed

section \<open>The frame\<close>

text \<open>
  The body buffer is allocated with 128 bytes beyond the payload, more than the other fields need:
  no append of \<open>send_xlog_frame\<close> can fail.
\<close>

lemma length_columns_csv [simp]: "length XLOG_COLUMNS_CSV = 36"
  by (simp add: XLOG_COLUMNS_CSV_def)

lemma out_body_spec:
  assumes b: "dbuf_inv b0" "dbuf_bytes b0 = []" "db_len b0 = 0" and c: "length cmp + 128 \<le> db_cap b0"
  shows "\<exists>b. out_body n rows cmp b0 h = Some (b, h) \<and> dbuf_inv b \<and>
     dbuf_bytes b = body_spec (unat rows) n (Some XLOG_COLUMNS_CSV) cmp"
proof -
  let ?t = "\<lambda>b tag v. dbuf_tlv b tag v (of_nat (length v)) h"
  from dbuf_tlv_fits [OF b(1), of "put_be16 1" XLOG_TAG_SCHEMA_VERSION h] b c obtain b1 where
    b1: "?t b0 XLOG_TAG_SCHEMA_VERSION (put_be16 1) = Some (0, b1, h)" "dbuf_inv b1"
      "dbuf_bytes b1 = tlv XLOG_TAG_SCHEMA_VERSION (put_be16 1)" "db_cap b1 = db_cap b0" "db_len b1 = 5" by auto
  from dbuf_tlv_fits [OF b1(2), of "put_be32 rows" XLOG_TAG_ROW_COUNT h] b1 c obtain b2 where
    b2: "?t b1 XLOG_TAG_ROW_COUNT (put_be32 rows) = Some (0, b2, h)" "dbuf_inv b2"
      "dbuf_bytes b2 = dbuf_bytes b1 @ tlv XLOG_TAG_ROW_COUNT (put_be32 rows)" "db_cap b2 = db_cap b0" "db_len b2 = 12" by auto
  from dbuf_tlv_fits [OF b2(2), of "put_be32 (of_nat n)" XLOG_TAG_ORIG_SIZE h] b2 c obtain b3 where
    b3: "?t b2 XLOG_TAG_ORIG_SIZE (put_be32 (of_nat n)) = Some (0, b3, h)" "dbuf_inv b3"
      "dbuf_bytes b3 = dbuf_bytes b2 @ tlv XLOG_TAG_ORIG_SIZE (put_be32 (of_nat n))" "db_cap b3 = db_cap b0" "db_len b3 = 19" by auto
  from dbuf_tlv_fits [OF b3(2), of XLOG_COLUMNS_CSV XLOG_TAG_COLUMNS h] b3 c obtain b4 where
    b4: "?t b3 XLOG_TAG_COLUMNS XLOG_COLUMNS_CSV = Some (0, b4, h)" "dbuf_inv b4"
      "dbuf_bytes b4 = dbuf_bytes b3 @ tlv XLOG_TAG_COLUMNS XLOG_COLUMNS_CSV" "db_cap b4 = db_cap b0" "db_len b4 = 58" by auto
  have cols: "columns_field (Some XLOG_COLUMNS_CSV) = tlv XLOG_TAG_COLUMNS XLOG_COLUMNS_CSV"
    by (simp add: columns_field_def XLOG_COLUMNS_CSV_def)
  have first: "out_body n rows cmp b0 h =
      (if length cmp \<le> 0xFFFF then do { (_, b5, h5) \<leftarrow> ?t b4 XLOG_TAG_DATA cmp; Some (b5, h5) }
       else do {
         (_, b5, h5) \<leftarrow> dbuf_append b4 (XLOG_TAG_DATA # put_be16 (of_nat (length cmp)) @ put_be32 (of_nat (length cmp))) h;
         (_, b6, h6) \<leftarrow> dbuf_append b5 cmp h5;
         Some (b6, h6) })"
    using b1(1) b2(1) b3(1) b4(1) by (simp add: out_body_def)
  show ?thesis
  proof (cases "length cmp \<le> 0xFFFF")
    case True
    from dbuf_tlv_fits [OF b4(2), of cmp XLOG_TAG_DATA h] True b4 c obtain b5 where
      "?t b4 XLOG_TAG_DATA cmp = Some (0, b5, h)" "dbuf_inv b5" "dbuf_bytes b5 = dbuf_bytes b4 @ tlv XLOG_TAG_DATA cmp" by auto
    with True show ?thesis
      unfolding first by (simp add: body_spec_def cols data_field_def b1 b2 b3 b4)
  next
    case False
    let ?h = "XLOG_TAG_DATA # put_be16 (of_nat (length cmp)) @ put_be32 (of_nat (length cmp))"
    from dbuf_append_fits [OF b4(2), of ?h h] b4 c obtain b5 where
      b5: "dbuf_append b4 ?h h = Some (0, b5, h)" "dbuf_inv b5" "dbuf_bytes b5 = dbuf_bytes b4 @ ?h"
        "db_cap b5 = db_cap b0" "db_len b5 = 65" by auto
    from dbuf_append_fits [OF b5(2), of cmp h] b5 c obtain b6 where
      "dbuf_append b5 cmp h = Some (0, b6, h)" "dbuf_inv b6" "dbuf_bytes b6 = dbuf_bytes b5 @ cmp" by auto
    with False b5 show ?thesis
      unfolding first by (simp add: body_spec_def cols data_field_def b1 b2 b3 b4)
  qed
qed

lemma out_frame_xlog: "out_frame tag aid seq ts body = xlog_frame tag aid seq ts body"
  by (simp add: out_frame_def xlog_frame_def XLOG_MAX_TAG_LEN_def Let_def)

text \<open>A frame that carries the given rows.\<close>

definition carries ::
  "(int \<Rightarrow> bytes \<Rightarrow> bytes option) \<Rightarrow> xsiam_log_ctx \<Rightarrow> u64 \<Rightarrow> bytes \<Rightarrow> bytes \<Rightarrow> nat \<Rightarrow> bytes \<times> bytes option \<Rightarrow> bool" where
  "carries zstd ctx aid tag tsv rows post \<longleftrightarrow> snd post = auth_header ctx \<and>
     (\<exists>cmp seq ts. zstd (lx_compress_level ctx) tsv = Some cmp \<and>
        fst post = xlog_frame tag aid seq ts (body_spec rows (length tsv) (Some XLOG_COLUMNS_CSV) cmp))"

lemma out_alloc_env:
  assumes "out_alloc e = (ok, e')"
  shows "oe_posted e' = oe_posted e" "oe_posts e' = oe_posts e" "roomy (oe_heap e) \<Longrightarrow> ok \<and> roomy (oe_heap e')"
  using assms roomy_alloc by (auto simp: out_alloc_def split: prod.splits)

lemma out_clock_env: "out_clock e = (t, e') \<Longrightarrow> oe_posted e' = oe_posted e \<and> oe_posts e' = oe_posts e \<and> oe_heap e' = oe_heap e"
  by (auto simp: out_clock_def split: list.splits)

text \<open>The outcome of the next exchange: success when the script is exhausted.\<close>

definition next_post :: "out_env \<Rightarrow> post_outcome" where
  "next_post e = (case oe_posts e of [] \<Rightarrow> Response 0 204 | r # _ \<Rightarrow> r)"

lemma http_post_cases:
  assumes "http_post ctx frame e = (st, e')"
  shows "oe_heap e' = oe_heap e" "st \<noteq> FLB_ERROR" "oe_posts e' = tl (oe_posts e)"
    "st = FLB_OK \<longleftrightarrow> next_post e = Response 0 204"
    "oe_posted e' = oe_posted e \<and> st = FLB_RETRY \<and> next_post e \<in> {No_Connection, No_Client} \<or>
     oe_posted e' = oe_posted e @ [(frame, auth_header ctx)]"
  using assms by (auto simp: http_post_def next_post_def Let_def split: list.splits post_outcome.splits if_splits)

text \<open>
  Sending the rows of a non-empty buffer: no fault; at most one frame goes out, and it carries
  exactly these rows; the result \<open>FLB_OK\<close> means that it went out.
\<close>

lemma send_xlog_frame_cases:
  assumes "dbuf_inv tsv" "0 < db_len tsv"
  shows "\<exists>st e'. send_xlog_frame zstd ctx aid (Some tag) tsv rows e = Some (st, e') \<and>
     (roomy (oe_heap e) \<longrightarrow> roomy (oe_heap e')) \<and>
     (oe_posted e' = oe_posted e \<and> st \<noteq> FLB_OK \<or>
      (\<exists>post. oe_posted e' = oe_posted e @ [post] \<and> carries zstd ctx aid tag (dbuf_bytes tsv) (unat rows) post)) \<and>
     (roomy (oe_heap e) \<and> zstd (lx_compress_level ctx) (dbuf_bytes tsv) \<noteq> None \<longrightarrow>
        oe_posts e' = tl (oe_posts e) \<and> (st = FLB_OK \<longleftrightarrow> next_post e = Response 0 204) \<and>
        (oe_posted e' = oe_posted e \<longrightarrow> next_post e \<in> {No_Connection, No_Client}))"
proof -
  obtain ok e1 where a: "out_alloc e = (ok, e1)" by force
  note a' = out_alloc_env [OF a]
  show ?thesis
  proof (cases "ok \<and> zstd (lx_compress_level ctx) (dbuf_bytes tsv) \<noteq> None")
    case False
    then show ?thesis using a a' assms(2) by (auto simp: send_xlog_frame_def)
  next
    case True
    then obtain cmp where z: "zstd (lx_compress_level ctx) (dbuf_bytes tsv) = Some cmp" by blast
    obtain ob h where i: "dbuf_init (length cmp + 128) (oe_heap e1) = (ob, h)" by force
    have ih: "roomy (oe_heap e1) \<Longrightarrow> ob \<noteq> None \<and> roomy h"
      using dbuf_init_roomy [OF _ i] by blast
    show ?thesis
    proof (cases ob)
      case None
      with True z i ih a a' assms(2) show ?thesis by (auto simp: send_xlog_frame_def)
    next
      case (Some b0)
      from dbuf_init_inv [OF i [unfolded Some]] out_body_spec [of b0 cmp "db_len tsv" rows h] obtain b where
        b: "out_body (db_len tsv) rows cmp b0 h = Some (b, h)"
          "dbuf_bytes b = body_spec (unat rows) (db_len tsv) (Some XLOG_COLUMNS_CSV) cmp" by auto
      obtain ok2 e2 where a2: "out_alloc (e1\<lparr>oe_heap := h\<rparr>) = (ok2, e2)" by force
      note a2' = out_alloc_env [OF a2]
      obtain t1 e3 where c1: "out_clock e2 = (t1, e3)" by (cases "out_clock e2")
      obtain t2 e4 where c2: "out_clock e3 = (t2, e4)" by (cases "out_clock e3")
      define frame where "frame = xlog_frame tag aid (of_int (fst t1)) (xlog_ts_ms t2) (dbuf_bytes b)"
      obtain st e5 where p: "http_post ctx frame e4 = (st, e5)" by force
      note p' = http_post_cases [OF p]
      have env: "oe_posted e4 = oe_posted e" "oe_posts e4 = oe_posts e" "oe_heap e4 = oe_heap e2" "next_post e4 = next_post e"
        using a'(1,2) a2'(1,2) out_clock_env [OF c1] out_clock_env [OF c2] by (auto simp: next_post_def)
      have car: "carries zstd ctx aid tag (dbuf_bytes tsv) (unat rows) (frame, auth_header ctx)"
        using z b(2) assms(1) by (auto simp: carries_def frame_def length_dbuf_bytes)
      have def: "send_xlog_frame zstd ctx aid (Some tag) tsv rows e = (if \<not> ok2 then Some (FLB_RETRY, e2) else Some (st, e5))"
        using True z i Some b(1) a2 c1 c2 p assms(2) a
        by (simp add: send_xlog_frame_def out_frame_xlog frame_def)
      show ?thesis
        unfolding def using a' a2' ih Some p' env car by auto
    qed
  qed
qed

section \<open>Rows\<close>

definition event_row :: "nat \<Rightarrow> row_fields \<Rightarrow> bytes \<Rightarrow> bytes" where
  "event_row sec f tag =
     take (row_len (length (row_prefix sec f tag)) (length (rf_log f))) (row_prefix sec f tag) @ rf_log f @ [10]"

lemma row_len_le: "row_len n m \<le> n"
  by (simp add: row_len_def Let_def)

lemma length_dec_byte: "length (dec (unat (k :: byte))) \<le> 3"
proof (rule length_dec_le)
  show "unat k < 10 ^ 3" using unsigned_less [of k, where 'a = nat] by simp
qed simp

lemma length_row_prefix:
  "sec < 2 ^ 32 \<Longrightarrow> length tag \<le> 127 \<Longrightarrow> length (row_prefix sec f tag) \<le> 195"
  using length_rfc3339 [of sec] length_dec_u64 [of "rf_agent_id f"] length_dec_u64 [of "rf_event_id f"] length_dec_byte [of "rf_kind f"]
  by (simp add: row_prefix_def)

lemma dbuf_append_total:
  assumes "dbuf_inv b"
  shows "\<exists>rc b' h'. dbuf_append b s h = Some (rc, b', h') \<and> dbuf_inv b' \<and>
     (roomy h \<longrightarrow> roomy h' \<and> dbuf_bytes b' = dbuf_bytes b @ s)"
  using dsink.append_spec [OF assms, of s h] by blast

lemma append_event_row_total:
  assumes "dbuf_inv tsv" "sec < 2 ^ 32" "length tag \<le> 127"
  shows "\<exists>t h'. append_event_row sec f tag tsv h = Some (t, h') \<and> dbuf_inv t \<and>
     (roomy h \<longrightarrow> roomy h' \<and> dbuf_bytes t = dbuf_bytes tsv @ event_row sec f tag)"
proof -
  let ?p = "row_prefix sec f tag" and ?l = "rf_log f"
  let ?n = "row_len (length ?p) (length ?l)"
  have pk: "peek (take 4095 ?p) 0 ?n = Some (take ?n ?p)"
    using length_row_prefix [OF assms(2,3), of f] row_len_le [of "length ?p" "length ?l"] by (simp add: peek_def min_def)
  obtain r1 t1 h1 where 1: "dbuf_append tsv (take ?n ?p) h = Some (r1, t1, h1)" "dbuf_inv t1"
      "roomy h \<longrightarrow> roomy h1 \<and> dbuf_bytes t1 = dbuf_bytes tsv @ take ?n ?p"
    using dbuf_append_total [OF assms(1)] by blast
  obtain r2 t2 h2 where 2: "(if 0 < length ?l then dbuf_append t1 ?l h1 else Some (0, t1, h1)) = Some (r2, t2, h2)" "dbuf_inv t2"
      "roomy h1 \<longrightarrow> roomy h2 \<and> dbuf_bytes t2 = dbuf_bytes t1 @ ?l"
    using dbuf_append_total [OF 1(2), of ?l h1] 1(2) by (cases "?l = []") auto
  obtain r3 t3 h3 where 3: "dbuf_append t2 [10] h2 = Some (r3, t3, h3)" "dbuf_inv t3"
      "roomy h2 \<longrightarrow> roomy h3 \<and> dbuf_bytes t3 = dbuf_bytes t2 @ [10]"
    using dbuf_append_total [OF 2(2)] by blast
  show ?thesis
    unfolding append_event_row_def Let_def pk bind.bind_lunit 1(1) prod.case 2(1) 3(1)
    using 1(3) 2(3) 3(2,3) by (auto simp: event_row_def)
qed

lemma take_field_tag: "length (snd s) \<le> 127 \<Longrightarrow> length (snd (take_field kv s)) \<le> 127"
proof -
  assume a: "length (snd s) \<le> 127"
  have "length (cstr_of (take 127 t)) \<le> 127" for t
    using length_cstr_of_le [of "take 127 t"] by simp
  with a show ?thesis by (auto simp: take_field_def Let_def split: prod.splits mp_object.splits)
qed

lemma event_fields_tag: "length cur_tag \<le> 127 \<Longrightarrow> event_fields ev cur_tag = (f, tag) \<Longrightarrow> length tag \<le> 127"
proof -
  have "length (snd s) \<le> 127 \<Longrightarrow> length (snd (fold take_field kvs s)) \<le> 127" for kvs s
    by (induction kvs arbitrary: s) (simp_all add: take_field_tag)
  from this [of "(no_fields, cur_tag)"] show "length cur_tag \<le> 127 \<Longrightarrow> event_fields ev cur_tag = (f, tag) \<Longrightarrow> length tag \<le> 127"
    by (auto simp: event_fields_def split: option.splits) (metis snd_conv fold_simps(1))+
qed

section \<open>Batches of rows\<close>

text \<open>The rows of a chunk, each with the agent id and the tag that are current after it.\<close>

fun chunk_rows :: "log_event list \<Rightarrow> bytes \<Rightarrow> (u64 \<times> bytes \<times> bytes) list" where
  "chunk_rows [] cur_tag = []"
| "chunk_rows (ev # evs) cur_tag =
     (let (f, tag) = event_fields ev cur_tag
      in (rf_agent_id f, tag, event_row (ev_sec ev) f tag) # chunk_rows evs tag)"

definition tsv_text :: "(u64 \<times> bytes \<times> bytes) list \<Rightarrow> bytes" where
  "tsv_text rs = concat (map (\<lambda>(aid, tag, row). row) rs)"

lemma tsv_text_simps [simp]: "tsv_text [] = []" "tsv_text (xs @ ys) = tsv_text xs @ tsv_text ys" "tsv_text [(a, t, r)] = r"
  by (simp_all add: tsv_text_def)

text \<open>Cutting a list into pieces of \<open>n\<close> elements.\<close>

function batches :: "nat \<Rightarrow> 'a list \<Rightarrow> 'a list list" where
  "batches n xs = (if xs = [] then [] else if n = 0 \<or> length xs \<le> n then [xs] else take n xs # batches n (drop n xs))"
  by pat_completeness auto
termination
  by (relation "measure (\<lambda>(n, xs). length xs)") auto

declare batches.simps [simp del]

lemma batches_Nil [simp]: "batches n [] = []"
  by (simp add: batches.simps)

lemma batches_small: "xs \<noteq> [] \<Longrightarrow> length xs \<le> n \<Longrightarrow> batches n xs = [xs]"
  by (simp add: batches.simps)

lemma batches_full: "0 < n \<Longrightarrow> length xs = n \<Longrightarrow> batches n (xs @ ys) = xs # batches n ys"
  by (subst batches.simps) auto

lemma concat_batches: "concat (batches n xs) = xs"
proof (induction n xs rule: batches.induct)
  case (1 n xs)
  then show ?case by (subst batches.simps) simp
qed

lemma batches_size: "0 < n \<Longrightarrow> b \<in> set (batches n xs) \<Longrightarrow> b \<noteq> [] \<and> length b \<le> n"
proof (induction n xs rule: batches.induct)
  case (1 n xs)
  from 1(3) show ?case by (subst (asm) batches.simps) (use 1(1,2) in \<open>auto split: if_splits\<close>)
qed

definition carries_batch ::
  "(int \<Rightarrow> bytes \<Rightarrow> bytes option) \<Rightarrow> xsiam_log_ctx \<Rightarrow> (u64 \<times> bytes \<times> bytes) list \<Rightarrow> bytes \<times> bytes option \<Rightarrow> bool" where
  "carries_batch zstd ctx b post \<longleftrightarrow>
     carries zstd ctx (fst (last b)) (fst (snd (last b))) (tsv_text b) (length b) post"

text \<open>The request went out, and it was accepted.\<close>

definition requested :: "post_outcome \<Rightarrow> bool" where
  "requested r \<longleftrightarrow> r \<noteq> No_Connection \<and> r \<noteq> No_Client"

definition accepted :: "post_outcome \<Rightarrow> bool" where
  "accepted r \<longleftrightarrow> r = Response 0 204"

text \<open>
  What a flush may do with the batches \<open>bs\<close>: frames for a prefix of them go out, in order; the
  result \<open>FLB_OK\<close> means that all went out. With a working server all go out.
\<close>

definition flushed ::
  "(int \<Rightarrow> bytes \<Rightarrow> bytes option) \<Rightarrow> xsiam_log_ctx \<Rightarrow> (u64 \<times> bytes \<times> bytes) list list \<Rightarrow> out_env
   \<Rightarrow> (flb_status \<times> out_env) option \<Rightarrow> bool" where
  "flushed zstd ctx bs e m \<longleftrightarrow> (\<exists>st e' k posts. m = Some (st, e') \<and> k \<le> length bs \<and>
     oe_posted e' = oe_posted e @ posts \<and> list_all2 (carries_batch zstd ctx) (take k bs) posts \<and>
     (st = FLB_OK \<longrightarrow> k = length bs) \<and>
     ((\<forall>b \<in> set bs. zstd (lx_compress_level ctx) (tsv_text b) \<noteq> None) \<longrightarrow>
        (st = FLB_OK \<longleftrightarrow> (\<forall>r \<in> set (take (length bs) (oe_posts e)). accepted r)) \<and>
        (st \<noteq> FLB_OK \<and> (\<forall>r \<in> set (oe_posts e). requested r) \<longrightarrow> k = Suc (length (takeWhile accepted (oe_posts e))))))"

lemma flushedI:
  assumes "m = Some (st, e')" "k \<le> length bs" "oe_posted e' = oe_posted e @ posts"
    "list_all2 (carries_batch zstd ctx) (take k bs) posts" "st = FLB_OK \<Longrightarrow> k = length bs"
    "\<forall>b \<in> set bs. zstd (lx_compress_level ctx) (tsv_text b) \<noteq> None \<Longrightarrow>
       st = FLB_OK \<longleftrightarrow> (\<forall>r \<in> set (take (length bs) (oe_posts e)). accepted r)"
    "\<forall>b \<in> set bs. zstd (lx_compress_level ctx) (tsv_text b) \<noteq> None \<Longrightarrow> st \<noteq> FLB_OK \<Longrightarrow>
       \<forall>r \<in> set (oe_posts e). requested r \<Longrightarrow> k = Suc (length (takeWhile accepted (oe_posts e)))"
  shows "flushed zstd ctx bs e m"
  unfolding flushed_def using assms by blast

lemma flushed_none: "flushed zstd ctx [] e (Some (FLB_OK, e))"
  by (auto simp: flushed_def intro!: exI [of _ FLB_OK])

lemma flushed_send:
  assumes t: "dbuf_inv tsv" "dbuf_bytes tsv = tsv_text b" "unat rows = length b" "tsv_text b \<noteq> []"
    and r: "roomy (oe_heap e)"
    and k: "\<And>e'. roomy (oe_heap e') \<Longrightarrow> flushed zstd ctx bs e' (cont e')"
  shows "flushed zstd ctx (b # bs) e (do {
     (sr, e2) \<leftarrow> send_xlog_frame zstd ctx (fst (last b)) (Some (fst (snd (last b)))) tsv rows e;
     if sr \<noteq> FLB_OK then Some (sr, e2) else cont e2 })"
proof -
  have "0 < db_len tsv" using t(1,2,4) length_dbuf_bytes [OF t(1)] by (cases "db_len tsv") auto
  from send_xlog_frame_cases [OF t(1) this, of zstd ctx "fst (last b)" "fst (snd (last b))" rows e,
      unfolded t(2,3), folded carries_batch_def] r obtain st e2 where
    s: "send_xlog_frame zstd ctx (fst (last b)) (Some (fst (snd (last b)))) tsv rows e = Some (st, e2)" "roomy (oe_heap e2)"
      "oe_posted e2 = oe_posted e \<and> st \<noteq> FLB_OK \<or> (\<exists>post. oe_posted e2 = oe_posted e @ [post] \<and> carries_batch zstd ctx b post)"
      "zstd (lx_compress_level ctx) (tsv_text b) \<noteq> None \<longrightarrow> oe_posts e2 = tl (oe_posts e) \<and>
         (st = FLB_OK \<longleftrightarrow> next_post e = Response 0 204) \<and> (oe_posted e2 = oe_posted e \<longrightarrow> next_post e \<in> {No_Connection, No_Client})"
    by blast
  show ?thesis
  proof (cases "st = FLB_OK")
    case False
    have np: "\<exists>q qs. oe_posts e = q # qs \<and> \<not> accepted q" if "zstd (lx_compress_level ctx) (tsv_text b) \<noteq> None"
      using False s(4) that by (cases "oe_posts e") (auto simp: next_post_def accepted_def)
    have rq: "oe_posted e2 \<noteq> oe_posted e"
      if "zstd (lx_compress_level ctx) (tsv_text b) \<noteq> None" "\<forall>r \<in> set (oe_posts e). requested r"
      using s(4) that by (cases "oe_posts e") (auto simp: next_post_def requested_def)
    from s(3) obtain k posts where k: "k \<le> Suc (length bs)" "oe_posted e2 = oe_posted e @ posts"
        "list_all2 (carries_batch zstd ctx) (take k (b # bs)) posts" "k = 1 \<or> oe_posted e2 = oe_posted e"
    proof (elim disjE exE conjE)
      assume "oe_posted e2 = oe_posted e"
      then show ?thesis using that [of 0 "[]"] by simp
    next
      fix post assume "oe_posted e2 = oe_posted e @ [post]" "carries_batch zstd ctx b post"
      then show ?thesis using that [of 1 "[post]"] by simp
    qed
    show ?thesis
    proof (rule flushedI)
      show "do { (sr, e2) \<leftarrow> send_xlog_frame zstd ctx (fst (last b)) (Some (fst (snd (last b)))) tsv rows e;
          if sr \<noteq> FLB_OK then Some (sr, e2) else cont e2 } = Some (st, e2)" using False s(1) by simp
      show "k \<le> length (b # bs)" using k(1) by simp
      show "oe_posted e2 = oe_posted e @ posts" by fact
      show "list_all2 (carries_batch zstd ctx) (take k (b # bs)) posts" by fact
    qed (use False np rq k(4) in auto)
  next
    case True
    with s(3) obtain post where post: "oe_posted e2 = oe_posted e @ [post]" "carries_batch zstd ctx b post" by auto
    from k [OF s(2)] obtain st' e' k posts where
      f: "cont e2 = Some (st', e')" "k \<le> length bs" "oe_posted e' = oe_posted e2 @ posts"
        "list_all2 (carries_batch zstd ctx) (take k bs) posts" "st' = FLB_OK \<longrightarrow> k = length bs"
        "(\<forall>b \<in> set bs. zstd (lx_compress_level ctx) (tsv_text b) \<noteq> None) \<longrightarrow>
          (st' = FLB_OK \<longleftrightarrow> (\<forall>r \<in> set (take (length bs) (oe_posts e2)). accepted r)) \<and>
          (st' \<noteq> FLB_OK \<and> (\<forall>r \<in> set (oe_posts e2). requested r) \<longrightarrow> k = Suc (length (takeWhile accepted (oe_posts e2))))"
      unfolding flushed_def by blast
    have sc: "oe_posts e = [] \<and> oe_posts e2 = [] \<or> (\<exists>q. accepted q \<and> oe_posts e = q # oe_posts e2)"
      if "zstd (lx_compress_level ctx) (tsv_text b) \<noteq> None"
      using s(4) True that by (cases "oe_posts e") (auto simp: next_post_def accepted_def)
    show ?thesis
    proof (rule flushedI)
      show "do { (sr, e2) \<leftarrow> send_xlog_frame zstd ctx (fst (last b)) (Some (fst (snd (last b)))) tsv rows e;
          if sr \<noteq> FLB_OK then Some (sr, e2) else cont e2 } = Some (st', e')" using True s(1) f(1) by simp
      show "Suc k \<le> length (b # bs)" using f(2) by simp
      show "oe_posted e' = oe_posted e @ post # posts" using f(3) post(1) by simp
      show "list_all2 (carries_batch zstd ctx) (take (Suc k) (b # bs)) (post # posts)" using f(4) post(2) by simp
      show "Suc k = length (b # bs)" if "st' = FLB_OK" using that f(5) by simp
    next
      assume z: "\<forall>b \<in> set (b # bs). zstd (lx_compress_level ctx) (tsv_text b) \<noteq> None"
      with f(6) have f6: "st' = FLB_OK \<longleftrightarrow> (\<forall>r \<in> set (take (length bs) (oe_posts e2)). accepted r)"
          "st' \<noteq> FLB_OK \<Longrightarrow> \<forall>r \<in> set (oe_posts e2). requested r \<Longrightarrow> k = Suc (length (takeWhile accepted (oe_posts e2)))" by auto
      show "st' = FLB_OK \<longleftrightarrow> (\<forall>r \<in> set (take (length (b # bs)) (oe_posts e)). accepted r)"
        using f6(1) sc z by auto
      show "Suc k = Suc (length (takeWhile accepted (oe_posts e)))"
        if "st' \<noteq> FLB_OK" "\<forall>r \<in> set (oe_posts e). requested r"
        using f6 sc z that by auto
    qed
  qed
qed

text \<open>The loop: \<open>acc\<close> are the rows collected since the last frame.\<close>

lemma unat_Suc_small: "unat (w :: u32) + 1 < 2 ^ 31 \<Longrightarrow> unat (w + 1) = unat w + 1 \<and> sint (w + 1) = int (unat w + 1)"
proof -
  assume s: "unat w + 1 < 2 ^ 31"
  then have u: "unat (w + 1) = unat w + 1" using unat_plus_small [of w 1] by simp
  have "uint (w + 1) = int (unat w + 1)" unfolding u [symmetric] by simp
  moreover have "int (unat w + 1) < 2 ^ 31"
    using s by (metis of_nat_less_iff of_nat_numeral of_nat_power)
  then have "signed_take_bit 31 (int (unat w + 1)) = int (unat w + 1)"
    by (intro signed_take_bit_int_eq_self) auto
  ultimately have "sint (w + 1) = int (unat w + 1)" by (simp only: sint_uint) simp
  with u show ?thesis by simp
qed

lemma event_row_nonempty: "event_row sec f tag \<noteq> []"
  by (simp add: event_row_def)

lemma flush_loop_flushed:
  assumes "dbuf_inv tsv" "dbuf_bytes tsv = tsv_text acc" "unat rows = length acc" "length acc < n" "n < 2 ^ 31"
    "acc \<noteq> [] \<Longrightarrow> aid = fst (last acc) \<and> tag = fst (snd (last acc)) \<and> tsv_text acc \<noteq> []"
    "length tag \<le> 127" "roomy (oe_heap e)" "\<forall>ev \<in> set evs. ev_sec ev < 2 ^ 32"
  shows "flushed zstd ctx (batches n (acc @ chunk_rows evs tag)) e
     (flush_loop zstd ctx (int n) evs tsv rows aid tag e)"
  using assms
proof (induction evs arbitrary: tsv acc rows aid tag e)
  case Nil
  show ?case
  proof (cases "acc = []")
    case True
    then have "rows = 0" using Nil.prems(3) by (simp add: unat_eq_0)
    with True show ?thesis by (simp add: flushed_none)
  next
    case False
    then have "0 < rows" using Nil.prems(3) by (simp add: word_less_nat_alt)
    moreover have "send_xlog_frame zstd ctx aid (Some tag) tsv rows e = do {
        (sr, e2) \<leftarrow> send_xlog_frame zstd ctx (fst (last acc)) (Some (fst (snd (last acc)))) tsv rows e;
        if sr \<noteq> FLB_OK then Some (sr, e2) else Some (FLB_OK, e2) }"
      using Nil.prems(6) False by (cases "send_xlog_frame zstd ctx aid (Some tag) tsv rows e") auto
    moreover have "flushed zstd ctx [acc] e \<dots>"
      using Nil.prems False by (intro flushed_send flushed_none) auto
    ultimately show ?thesis using False Nil.prems(4) by (simp add: batches_small)
  qed
next
  case (Cons ev evs)
  obtain f t where ft: "event_fields ev tag = (f, t)" by force
  have lt: "length t \<le> 127" using event_fields_tag [OF Cons.prems(7) ft] .
  let ?r = "event_row (ev_sec ev) f t"
  from append_event_row_total [OF Cons.prems(1) _ lt, of "ev_sec ev" f "oe_heap e"] Cons.prems(8,9) obtain t1 h1 where
    a: "append_event_row (ev_sec ev) f t tsv (oe_heap e) = Some (t1, h1)" "dbuf_inv t1" "roomy h1"
      "dbuf_bytes t1 = dbuf_bytes tsv @ ?r" by auto
  let ?e1 = "e\<lparr>oe_heap := h1\<rparr>" and ?acc = "acc @ [(rf_agent_id f, t, ?r)]"
  have u: "unat (rows + 1) = length ?acc" "sint (rows + 1) = int (length ?acc)"
    using unat_Suc_small [of rows] Cons.prems(3-5) by auto
  have rows_eq: "acc @ chunk_rows (ev # evs) tag = ?acc @ chunk_rows evs t" using ft by simp
  have tsvt: "dbuf_bytes t1 = tsv_text ?acc" using a(4) Cons.prems(2) by simp
  have ne: "tsv_text ?acc \<noteq> []" by (simp add: event_row_nonempty)
  have e1: "flushed zstd ctx bs ?e1 m \<Longrightarrow> flushed zstd ctx bs e m" for bs m
    by (simp add: flushed_def)
  show ?case
  proof (cases "length ?acc < n")
    case True
    have "flush_loop zstd ctx (int n) (ev # evs) tsv rows aid tag e =
        flush_loop zstd ctx (int n) evs t1 (rows + 1) (rf_agent_id f) t ?e1"
      using True ft a(1) u(2) by simp
    moreover have "flushed zstd ctx (batches n (?acc @ chunk_rows evs t)) ?e1 \<dots>"
      using Cons.prems(5,9) a(2,3) tsvt u(1) True lt ne by (intro Cons.IH) auto
    ultimately show ?thesis unfolding rows_eq by (intro e1) simp
  next
    case False
    then have full: "length ?acc = n" using Cons.prems(4) by simp
    let ?cont = "\<lambda>e2. flush_loop zstd ctx (int n) evs (t1\<lparr>db_len := 0\<rparr>) 0 (rf_agent_id f) t e2"
    have "flush_loop zstd ctx (int n) (ev # evs) tsv rows aid tag e = do {
        (sr, e2) \<leftarrow> send_xlog_frame zstd ctx (fst (last ?acc)) (Some (fst (snd (last ?acc)))) t1 (rows + 1) ?e1;
        if sr \<noteq> FLB_OK then Some (sr, e2) else ?cont e2 }"
      using full ft a(1) u(2) by simp
    moreover have "flushed zstd ctx (?acc # batches n (chunk_rows evs t)) ?e1 \<dots>"
    proof (rule flushed_send)
      fix e' :: out_env assume r: "roomy (oe_heap e')"
      have "dbuf_inv (t1\<lparr>db_len := 0\<rparr>)" "dbuf_bytes (t1\<lparr>db_len := 0\<rparr>) = []"
        using a(2) by (simp_all add: dbuf_inv_def dbuf_bytes_def)
      then have "flushed zstd ctx (batches n ([] @ chunk_rows evs t)) e' (?cont e')"
        using Cons.prems(4,5,9) lt r by (intro Cons.IH) auto
      then show "flushed zstd ctx (batches n (chunk_rows evs t)) e' (?cont e')" by simp
    qed (use a tsvt u(1) ne in simp_all)
    moreover have "batches n (?acc @ chunk_rows evs t) = ?acc # batches n (chunk_rows evs t)"
      using full Cons.prems(4) by (intro batches_full) auto
    ultimately show ?thesis unfolding rows_eq by (intro e1) simp
  qed
qed

lemma cb_flush_flushed:
  assumes "roomy (oe_heap e)" "\<forall>ev \<in> set evs. ev_sec ev < 2 ^ 32" "lx_max_batch_rows ctx < 2 ^ 31"
    and n: "n = (if 0 < lx_max_batch_rows ctx then nat (lx_max_batch_rows ctx) else 8192)"
  shows "flushed zstd ctx (batches n (chunk_rows evs (asc ''agent_log''))) e (cb_flush zstd ctx (Some evs) e)"
proof -
  obtain ob h where i: "dbuf_init 65536 (oe_heap e) = (ob, h)" by force
  from dbuf_init_roomy [OF assms(1) i] obtain b where b: "ob = Some b" "roomy h" by blast
  note bi = dbuf_init_inv [OF i [unfolded b]]
  let ?e = "e\<lparr>oe_heap := h\<rparr>"
  have "flushed zstd ctx (batches n ([] @ chunk_rows evs (asc ''agent_log''))) ?e
      (flush_loop zstd ctx (int n) evs b 0 0 (asc ''agent_log'') ?e)"
    by (rule flush_loop_flushed) (use bi b assms in auto)
  moreover have "(if 0 < lx_max_batch_rows ctx then lx_max_batch_rows ctx else 8192) = int n" using n by simp
  ultimately show ?thesis using i b by (simp add: cb_flush_def flushed_def)
qed

section \<open>Freedom from faults\<close>

text \<open>Without any assumption on memory: nothing is read or written out of bounds.\<close>

lemma send_xlog_frame_total:
  assumes "dbuf_inv tsv"
  shows "\<exists>st e'. send_xlog_frame zstd ctx aid (Some tag) tsv rows e = Some (st, e')"
proof (cases "db_len tsv = 0")
  case True
  then show ?thesis by (simp add: send_xlog_frame_def)
next
  case False
  with send_xlog_frame_cases [OF assms, of zstd ctx aid tag rows e] show ?thesis by blast
qed

lemma flush_loop_total:
  assumes "dbuf_inv tsv" "length tag \<le> 127" "\<forall>ev \<in> set evs. ev_sec ev < 2 ^ 32"
  shows "\<exists>r. flush_loop zstd ctx n evs tsv rows aid tag e = Some r"
  using assms
proof (induction evs arbitrary: tsv rows aid tag e)
  case Nil
  then show ?case using send_xlog_frame_total [OF Nil.prems(1), of zstd ctx aid tag rows e] by auto
next
  case (Cons ev evs)
  obtain f t where ft: "event_fields ev tag = (f, t)" by force
  have lt: "length t \<le> 127" using event_fields_tag [OF Cons.prems(2) ft] .
  from append_event_row_total [OF Cons.prems(1) _ lt, of "ev_sec ev" f "oe_heap e"] Cons.prems(3) obtain t1 h1 where
    a: "append_event_row (ev_sec ev) f t tsv (oe_heap e) = Some (t1, h1)" "dbuf_inv t1" by auto
  let ?e1 = "e\<lparr>oe_heap := h1\<rparr>"
  obtain st e2 where s: "send_xlog_frame zstd ctx (rf_agent_id f) (Some t) t1 (rows + 1) ?e1 = Some (st, e2)"
    using send_xlog_frame_total [OF a(2)] by blast
  have z: "dbuf_inv (t1\<lparr>db_len := 0\<rparr>)" using a(2) by (simp add: dbuf_inv_def)
  have evs: "\<forall>ev \<in> set evs. ev_sec ev < 2 ^ 32" using Cons.prems(3) by simp
  have def: "flush_loop zstd ctx n (ev # evs) tsv rows aid tag e =
      (if n \<le> sint (rows + 1)
       then if st \<noteq> FLB_OK then Some (st, e2) else flush_loop zstd ctx n evs (t1\<lparr>db_len := 0\<rparr>) 0 (rf_agent_id f) t e2
       else flush_loop zstd ctx n evs t1 (rows + 1) (rf_agent_id f) t ?e1)"
    unfolding flush_loop.simps ft prod.case Let_def a(1) bind.bind_lunit s ..
  show ?case
    unfolding def using Cons.IH [OF z lt evs] Cons.IH [OF a(2) lt evs] by auto
qed

section \<open>Columns\<close>

text \<open>The whole prefix goes out unless prefix and log text together just fill the row buffer.\<close>

lemma row_len_exact:
  assumes "m < 2 ^ 63" and that: "n < 2 ^ 32"
  shows "row_len n m = (if m \<le> 4094 \<and> 4094 - m \<le> n then 4094 - m else n)"
proof (cases "m \<le> 4094")
  case True
  have "(4096 - of_nat m - 2 :: u64) = of_nat (4094 - m)" using True by (simp add: of_nat_diff)
  moreover have "unat (of_nat (4094 - m) :: u64) = 4094 - m" by (rule unat_of_nat_small) simp
  ultimately have "unat (4096 - of_nat m - 2 :: u64) = 4094 - m" by (simp only:)
  with True show ?thesis by (simp add: row_len_def Let_def)
next
  case False
  have m: "m - 4094 < 2 ^ 63" "0 < m - 4094" using False assms by auto
  have "(of_nat (2 ^ 64 - (m - 4094)) :: u64) = of_nat (2 ^ 64) - of_nat (m - 4094)"
    using m by (intro of_nat_diff) simp
  also have "\<dots> = 4096 - of_nat m - 2" using False by (simp add: of_nat_diff)
  finally have "(4096 - of_nat m - 2 :: u64) = of_nat (2 ^ 64 - (m - 4094))" ..
  moreover have "unat (of_nat (2 ^ 64 - (m - 4094)) :: u64) = 2 ^ 64 - (m - 4094)"
    using m by (intro unat_of_nat_small) simp
  ultimately have "unat (4096 - of_nat m - 2 :: u64) = 2 ^ 64 - (m - 4094)" by (simp only:)
  moreover have "n < 2 ^ 64 - (m - 4094)" using m(1) that by simp
  ultimately show ?thesis using False by (simp add: row_len_def Let_def)
qed

end
