(* ===== verification/Ingest_Rows.thy ===== *)
theory Ingest_Rows
  imports Ingest Text
begin

text \<open>
  The rows of a batch as the Go server reads them: \<open>decompress\<close> of
  \<^verbatim>\<open>xsiam/internal/ingest/handler.go\<close>. The text is split at newlines, trailing carriage returns and
  empty lines are dropped, and each line is split at every tab.
\<close>

definition trim_cr :: "bytes \<Rightarrow> bytes" where
  "trim_cr s = rev (dropWhile (\<lambda>c. c = 13) (rev s))"

definition tsv_rows :: "bytes \<Rightarrow> bytes list list" where
  "tsv_rows raw = map (split_on 9) (filter (\<lambda>l. l \<noteq> []) (map trim_cr (split_on 10 raw)))"

datatype decompress_error = Zstd_Error | Size_Mismatch

definition decompress :: "(bytes \<Rightarrow> bytes option) \<Rightarrow> log_batch \<Rightarrow> decompress_error + bytes list list" where
  "decompress unzstd batch =
     (case unzstd (lb_compressed_tsv batch) of
        None \<Rightarrow> Inl Zstd_Error
      | Some raw \<Rightarrow>
          if 0 < lb_orig_size batch \<and> of_nat (length raw) \<noteq> lb_orig_size batch then Inl Size_Mismatch
          else Inr (tsv_rows raw))"

section \<open>Reading back\<close>

lemma trim_cr_id: "l = [] \<or> last l \<noteq> 13 \<Longrightarrow> trim_cr l = l"
  by (cases l rule: rev_cases) (auto simp: trim_cr_def)

text \<open>Text made of tab-joined columns in lines is read back column by column.\<close>

lemma tsv_rows_join:
  assumes "\<forall>r \<in> set rs. r \<noteq> [] \<and> join_with 9 r \<noteq> [] \<and> last (join_with 9 r) \<noteq> 13 \<and> (\<forall>c \<in> set r. 9 \<notin> set c \<and> 10 \<notin> set c)"
  shows "tsv_rows (concat (map (\<lambda>r. join_with 9 r @ [10]) rs)) = rs"
proof -
  have no10: "10 \<notin> set (join_with 9 r)" if "\<forall>c \<in> set r. (10 :: byte) \<notin> set c" for r
    using that by (induction r rule: induct_list012) auto
  let ?ls = "map (join_with 9) rs"
  have e: "concat (map (\<lambda>r. join_with 9 r @ [10]) rs) = concat (map (\<lambda>l. l @ [10]) ?ls)" by (simp add: comp_def)
  have 1: "split_on 10 (concat (map (\<lambda>l. l @ [10]) ?ls)) = ?ls @ [[]]"
    using assms no10 by (intro split_on_lines) auto
  have 2: "map trim_cr (?ls @ [[]]) = ?ls @ [[]]" using assms by (intro map_idI trim_cr_id) auto
  have 3: "filter (\<lambda>l. l \<noteq> []) (?ls @ [[]]) = ?ls" using assms by (auto simp: filter_id_conv)
  have 4: "map (split_on 9) ?ls = rs" using assms by (auto intro!: map_idI split_on_join)
  show ?thesis unfolding tsv_rows_def e 1 2 3 4 ..
qed

end
