(* ===== verification/Out_Log_Thms.thy ===== *)
theory Out_Log_Thms
  imports Out_Log_Lemmas Ingest_Rows
begin

text \<open>
  The properties of the output plugin: delivery of the rows of a chunk, freedom from faults, the
  shape of rows, retries, and the configuration of the endpoint.
\<close>

section \<open>Delivery\<close>

text \<open>What the ingest endpoint makes of a frame that carries a batch.\<close>

definition decodes_to ::
  "(bytes \<Rightarrow> bytes option) \<Rightarrow> (u64 \<times> bytes \<times> bytes) list \<Rightarrow> bytes \<times> bytes option \<Rightarrow> bool" where
  "decodes_to unzstd b post \<longleftrightarrow> (\<exists>hdr bt. handleBinary (fst post) = Inr (hdr, bt) \<and>
     fh_agent_id hdr = fst (last b) \<and> fh_tag hdr = fst (snd (last b)) \<and> lb_row_count bt = of_nat (length b) \<and>
     lb_columns bt = map asc [''agent_id'', ''_time'', ''event_id'', ''kind'', ''tag'', ''log''] \<and>
     unzstd (lb_compressed_tsv bt) = Some (tsv_text b))"

lemma columns_csv_decoded:
  "decoded_columns (Some XLOG_COLUMNS_CSV) = map asc [''agent_id'', ''_time'', ''event_id'', ''kind'', ''tag'', ''log'']"
  by (simp add: decoded_columns_def XLOG_COLUMNS_CSV_def splitColumns_def asc_def of_char_def)

lemma chunk_rows_tags: "length tag \<le> 127 \<Longrightarrow> (a, t, r) \<in> set (chunk_rows evs tag) \<Longrightarrow> length t \<le> 127"
proof (induction evs arbitrary: tag)
  case (Cons ev evs)
  obtain f t' where ft: "event_fields ev tag = (f, t')" by force
  show ?case using Cons ft event_fields_tag [OF Cons.prems(1) ft] by auto
qed simp

lemma carries_decodes:
  assumes "carries_batch zstd ctx b post" "zstd (lx_compress_level ctx) (tsv_text b) = Some y" "y \<noteq> []" "length y \<le> 0xFFFF"
    and "\<forall>l x y. zstd l x = Some y \<longrightarrow> unzstd y = Some x" "length (fst (snd (last b))) \<le> 127"
  shows "decodes_to unzstd b post"
proof -
  from assms(1,2) obtain seq ts where
    p: "fst post = xlog_frame (fst (snd (last b))) (fst (last b)) seq ts (body_spec (length b) (length (tsv_text b)) (Some XLOG_COLUMNS_CSV) y)"
    by (auto simp: carries_batch_def carries_def)
  have "length (fst (snd (last b))) \<le> XLOG_MAX_TAG_LEN" using assms(6) by (simp add: XLOG_MAX_TAG_LEN_def)
  from handleBinary_xlog_frame [OF this assms(4,3)] show ?thesis
    unfolding decodes_to_def p using assms(2,5) columns_csv_decoded by simp
qed


definition up_env :: out_env where
  "up_env = \<lparr>oe_heap = [], oe_clock = [], oe_posts = [], oe_posted = []\<rparr>"

definition one_row_ctx :: xsiam_log_ctx where
  "one_row_ctx = \<lparr>lx_ingest_token = None, lx_compress_level = 3, lx_max_batch_rows = 1, lx_host = asc ''h'', lx_port = 18090\<rparr>"

definition text_event :: "bytes \<Rightarrow> log_event" where
  "text_event l = \<lparr>ev_sec = 0, ev_body = Some [(MP_str (asc ''agent_id''), MP_uint 7), (MP_str (asc ''log''), MP_str l)]\<rparr>"

lemma asc_field_names:
  "asc ''agent_id'' \<noteq> asc ''log''" "asc ''event_id'' \<noteq> asc ''log''" "asc ''kind'' \<noteq> asc ''log''"
  by (simp_all add: asc_def of_char_def)

lemma event_fields_text: "event_fields (text_event l) tag = (no_fields\<lparr>rf_agent_id := 7, rf_log := l\<rparr>, tag)"
  using asc_field_names by (simp add: event_fields_def text_event_def take_field_def no_fields_def)

lemma chunk_rows_text:
  "chunk_rows [text_event l] tag = [(7, tag, event_row 0 (no_fields\<lparr>rf_agent_id := 7, rf_log := l\<rparr>) tag)]"
  by (simp add: event_fields_text) (simp add: text_event_def)

lemma length_event_row: "length tag \<le> 127 \<Longrightarrow> sec < 2 ^ 32 \<Longrightarrow> length (event_row sec f tag) \<le> 196 + length (rf_log f)"
  using length_row_prefix [of sec tag f] by (simp add: event_row_def)


section \<open>Safety\<close>



section \<open>Rows\<close>

text \<open>
  The columns in front of the log text are complete unless the row just fills the row buffer: they
  are cut exactly when the log text has at most 4094 bytes and prefix and text together more than 4094.
  Such rows lose their last columns, although the row buffer only has to hold the prefix and longer
  log texts come through unharmed.
\<close>

theorem row_complete_iff:
  assumes "sec < 2 ^ 32" "length tag \<le> 127" "length (rf_log f) < 2 ^ 63"
  shows "event_row sec f tag = row_prefix sec f tag @ rf_log f @ [10] \<longleftrightarrow>
     4094 < length (rf_log f) \<or> length (row_prefix sec f tag) + length (rf_log f) \<le> 4094"
proof -
  let ?p = "row_prefix sec f tag" and ?m = "length (rf_log f)"
  have lp: "length ?p \<le> 195" using length_row_prefix [OF assms(1,2)] .
  then have "row_len (length ?p) ?m = (if ?m \<le> 4094 \<and> 4094 - ?m \<le> length ?p then 4094 - ?m else length ?p)"
    using assms(3) by (intro row_len_exact) auto
  moreover have "event_row sec f tag = ?p @ rf_log f @ [10] \<longleftrightarrow> length ?p \<le> row_len (length ?p) ?m"
    by (simp add: event_row_def)
  ultimately show ?thesis by (cases "?m \<le> 4094 \<and> 4094 - ?m \<le> length ?p") auto
qed

theorem row_complete_iff_witness:
  "event_row 0 (no_fields\<lparr>rf_log := replicate 4090 120\<rparr>) [] \<noteq> row_prefix 0 (no_fields\<lparr>rf_log := replicate 4090 120\<rparr>) [] @ replicate 4090 120 @ [10]"
  using row_complete_iff [of 0 "[]" "no_fields\<lparr>rf_log := replicate 4090 120\<rparr>"] by (simp add: row_prefix_def)

text \<open>The six columns of an event.\<close>

fun chunk_columns :: "log_event list \<Rightarrow> bytes \<Rightarrow> bytes list list" where
  "chunk_columns [] cur_tag = []"
| "chunk_columns (ev # evs) cur_tag =
     (let (f, tag) = event_fields ev cur_tag
      in [dec (unat (rf_agent_id f)), rfc3339 (ev_sec ev), dec (unat (rf_event_id f)), dec (unat (rf_kind f)), tag, rf_log f]
         # chunk_columns evs tag)"

text \<open>An event whose text survives: no tab or newline in the tag and the log text, no CR at its end, a complete row.\<close>

fun clean_chunk :: "log_event list \<Rightarrow> bytes \<Rightarrow> bool" where
  "clean_chunk [] cur_tag = True"
| "clean_chunk (ev # evs) cur_tag =
     (let (f, tag) = event_fields ev cur_tag
      in ev_sec ev < 2 ^ 32 \<and> set tag \<inter> {9, 10} = {} \<and> set (rf_log f) \<inter> {9, 10} = {} \<and>
         (rf_log f = [] \<or> last (rf_log f) \<noteq> 13) \<and>
         (4094 < length (rf_log f) \<or> length (row_prefix (ev_sec ev) f tag) + length (rf_log f) \<le> 4094) \<and>
         length (rf_log f) < 2 ^ 63 \<and> clean_chunk evs tag)"

lemma dec_clean: "set (dec n) \<inter> {9, 10} = {}"
  using dec_digits [of 9 n] dec_digits [of 10 n] by (auto simp: is_digit_def)

lemma rfc3339_clean: "set (rfc3339 t) \<inter> {9, 10} = {}"
proof -
  have "set (pad2 n) \<inter> {9, 10} = {}" for n using dec_clean [of n] by (auto simp: pad2_def)
  then show ?thesis using dec_clean by (auto simp: rfc3339_def Let_def split: prod.splits)
qed

lemma row_prefix_join:
  "row_prefix sec f tag @ l = join_with 9 [dec (unat (rf_agent_id f)), rfc3339 sec, dec (unat (rf_event_id f)), dec (unat (rf_kind f)), tag, l]"
  by (simp add: row_prefix_def)

lemma chunk_rows_text_columns:
  assumes "clean_chunk evs tag" "length tag \<le> 127"
  shows "tsv_text (chunk_rows evs tag) = concat (map (\<lambda>r. join_with 9 r @ [10]) (chunk_columns evs tag))"
  using assms
proof (induction evs arbitrary: tag)
  case (Cons ev evs)
  obtain f t where ft: "event_fields ev tag = (f, t)" by force
  have lt: "length t \<le> 127" using event_fields_tag [OF Cons.prems(2) ft] .
  have c: "ev_sec ev < 2 ^ 32" "length (rf_log f) < 2 ^ 63" "clean_chunk evs t"
      "4094 < length (rf_log f) \<or> length (row_prefix (ev_sec ev) f t) + length (rf_log f) \<le> 4094"
    using Cons.prems(1) ft by auto
  have m: "row_len (length (row_prefix (ev_sec ev) f t)) (length (rf_log f)) = length (row_prefix (ev_sec ev) f t)"
    using c(2,4) length_row_prefix [OF c(1) lt, of f] by (subst row_len_exact) auto
  have "event_row (ev_sec ev) f t = (row_prefix (ev_sec ev) f t @ rf_log f) @ [10]"
    by (simp add: event_row_def m)
  then show ?case
    using Cons.IH [OF c(3) lt] ft unfolding row_prefix_join by (simp add: tsv_text_def)
qed (simp add: tsv_text_def)

lemma chunk_columns_clean:
  "clean_chunk evs tag \<Longrightarrow> r \<in> set (chunk_columns evs tag) \<Longrightarrow>
   r \<noteq> [] \<and> join_with 9 r \<noteq> [] \<and> last (join_with 9 r) \<noteq> 13 \<and> (\<forall>c \<in> set r. 9 \<notin> set c \<and> 10 \<notin> set c)"
proof (induction evs arbitrary: tag)
  case (Cons ev evs)
  obtain f t where ft: "event_fields ev tag = (f, t)" by force
  let ?r = "[dec (unat (rf_agent_id f)), rfc3339 (ev_sec ev), dec (unat (rf_event_id f)), dec (unat (rf_kind f)), t, rf_log f]"
  have c: "clean_chunk evs t" "set t \<inter> {9, 10} = {}" "set (rf_log f) \<inter> {9, 10} = {}" "rf_log f = [] \<or> last (rf_log f) \<noteq> 13"
    using Cons.prems(1) ft by auto
  have "\<forall>c \<in> set ?r. 9 \<notin> set c \<and> 10 \<notin> set c"
    using c(2,3) dec_clean rfc3339_clean by fastforce
  moreover have "last (join_with 9 ?r) \<noteq> 13" using c(4) by (cases "rf_log f = []") (simp_all add: last_append)
  ultimately show ?case using Cons.prems(2) Cons.IH [OF c(1)] ft by auto
qed simp

lemma chunk_rows_read_back:
  assumes "clean_chunk evs tag" "length tag \<le> 127"
  shows "tsv_rows (tsv_text (chunk_rows evs tag)) = chunk_columns evs tag"
  unfolding chunk_rows_text_columns [OF assms] using chunk_columns_clean [OF assms(1)] by (intro tsv_rows_join) blast



text \<open>
  A tab in a log text is a column separator for the server: the \<open>log\<close> column of the stored row holds
  only the text before the first tab.
\<close>

theorem tab_cuts_log:
  "tsv_rows (tsv_text (chunk_rows [text_event [97, 9, 98]] [116])) = [[dec 7, rfc3339 0, dec 0, dec 0, [116], [97], [98]]]"
proof -
  let ?f = "no_fields\<lparr>rf_agent_id := 7, rf_log := [97, 9, 98]\<rparr>"
  let ?cols = "[dec 7, rfc3339 0, dec 0, dec 0, [116], [97], [98]]"
  have lp: "length (row_prefix 0 ?f [116]) \<le> 195" by (rule length_row_prefix) simp_all
  then have "event_row 0 ?f [116] = row_prefix 0 ?f [116] @ [97, 9, 98] @ [10]"
    using row_len_exact [of 3 "length (row_prefix 0 ?f [116])"] by (simp add: event_row_def numeral_3_eq_3)
  also have "\<dots> = join_with 9 ?cols @ [10]" by (simp add: row_prefix_def no_fields_def)
  finally have "tsv_text (chunk_rows [text_event [97, 9, 98]] [116]) = concat (map (\<lambda>r. join_with 9 r @ [10]) [?cols])"
    unfolding chunk_rows_text by simp
  moreover have "tsv_rows (concat (map (\<lambda>r. join_with 9 r @ [10]) [?cols])) = [?cols]"
    using dec_clean [of 7] dec_clean [of 0] rfc3339_clean [of 0] by (intro tsv_rows_join) auto
  ultimately show ?thesis by simp
qed

section \<open>Retries\<close>

text \<open>
  A flush that fails after some batches were accepted is retried by the engine with the whole
  chunk: a successful retry sends the accepted batches again, so the server stores their rows twice.
\<close>

theorem retry_sends_again:
  assumes "roomy (oe_heap e)" "\<forall>ev \<in> set evs. ev_sec ev < 2 ^ 32" "lx_max_batch_rows ctx < 2 ^ 31"
    and n: "n = (if 0 < lx_max_batch_rows ctx then nat (lx_max_batch_rows ctx) else 8192)"
    and bs: "batches n (chunk_rows evs (asc ''agent_log'')) = b # bs"
    and first: "cb_flush zstd ctx (Some evs) e = Some (st, e1)" "oe_posted e1 = oe_posted e @ p # q # ps"
    and retry: "roomy (oe_heap e1')" "oe_posted e1' = oe_posted e1" "cb_flush zstd ctx (Some evs) e1' = Some (FLB_OK, e2)"
  shows "\<exists>p' ps'. oe_posted e2 = oe_posted e @ p # q # ps @ p' # ps' \<and> carries_batch zstd ctx b p \<and> carries_batch zstd ctx b p'"
proof -
  from cb_flush_flushed [OF assms(1-3) n, of zstd] first obtain k posts where
    "oe_posted e1 = oe_posted e @ posts" "list_all2 (carries_batch zstd ctx) (take k (b # bs)) posts"
    unfolding flushed_def bs by auto
  then have 1: "carries_batch zstd ctx b p" using first(2) by (cases k) (auto simp: list_all2_Cons2)
  from cb_flush_flushed [OF retry(1) assms(2,3) n, of zstd] retry(2,3) obtain posts' where
    2: "oe_posted e2 = oe_posted e1 @ posts'" "list_all2 (carries_batch zstd ctx) (b # bs) posts'"
    unfolding flushed_def bs by auto
  from 2(2) obtain p' ps' where "posts' = p' # ps'" "carries_batch zstd ctx b p'" by (auto simp: list_all2_Cons1)
  with 1 2(1) first(2) show ?thesis by auto
qed

lemma two_rows:
  "chunk_rows [text_event [104], text_event [105]] tag =
     [(7, tag, event_row 0 (no_fields\<lparr>rf_agent_id := 7, rf_log := [104]\<rparr>) tag),
      (7, tag, event_row 0 (no_fields\<lparr>rf_agent_id := 7, rf_log := [105]\<rparr>) tag)]"
proof -
  have "ev_sec (text_event l) = 0" for l by (simp add: text_event_def)
  then show ?thesis by (simp add: event_fields_text)
qed

theorem retry_sends_again_witness:
  "\<exists>st e1 e2 p p' q ps. cb_flush (\<lambda>l. Some) one_row_ctx (Some [text_event [104], text_event [105]])
       (up_env\<lparr>oe_posts := [Response 0 204, Response 0 503]\<rparr>) = Some (st, e1) \<and> st \<noteq> FLB_OK \<and>
     cb_flush (\<lambda>l. Some) one_row_ctx (Some [text_event [104], text_event [105]]) (e1\<lparr>oe_heap := [], oe_posts := []\<rparr>) = Some (FLB_OK, e2) \<and>
     oe_posted e2 = p # q # p' # ps \<and>
     carries_batch (\<lambda>l. Some) one_row_ctx (chunk_rows [text_event [104]] (asc ''agent_log'')) p \<and>
     carries_batch (\<lambda>l. Some) one_row_ctx (chunk_rows [text_event [104]] (asc ''agent_log'')) p'"
proof -
  let ?evs = "[text_event [104], text_event [105]]" and ?e = "up_env\<lparr>oe_posts := [Response 0 204, Response 0 503]\<rparr>"
  let ?b = "chunk_rows [text_event [104]] (asc ''agent_log'')"
  obtain b2 where bs: "batches 1 (chunk_rows ?evs (asc ''agent_log'')) = ?b # [b2]"
    unfolding two_rows chunk_rows_text by (simp add: batches.simps)
  have p: "roomy (oe_heap ?e)" "\<forall>ev \<in> set ?evs. ev_sec ev < 2 ^ 32" "lx_max_batch_rows one_row_ctx < 2 ^ 31"
      "1 = (if 0 < lx_max_batch_rows one_row_ctx then nat (lx_max_batch_rows one_row_ctx) else 8192)"
    by (simp_all add: up_env_def text_event_def one_row_ctx_def)
  from cb_flush_flushed [OF p, of "\<lambda>l. Some", unfolded bs flushed_def] obtain st e1 k posts where
    f: "cb_flush (\<lambda>l. Some) one_row_ctx (Some ?evs) ?e = Some (st, e1)" "oe_posted e1 = oe_posted ?e @ posts"
      "list_all2 (carries_batch (\<lambda>l. Some) one_row_ctx) (take k [?b, b2]) posts"
      "st \<noteq> FLB_OK" "k = 2"
    by (auto simp: accepted_def requested_def up_env_def)
  from f(3,5) obtain p1 p2 where pp: "posts = [p1, p2]" by (auto simp: list_all2_Cons1)
  let ?e1 = "e1\<lparr>oe_heap := [], oe_posts := []\<rparr>"
  have p': "roomy (oe_heap ?e1)" "oe_posted ?e1 = oe_posted e1" by simp_all
  from cb_flush_flushed [OF p'(1) p(2-4), of "\<lambda>l. Some", unfolded bs flushed_def] obtain e2 where
    g: "cb_flush (\<lambda>l. Some) one_row_ctx (Some ?evs) ?e1 = Some (FLB_OK, e2)" by auto
  have f2: "oe_posted e1 = oe_posted ?e @ p1 # p2 # []" using f(2) pp by simp
  from retry_sends_again [OF p bs f(1) f2 p' g] obtain p3 ps where
    "oe_posted e2 = oe_posted ?e @ p1 # p2 # [] @ p3 # ps"
    "carries_batch (\<lambda>l. Some) one_row_ctx ?b p1" "carries_batch (\<lambda>l. Some) one_row_ctx ?b p3" by blast
  moreover have "oe_posted ?e = []" by (simp add: up_env_def)
  ultimately show ?thesis using f(1,4) g by (metis append_Nil)
qed

section \<open>Configuration\<close>

text \<open>
  The endpoint configuration: a URL of a scheme (\<open>http://\<close> or \<open>https://\<close> or none), a host name
  without colon and slash of at most 255 bytes, a port and an optional path gives that host and port.
\<close>

theorem ingest_url_parsed:
  assumes "scheme \<in> {asc ''http://'', asc ''https://''}" "set host \<inter> {47, 58} = {}" "length host \<le> 255"
    and "port < 2 ^ 31" "path = [] \<or> hd path = 47"
  shows "parse_ingest_url (scheme @ host @ [58] @ dec port @ path) = (host, int port)"
proof -
  let ?s = "host @ 58 # dec port @ path"
  have strip: "strip_scheme (scheme @ ?s) = ?s"
    using assms(1) by (auto simp: strip_scheme_def asc_def of_char_def)
  have tw: "takeWhile (\<lambda>c. c \<noteq> 58) ?s = host" using assms(2) by (subst takeWhile_append_stop) auto
  have "takeWhile (\<lambda>c. c \<noteq> 47) host = host" using assms(2) by (auto simp: takeWhile_eq_all_conv)
  moreover have "sint (atoi (dec port @ path)) = int port"
    using assms(4,5) by (intro atoi_prefix) (auto simp: is_digit_def)
  ultimately show ?thesis
    using strip tw assms(3) by (simp add: parse_ingest_url_def Let_def)
qed

theorem ingest_url_parsed_witness:
  "parse_ingest_url (asc ''http://'' @ asc ''ingest'' @ [58] @ dec 18090 @ [47, 120]) = (asc ''ingest'', 18090)"
  using ingest_url_parsed [of "asc ''http://''" "asc ''ingest''" 18090 "[47, 120]"] by (simp add: asc_def of_char_def)

end
