(* ===== verification/Pipeline.thy ===== *)
theory Pipeline
  imports Agent_Client_Thms Gw_Thms Out_Log_Thms
begin

text \<open>
  The log path across the components: what the agent sends, what the gateway makes of it, and what the
  ingest endpoint reads.
\<close>

section \<open>From the agent's message to the server's row\<close>

text \<open>
  A record of the input plugin as the output plugin sees it. Between the two lies the engine: its encoder
  writes strings and unsigned integers to MessagePack and its decoder yields them back.
\<close>

definition engine_event :: "nat \<Rightarrow> log_record \<Rightarrow> log_event" where
  "engine_event sec r = \<lparr>ev_sec = sec,
     ev_body = Some (map (\<lambda>(k, v). (MP_str k, case v of Str s \<Rightarrow> MP_str s | UInt n \<Rightarrow> MP_uint n)) r)\<rparr>"

lemma byte_back: "ucast (ucast (k :: byte) :: u64) = k"
  by transfer simp

lemma tagged_record_fields:
  assumes "tagged conn"
  shows "event_fields (engine_event sec (wzcp_record conn h kind eid payload)) tag =
     (\<lparr>rf_agent_id = ucast (wh_agent_id h), rf_event_id = eid, rf_kind = kind, rf_log = payload\<rparr>, asc ''agent_wzcp'')"
  using assms
  by (simp add: event_fields_def engine_event_def wzcp_record_def take_field_def tagged_def no_fields_def asc_def of_char_def
      cstr_of_def byte_back)

text \<open>The heartbeat mark that precedes an event batch leaves the log path alone.\<close>

lemma mark_heartbeat_log:
  assumes "agent_state_mark_heartbeat a g = Some g'"
  shows "gx_encoder_ok g' = gx_encoder_ok g \<and> gx_appended g' = gx_appended g"
proof -
  obtain now g1 where t: "now_sec g = (now, g1)" by force
  obtain found g2 where f: "agent_state_get a False g1 = Some (found, g2)"
    using assms t by (cases "agent_state_get a False g1") (auto simp: agent_state_mark_heartbeat_def)
  obtain now2 g12 where t2: "now_sec g1 = (now2, g12)" by force
  have "g2 = g12" using f t2 by (auto simp: agent_state_get_def bind_eq_Some_conv split: option.splits)
  then have q: "quiet g g2" using quiet_trans [OF quiet_now_sec [OF t] quiet_now_sec [OF t2]] by simp
  show ?thesis
  proof (cases found)
    case None
    with assms t f q quiet_fields(4,8) [OF q] show ?thesis by (simp add: agent_state_mark_heartbeat_def)
  next
    case (Some k)
    then obtain st where "g' = post_agent_event ''heartbeat'' (Some a) (update_agent k st g2)"
      using assms t f by (auto simp: agent_state_mark_heartbeat_def Let_def)
    then show ?thesis
      using quiet_fields(4,8) [OF q] quiet_fields(4,8) [OF quiet_post [of "update_agent k st g2"]] by (simp add: update_agent_def)
  qed
qed

lemma send_ack_undisturbed:
  assumes "send_ack conn sq g = (rc, c', g')" "sk_wr (cn_sock conn) = []"
  shows "rc = 0 \<and> sk_wr (cn_sock c') = []"
  using assms by (auto simp: send_ack_def send_frame_def Let_def write_all_send_all send_all_unscripted split: prod.splits if_splits)

lemma event_dispatched:
  assumes "registry_ok g" "gx_encoder_ok g = []" "wh_msg_type h = MSG_EVENT_BATCH"
    and "body_ok (event_body kind payload ms eid) (wh_body_len h)" "length payload \<le> 0xffff"
  shows "\<exists>rc sk g'. dispatch_frame conn h (event_body kind payload ms eid) g = Some (rc, conn\<lparr>cn_sock := sk\<rparr>, g') \<and>
     gx_appended g' = gx_appended g @ [[wzcp_record conn h kind eid payload]] \<and> gx_encoder_ok g' = [] \<and> registry_ok g' \<and>
     (sk_wr (cn_sock conn) = [] \<longrightarrow> rc = 0 \<and> sk_wr sk = [])"
proof -
  obtain g1 where g1: "(case cn_agent_key conn of Some k \<Rightarrow> agent_state_mark_heartbeat k g | None \<Rightarrow> Some g) = Some g1"
    "gx_encoder_ok g1 = []" "gx_appended g1 = gx_appended g"
  proof (cases "cn_agent_key conn")
    case (Some k)
    from mark_heartbeat_keeps [OF assms(1), of k] obtain g1 where "agent_state_mark_heartbeat k g = Some g1" by blast
    with Some mark_heartbeat_log [OF this] assms(2) that show ?thesis by simp
  qed (use assms(2) that in simp)
  let ?b = "event_body kind payload ms eid"
  obtain rc c' g' where s: "send_ack conn (wh_seq h) (g1\<lparr>gx_encoder := [wzcp_record conn h kind eid payload],
       gx_appended := gx_appended g1 @ [[wzcp_record conn h kind eid payload]]\<rparr>) = (rc, c', g')" by (cases "send_ack conn (wh_seq h) (g1\<lparr>gx_encoder := [wzcp_record conn h kind eid payload],
       gx_appended := gx_appended g1 @ [[wzcp_record conn h kind eid payload]]\<rparr>)")
  note p = send_frame_props [OF s [unfolded send_ack_def]]
  have g': "gx_appended g' = gx_appended g1 @ [[wzcp_record conn h kind eid payload]]" "gx_encoder_ok g' = []"
    using quiet_fields(4,8) [OF p(1)] g1(2) by simp_all
  from p(2) obtain sk where c': "c' = conn\<lparr>cn_sock := sk\<rparr>" by blast
  have d: "dispatch_frame conn h ?b g = Some (rc, conn\<lparr>cn_sock := sk\<rparr>, g')"
    using g1 s c' event_accepted [OF assms(4,5) g1(2)] assms(3) by (simp add: dispatch_frame_def)
  have "registry_ok g'" using dispatch_frame_handled [OF assms(1,4), of conn] d by (auto simp: handled_def)
  moreover have "sk_wr (cn_sock conn) = [] \<longrightarrow> rc = 0 \<and> sk_wr sk = []" using send_ack_undisturbed [OF s] c' by simp
  ultimately show ?thesis using d g' g1(3) by auto
qed


lemma send_frame_undisturbed:
  "xsiam_wzcp_send_frame sk ty aid sq body n ts = Some (rc, sk') \<Longrightarrow> sk_wr sk = [] \<Longrightarrow> unat n \<le> WZCP_MAX_FRAME \<Longrightarrow> rc = 0"
  by (auto simp: xsiam_wzcp_send_frame_def send_all_unscripted Let_def bind_eq_Some_conv word_less_nat_alt split: if_splits prod.splits)

lemma send_msg_undisturbed:
  assumes "length msg \<le> 0xffff" "cstring msg" "sk_wr (ag_sock a) = []"
  shows "\<exists>a'. send_msg msg (-1) a = Some (0, a')"
proof -
  obtain t a1 where t: "now_ms a = (t, a1)" by force
  note f = now_ms_frame [OF t]
  have pk: "peek msg 0 (length (cstr_of msg)) = Some msg" using assms(2) by (simp add: peek_def)
  obtain body where b: "xsiam_wzcp_build_event_batch (replicate (OS_MAXSTR + 128) 0) (of_nat (OS_MAXSTR + 128))
        EVENT_LOG msg (of_nat t) (ag_seq a1) = Some (22 + int (length msg), body, ag_seq a1 + 1)" "length body = 65664"
    using event_batch_writes [of msg "replicate (OS_MAXSTR + 128) 0" "of_nat (OS_MAXSTR + 128)" EVENT_LOG "of_nat t" "ag_seq a1"]
      assms(1) maxstr_room by auto
  let ?bl = "word_of_int (22 + int (length msg)) :: u32" and ?a2 = "a1\<lparr>ag_seq := ag_seq a1 + 1\<rparr>"
  have ubl: "unat ?bl = 22 + length msg"
    using assms(1) unat_of_nat_small [where 'a = 32, of "22 + length msg"] by simp
  obtain rc a3 where s: "send_wzcp MSG_EVENT_BATCH (atoi (ag_key_id ?a2)) body ?bl ?a2 = Some (rc, a3)"
    using send_wzcp_outcome [of ?bl body MSG_EVENT_BATCH "atoi (ag_key_id ?a2)" ?a2] ubl b(2) assms(1) by (auto simp: WZCP_MAX_FRAME_def)
  obtain t3 a4 where t3: "now_ms (?a2\<lparr>ag_seq := ag_seq ?a2 + 1\<rparr>) = (t3, a4)" by force
  have "ag_sock a4 = ag_sock a" using now_ms_frame [OF t3] f by simp
  with s t3 obtain sk where "xsiam_wzcp_send_frame (ag_sock a) MSG_EVENT_BATCH (atoi (ag_key_id ?a2)) (ag_seq ?a2 + 1) body ?bl (of_nat t3) = Some (rc, sk)"
    by (auto simp: send_wzcp_def xsiam_wzcp_next_seq_def Let_def bind_eq_Some_conv)
  from send_frame_undisturbed [OF this assms(3)] ubl assms(1) have "rc = 0" by (simp add: WZCP_MAX_FRAME_def)
  with t pk b(1) s show ?thesis unfolding send_msg_def Let_def by simp
qed


section \<open>The handshake\<close>

text \<open>
  (C11) Agent and gateway complete the handshake: the HELLO body of the agent library, within the limits of
  the gateway's arrays, registers the agent as connected under its id, with its name, version and MAC
  addresses; and when the acknowledgement goes out whole, an agent whose connection delivers it
  reports success.
\<close>

theorem hello_handshake_completes:
  assumes g: "registry_ok g" and h: "wh_msg_type h = MSG_HELLO"
    and b: "body_ok (hello_ex_body (Some aid) (Some name) (Some ver) (Some ht) (Some macs)) (wh_body_len h)"
    and fits: "hello_fits aid name ver ht (macs_of_csv (Some macs))" "aid \<noteq> []"
  shows "\<exists>rc conn' g' st ack.
     dispatch_frame conn h (hello_ex_body (Some aid) (Some name) (Some ver) (Some ht) (Some macs)) g = Some (rc, conn', g') \<and>
     registry_ok g' \<and> connected g' = (connected g)(aid \<mapsto> True) \<and> registry g' aid = Some st \<and>
     st_hostname st = Some (non_empty_or (Some name) aid) \<and>
     st_agent_version st = Some (non_empty_or (Some ver) (asc ''unknown'')) \<and>
     st_mac_addresses_json st = Some (mac_json (macs_of_csv (Some macs))) \<and> cn_agent_key conn' = Some aid \<and>
     (rc = 0 \<longrightarrow> sk_out (cn_sock conn') = sk_out (cn_sock conn) @ ack \<and>
        (\<forall>a. short_texts a \<and> length (agent_hello a) \<le> 2048 \<and> sk_in (ag_sock a) = ack \<and> sk_rd (ag_sock a) = [] \<and> sk_wr (ag_sock a) = []
           \<longrightarrow> (\<exists>a'. greet a = Some (True, a'))))"
proof -
  let ?b = "put_be16 2 @ put_be16 0 @ str16 aid @ str16 name @ str16 ver @ str16 ht @ mac_list (macs_of_csv (Some macs))"
  have e: "hello_ex_body (Some aid) (Some name) (Some ver) (Some ht) (Some macs) = ?b"
    by (simp add: hello_ex_body_def opt_str_def)
  from hello_accepted [OF g b [unfolded e] fits(2,1), of conn] obtain rc conn' g' st ts k where
    p: "process_hello conn h ?b g = Some (rc, conn', g')" "registry_ok g'" "registry g' = (registry g)(aid \<mapsto> st)"
      "seen_entry aid (Some name) (Some ver) (if ht \<noteq> [] then Some ht else None) (Some (mac_json (macs_of_csv (Some macs)))) st"
      "cn_agent_key conn' = Some aid"
      "only_writes (cn_sock conn) (take k (frame_of (sent_header MSG_ACK 0 (wh_seq h) ts 8) (put_be64 (wh_seq h)))) (cn_sock conn')"
      "rc = 0 \<and> k = 44 \<or> rc = -1 \<and> k < 44" by blast
  let ?ack = "frame_of (sent_header MSG_ACK 0 (wh_seq h) ts 8) (put_be64 (wh_seq h))"
  have ok: "header_ok (sent_header MSG_ACK 0 (wh_seq h) ts 8)" by (rule header_ok_sent) (simp add: WZCP_MAX_FRAME_def)
  have good: "good_gateway sk" if "sk_in sk = ?ack" "sk_rd sk = []" "sk_wr sk = []" for sk
    unfolding good_gateway_def
    using that ok by (intro conjI exI [of _ "sent_header MSG_ACK 0 (wh_seq h) ts 8"] exI [of _ "put_be64 (wh_seq h)"] exI [of _ "[]"])
      (simp_all add: sent_header_def)
  have greets: "\<exists>a'. greet a = Some (True, a')"
    if "short_texts a" "length (agent_hello a) \<le> 2048" "sk_in (ag_sock a) = ?ack" "sk_rd (ag_sock a) = []" "sk_wr (ag_sock a) = []" for a
    using greet_good_gateway [OF that(1) good [OF that(3-5)] that(2)] by blast
  have d: "dispatch_frame conn h ?b g = Some (rc, conn', g')" using p(1) h by (simp add: dispatch_frame_def)
  have out: "rc = 0 \<Longrightarrow> sk_out (cn_sock conn') = sk_out (cn_sock conn) @ ?ack" using p(6,7) by (auto simp: only_writes_def)
  have "connected g' = (connected g)(aid \<mapsto> True)" "registry g' aid = Some st" "st_hostname st = Some (non_empty_or (Some name) aid)"
    "st_agent_version st = Some (non_empty_or (Some ver) (asc ''unknown''))"
    "st_mac_addresses_json st = Some (mac_json (macs_of_csv (Some macs)))"
    using connected_update [OF p(3)] p(3,4) by (simp_all add: seen_entry_def)
  with d p(2,5) out greets show ?thesis unfolding e by blast
qed

theorem hello_handshake_completes_witness:
  "\<exists>rc conn' g'. dispatch_frame (session 1 None) (sent_header MSG_HELLO 1 1 0 18)
     (hello_ex_body (Some [65]) (Some [104]) (Some [118]) (Some [112]) (Some [])) gw_idle = Some (rc, conn', g') \<and> connected g' [65] = Some True"
proof -
  have m: "macs_of_csv (Some []) = []" by code_simp
  have "body_ok (hello_ex_body (Some [65]) (Some [104]) (Some [118]) (Some [112]) (Some [])) (wh_body_len (sent_header MSG_HELLO 1 1 0 18))"
    by (simp add: body_ok_def hello_ex_body_def opt_str_def m mac_list_def sent_header_def WZCP_MAX_FRAME_def)
  moreover have "hello_fits [65] [104] [118] [112] (macs_of_csv (Some []))" by (simp add: hello_fits_def m)
  ultimately show ?thesis
    using hello_handshake_completes [OF gw_idle_ok(2), of "sent_header MSG_HELLO 1 1 0 18" "[65]" "[104]" "[118]" "[112]" "[]" "session 1 None"]
    by (auto simp: sent_header_def)
qed

end
