(* ===== verification/Gw_Syslog.thy ===== *)
theory Gw_Syslog
  imports Gw_Thms Ingest_Rows
begin

text \<open>
  The syslog side of the gateway: the records that a buffer of lines becomes, what is left in the buffer,
  and which texts are taken for syslog at all.
\<close>

section \<open>Lines\<close>

text \<open>
  The record of a complete line: a CR at its end is dropped, an empty line gives none, and the length of
  the text is taken modulo 2 ^ 16.
\<close>

definition chop_cr :: "bytes \<Rightarrow> bytes" where
  "chop_cr l = (if l \<noteq> [] \<and> last l = 13 then butlast l else l)"

definition line_records :: "xsiam_agent_conn \<Rightarrow> bytes \<Rightarrow> log_record list" where
  "line_records conn l =
     (let t = chop_cr l in if t = [] then [] else [syslog_record conn (take (length t mod 65536) t)])"

lemma chopped_length:
  assumes "l \<noteq> []"
  shows "(if 0 < length l \<and> l ! (length l - 1) = 13 then length l - 1 else length l) = length (chop_cr l)"
    "take (length (chop_cr l)) l = chop_cr l"
  using assms by (simp_all add: chop_cr_def last_conv_nth butlast_conv_take)

lemma split_on_from_nonempty: "split_on_from sep acc s \<noteq> []"
  by (induction s arbitrary: acc) auto

lemma length_last_split: "length (last (split_on_from sep acc s)) \<le> length acc + length s"
proof (induction s arbitrary: acc)
  case (Cons c cs)
  from Cons.IH [of "[]"] Cons.IH [of "acc @ [c]"] show ?case by (auto simp: split_on_from_nonempty)
qed simp

lemma append_line:
  assumes "gx_encoder_ok g = []" "drop ls buf = l @ rest" "0 < length (chop_cr l)"
  shows "append_syslog_record conn (drop ls buf) (of_nat (length (chop_cr l))) g =
     Some (0, g\<lparr>gx_encoder := gx_encoder g @ line_records conn l\<rparr>)"
proof -
  let ?n = "length (chop_cr l)"
  have l: "l \<noteq> []" using assms(3) by (auto simp: chop_cr_def)
  have n: "unat (of_nat ?n :: u16) = ?n mod 65536" by (simp add: unsigned_of_nat take_bit_eq_mod)
  have le: "?n mod 65536 \<le> ?n" "?n \<le> length l" by (simp_all add: chop_cr_def)
  have "take (?n mod 65536) (l @ rest) = take (?n mod 65536) (take ?n l)"
    using le by (simp add: min_def)
  then have "peek (drop ls buf) 0 (?n mod 65536) = Some (take (?n mod 65536) (chop_cr l))"
    unfolding assms(2) chopped_length(2) [OF l] using le by (simp add: peek_def)
  then show ?thesis
    using assms(1,3) by (auto simp: append_syslog_record_def n encode_record_def line_records_def Let_def)
qed

lemma line_len:
  assumes "ls \<le> i" "i \<le> length b"
  shows "(if 0 < i - ls \<and> b ! (ls + (i - ls) - 1) = 13 then i - ls - 1 else i - ls) = length (chop_cr (take (i - ls) (drop ls b)))"
proof (cases "i = ls")
  case False
  define cur where "cur = take (i - ls) (drop ls b)"
  have l: "length cur = i - ls" using assms by (simp add: cur_def)
  with False assms(1) have "cur \<noteq> []" by auto
  moreover have "b ! (ls + length cur - 1) = cur ! (length cur - 1)" using False assms by (simp add: cur_def)
  moreover have "take (length cur) (drop ls b) = cur" using assms by (simp add: cur_def)
  ultimately show ?thesis unfolding l [symmetric] using chopped_length(1) [of cur] by simp
qed (simp add: chop_cr_def)

lemma line_rest: "ls \<le> i \<Longrightarrow> drop ls b = take (i - ls) (drop ls b) @ drop i b"
  using append_take_drop_id [of "i - ls" "drop ls b"] by simp

lemma syslog_loop_lines:
  assumes "n + i = length (cn_buf conn)" "ls \<le> i" "gx_encoder_ok g = []"
  defines "ps \<equiv> split_on_from 10 (take (i - ls) (drop ls (cn_buf conn))) (drop i (cn_buf conn))"
  shows "syslog_loop conn n i ls ls g = Some (int (length (cn_buf conn) - length (last ps)),
     g\<lparr>gx_encoder := gx_encoder g @ concat (map (line_records conn) (butlast ps))\<rparr>)"
  using assms(1-3) unfolding ps_def
proof (induction n arbitrary: i ls g)
  case 0
  then show ?case by simp
next
  case (Suc n)
  let ?b = "cn_buf conn" and ?cur = "take (i - ls) (drop ls (cn_buf conn))"
  have i: "i < length ?b" using Suc.prems(1) by simp
  have d: "drop i ?b = ?b ! i # drop (i + 1) ?b" using i by (simp add: Cons_nth_drop_Suc)
  have cur: "take (i + 1 - ls) (drop ls ?b) = ?cur @ [?b ! i]"
    using i Suc.prems(2) by (simp add: Suc_diff_le take_Suc_conv_app_nth)
  show ?case
  proof (cases "?b ! i = 10")
    case False
    from Suc.IH [of "i + 1" ls g] Suc.prems False show ?thesis unfolding d cur by simp
  next
    case True
    note len = line_len [OF Suc.prems(2) less_imp_le [OF i]]
    have rest: "drop ls ?b = ?cur @ drop i ?b" using Suc.prems(2) by (rule line_rest)
    let ?g1 = "g\<lparr>gx_encoder := gx_encoder g @ line_records conn ?cur\<rparr>"
    have step: "syslog_loop conn (Suc n) i ls ls g = syslog_loop conn n (i + 1) (i + 1) (i + 1) ?g1"
    proof (cases "0 < length (chop_cr ?cur)")
      case T: True
      from append_line [OF Suc.prems(3) rest T, of conn] T True show ?thesis
        by (simp only: syslog_loop.simps len Let_def) simp
    next
      case False
      then have "line_records conn ?cur = []" by (simp add: line_records_def)
      with False True show ?thesis by (simp only: syslog_loop.simps len Let_def) simp
    qed
    from Suc.IH [of "i + 1" "i + 1" ?g1] Suc.prems
    show ?thesis unfolding step d using True by (simp add: split_on_from_nonempty)
  qed
qed

text \<open>
  (C27) A buffer of syslog text becomes one record per non-empty complete line, in order, with the CR at the
  end of a line dropped; the bytes after the last newline stay in the buffer. A line is recorded in full
  when it is shorter than 64 KB, and otherwise only the first bytes up to its length modulo 2 ^ 16.
\<close>

theorem syslog_lines_recorded:
  assumes "gx_encoder_ok g = []"
  shows "\<exists>g'. process_syslog_lines conn g = Some (int (length (cn_buf conn) - length (last (split_on 10 (cn_buf conn)))), g') \<and>
     concat (gx_appended g') = concat (gx_appended g) @ concat (map (line_records conn) (butlast (split_on 10 (cn_buf conn))))"
proof -
  let ?g = "g\<lparr>gx_encoder := []\<rparr>"
  from syslog_loop_lines [of "length (cn_buf conn)" 0 conn 0 ?g] assms have
    "syslog_loop conn (length (cn_buf conn)) 0 0 0 ?g = Some (int (length (cn_buf conn) - length (last (split_on 10 (cn_buf conn)))),
     ?g\<lparr>gx_encoder := concat (map (line_records conn) (butlast (split_on 10 (cn_buf conn))))\<rparr>)"
    by (simp add: split_on_def)
  then show ?thesis by (simp add: process_syslog_lines_def flush_encoder_def)
qed

theorem syslog_lines_recorded_witness:
  "\<exists>g'. process_syslog_lines ((session 1 None)\<lparr>cn_buf := [60, 49, 62, 97, 13, 10, 10, 98]\<rparr>) gw_idle = Some (7, g') \<and>
     concat (gx_appended g') = [syslog_record ((session 1 None)\<lparr>cn_buf := [60, 49, 62, 97, 13, 10, 10, 98]\<rparr>) [60, 49, 62, 97]]"
  using syslog_lines_recorded [of gw_idle "(session 1 None)\<lparr>cn_buf := [60, 49, 62, 97, 13, 10, 10, 98]\<rparr>"]
  by (simp add: gw_idle_def split_on_def line_records_def chop_cr_def)

section \<open>Classification\<close>

lemma scan_text_line_free: "10 \<notin> set cs \<Longrightarrow> \<not> scan_text n cs"
proof (induction n arbitrary: cs)
  case (Suc n)
  then show ?case by (cases cs) auto
qed simp

text \<open>
  A syslog line without a priority must be complete by the time 36 bytes of it have been read: 36 or
  more bytes of text that do not begin with \<open><\<close>, a digit and another byte, and that have no newline yet,
  are neither protocol, and the connection is closed without a record.
\<close>

theorem unfinished_line_disconnects:
  assumes "36 \<le> length (cn_buf conn)" "10 \<notin> set (cn_buf conn)" "cn_buf conn ! 0 \<noteq> 60"
    and "be32_at (cn_buf conn) 4 \<noteq> Some WZCP_MAGIC"
  shows "process_buffer conn g = Some (-1, conn, g)"
proof -
  obtain n m where "be32_at (cn_buf conn) 0 = Some n" "be32_at (cn_buf conn) 4 = Some m"
    using assms(1) by (auto simp: be32_at_def peek_def)
  then have "looks_like_wzcp (cn_buf conn) = Some False" using assms(1,4) by (auto simp: looks_like_wzcp_def)
  moreover have "\<not> looks_like_syslog (cn_buf conn)"
    using assms(1-3) scan_text_line_free [OF assms(2)] by (simp add: looks_like_syslog_def)
  ultimately show ?thesis using assms(1) by (simp add: process_buffer_def)
qed

theorem unfinished_line_disconnects_witness:
  "process_buffer ((session 1 None)\<lparr>cn_buf := replicate 40 97\<rparr>) gw_idle = Some (-1, (session 1 None)\<lparr>cn_buf := replicate 40 97\<rparr>, gw_idle)"
proof (rule unfinished_line_disconnects)
  have "get_be32 (replicate 4 97) \<noteq> WZCP_MAGIC" by code_simp
  then show "be32_at (cn_buf ((session 1 None)\<lparr>cn_buf := replicate 40 97\<rparr>)) 4 \<noteq> Some WZCP_MAGIC"
    by (simp add: be32_at_def peek_def)
qed simp_all

end
