(* ===== verification/Gw_Json.thy ===== *)
theory Gw_Json
  imports Gw_Conn
begin

text \<open>
  JSON text of the gateway. \<open>json_string\<close> is a reader for JSON string literals (RFC 8259, with the
  escapes that the plugin writes); it serves as the specification of \<open>json_escape_append\<close>: whatever the
  value, the literal ends where it should and reads back as the value.
\<close>

section \<open>Reading a string literal\<close>

definition hex_value :: "byte \<Rightarrow> nat option" where
  "hex_value c =
     (if 48 \<le> c \<and> c \<le> 57 then Some (unat c - 48)
      else if 97 \<le> c \<and> c \<le> 102 then Some (unat c - 87)
      else if 65 \<le> c \<and> c \<le> 70 then Some (unat c - 55)
      else None)"

definition simple_escape :: "byte \<Rightarrow> byte option" where
  "simple_escape c =
     (if c = 92 then Some 92 else if c = 34 then Some 34 else if c = 47 then Some 47
      else if c = 110 then Some 10 else if c = 114 then Some 13 else if c = 116 then Some 9
      else if c = 98 then Some 8 else if c = 102 then Some 12 else None)"

text \<open>
  The value and the text after the closing quote. A raw control character is not allowed; escapes of
  code points beyond one byte are not read.
\<close>

fun json_string :: "bytes \<Rightarrow> (bytes \<times> bytes) option" where
  "json_string [] = None"
| "json_string (c # cs) =
     (if c = 34 then Some ([], cs)
      else if c < 32 then None
      else if c \<noteq> 92 then map_option (\<lambda>(v, r). (c # v, r)) (json_string cs)
      else case cs of
        [] \<Rightarrow> None
      | e # es \<Rightarrow>
          (case simple_escape e of
             Some b \<Rightarrow> map_option (\<lambda>(v, r). (b # v, r)) (json_string es)
           | None \<Rightarrow>
               (case es of
                  z1 # z2 # h1 # h2 # rest \<Rightarrow>
                    (if e = 117 \<and> z1 = 48 \<and> z2 = 48 then
                       (case (hex_value h1, hex_value h2) of
                          (Some a, Some b) \<Rightarrow> map_option (\<lambda>(v, r). (of_nat (16 * a + b) # v, r)) (json_string rest)
                        | _ \<Rightarrow> None)
                     else None)
                | _ \<Rightarrow> None)))"

section \<open>Escaping is undone by reading\<close>

lemma hex_value_lower: "unat d < 16 \<Longrightarrow> hex_value (hex_lower d) = Some (unat d)"
proof -
  assume d: "unat d < 16"
  show ?thesis
  proof (cases "d < 10")
    case True
    then have "unat d < 10" by (simp add: word_less_nat_alt)
    then have "unat (48 + d) = 48 + unat d" using unat_plus_small [of 48 d] by simp
    with True \<open>unat d < 10\<close> show ?thesis by (simp add: hex_value_def hex_lower_def word_le_nat_alt)
  next
    case False
    then have "10 \<le> unat d" by (simp add: word_less_nat_alt)
    moreover have "unat (87 + d) = 87 + unat d" using unat_plus_small [of 87 d] d by simp
    ultimately show ?thesis using False d by (simp add: hex_value_def hex_lower_def word_le_nat_alt)
  qed
qed

lemma nibbles:
  "unat (drop_bit 4 (c :: byte)) < 16" "unat (c AND 15) < 16" "of_nat (16 * unat (drop_bit 4 c) + unat (c AND 15)) = c"
proof -
  have u: "unat c < 256" using unsigned_less [of c, where 'a = nat] by simp
  have d: "unat (drop_bit 4 c) = unat c div 16" unfolding unat_drop_bit_eq by (simp add: drop_bit_eq_div)
  have "c AND 15 = take_bit 4 c" by (simp add: take_bit_eq_mask mask_eq_exp_minus_1)
  then have "unat (c AND 15) = take_bit 4 (unat c)" by (simp only: unsigned_take_bit_eq)
  then have m: "unat (c AND 15) = unat c mod 16" by (simp add: take_bit_eq_mod)
  show "unat (drop_bit 4 c) < 16" "unat (c AND 15) < 16" using u d m by auto
  have "16 * unat (drop_bit 4 c) + unat (c AND 15) = unat c" unfolding d m by simp
  then show "of_nat (16 * unat (drop_bit 4 c) + unat (c AND 15)) = c" by simp
qed

lemma json_string_escape_byte:
  "json_string (json_escape_byte c @ rest) = map_option (\<lambda>(v, r). (c # v, r)) (json_string rest)"
proof (cases "c = 92 \<or> c = 34 \<or> c = 10 \<or> c = 13 \<or> c = 9")
  case True
  then show ?thesis by (auto simp: json_escape_byte_def simple_escape_def)
next
  case False
  show ?thesis
  proof (cases "c < 32")
    case True
    have "json_escape_byte c = [92, 117, 48, 48, hex_lower (drop_bit 4 c), hex_lower (c AND 15)]"
      using True False by (simp add: json_escape_byte_def hex2_def asc_def of_char_def)
    then show ?thesis
      using nibbles [of c] by (simp add: simple_escape_def hex_value_lower del: of_nat_add of_nat_mult)
  qed (use False in \<open>simp add: json_escape_byte_def\<close>)
qed

lemma json_string_escape: "json_string (json_escape s @ 34 # rest) = Some (s, rest)"
  by (induction s) (simp_all add: json_escape_def json_string_escape_byte)

end
