(* ===== verification/Gw_Arango.thy ===== *)
theory Gw_Arango
  imports Gw_Registry Gw_Json
begin

text \<open>
  The gateway input plugin, third part: the batched upload of agent states to ArangoDB
  (\<^verbatim>\<open>gateway/plugins/in_xsiam_agent/xsiam_agent_arango.c\<close>).

  \<open>arango_link\<close> is the database side of the plugin context: the switch \<open>db_sync\<close>, whether the
  upstream exists, the database name, the scripted outcomes of the HTTP exchanges, and the payloads
  posted with their URI. Growing a string is taken to succeed, as in the other parts.
\<close>

section \<open>State\<close>

datatype db_outcome = Db_No_Connection | Db_No_Client | Db_Response int int

record arango_link =
  al_db_sync :: bool
  al_upstream :: bool
  al_database :: bytes
  al_outcomes :: "db_outcome list"
  al_posted :: "(bytes \<times> bytes) list"

section \<open>Documents\<close>

text \<open>A literal of the source, with a backquote for the double quote.\<close>

definition jlit :: "string \<Rightarrow> bytes" where
  "jlit s = map (\<lambda>b. if b = 96 then 34 else b) (asc s)"

definition json_string_field :: "string \<Rightarrow> bytes option \<Rightarrow> bytes" where
  "json_string_field name v =
     [34] @ asc name @ [34, 58, 34] @ json_escape (case v of Some s \<Rightarrow> s | None \<Rightarrow> []) @ [34]"

definition json_time_field :: "string \<Rightarrow> nat \<Rightarrow> bytes" where
  "json_time_field name t = json_string_field name (Some (rfc3339 t))"

text \<open>The document of an agent, with the device key and the address list as they are at hand.\<close>

definition doc_json :: "bytes \<Rightarrow> bytes \<Rightarrow> xsiam_agent_state \<Rightarrow> bytes" where
  "doc_json key macs st =
     [123] @ json_string_field ''_key'' (Some key) @ [44] @
     json_string_field ''device_id'' (Some key) @ [44] @
     json_string_field ''tenant_id'' (st_tenant_id st) @ [44] @
     json_string_field ''agent_id'' (st_agent_id st) @ [44] @
     json_string_field ''gateway_id'' (st_gateway_id st) @ [44] @
     json_string_field ''hostname'' (st_hostname st) @ [44] @
     json_string_field ''host_type'' (st_host_type st) @ [44] @
     json_string_field ''ip'' (st_ip st) @
     jlit '',`ip_addresses`:[],`mac_addresses`:'' @ macs @ [44] @
     json_string_field ''os_type'' (Some (asc ''windows'')) @ [44] @
     json_string_field ''os_version'' (Some []) @ [44] @
     json_string_field ''agent_version'' (st_agent_version st) @ [44] @
     json_string_field ''agent_status'' (st_agent_status st) @
     (if st_is_connected st then jlit '',`is_connected`:true,'' else jlit '',`is_connected`:false,'') @
     json_string_field ''protocol'' (Some (asc ''wzcp'')) @
     jlit '',`protocol_version`:1,'' @
     json_time_field ''installed_at'' (st_installed_at st) @ [44] @
     json_time_field ''enrolled_at'' (st_installed_at st) @ [44] @
     json_time_field ''last_heartbeat'' (st_last_heartbeat st) @ [44] @
     json_time_field ''last_seen'' (st_last_seen st) @ [44] @
     json_time_field ''created_at'' (st_created_at st) @ [44] @
     json_time_field ''updated_at'' (st_updated_at st) @ [125]"

text \<open>
  \<open>append_agent_doc\<close>: without memory for the device key, the agent id is used. A NULL agent id or
  NULL address list is dereferenced.
\<close>

definition append_agent_doc :: "xsiam_agent_state \<Rightarrow> xsiam_agent_ctx \<Rightarrow> (bytes \<times> xsiam_agent_ctx) option" where
  "append_agent_doc st g =
     (let (ok, g1) = gw_alloc g in do {
        aid \<leftarrow> st_agent_id st;
        macs \<leftarrow> st_mac_addresses_json st;
        Some (doc_json (if ok then asc ''device-'' @ aid else aid) macs st, g1) })"

section \<open>Upload\<close>

text \<open>The loop over the agents: \<open>count\<close> documents are in \<open>s\<close> so far.\<close>

fun append_docs :: "xsiam_agent_state list \<Rightarrow> nat \<Rightarrow> bytes \<Rightarrow> xsiam_agent_ctx \<Rightarrow> (nat \<times> bytes \<times> xsiam_agent_ctx) option" where
  "append_docs [] count s g = Some (count, s, g)"
| "append_docs (st # sts) count s g =
     (if \<not> st_dirty st then append_docs sts count s g
      else do {
        (doc, g1) \<leftarrow> append_agent_doc st g;
        append_docs sts (count + 1) (s @ (if 0 < count then [44] else []) @ doc) g1 })"

definition aql_head :: bytes where
  "aql_head = jlit ''{`query`:`FOR doc IN @devices UPSERT {agent_id: doc.agent_id} INSERT doc '' @
     asc ''UPDATE MERGE(OLD, UNSET(doc, '' @ [39] @ asc ''_key'' @ [39] @ jlit '')) IN devices`,`bindVars`:{`devices`:[''"

definition build_arango_payload :: "xsiam_agent_ctx \<Rightarrow> (bytes option \<times> nat \<times> xsiam_agent_ctx) option" where
  "build_arango_payload g =
     (let (ok, g1) = gw_alloc g in
      if \<not> ok then Some (None, 0, g1)
      else do {
        (count, s, g2) \<leftarrow> append_docs (gx_agents g1) 0 aql_head g1;
        Some (Some (s @ asc '']}}''), count, g2) })"

definition db_uri :: "arango_link \<Rightarrow> bytes" where
  "db_uri a = take 255 (asc ''/_db/'' @ al_database a @ asc ''/_api/cursor'')"

text \<open>After a successful upload: every dirty agent is clean, with the time of its own clock reading.\<close>

fun clean_agents :: "xsiam_agent_state list \<Rightarrow> xsiam_agent_ctx \<Rightarrow> xsiam_agent_state list \<times> xsiam_agent_ctx" where
  "clean_agents [] g = ([], g)"
| "clean_agents (st # sts) g =
     (if st_dirty st then
        let (t, g1) = now_sec g; (sts', g2) = clean_agents sts g1
        in (st\<lparr>st_dirty := False, st_last_db_flush := t\<rparr> # sts', g2)
      else let (sts', g2) = clean_agents sts g in (st # sts', g2))"

definition arango_flush_dirty_agents ::
  "arango_link \<Rightarrow> xsiam_agent_ctx \<Rightarrow> (int \<times> arango_link \<times> xsiam_agent_ctx) option" where
  "arango_flush_dirty_agents a g =
     (if \<not> al_db_sync a \<or> \<not> al_upstream a then Some (0, a, g)
      else do {
        (payload, count, g1) \<leftarrow> build_arango_payload g;
        case payload of
          None \<Rightarrow> Some (0, a, g1)
        | Some body \<Rightarrow>
            if count = 0 then Some (0, a, g1)
            else
              let (oc, a1) = (case al_outcomes a of [] \<Rightarrow> (Db_Response 0 201, a) | r # rs \<Rightarrow> (r, a\<lparr>al_outcomes := rs\<rparr>))
              in case oc of
                Db_No_Connection \<Rightarrow> Some (-1, a1, g1)
              | Db_No_Client \<Rightarrow> Some (-1, a1, g1)
              | Db_Response ret status \<Rightarrow>
                  let a2 = a1\<lparr>al_posted := al_posted a1 @ [(db_uri a, body)]\<rparr> in
                  if ret = 0 \<and> 200 \<le> status \<and> status < 300 then
                    let (sts, g2) = clean_agents (gx_agents g1) g1
                    in Some (ret, a2, g2\<lparr>gx_agents := sts\<rparr>)
                  else Some (-1, a2, g1) })"

definition db_collect :: "arango_link \<Rightarrow> xsiam_agent_ctx \<Rightarrow> (int \<times> arango_link \<times> xsiam_agent_ctx) option" where
  "db_collect a g = do { (_, a1, g1) \<leftarrow> arango_flush_dirty_agents a g; Some (0, a1, g1) }"

end
