(* ===== verification/Gw_Plugin.thy ===== *)
theory Gw_Plugin
  imports Gw_Arango Gw_System
begin

text \<open>
  The gateway input plugin, last part: its configuration, \<open>init\<close> and \<open>exit_cb\<close>
  (\<^verbatim>\<open>gateway/plugins/in_xsiam_agent/xsiam_agent.c\<close>).

  A string of the configuration carries who allocated it: the configuration map, whose strings are
  \<open>flb_sds_t\<close> values that point behind a header and that the map keeps and destroys itself, or
  \<open>flb_strdup\<close>. Passing one of the first kind to \<open>flb_free\<close> is a fault. What \<open>init\<close> acquires is
  recorded in a list of resources, so that its error paths can be checked for leaks.
\<close>

section \<open>Configuration\<close>

datatype string_owner = From_map | Duplicated

type_synonym cfg_string = "(string_owner \<times> bytes) option"

datatype cfg_type = Cfg_str | Cfg_int | Cfg_bool

definition config_map :: "(string \<times> cfg_type \<times> string option) list" where
  "config_map =
     [(''chunk_size'', Cfg_str, None),
      (''buffer_size'', Cfg_str, None),
      (''heartbeat_min'', Cfg_int, Some ''60''),
      (''heartbeat_max'', Cfg_int, Some ''180''),
      (''db_sync'', Cfg_bool, Some ''true''),
      (''arango_host'', Cfg_str, Some ''127.0.0.1''),
      (''arango_port'', Cfg_int, Some ''8529''),
      (''arango_user'', Cfg_str, Some ''root''),
      (''arango_pass'', Cfg_str, Some ''changeme''),
      (''arango_database'', Cfg_str, Some ''xsiamdb''),
      (''db_flush_interval'', Cfg_int, Some ''5''),
      (''heartbeat_flush_interval'', Cfg_int, Some ''180''),
      (''tenant_id'', Cfg_str, Some ''tenant-default''),
      (''event_host'', Cfg_str, None),
      (''event_port'', Cfg_int, Some ''18090'')]"

text \<open>
  The part of \<open>flb_config_map_set\<close> the plugin relies on: the last setting of a name counts, names are
  compared without case, and a name that is not set has its default. Values are taken after the
  substitution of environment variables.
\<close>

definition lower_byte :: "byte \<Rightarrow> byte" where
  "lower_byte c = (if 65 \<le> c \<and> c \<le> 90 then c + 32 else c)"

definition same_name :: "bytes \<Rightarrow> bytes \<Rightarrow> bool" where
  "same_name a b \<longleftrightarrow> map lower_byte a = map lower_byte b"

fun property :: "(bytes \<times> bytes) list \<Rightarrow> string \<Rightarrow> bytes option" where
  "property [] name = None"
| "property ((k, v) # ps) name =
     (case property ps name of
        Some w \<Rightarrow> Some w
      | None \<Rightarrow> if same_name k (asc name) then Some v else None)"

definition setting :: "(bytes \<times> bytes) list \<Rightarrow> string \<Rightarrow> bytes option" where
  "setting props name =
     (case property props name of
        Some v \<Rightarrow> Some v
      | None \<Rightarrow> (case map_of config_map name of Some (_, Some d) \<Rightarrow> Some (asc d) | _ \<Rightarrow> None))"

definition flb_utils_bool :: "bytes \<Rightarrow> int" where
  "flb_utils_bool v =
     (if same_name v (asc ''true'') \<or> same_name v (asc ''on'') \<or> same_name v (asc ''yes'') then 1
      else if same_name v (asc ''false'') \<or> same_name v (asc ''off'') \<or> same_name v (asc ''no'') then 0
      else -1)"

definition cfg_str :: "(bytes \<times> bytes) list \<Rightarrow> string \<Rightarrow> cfg_string" where
  "cfg_str props name = map_option (Pair From_map) (setting props name)"

definition cfg_int :: "(bytes \<times> bytes) list \<Rightarrow> string \<Rightarrow> int" where
  "cfg_int props name = (case setting props name of Some v \<Rightarrow> sint (atoi v) | None \<Rightarrow> 0)"

section \<open>State\<close>

datatype plugin_resource =
  Res_context | Res_tcp_port | Res_encoder | Res_downstream | Res_collector | Res_heartbeat_collector
| Res_db_collector | Res_lease_collector | Res_db_upstream | Res_event_upstream

text \<open>The fields of \<open>struct xsiam_agent_ctx\<close> that the other parts do not use, next to the ones they do.\<close>

record plugin =
  pl_gx :: xsiam_agent_ctx
  pl_link :: arango_link
  pl_listen :: bytes
  pl_tcp_port :: cfg_string
  pl_port_num :: u16
  pl_arango_host :: cfg_string
  pl_arango_user :: cfg_string
  pl_arango_pass :: cfg_string
  pl_arango_database :: cfg_string
  pl_tenant_id :: cfg_string
  pl_event_host :: cfg_string
  pl_arango_port :: int
  pl_db_flush_interval :: int
  pl_event_port :: int
  pl_event_upstream :: bool
  pl_held :: "plugin_resource list"

text \<open>
  The environment of \<open>init\<close>: scripts for the running plugin, the host settings of the instance, the
  seed of the generator, and whether the engine's calls succeed, in their order.
\<close>

record init_env =
  ie_gx :: xsiam_agent_ctx
  ie_listen :: "bytes option"
  ie_port :: nat
  ie_seed :: u32
  ie_encoder :: bool
  ie_downstream :: bool
  ie_collect :: bool
  ie_heartbeat :: bool
  ie_db_upstream :: bool
  ie_db_timer :: bool
  ie_event_upstream :: bool
  ie_lease_timer :: bool
  ie_outcomes :: "db_outcome list"

section \<open>Initialisation\<close>

text \<open>A size in KB as a \<open>size_t\<close> in bytes: a negative number wraps.\<close>

definition size_kb :: "bytes \<Rightarrow> u64" where
  "size_kb s = scast (atoi s) * 1024"

definition chunk_bytes :: "cfg_string \<Rightarrow> u64" where
  "chunk_bytes s = (case s of Some (_, v) \<Rightarrow> size_kb v | None \<Rightarrow> 32768)"

definition buffer_bytes :: "cfg_string \<Rightarrow> u64 \<Rightarrow> u64" where
  "buffer_bytes s chunk = (case s of Some (_, v) \<Rightarrow> size_kb v | None \<Rightarrow> chunk * 8)"

definition or_default :: "cfg_string \<Rightarrow> string \<Rightarrow> heap \<Rightarrow> cfg_string \<times> heap" where
  "or_default s d h =
     (case s of
        Some _ \<Rightarrow> (s, h)
      | None \<Rightarrow> let (ok, h') = alloc h in (if ok then Some (Duplicated, asc d) else None, h'))"

definition positive_or :: "int \<Rightarrow> int \<Rightarrow> int" where
  "positive_or v d = (if v \<le> 0 then d else v)"

text \<open>The body of \<open>init\<close> up to the log encoder: defaults and derived values.\<close>

definition init_settings ::
  "(bytes \<times> bytes) list \<Rightarrow> bool \<Rightarrow> bytes \<Rightarrow> init_env \<Rightarrow> xsiam_agent_ctx \<Rightarrow> plugin" where
  "init_settings props db_sync port env g =
     (let chunk = chunk_bytes (cfg_str props ''chunk_size'');
          buffer = buffer_bytes (cfg_str props ''buffer_size'') chunk;
          (host, h1) = or_default (cfg_str props ''arango_host'') ''127.0.0.1'' (gx_heap g);
          (user, h2) = or_default (cfg_str props ''arango_user'') ''root'' h1;
          (pass, h3) = or_default (cfg_str props ''arango_pass'') ''changeme'' h2;
          (database, h4) = or_default (cfg_str props ''arango_database'') ''xsiamdb'' h3;
          hb_min = positive_or (cfg_int props ''heartbeat_min'') 60;
          hb_max = positive_or (cfg_int props ''heartbeat_max'') 180;
          (uuid, _) = gen_uuid_v4 (ie_seed env);
          tenant = cfg_str props ''tenant_id'';
          event_host = cfg_str props ''event_host'';
          event_on = (case event_host of Some (_, c # cs) \<Rightarrow> True | _ \<Rightarrow> False)
      in \<lparr>pl_gx = g\<lparr>gx_tenant_id := map_option snd tenant,
             gx_heartbeat_flush_interval := positive_or (cfg_int props ''heartbeat_flush_interval'') 180,
             gx_event_enabled := event_on, gx_fb_instance_id := uuid,
             gx_chunk_size := unat chunk, gx_buffer_size := unat buffer,
             gx_heartbeat_min := hb_min, gx_heartbeat_max := (if hb_max < hb_min then hb_min else hb_max),
             gx_gateway_seq := 0, gx_session_seq := 0, gx_agents := [], gx_connections := [],
             gx_encoder := [], gx_appended := [], gx_events := [], gx_heap := h4\<rparr>,
          pl_link = \<lparr>al_db_sync = db_sync, al_upstream = False,
             al_database = (case database of Some (_, v) \<Rightarrow> v | None \<Rightarrow> asc ''(null)''),
             al_outcomes = ie_outcomes env, al_posted = []\<rparr>,
          pl_listen = (case ie_listen env of Some l \<Rightarrow> l | None \<Rightarrow> asc ''0.0.0.0''),
          pl_tcp_port = Some (Duplicated, port), pl_port_num = word_of_int (strtol10 port),
          pl_arango_host = host, pl_arango_user = user, pl_arango_pass = pass, pl_arango_database = database,
          pl_tenant_id = tenant, pl_event_host = event_host,
          pl_arango_port = positive_or (cfg_int props ''arango_port'') 8529,
          pl_db_flush_interval = positive_or (cfg_int props ''db_flush_interval'') 5,
          pl_event_port = (if event_on then positive_or (cfg_int props ''event_port'') 18090 else cfg_int props ''event_port''),
          pl_event_upstream = False, pl_held = [Res_context, Res_tcp_port]\<rparr>)"

definition acquire :: "plugin_resource \<Rightarrow> plugin \<Rightarrow> plugin" where
  "acquire r p = p\<lparr>pl_held := r # pl_held p\<rparr>"

text \<open>An error return: the resources that the error path releases, in its order.\<close>

definition init_fail :: "plugin_resource list \<Rightarrow> plugin \<Rightarrow> int \<times> plugin" where
  "init_fail rs p = (-1, p\<lparr>pl_held := fold remove1 rs (pl_held p)\<rparr>)"

text \<open>The end of \<open>init\<close>: the event upstream is optional, and a missing lease timer is only logged.\<close>

definition init_events :: "init_env \<Rightarrow> plugin \<Rightarrow> int \<times> plugin" where
  "init_events env p =
     (if gx_event_enabled (pl_gx p) then
        if \<not> ie_event_upstream env then (0, p\<lparr>pl_gx := (pl_gx p)\<lparr>gx_event_enabled := False\<rparr>\<rparr>)
        else
          let p1 = acquire Res_event_upstream (p\<lparr>pl_event_upstream := True\<rparr>)
          in (0, if ie_lease_timer env then acquire Res_lease_collector p1 else p1)
      else (0, p))"

definition init_register :: "init_env \<Rightarrow> plugin \<Rightarrow> int \<times> plugin" where
  "init_register env p =
     (if \<not> ie_encoder env then init_fail [Res_tcp_port, Res_context] p
      else let p1 = acquire Res_encoder p in
      if \<not> ie_downstream env then init_fail [Res_encoder, Res_tcp_port, Res_context] p1
      else let p2 = acquire Res_downstream p1 in
      if \<not> ie_collect env then init_fail [Res_downstream, Res_encoder, Res_tcp_port, Res_context] p2
      else let p3 = acquire Res_collector p2 in
      if \<not> ie_heartbeat env then init_fail [Res_collector, Res_downstream, Res_encoder, Res_tcp_port, Res_context] p3
      else let p4 = acquire Res_heartbeat_collector p3 in
      if \<not> al_db_sync (pl_link p4) then init_events env p4
      else if \<not> ie_db_upstream env then
        init_fail [Res_heartbeat_collector, Res_collector, Res_downstream, Res_encoder, Res_tcp_port, Res_context] p4
      else
        let p5 = acquire Res_db_upstream (p4\<lparr>pl_link := (pl_link p4)\<lparr>al_upstream := True\<rparr>\<rparr>) in
        if \<not> ie_db_timer env then
          init_fail [Res_db_upstream, Res_heartbeat_collector, Res_collector, Res_downstream, Res_encoder,
                     Res_tcp_port, Res_context] p5
        else init_events env (acquire Res_db_collector p5))"

text \<open>
  \<open>init\<close>: without a context it returns before anything is acquired; a bad boolean setting frees the
  context. The port is copied with \<open>flb_strdup\<close>, whose result is read at once.
\<close>

definition plugin_init :: "(bytes \<times> bytes) list \<Rightarrow> init_env \<Rightarrow> (int \<times> plugin option) option" where
  "plugin_init props env =
     (let (ok, g) = gw_alloc (ie_gx env) in
      if \<not> ok then Some (-1, None)
      else
        let db_sync = (case setting props ''db_sync'' of Some v \<Rightarrow> flb_utils_bool v | None \<Rightarrow> 0) in
        if db_sync = -1 then Some (-1, None)
        else
          let port = take 14 (dec (if ie_port env = 0 then 1514 else ie_port env));
              (ok2, g2) = gw_alloc g
          in if \<not> ok2 then None
             else
               let (rc, p) = init_register env (init_settings props (db_sync \<noteq> 0) port env g2)
               in Some (rc, Some p))"

section \<open>Shutdown\<close>

text \<open>Closing every connection of the list, as it is at the start.\<close>

fun close_all :: "xsiam_agent_conn list \<Rightarrow> xsiam_agent_ctx \<Rightarrow> xsiam_agent_ctx option" where
  "close_all [] g = Some g"
| "close_all (c # cs) g = do { g1 \<leftarrow> conn_del c g; close_all cs g1 }"

text \<open>The part of \<open>exit_cb\<close> up to the last upload, and the resources it has then released.\<close>

definition exit_close :: "plugin \<Rightarrow> plugin option" where
  "exit_close p = do {
     g1 \<leftarrow> close_all (gx_connections (pl_gx p)) (pl_gx p);
     let held1 = fold remove1 [Res_collector, Res_heartbeat_collector, Res_db_collector, Res_lease_collector, Res_downstream] (pl_held p);
     if al_upstream (pl_link p) then do {
       (_, a, g2) \<leftarrow> arango_flush_dirty_agents (pl_link p) g1;
       Some (p\<lparr>pl_gx := g2, pl_link := a, pl_held := remove1 Res_db_upstream held1\<rparr>) }
     else Some (p\<lparr>pl_gx := g1, pl_held := held1\<rparr>) }"

definition free_string :: "cfg_string \<Rightarrow> unit option" where
  "free_string s = (case s of Some (From_map, _) \<Rightarrow> None | _ \<Rightarrow> Some ())"

definition exit_cb :: "plugin \<Rightarrow> (int \<times> plugin) option" where
  "exit_cb p = do {
     p1 \<leftarrow> exit_close p;
     let p2 = p1\<lparr>pl_held := fold remove1 [Res_event_upstream, Res_encoder] (pl_held p1), pl_gx := (pl_gx p1)\<lparr>gx_agents := []\<rparr>\<rparr>;
     free_string (pl_tcp_port p2);
     free_string (pl_arango_host p2);
     free_string (pl_arango_user p2);
     free_string (pl_arango_pass p2);
     free_string (pl_arango_database p2);
     free_string (pl_tenant_id p2);
     free_string (pl_event_host p2);
     Some (0, p2\<lparr>pl_held := fold remove1 [Res_tcp_port, Res_context] (pl_held p2)\<rparr>) }"

end
