(* ===== verification/Gw_Arango_Thms.thy ===== *)
theory Gw_Arango_Thms
  imports Gw_Arango Gw_Thms
begin

text \<open>
  What an upload does: the payload in closed form, the effect on the agents, and the consistency of the
  database with the agent cache over any history.
\<close>

section \<open>The payload\<close>

definition agent_json :: "xsiam_agent_state \<Rightarrow> bytes" where
  "agent_json st = doc_json (asc ''device-'' @ the (st_agent_id st)) (the (st_mac_addresses_json st)) st"

definition payload_of :: "xsiam_agent_state list \<Rightarrow> bytes" where
  "payload_of sts = aql_head @ join_with 44 (map agent_json sts) @ asc '']}}''"

lemma append_agent_doc_roomy:
  assumes "roomy (gx_heap g)" "st_agent_id st \<noteq> None" "st_mac_addresses_json st \<noteq> None"
  shows "\<exists>g'. append_agent_doc st g = Some (agent_json st, g') \<and> quiet g g'"
proof -
  obtain ok g1 where a: "gw_alloc g = (ok, g1)" by force
  have "ok" using a roomy_alloc [OF assms(1)] by (auto simp: gw_alloc_def split: prod.splits)
  with a assms(2,3) quiet_alloc [OF a] show ?thesis by (auto simp: append_agent_doc_def agent_json_def)
qed

lemma append_docs_roomy:
  assumes "roomy (gx_heap g)" "\<forall>st \<in> set sts. st_agent_id st \<noteq> None \<and> st_mac_addresses_json st \<noteq> None"
  shows "\<exists>g'. append_docs sts n s g = Some (n + length (filter st_dirty sts),
       s @ concat (map (\<lambda>(i, st). (if 0 < i then [44] else []) @ agent_json st) (enumerate n (filter st_dirty sts))), g') \<and> quiet g g'"
  using assms
proof (induction sts arbitrary: n s g)
  case (Cons st sts)
  show ?case
  proof (cases "st_dirty st")
    case False
    with Cons.IH [OF Cons.prems(1)] Cons.prems(2) show ?thesis by simp
  next
    case True
    from append_agent_doc_roomy [OF Cons.prems(1), of st] Cons.prems(2) obtain g1 where
      g1: "append_agent_doc st g = Some (agent_json st, g1)" "quiet g g1" by auto
    from Cons.IH [OF quiet_fields(12) [OF g1(2) Cons.prems(1)], of "n + 1" "s @ (if 0 < n then [44] else []) @ agent_json st"] Cons.prems(2)
    obtain g2 where "append_docs sts (n + 1) (s @ (if 0 < n then [44] else []) @ agent_json st) g1 = Some (n + 1 + length (filter st_dirty sts),
       (s @ (if 0 < n then [44] else []) @ agent_json st) @
       concat (map (\<lambda>(i, st). (if 0 < i then [44] else []) @ agent_json st) (enumerate (n + 1) (filter st_dirty sts))), g2)" "quiet g1 g2" by auto
    then show ?thesis using True g1 quiet_trans by auto
  qed
qed simp

lemma enumerated_join:
  "concat (map (\<lambda>(i, x). (if 0 < i then [44] else []) @ f x) (enumerate (Suc n) xs)) = concat (map (\<lambda>x. 44 # f x) xs)"
  by (induction xs arbitrary: n) auto

lemma join_with_concat: "join_with sep (x # xs) = x @ concat (map (\<lambda>y. sep # y) xs)"
  by (induction xs arbitrary: x) auto

lemma build_arango_payload_roomy:
  assumes "registry_ok g"
  shows "\<exists>g'. build_arango_payload g = Some (Some (payload_of (filter st_dirty (gx_agents g))), length (filter st_dirty (gx_agents g)), g') \<and> quiet g g'"
proof -
  obtain ok g1 where a: "gw_alloc g = (ok, g1)" by force
  note q = quiet_alloc [OF a]
  have ok: "ok" and r1: "roomy (gx_heap g1)"
    using a roomy_alloc [of "gx_heap g"] assms by (auto simp: gw_alloc_def registry_ok_def split: prod.splits)
  let ?d = "filter st_dirty (gx_agents g)"
  have "\<forall>st \<in> set (gx_agents g1). st_agent_id st \<noteq> None \<and> st_mac_addresses_json st \<noteq> None"
    using assms quiet_fields(1) [OF q] by (simp add: registry_ok_def)
  from append_docs_roomy [OF r1 this, of 0 aql_head] quiet_fields(1) [OF q] obtain g2 where
    g2: "append_docs (gx_agents g1) 0 aql_head g1 = Some (length ?d,
       aql_head @ concat (map (\<lambda>(i, st). (if 0 < i then [44] else []) @ agent_json st) (enumerate 0 ?d)), g2)" "quiet g1 g2" by auto
  have "concat (map (\<lambda>(i, st). (if 0 < i then [44] else []) @ agent_json st) (enumerate 0 ?d)) = join_with 44 (map agent_json ?d)"
    by (cases ?d) (simp_all add: enumerated_join join_with_concat comp_def)
  then show ?thesis using a ok g2 quiet_trans [OF q] by (auto simp: build_arango_payload_def payload_of_def)
qed

section \<open>The effect on the agents\<close>

definition cleaned :: "xsiam_agent_state \<Rightarrow> xsiam_agent_state \<Rightarrow> bool" where
  "cleaned st st' \<longleftrightarrow> (\<exists>t. st' = st\<lparr>st_dirty := False, st_last_db_flush := t\<rparr>)"

lemma cleaned_fields:
  assumes "cleaned st st'"
  shows "st_agent_id st' = st_agent_id st" "st_is_connected st' = st_is_connected st"
    "st_mac_addresses_json st' = st_mac_addresses_json st" "\<not> st_dirty st'"
  using assms by (auto simp: cleaned_def)

lemma clean_agents_all2:
  "clean_agents sts g = (sts', g') \<Longrightarrow> quiet g g' \<and> list_all2 cleaned sts sts'"
proof (induction sts arbitrary: g sts' g')
  case (Cons st sts)
  show ?case
  proof (cases "st_dirty st")
    case True
    obtain t g1 where t: "now_sec g = (t, g1)" by force
    obtain r g2 where r: "clean_agents sts g1 = (r, g2)" by force
    have "sts' = st\<lparr>st_dirty := False, st_last_db_flush := t\<rparr> # r \<and> g' = g2" using Cons.prems True t r by simp
    moreover have "cleaned st (st\<lparr>st_dirty := False, st_last_db_flush := t\<rparr>)" unfolding cleaned_def by (rule exI) (rule refl)
    ultimately show ?thesis using Cons.IH [OF r] quiet_trans [OF quiet_now_sec [OF t]] by simp
  next
    case False
    obtain r g2 where r: "clean_agents sts g = (r, g2)" by force
    have "sts' = st # r \<and> g' = g2" using Cons.prems False r by simp
    moreover have "cleaned st st" unfolding cleaned_def using False by (intro exI [of _ "st_last_db_flush st"]) simp
    ultimately show ?thesis using Cons.IH [OF r] by simp
  qed
qed simp

lemma find_all2:
  "list_all2 R xs ys \<Longrightarrow> (\<And>x y. R x y \<Longrightarrow> P x = P y) \<Longrightarrow> rel_option R (find P xs) (find P ys)"
proof (induction rule: list_all2_induct)
  case (Cons x xs y ys)
  then show ?case by (cases "P x") (simp_all)
qed simp

lemma cleaned_registry:
  assumes "clean_agents (gx_agents g) g1 = (sts', g2)" "registry_ok g" "quiet g g1"
  shows "registry_ok (g2\<lparr>gx_agents := sts'\<rparr>)" "connected (g2\<lparr>gx_agents := sts'\<rparr>) = connected g"
    "\<And>a st. registry (g2\<lparr>gx_agents := sts'\<rparr>) a = Some st \<Longrightarrow> \<not> st_dirty st"
proof -
  have c: "quiet g1 g2" "list_all2 cleaned (gx_agents g) sts'" using clean_agents_all2 [OF assms(1)] by auto
  have sts: "gx_agents (g2\<lparr>gx_agents := sts'\<rparr>) = sts'" by simp
  have r: "rel_option cleaned (registry g a) (registry (g2\<lparr>gx_agents := sts'\<rparr>) a)" for a
    unfolding registry_def sts by (rule find_all2 [OF c(2)]) (simp add: cleaned_fields)
  show "connected (g2\<lparr>gx_agents := sts'\<rparr>) = connected g"
  proof
    fix a show "connected (g2\<lparr>gx_agents := sts'\<rparr>) a = connected g a"
      using r [of a] by (cases "registry g a") (auto simp: connected_def option_rel_Some1 cleaned_fields)
  qed
  show "\<not> st_dirty st" if "registry (g2\<lparr>gx_agents := sts'\<rparr>) a = Some st" for a st
    using r [of a] that by (auto simp: option_rel_Some2 cleaned_fields)
  have ids: "map st_agent_id sts' = map st_agent_id (gx_agents g)"
    using c(2) by (induction rule: list_all2_induct) (simp_all add: cleaned_fields)
  have macs: "map st_mac_addresses_json sts' = map st_mac_addresses_json (gx_agents g)"
    using c(2) by (induction rule: list_all2_induct) (simp_all add: cleaned_fields)
  have transfer: "\<forall>x \<in> set sts'. f x \<noteq> None"
    if "map f sts' = map f (gx_agents g)" "\<forall>x \<in> set (gx_agents g). f x \<noteq> None" for f :: "xsiam_agent_state \<Rightarrow> bytes option"
    using that by (metis (no_types, lifting) image_eqI image_iff list.set_map)
  have "roomy (gx_heap g2)"
    using quiet_fields(12) [OF quiet_trans [OF assms(3) c(1)]] assms(2) by (simp add: registry_ok_def)
  then show "registry_ok (g2\<lparr>gx_agents := sts'\<rparr>)"
    using assms(2) transfer [OF ids] transfer [OF macs] ids unfolding registry_ok_def sts by simp
qed

section \<open>An upload\<close>

definition dirty_agents :: "xsiam_agent_ctx \<Rightarrow> xsiam_agent_state list" where
  "dirty_agents g = filter st_dirty (gx_agents g)"

definition db_answer :: "arango_link \<Rightarrow> db_outcome" where
  "db_answer a = (case al_outcomes a of [] \<Rightarrow> Db_Response 0 201 | r # rs \<Rightarrow> r)"

fun accepts :: "db_outcome \<Rightarrow> bool" where
  "accepts (Db_Response ret status) \<longleftrightarrow> ret = 0 \<and> 200 \<le> status \<and> status < 300"
| "accepts r \<longleftrightarrow> False"

lemma flush_off: "\<not> (al_db_sync a \<and> al_upstream a) \<Longrightarrow> arango_flush_dirty_agents a g = Some (0, a, g)"
  by (auto simp: arango_flush_dirty_agents_def)

lemma flush_clean:
  assumes "registry_ok g" "al_db_sync a" "al_upstream a" "dirty_agents g = []"
  shows "\<exists>g'. arango_flush_dirty_agents a g = Some (0, a, g') \<and> quiet g g'"
proof -
  from build_arango_payload_roomy [OF assms(1)] assms(4) obtain g1 where
    "build_arango_payload g = Some (Some (payload_of []), 0, g1)" "quiet g g1" by (auto simp: dirty_agents_def)
  with assms(2,3) show ?thesis by (auto simp: arango_flush_dirty_agents_def)
qed

definition db_next :: "arango_link \<Rightarrow> arango_link" where
  "db_next a = (case al_outcomes a of [] \<Rightarrow> a | r # rs \<Rightarrow> a\<lparr>al_outcomes := rs\<rparr>)"

lemma db_next_posted: "al_posted (db_next a) = al_posted a"
  by (simp add: db_next_def split: list.splits)

lemma flush_dirty_step:
  assumes "build_arango_payload g = Some (Some body, Suc n, g1)" "al_db_sync a" "al_upstream a" "gx_agents g1 = gx_agents g"
    and "clean_agents (gx_agents g) g1 = (sts, g2)"
  shows "accepts (db_answer a) \<Longrightarrow> arango_flush_dirty_agents a g =
       Some (0, (db_next a)\<lparr>al_posted := al_posted a @ [(db_uri a, body)]\<rparr>, g2\<lparr>gx_agents := sts\<rparr>)"
    "\<not> accepts (db_answer a) \<Longrightarrow> \<exists>a'. arango_flush_dirty_agents a g = Some (-1, a', g1)"
proof -
  have oc: "(case al_outcomes a of [] \<Rightarrow> (Db_Response 0 201, a) | r # rs \<Rightarrow> (r, a\<lparr>al_outcomes := rs\<rparr>)) = (db_answer a, db_next a)"
    by (simp add: db_answer_def db_next_def split: list.splits)
  have f: "arango_flush_dirty_agents a g = (case db_answer a of
       Db_No_Connection \<Rightarrow> Some (-1, db_next a, g1)
     | Db_No_Client \<Rightarrow> Some (-1, db_next a, g1)
     | Db_Response ret status \<Rightarrow>
         if ret = 0 \<and> 200 \<le> status \<and> status < 300 then
           Some (ret, (db_next a)\<lparr>al_posted := al_posted a @ [(db_uri a, body)]\<rparr>, g2\<lparr>gx_agents := sts\<rparr>)
         else Some (-1, (db_next a)\<lparr>al_posted := al_posted a @ [(db_uri a, body)]\<rparr>, g1))"
    unfolding arango_flush_dirty_agents_def assms(1) Let_def prod.case bind.bind_lunit option.case oc assms(4,5) db_next_posted
    using assms(2,3) by simp
  show "accepts (db_answer a) \<Longrightarrow> arango_flush_dirty_agents a g =
       Some (0, (db_next a)\<lparr>al_posted := al_posted a @ [(db_uri a, body)]\<rparr>, g2\<lparr>gx_agents := sts\<rparr>)"
    unfolding f by (cases "db_answer a") simp_all
  show "\<not> accepts (db_answer a) \<Longrightarrow> \<exists>a'. arango_flush_dirty_agents a g = Some (-1, a', g1)"
    unfolding f by (cases "db_answer a") simp_all
qed

lemma flush_dirty:
  assumes "registry_ok g" "al_db_sync a" "al_upstream a" "dirty_agents g \<noteq> []"
  shows "accepts (db_answer a) \<Longrightarrow> \<exists>g'. arango_flush_dirty_agents a g =
       Some (0, (db_next a)\<lparr>al_posted := al_posted a @ [(db_uri a, payload_of (dirty_agents g))]\<rparr>, g') \<and>
       registry_ok g' \<and> connected g' = connected g \<and> (\<forall>i st. registry g' i = Some st \<longrightarrow> \<not> st_dirty st)"
    "\<not> accepts (db_answer a) \<Longrightarrow> \<exists>a' g'. arango_flush_dirty_agents a g = Some (-1, a', g') \<and> quiet g g'"
proof -
  obtain n where n: "length (dirty_agents g) = Suc n" using assms(4) by (cases "dirty_agents g") simp_all
  from build_arango_payload_roomy [OF assms(1)] n obtain g1 where
    b: "build_arango_payload g = Some (Some (payload_of (dirty_agents g)), Suc n, g1)" and q: "quiet g g1"
    unfolding dirty_agents_def by fastforce
  obtain sts g2 where c: "clean_agents (gx_agents g) g1 = (sts, g2)" by force
  note s = flush_dirty_step [OF b assms(2,3) quiet_fields(1) [OF q] c]
  show "accepts (db_answer a) \<Longrightarrow> \<exists>g'. arango_flush_dirty_agents a g =
       Some (0, (db_next a)\<lparr>al_posted := al_posted a @ [(db_uri a, payload_of (dirty_agents g))]\<rparr>, g') \<and>
       registry_ok g' \<and> connected g' = connected g \<and> (\<forall>i st. registry g' i = Some st \<longrightarrow> \<not> st_dirty st)"
    using s(1) cleaned_registry [OF c assms(1) q] by blast
  show "\<not> accepts (db_answer a) \<Longrightarrow> \<exists>a' g'. arango_flush_dirty_agents a g = Some (-1, a', g') \<and> quiet g g'"
    using s(2) q by blast
qed

lemma upload_posts:
  assumes "registry_ok g" "al_db_sync a" "al_upstream a"
  shows "\<exists>rc a' g'. arango_flush_dirty_agents a g = Some (rc, a', g') \<and> registry_ok g' \<and> connected g' = connected g \<and>
     (rc = 0 \<longleftrightarrow> dirty_agents g = [] \<or> accepts (db_answer a)) \<and>
     (dirty_agents g = [] \<longrightarrow> a' = a) \<and>
     (rc = 0 \<and> dirty_agents g \<noteq> [] \<longrightarrow> al_posted a' = al_posted a @ [(db_uri a, payload_of (dirty_agents g))]) \<and>
     (rc = 0 \<longrightarrow> (\<forall>i st. registry g' i = Some st \<longrightarrow> \<not> st_dirty st)) \<and>
     (rc \<noteq> 0 \<longrightarrow> gx_agents g' = gx_agents g)"
proof (cases "dirty_agents g = []")
  case True
  from flush_clean [OF assms True] obtain g' where f: "arango_flush_dirty_agents a g = Some (0, a, g')" "quiet g g'" by blast
  have "\<forall>i st. registry g' i = Some st \<longrightarrow> \<not> st_dirty st"
    using True by (auto simp: registry_quiet [OF f(2)] registry_def dirty_agents_def filter_empty_conv find_Some_iff)
  then show ?thesis using f True registry_ok_quiet [OF assms(1) f(2)] connected_quiet [OF f(2)] by simp
next
  case False
  show ?thesis
  proof (cases "accepts (db_answer a)")
    case True
    from flush_dirty(1) [OF assms False True] False True show ?thesis by fastforce
  next
    case F: False
    from flush_dirty(2) [OF assms False F] obtain a' g' where
      "arango_flush_dirty_agents a g = Some (-1, a', g')" "quiet g g'" by blast
    with False F registry_ok_quiet [OF assms(1)] connected_quiet quiet_fields(1) show ?thesis by simp
  qed
qed

definition db_link :: "db_outcome list \<Rightarrow> arango_link" where
  "db_link os = \<lparr>al_db_sync = True, al_upstream = True, al_database = asc ''xsiam'', al_outcomes = os, al_posted = []\<rparr>"

text \<open>
  An upload to the database with agents waiting for one posts a single request whose documents are
  exactly the waiting agents, in order; when the database accepts it no agent is left waiting, and
  otherwise the agent cache is as before, so the next upload carries the same documents again. The
  presence of the agents is never touched, and with nothing to upload no request is made.
\<close>

theorem upload_once:
  assumes "registry_ok g" "al_db_sync a" "al_upstream a"
  shows "\<exists>rc a' g'. arango_flush_dirty_agents a g = Some (rc, a', g') \<and> registry_ok g' \<and> connected g' = connected g \<and>
     (rc = 0 \<longleftrightarrow> dirty_agents g = [] \<or> accepts (db_answer a)) \<and>
     (dirty_agents g = [] \<longrightarrow> a' = a) \<and>
     (rc = 0 \<and> dirty_agents g \<noteq> [] \<longrightarrow> al_posted a' = al_posted a @ [(db_uri a, payload_of (dirty_agents g))]) \<and>
     (rc = 0 \<longrightarrow> (\<forall>i st. registry g' i = Some st \<longrightarrow> \<not> st_dirty st)) \<and>
     (rc \<noteq> 0 \<longrightarrow> gx_agents g' = gx_agents g)"
  by (rule upload_posts [OF assms])

theorem upload_once_witness:
  "\<exists>rc a' g'. arango_flush_dirty_agents (db_link [Db_Response 0 503]) twice_connected = Some (rc, a', g') \<and>
     connected g' = connected twice_connected \<and> (rc \<noteq> 0 \<longrightarrow> gx_agents g' = gx_agents twice_connected)"
  using upload_once [OF twice_connected_ok(1), of "db_link [Db_Response 0 503]"] by (simp add: db_link_def) blast

section \<open>The database over a history\<close>

text \<open>The presence column of the database after the documents are upserted by agent id.\<close>

definition db_store :: "xsiam_agent_state list \<Rightarrow> (bytes \<rightharpoonup> bool) \<Rightarrow> (bytes \<rightharpoonup> bool)" where
  "db_store sts db = fold (\<lambda>st m. case st_agent_id st of Some i \<Rightarrow> m(i \<mapsto> st_is_connected st) | None \<Rightarrow> m) sts db"

definition uploading :: "arango_link \<Rightarrow> xsiam_agent_ctx \<Rightarrow> xsiam_agent_state list" where
  "uploading a g = (if al_db_sync a \<and> al_upstream a then dirty_agents g else [])"

text \<open>
  The plugin and the database together. An upload that is not acknowledged may have been carried out
  or not, for each of its documents; nothing is assumed of the outcomes to come.
\<close>

inductive sync_step ::
  "(bytes \<rightharpoonup> bool) \<times> arango_link \<times> xsiam_agent_ctx \<Rightarrow> (bytes \<rightharpoonup> bool) \<times> arango_link \<times> xsiam_agent_ctx \<Rightarrow> bool" where
  life: "registry_event name version host_type macs conn e g = Some g' \<Longrightarrow> sync_step (db, a, g) (db, a, g')"
| stored: "arango_flush_dirty_agents a g = Some (0, a', g') \<Longrightarrow>
     sync_step (db, a, g) (db_store (uploading a g) db, a', g')"
| refused: "arango_flush_dirty_agents a g = Some (rc, a', g') \<Longrightarrow> rc \<noteq> 0 \<Longrightarrow>
     (\<forall>i. db' i = db i \<or> Some i \<in> st_agent_id ` set (uploading a g)) \<Longrightarrow> sync_step (db, a, g) (db', a', g')"
| outcomes: "sync_step (db, a, g) (db, a\<lparr>al_outcomes := os\<rparr>, g)"

inductive_cases sync_stepE: "sync_step s s'"

lemma db_store_find:
  "distinct (map st_agent_id sts) \<Longrightarrow> db_store (filter st_dirty sts) db i =
     (case find (\<lambda>st. st_agent_id st = Some i) sts of
        Some st \<Rightarrow> if st_dirty st then Some (st_is_connected st) else db i
      | None \<Rightarrow> db i)"
proof (induction sts arbitrary: db)
  case (Cons st sts)
  then have d: "distinct (map st_agent_id sts)" and n: "st_agent_id st \<notin> st_agent_id ` set sts" by auto
  show ?case
  proof (cases "st_agent_id st = Some i")
    case True
    with n have "find (\<lambda>st. st_agent_id st = Some i) sts = None" by (auto simp: find_None_iff image_iff)
    with Cons.IH [OF d] True show ?thesis by (simp add: db_store_def)
  next
    case False
    with Cons.IH [OF d] show ?thesis by (auto simp: db_store_def split: option.splits)
  qed
qed (simp add: db_store_def)

lemma db_store_registry:
  assumes "registry_ok g"
  shows "db_store (dirty_agents g) db i =
     (case registry g i of Some st \<Rightarrow> if st_dirty st then Some (st_is_connected st) else db i | None \<Rightarrow> db i)"
  using db_store_find assms by (simp add: registry_ok_def registry_def dirty_agents_def)

lemma mark_seen_synced:
  assumes "registry_ok g" "agent_state_mark_seen a name version host_type macs conn g = Some (conn', g')" "synced db g"
  shows "registry_ok g' \<and> synced db g'"
proof (cases "a = []")
  case True
  with assms(2) have q: "quiet g g'"
    by (cases "now_sec g") (simp add: mark_seen_empty_id quiet_now_sec)
  show ?thesis using registry_ok_quiet [OF assms(1) q] synced_quiet [OF q] assms(3) by simp
next
  case False
  from mark_seen_registers [OF assms(1) False, of name version host_type macs conn] assms(2) obtain st where
    s: "registry_ok g'" "registry g' = (registry g)(a \<mapsto> st)" "seen_entry a name version host_type macs st" by auto
  from s(1) synced_update [OF s(2) assms(3)] s(3) show ?thesis by (simp add: seen_entry_def)
qed

lemma life_synced:
  assumes "registry_ok g" "registry_event name version host_type macs conn e g = Some g'" "synced db g"
  shows "registry_ok g' \<and> synced db g'"
proof (cases e)
  case (Seen x)
  with assms(2) obtain c where "agent_state_mark_seen x name version host_type macs conn g = Some (c, g')" by auto
  from mark_seen_synced [OF assms(1) this assms(3)] show ?thesis .
next
  case (Beat x)
  with mark_heartbeat_keeps [OF assms(1), of x] assms(2,3) show ?thesis by auto
next
  case (Gone x)
  with mark_disconnected_drops [OF assms(1), of x] assms(2,3) show ?thesis by auto
qed

lemma stored_exact:
  assumes "registry_ok g" "synced db g" "arango_flush_dirty_agents a g = Some (0, a', g')" "al_db_sync a" "al_upstream a"
  shows "registry_ok g' \<and> (\<forall>i. registry g' i \<noteq> None \<longrightarrow> db_store (uploading a g) db i = connected g' i)"
proof -
  from upload_posts [OF assms(1,4,5)] assms(3) have r: "registry_ok g'" "connected g' = connected g" by auto
  have "db_store (uploading a g) db i = connected g' i" if "registry g' i \<noteq> None" for i
  proof -
    from that r(2) obtain st where "registry g i = Some st" by (auto simp: connected_def fun_eq_iff map_option_eq_Some split: option.splits) (metis not_None_eq option.map_disc_iff)
    then show ?thesis using r(2) db_store_registry [OF assms(1), of db i] assms(2,4,5)
      by (auto simp: uploading_def synced_def connected_def)
  qed
  with r(1) show ?thesis by blast
qed

lemma stored_synced:
  assumes "registry_ok g" "synced db g" "arango_flush_dirty_agents a g = Some (0, a', g')"
  shows "registry_ok g' \<and> synced (db_store (uploading a g) db) g'"
proof (cases "al_db_sync a \<and> al_upstream a")
  case True
  then have on: "al_db_sync a" "al_upstream a" by simp_all
  from stored_exact [OF assms on] have ok: "registry_ok g'"
    and e: "\<And>i. registry g' i \<noteq> None \<Longrightarrow> db_store (uploading a g) db i = connected g' i" by blast+
  have "db_store (uploading a g) db i = Some (st_is_connected st)" if "registry g' i = Some st" for i st
    using e [of i] that by (simp add: connected_def)
  then show ?thesis using ok by (simp add: synced_def)
next
  case False
  then have "g' = g" using assms(3) flush_off by fastforce
  moreover have "uploading a g = []" unfolding uploading_def using False by (rule if_not_P)
  ultimately show ?thesis using assms(1,2) by (simp add: db_store_def)
qed

lemma not_uploading:
  assumes "registry_ok g" "registry g i = Some st" "\<not> st_dirty st"
  shows "Some i \<notin> st_agent_id ` set (uploading a g)"
proof
  assume "Some i \<in> st_agent_id ` set (uploading a g)"
  then obtain st' where st': "st' \<in> set (gx_agents g)" "st_agent_id st' = Some i" "st_dirty st'"
    unfolding uploading_def dirty_agents_def by (fastforce split: if_splits)
  have st: "st \<in> set (gx_agents g)" "st_agent_id st = Some i"
    using assms(2) by (auto simp: registry_def find_Some_iff)
  have "inj_on st_agent_id (set (gx_agents g))" using assms(1) by (simp add: registry_ok_def distinct_map)
  from inj_onD [OF this _ st(1) st'(1)] st st' have "st = st'" by simp
  with assms(3) st'(3) show False by simp
qed

lemma refused_synced:
  assumes "registry_ok g" "synced db g" "arango_flush_dirty_agents a g = Some (rc, a', g')" "rc \<noteq> 0"
    and db: "\<And>i. db' i = db i \<or> Some i \<in> st_agent_id ` set (uploading a g)"
  shows "registry_ok g' \<and> synced db' g'"
proof -
  have on: "al_db_sync a" "al_upstream a" using assms(3,4) flush_off [of a g] by fastforce+
  from upload_posts [OF assms(1) on] assms(3,4) have g': "registry_ok g'" "gx_agents g' = gx_agents g" by auto
  have "synced db' g"
    unfolding synced_def using assms(2) db not_uploading [OF assms(1)] unfolding synced_def by metis
  with g' show ?thesis by (simp add: synced_def registry_def)
qed

lemma sync_step_synced:
  "sync_step s s' \<Longrightarrow> registry_ok (snd (snd s)) \<Longrightarrow> synced (fst s) (snd (snd s)) \<Longrightarrow>
   registry_ok (snd (snd s')) \<and> synced (fst s') (snd (snd s'))"
proof (induction rule: sync_step.induct)
  case (life name version host_type macs conn e g g' db a)
  then show ?case using life_synced [of g name version host_type macs conn e g' db] by simp
next
  case (stored a g a' g' db)
  then show ?case using stored_synced [of g db a a' g'] by simp
next
  case (refused a g rc a' g' db' db)
  then show ?case using refused_synced [of g db a rc a' g' db'] by simp
qed simp

lemma sync_steps_synced:
  "sync_step\<^sup>*\<^sup>* s s' \<Longrightarrow> registry_ok (snd (snd s)) \<Longrightarrow> synced (fst s) (snd (snd s)) \<Longrightarrow>
   registry_ok (snd (snd s')) \<and> synced (fst s') (snd (snd s'))"
  by (induction rule: rtranclp_induct) (simp_all add: sync_step_synced)



section \<open>JSON\<close>

text \<open>
  A string written into a document reads back as it is and ends where it should, whatever bytes it
  has: a hostname or an agent id cannot break out of its JSON string.
\<close>

theorem json_field_reads_back:
  "json_string (drop (length name + 4) (json_string_field name (Some v) @ rest)) = Some (v, rest)"
proof -
  have "drop (length name + 4) (json_string_field name (Some v) @ rest) = json_escape v @ 34 # rest"
    by (simp add: json_string_field_def asc_def del: drop_append) (simp add: drop_Cons')
  then show ?thesis using json_string_escape by simp
qed

text \<open>
  The lifecycle events of the XSIAM server are written without escaping: an agent that reports
  the id \<open>A\<close>, a quote, and further members of its own gets them into the event as members, after the
  \<open>tenant_id\<close> that the gateway wrote.
\<close>

theorem event_members_injected:
  assumes "x \<noteq> []"
  shows "\<exists>pre. event_json g ev (Some x) = pre @ jlit ''`}'' \<and>
     event_json g ev (Some (x @ jlit ''`,`tenant_id`:`'' @ t)) = pre @ jlit ''`,`tenant_id`:`'' @ t @ jlit ''`}''"
proof -
  obtain pre where pre: "\<And>y. event_json g ev (Some (x @ y)) = pre @ y @ jlit ''`}''"
    using assms by (cases x) (auto simp: event_json_def jlit_def asc_def Let_def)
  show ?thesis using pre [of "[]"] pre [of "jlit ''`,`tenant_id`:`'' @ t"] by (intro exI [of _ pre]) simp
qed

theorem event_members_injected_witness:
  "\<exists>pre. event_json gw_idle ''heartbeat'' (Some [65]) = pre @ jlit ''`}'' \<and>
     event_json gw_idle ''heartbeat'' (Some ([65] @ jlit ''`,`tenant_id`:`'' @ [66])) = pre @ jlit ''`,`tenant_id`:`'' @ [66] @ jlit ''`}''"
  by (rule event_members_injected) simp

end
