(* ===== verification/Gw_Plugin_Thms.thy ===== *)
theory Gw_Plugin_Thms
  imports Gw_Plugin Gw_Arango_Thms
begin

text \<open>
  The plugin from start to end: what \<open>init\<close> establishes and what its error paths release, the running
  plugin after it, and what a shutdown leaves in the database.
\<close>

section \<open>Initialisation\<close>

lemma acquire_fields [simp]:
  "pl_gx (acquire r p) = pl_gx p" "pl_link (acquire r p) = pl_link p" "pl_held (acquire r p) = r # pl_held p"
  "pl_db_flush_interval (acquire r p) = pl_db_flush_interval p" "pl_arango_host (acquire r p) = pl_arango_host p"
  by (simp_all add: acquire_def)

lemma init_events_cases:
  "\<exists>p'. init_events env p = (0, p') \<and> (pl_gx p' = pl_gx p \<or> pl_gx p' = (pl_gx p)\<lparr>gx_event_enabled := False\<rparr>) \<and>
     pl_db_flush_interval p' = pl_db_flush_interval p \<and> pl_arango_host p' = pl_arango_host p \<and> pl_link p' = pl_link p"
  by (simp add: init_events_def Let_def)

lemma init_register_cases:
  assumes "init_register env p = (rc, p')" "pl_held p = [Res_context, Res_tcp_port]"
  shows "rc = 0 \<or> rc = -1" "rc = -1 \<Longrightarrow> pl_held p' = []"
    "pl_gx p' = pl_gx p \<or> pl_gx p' = (pl_gx p)\<lparr>gx_event_enabled := False\<rparr>"
    "pl_db_flush_interval p' = pl_db_flush_interval p" "pl_arango_host p' = pl_arango_host p"
    "rc = 0 \<Longrightarrow> al_upstream (pl_link p') = al_db_sync (pl_link p') \<or> al_upstream (pl_link p)"
proof -
  have e: "\<exists>p'. init_events env q = (0, p') \<and> (pl_gx p' = pl_gx q \<or> pl_gx p' = (pl_gx q)\<lparr>gx_event_enabled := False\<rparr>) \<and>
     pl_db_flush_interval p' = pl_db_flush_interval q \<and> pl_arango_host p' = pl_arango_host q \<and> pl_link p' = pl_link q" for q
    by (rule init_events_cases)
  let ?p4 = "acquire Res_heartbeat_collector (acquire Res_collector (acquire Res_downstream (acquire Res_encoder p)))"
  let ?p6 = "acquire Res_db_collector (acquire Res_db_upstream (?p4\<lparr>pl_link := (pl_link p)\<lparr>al_upstream := True\<rparr>\<rparr>))"
  obtain a where a: "init_events env ?p4 = (0, a)" "pl_gx a = pl_gx ?p4 \<or> pl_gx a = (pl_gx ?p4)\<lparr>gx_event_enabled := False\<rparr>"
     "pl_db_flush_interval a = pl_db_flush_interval ?p4" "pl_arango_host a = pl_arango_host ?p4" "pl_link a = pl_link ?p4" using e by blast
  obtain b where b: "init_events env ?p6 = (0, b)" "pl_gx b = pl_gx ?p6 \<or> pl_gx b = (pl_gx ?p6)\<lparr>gx_event_enabled := False\<rparr>"
     "pl_db_flush_interval b = pl_db_flush_interval ?p6" "pl_arango_host b = pl_arango_host ?p6" "pl_link b = pl_link ?p6" using e by blast
  note u = assms(1) [unfolded init_register_def Let_def init_fail_def acquire_fields a(1) b(1), symmetric]
  show "rc = 0 \<or> rc = -1" using u by (simp split: if_splits)
  show "rc = -1 \<Longrightarrow> pl_held p' = []" using u assms(2) by (simp split: if_splits)
  show "pl_gx p' = pl_gx p \<or> pl_gx p' = (pl_gx p)\<lparr>gx_event_enabled := False\<rparr>"
    using u a(2) b(2) by (simp split: if_splits)
  show "pl_db_flush_interval p' = pl_db_flush_interval p" "pl_arango_host p' = pl_arango_host p"
    using u a(3,4) b(3,4) by (simp_all split: if_splits)
  show "al_upstream (pl_link p') = al_db_sync (pl_link p') \<or> al_upstream (pl_link p)" if "rc = 0"
    using u a(5) b(5) that by (auto split: if_splits)
qed

lemma init_settings_held: "pl_held (init_settings props s port env g) = [Res_context, Res_tcp_port]"
  by (simp add: init_settings_def Let_def split: prod.splits)

lemma plugin_init_cases:
  assumes "plugin_init props env = Some (rc, Some p)"
  obtains s port g where "init_register env (init_settings props s port env g) = (rc, p)"
    "roomy (gx_heap (ie_gx env)) \<Longrightarrow> roomy (gx_heap g)"
proof -
  obtain o1 g1 where 1: "gw_alloc (ie_gx env) = (o1, g1)" by force
  obtain o2 g2 where 2: "gw_alloc g1 = (o2, g2)" by force
  have "roomy (gx_heap (ie_gx env)) \<Longrightarrow> roomy (gx_heap g2)"
    using quiet_fields(12) [OF quiet_trans [OF quiet_alloc [OF 1] quiet_alloc [OF 2]]] .
  with assms 1 2 that show ?thesis by (auto simp: plugin_init_def Let_def split: if_splits prod.splits)
qed

text \<open>
  (C34) When \<open>init\<close> fails it has released everything it acquired: no error path leaks the context, a
  collector, a socket or an upstream.
\<close>

theorem init_failure_leaks_nothing:
  assumes "plugin_init props env = Some (rc, Some p)"
  shows "rc = 0 \<or> rc = -1 \<and> pl_held p = []"
proof -
  from plugin_init_cases [OF assms] obtain s port g where
    i: "init_register env (init_settings props s port env g) = (rc, p)" by blast
  from init_register_cases(1,2) [OF i init_settings_held] show ?thesis by blast
qed

text \<open>The environment of the examples.\<close>

definition env_with :: "bool \<Rightarrow> bool \<Rightarrow> init_env" where
  "env_with db_timer event_up = \<lparr>ie_gx = gw_idle, ie_listen = None, ie_port = 0, ie_seed = 1, ie_encoder = True, ie_downstream = True,
     ie_collect = True, ie_heartbeat = True, ie_db_upstream = True, ie_db_timer = db_timer, ie_event_upstream = event_up,
     ie_lease_timer = True, ie_outcomes = []\<rparr>"

lemma init_settings_link: "pl_link (init_settings props s port env g) =
    \<lparr>al_db_sync = s, al_upstream = False,
     al_database = al_database (pl_link (init_settings props s port env g)), al_outcomes = ie_outcomes env, al_posted = []\<rparr>"
  by (simp add: init_settings_def Let_def split: prod.splits)

lemma default_sync: "setting [] ''db_sync'' = Some (asc ''true'')"
  by (simp add: setting_def config_map_def)

lemma plugin_init_example:
  "\<exists>port g. plugin_init [] (env_with t e) = Some (map_prod id Some (init_register (env_with t e) (init_settings [] True port (env_with t e) g)))"
proof -
  have b: "flb_utils_bool (asc ''true'') = 1" by (simp add: flb_utils_bool_def same_name_def)
  obtain o1 g1 where 1: "gw_alloc gw_idle = (o1, g1)" by force
  obtain o2 g2 where 2: "gw_alloc g1 = (o2, g2)" by force
  have o: "o1" "o2" using 1 2 by (auto simp: gw_alloc_def gw_idle_def)
  obtain rc p where r: "init_register (env_with t e) (init_settings [] True (take 14 (dec 1514)) (env_with t e) g2) = (rc, p)" by force
  have env: "ie_gx (env_with t e) = gw_idle" "ie_port (env_with t e) = 0" by (simp_all add: env_with_def)
  have "plugin_init [] (env_with t e) = Some (rc, Some p)"
    unfolding plugin_init_def default_sync option.case b Let_def env 1 2 prod.case using o r by simp
  with r show ?thesis by (intro exI [of _ "take 14 (dec 1514)"] exI [of _ g2]) simp
qed

theorem init_failure_leaks_nothing_witness:
  "\<exists>p. plugin_init [] (env_with False True) = Some (-1, Some p) \<and> pl_held p = []"
proof -
  from plugin_init_example [of False True] obtain port g where
    i: "plugin_init [] (env_with False True) =
      Some (map_prod id Some (init_register (env_with False True) (init_settings [] True port (env_with False True) g)))" by blast
  have "al_db_sync (pl_link (init_settings [] True port (env_with False True) g))" by (subst init_settings_link) simp
  then have "fst (init_register (env_with False True) (init_settings [] True port (env_with False True) g)) = -1"
    by (simp add: init_register_def init_fail_def Let_def) (simp add: env_with_def)
  then obtain p where p: "init_register (env_with False True) (init_settings [] True port (env_with False True) g) = (-1, p)"
    by (metis prod.collapse)
  with i have "plugin_init [] (env_with False True) = Some (-1, Some p)" by simp
  with init_failure_leaks_nothing [OF this] show ?thesis by simp
qed

lemma or_default_roomy: "or_default s d h = (s', h') \<Longrightarrow> roomy h \<Longrightarrow> roomy h'"
  using roomy_alloc [of h] by (auto simp: or_default_def split: option.splits prod.splits)

lemma positive_or_pos: "0 < d \<Longrightarrow> 1 \<le> positive_or v d"
  by (simp add: positive_or_def)

lemma init_settings_gx:
  fixes props s port env g
  defines "p \<equiv> init_settings props s port env g"
  shows "gx_agents (pl_gx p) = []" "gx_connections (pl_gx p) = []" "roomy (gx_heap g) \<Longrightarrow> roomy (gx_heap (pl_gx p))"
    "1 \<le> gx_heartbeat_min (pl_gx p)" "gx_heartbeat_min (pl_gx p) \<le> gx_heartbeat_max (pl_gx p)"
    "1 \<le> gx_heartbeat_flush_interval (pl_gx p)" "1 \<le> pl_db_flush_interval p"
    "gx_chunk_size (pl_gx p) = unat (chunk_bytes (cfg_str props ''chunk_size''))"
    "gx_buffer_size (pl_gx p) = unat (buffer_bytes (cfg_str props ''buffer_size'') (chunk_bytes (cfg_str props ''chunk_size'')))"
    "\<exists>h. pl_arango_host p = fst (or_default (cfg_str props ''arango_host'') ''127.0.0.1'' h)"
proof -
  obtain host h1 where 1: "or_default (cfg_str props ''arango_host'') ''127.0.0.1'' (gx_heap g) = (host, h1)" by force
  obtain user h2 where 2: "or_default (cfg_str props ''arango_user'') ''root'' h1 = (user, h2)" by force
  obtain pass h3 where 3: "or_default (cfg_str props ''arango_pass'') ''changeme'' h2 = (pass, h3)" by force
  obtain db h4 where 4: "or_default (cfg_str props ''arango_database'') ''xsiamdb'' h3 = (db, h4)" by force
  obtain u s' where 5: "gen_uuid_v4 (ie_seed env) = (u, s')" by force
  note u = p_def [unfolded init_settings_def Let_def 1 2 3 4 5 prod.case]
  show "gx_agents (pl_gx p) = []" "gx_connections (pl_gx p) = []" unfolding u by simp_all
  show "roomy (gx_heap g) \<Longrightarrow> roomy (gx_heap (pl_gx p))"
    unfolding u using or_default_roomy [OF 1] or_default_roomy [OF 2] or_default_roomy [OF 3] or_default_roomy [OF 4] by simp
  show "1 \<le> gx_heartbeat_min (pl_gx p)" "1 \<le> gx_heartbeat_flush_interval (pl_gx p)" "1 \<le> pl_db_flush_interval p"
    unfolding u by (simp_all add: positive_or_pos)
  show "gx_heartbeat_min (pl_gx p) \<le> gx_heartbeat_max (pl_gx p)" unfolding u by simp
  show "gx_chunk_size (pl_gx p) = unat (chunk_bytes (cfg_str props ''chunk_size''))"
    "gx_buffer_size (pl_gx p) = unat (buffer_bytes (cfg_str props ''buffer_size'') (chunk_bytes (cfg_str props ''chunk_size'')))"
    unfolding u by simp_all
  show "\<exists>h. pl_arango_host p = fst (or_default (cfg_str props ''arango_host'') ''127.0.0.1'' h)"
    unfolding u by (intro exI [of _ "gx_heap g"]) (simp add: 1)
qed


lemma env_with_sync: "al_db_sync (pl_link (init_settings [] True port (env_with t e) g))"
  by (subst init_settings_link) simp

lemma plugin_init_default:
  "\<exists>p. plugin_init [] (env_with True e) = Some (0, Some p)"
proof -
  from plugin_init_example [of True e] obtain port g where
    i: "plugin_init [] (env_with True e) =
      Some (map_prod id Some (init_register (env_with True e) (init_settings [] True port (env_with True e) g)))" by blast
  have "fst (init_register (env_with True e) (init_settings [] True port (env_with True e) g)) = 0"
    using env_with_sync [of port True e g]
    by (simp add: init_register_def init_events_def Let_def) (simp add: env_with_def)
  then show ?thesis using i by (metis (no_types, lifting) id_apply map_prod_simp prod.collapse)
qed


section \<open>Sizes\<close>

lemma size_kb_dec:
  assumes "n < 2 ^ 31"
  shows "unat (size_kb (dec n)) = 1024 * n"
proof -
  have s: "sint (atoi (dec n @ [])) = int n" by (rule atoi_prefix [OF assms]) simp
  have "(scast (atoi (dec n)) :: u64) = word_of_int (sint (atoi (dec n @ [])))" by simp
  then have k: "size_kb (dec n) = of_nat n * 1024" unfolding s size_kb_def by simp
  have "unat (of_nat n :: u64) = n" using assms by (simp add: unsigned_of_nat take_bit_nat_eq_self)
  with k show ?thesis using assms by (simp add: unat_word_ariths)
qed

lemma sizes_of:
  assumes "plugin_init props env = Some (rc, Some p)"
  shows "gx_chunk_size (pl_gx p) = unat (chunk_bytes (cfg_str props ''chunk_size''))"
    "gx_buffer_size (pl_gx p) = unat (buffer_bytes (cfg_str props ''buffer_size'') (chunk_bytes (cfg_str props ''chunk_size'')))"
proof -
  from plugin_init_cases [OF assms] obtain s port g where
    i: "init_register env (init_settings props s port env g) = (rc, p)" by blast
  note f = init_settings_gx(8,9) [where props = props and s = s and port = port and env = env and g = g]
  show "gx_chunk_size (pl_gx p) = unat (chunk_bytes (cfg_str props ''chunk_size''))"
    "gx_buffer_size (pl_gx p) = unat (buffer_bytes (cfg_str props ''buffer_size'') (chunk_bytes (cfg_str props ''chunk_size'')))"
    using init_register_cases(3) [OF i init_settings_held] f by auto
qed

lemma unset_sizes:
  "property props ''chunk_size'' = None \<Longrightarrow> cfg_str props ''chunk_size'' = None"
  "property props ''buffer_size'' = None \<Longrightarrow> cfg_str props ''buffer_size'' = None"
proof -
  have m: "map_of config_map ''chunk_size'' = Some (Cfg_str, None)" "map_of config_map ''buffer_size'' = Some (Cfg_str, None)"
    by (simp_all add: config_map_def)
  show "property props ''chunk_size'' = None \<Longrightarrow> cfg_str props ''chunk_size'' = None"
    "property props ''buffer_size'' = None \<Longrightarrow> cfg_str props ''buffer_size'' = None"
    unfolding cfg_str_def setting_def m by simp_all
qed

lemma set_size: "property props name = Some v \<Longrightarrow> cfg_str props name = Some (From_map, v)"
  by (simp add: cfg_str_def setting_def)

text \<open>
  The sizes in bytes that a configuration gives. Without settings a connection starts with 32 KB
  and is limited to 256 KB; a chunk of \<open>n\<close> KB without a limit gives eight times as much; a chunk and a limit
  are taken as they are. The default limit is below the size of the largest frame an agent may send.
\<close>

theorem configured_sizes:
  assumes "plugin_init props env = Some (rc, Some p)"
  shows "(property props ''chunk_size'' = None \<and> property props ''buffer_size'' = None \<longrightarrow>
       gx_chunk_size (pl_gx p) = 32768 \<and> gx_buffer_size (pl_gx p) = 262144 \<and> gx_buffer_size (pl_gx p) < WZCP_MAX_FRAME) \<and>
    (\<forall>n. property props ''chunk_size'' = Some (dec n) \<and> property props ''buffer_size'' = None \<and> n < 2 ^ 31 \<longrightarrow>
       gx_chunk_size (pl_gx p) = 1024 * n \<and> gx_buffer_size (pl_gx p) = 8192 * n) \<and>
    (\<forall>n m. property props ''chunk_size'' = Some (dec n) \<and> property props ''buffer_size'' = Some (dec m) \<and> n < 2 ^ 31 \<and> m < 2 ^ 31 \<longrightarrow>
       gx_chunk_size (pl_gx p) = 1024 * n \<and> gx_buffer_size (pl_gx p) = 1024 * m)"
proof (intro conjI allI impI)
  assume n: "property props ''chunk_size'' = None \<and> property props ''buffer_size'' = None"
  show "gx_chunk_size (pl_gx p) = 32768" "gx_buffer_size (pl_gx p) = 262144" "gx_buffer_size (pl_gx p) < WZCP_MAX_FRAME"
    using n by (simp_all add: sizes_of [OF assms] unset_sizes chunk_bytes_def buffer_bytes_def WZCP_MAX_FRAME_def)
next
  fix n assume n: "property props ''chunk_size'' = Some (dec n) \<and> property props ''buffer_size'' = None \<and> n < 2 ^ 31"
  then have k: "unat (size_kb (dec n)) = 1024 * n" by (simp add: size_kb_dec)
  show "gx_chunk_size (pl_gx p) = 1024 * n"
    using n k by (simp add: sizes_of [OF assms] set_size chunk_bytes_def)
  have "unat (size_kb (dec n) * 8) = 8192 * n" using n k by (simp add: unat_word_ariths)
  then show "gx_buffer_size (pl_gx p) = 8192 * n"
    using n by (simp add: sizes_of [OF assms] unset_sizes set_size buffer_bytes_def chunk_bytes_def)
next
  fix n m assume n: "property props ''chunk_size'' = Some (dec n) \<and> property props ''buffer_size'' = Some (dec m) \<and> n < 2 ^ 31 \<and> m < 2 ^ 31"
  show "gx_chunk_size (pl_gx p) = 1024 * n" "gx_buffer_size (pl_gx p) = 1024 * m"
    using n by (simp_all add: sizes_of [OF assms] set_size chunk_bytes_def buffer_bytes_def size_kb_dec)
qed

theorem configured_sizes_witness:
  "\<exists>p. plugin_init [] (env_with True True) = Some (0, Some p) \<and> gx_chunk_size (pl_gx p) = 32768 \<and> gx_buffer_size (pl_gx p) = 262144"
proof -
  from plugin_init_default obtain p where p: "plugin_init [] (env_with True True) = Some (0, Some p)" by blast
  from configured_sizes [OF p] p show ?thesis by simp
qed

section \<open>Heartbeats\<close>

text \<open>
  The next heartbeat of a session is due within the configured bounds, whatever the random number:
  never before the minimum and never after the maximum.
\<close>

theorem heartbeat_due_within_bounds:
  assumes "gx_heartbeat_min g \<le> gx_heartbeat_max g"
  shows "\<exists>conn' g'. schedule_next_heartbeat conn g = (conn', g') \<and>
     int (fst (now_sec g)) + gx_heartbeat_min g \<le> cn_next_heartbeat conn' \<and>
     cn_next_heartbeat conn' \<le> int (fst (now_sec g)) + gx_heartbeat_max g"
proof -
  obtain t g1 where t: "now_sec g = (t, g1)" by force
  have h: "gx_heartbeat_min g1 = gx_heartbeat_min g" "gx_heartbeat_max g1 = gx_heartbeat_max g"
    using quiet_now_sec [OF t] by (simp_all add: quiet_def inner_def)
  obtain i g2 where i: "heartbeat_random_interval g1 = (i, g2)" by force
  have "gx_heartbeat_min g \<le> i \<and> i \<le> gx_heartbeat_max g"
  proof (cases "gx_heartbeat_max g - gx_heartbeat_min g + 1 \<le> 1")
    case True
    with i assms show ?thesis by (simp add: heartbeat_random_interval_def h)
  next
    case False
    obtain r g3 where r: "rand_r g1 = (r, g3)" by force
    have "i = gx_heartbeat_min g + int r mod (gx_heartbeat_max g - gx_heartbeat_min g + 1)"
      using i False r by (simp add: heartbeat_random_interval_def h)
    moreover have "0 \<le> int r mod (gx_heartbeat_max g - gx_heartbeat_min g + 1)"
      "int r mod (gx_heartbeat_max g - gx_heartbeat_min g + 1) < gx_heartbeat_max g - gx_heartbeat_min g + 1"
      using False by (intro pos_mod_sign pos_mod_bound; linarith)+
    ultimately show ?thesis by linarith
  qed
  then show ?thesis using t i by (simp add: schedule_next_heartbeat_def)
qed

theorem heartbeat_due_within_bounds_witness:
  "\<exists>conn' g'. schedule_next_heartbeat (session 1 None) gw_idle = (conn', g') \<and> 15 \<le> cn_next_heartbeat conn' \<and> cn_next_heartbeat conn' \<le> 25"
  using heartbeat_due_within_bounds [of gw_idle "session 1 None"] by (simp add: gw_idle_def now_sec_def gw_now_ms_def)

section \<open>Frames beyond the buffer limit\<close>

text \<open>
  A frame that does not fit the buffer limit is never handled: however much of it has been
  read, nothing of it is consumed, and when the buffer is full at the limit the next read closes the
  connection.
\<close>

theorem oversize_frame_disconnects:
  assumes "valid_frame f" "tagged conn" "gw_ok g" "cn_buf conn = take n (wire f)" "n < length (wire f)"
  shows "process_buffer conn g = Some (0, conn, g) \<and>
    (n = cn_buf_size conn \<and> gx_buffer_size g < n + gx_chunk_size g \<longrightarrow>
      (\<exists>g'. conn_event True cl conn g = Some (-1, g') \<and> gw_ok g' \<and> cn_id conn \<notin> set (map cn_id (gx_connections g'))))"
proof (intro conjI impI)
  have ok: "registry_ok g" using assms(3) by (simp add: gw_ok_def)
  have "cn_buf conn = stream [] f n" using assms(4) by (simp add: stream_def)
  from process_buffer_stream [OF assms(2) ok _ assms(5) this] assms(1) show "process_buffer conn g = Some (0, conn, g)" by simp
next
  assume n: "n = cn_buf_size conn \<and> gx_buffer_size g < n + gx_chunk_size g"
  have "length (cn_buf conn) = n" using assms(4,5) by simp
  then have m: "make_room (conn\<lparr>cn_busy := True\<rparr>) g = (Too_big, g)" using n by (simp add: make_room_def)
  from close_conn_ok [OF assms(3), of "conn\<lparr>cn_busy := True\<rparr>"] obtain g' where
    "close_conn (conn\<lparr>cn_busy := True\<rparr>) g = Some (-1, g')" "gw_ok g'" "live g' = live g - {cn_id conn}" by auto
  with m show "\<exists>g'. conn_event True cl conn g = Some (-1, g') \<and> gw_ok g' \<and> cn_id conn \<notin> set (map cn_id (gx_connections g'))"
    unfolding conn_event_def live_def by simp
qed

theorem oversize_frame_disconnects_witness:
  "process_buffer ((session 1 None)\<lparr>cn_buf := take 20 (wire beat_frame)\<rparr>) gw_idle = Some (0, (session 1 None)\<lparr>cn_buf := take 20 (wire beat_frame)\<rparr>, gw_idle)"
proof -
  have "length (wire beat_frame) = 36" by (simp add: wire_def beat_frame_def)
  then show ?thesis
    using oversize_frame_disconnects [OF beat_frame_valid _ gw_idle_ok(1), of "(session 1 None)\<lparr>cn_buf := take 20 (wire beat_frame)\<rparr>" 20]
    by (simp add: session_def tagged_def)
qed

section \<open>Shutdown\<close>

fun conn_keys :: "xsiam_agent_conn list \<Rightarrow> bytes list" where
  "conn_keys [] = []"
| "conn_keys (c # cs) = (case cn_agent_key c of Some a \<Rightarrow> a # conn_keys cs | None \<Rightarrow> conn_keys cs)"

lemma conn_del_presence:
  assumes "gw_ok g"
  shows "\<exists>g'. conn_del c g = Some g' \<and> gw_ok g' \<and> live g' = live g - {cn_id c} \<and>
     connected g' = fold presence_spec (map Gone (conn_keys [c])) (connected g) \<and> (\<forall>db. synced db g \<longrightarrow> synced db g')"
proof -
  from conn_del_ok [OF assms, of c] obtain g' where
    g': "conn_del c g = Some g'" "gw_ok g'" "live g' = live g - {cn_id c}" by blast
  have conns: "connected (g1\<lparr>gx_connections := cs\<rparr>) = connected g1" "synced db (g1\<lparr>gx_connections := cs\<rparr>) = synced db g1" for g1 cs db
    by (simp_all add: connected_def registry_def synced_def fun_eq_iff)
  show ?thesis
  proof (cases "cn_agent_key c")
    case None
    with g' conns show ?thesis by (auto simp: conn_del_def)
  next
    case (Some k)
    from mark_disconnected_drops [of g k] assms obtain g1 where
      "agent_state_mark_disconnected k g = Some g1" "connected g1 = presence_spec (Gone k) (connected g)" "\<forall>db. synced db g \<longrightarrow> synced db g1"
      by (auto simp: gw_ok_def)
    with Some g' conns show ?thesis by (auto simp: conn_del_def)
  qed
qed

lemma close_all_presence:
  assumes "gw_ok g"
  shows "\<exists>g'. close_all cs g = Some g' \<and> gw_ok g' \<and> live g' = live g - set (map cn_id cs) \<and>
     connected g' = fold presence_spec (map Gone (conn_keys cs)) (connected g) \<and> (\<forall>db. synced db g \<longrightarrow> synced db g')"
  using assms
proof (induction cs arbitrary: g)
  case (Cons c cs)
  from conn_del_presence [OF Cons.prems, of c] obtain g1 where g1: "conn_del c g = Some g1" "gw_ok g1" "live g1 = live g - {cn_id c}"
     "connected g1 = fold presence_spec (map Gone (conn_keys [c])) (connected g)" "\<forall>db. synced db g \<longrightarrow> synced db g1" by blast
  from Cons.IH [OF g1(2)] obtain g2 where g2: "close_all cs g1 = Some g2" "gw_ok g2" "live g2 = live g1 - set (map cn_id cs)"
     "connected g2 = fold presence_spec (map Gone (conn_keys cs)) (connected g1)" "\<forall>db. synced db g1 \<longrightarrow> synced db g2" by blast
  have "fold presence_spec (map Gone (conn_keys (c # cs))) (connected g) = connected g2"
    unfolding g2(4) g1(4) by (cases "cn_agent_key c") simp_all
  with g1 g2 show ?case by auto
qed simp

lemma gone_stays: "m a = Some False \<Longrightarrow> fold presence_spec (map Gone ks) m a = Some False"
  by (induction ks arbitrary: m) auto

lemma all_gone: "a \<in> set ks \<Longrightarrow> m a \<noteq> None \<Longrightarrow> fold presence_spec (map Gone ks) m a = Some False"
proof (induction ks arbitrary: m)
  case (Cons k ks)
  show ?case
  proof (cases "a = k")
    case True
    then have "presence_spec (Gone k) m a = Some False" using Cons.prems(2) by auto
    then show ?thesis by (simp add: gone_stays del: presence_spec.simps)
  next
    case False
    then have "presence_spec (Gone k) m a = m a" by simp
    with Cons False show ?thesis by simp
  qed
qed simp

lemma conn_keys_member: "c \<in> set cs \<Longrightarrow> cn_agent_key c = Some a \<Longrightarrow> a \<in> set (conn_keys cs)"
  by (induction cs) (auto split: option.splits)


definition running_plugin :: "xsiam_agent_ctx \<Rightarrow> plugin" where
  "running_plugin g = \<lparr>pl_gx = g, pl_link = db_link [], pl_listen = [], pl_tcp_port = None, pl_port_num = 1514,
     pl_arango_host = None, pl_arango_user = None, pl_arango_pass = None, pl_arango_database = None, pl_tenant_id = None,
     pl_event_host = None, pl_arango_port = 8529, pl_db_flush_interval = 5, pl_event_port = 18090,
     pl_event_upstream = False, pl_held = []\<rparr>"


text \<open>
  The rest of \<open>exit_cb\<close> never completes: it passes the database host to \<open>flb_free\<close>, and that string
  always belongs to the configuration map, whatever the configuration and whatever happened since.
\<close>

theorem exit_frees_map_string:
  assumes "plugin_init props env = Some (rc, Some p)"
  shows "exit_cb (p\<lparr>pl_gx := g, pl_link := a\<rparr>) = None"
proof -
  from plugin_init_cases [OF assms] obtain s port g0 where
    i: "init_register env (init_settings props s port env g0) = (rc, p)" by blast
  have "map_of config_map ''arango_host'' = Some (Cfg_str, Some ''127.0.0.1'')" by (simp add: config_map_def)
  then obtain v where "cfg_str props ''arango_host'' = Some (From_map, v)"
    by (cases "property props ''arango_host''") (simp_all add: cfg_str_def setting_def)
  moreover have "\<exists>h. pl_arango_host p = fst (or_default (cfg_str props ''arango_host'') ''127.0.0.1'' h)"
    using init_register_cases(5) [OF i init_settings_held] init_settings_gx(10) [where props = props and s = s and port = port and env = env and g = g0] by simp
  ultimately have host: "pl_arango_host p = Some (From_map, v)" by (auto simp: or_default_def)
  have keep: "exit_close q = Some q' \<Longrightarrow> pl_arango_host q' = pl_arango_host q" for q q'
    by (auto simp: exit_close_def Let_def bind_eq_Some_conv split: if_splits)
  show ?thesis
  proof (cases "exit_close (p\<lparr>pl_gx := g, pl_link := a\<rparr>)")
    case (Some q)
    from keep [OF this] host have "free_string (pl_arango_host q) = None" by (simp add: free_string_def)
    with Some show ?thesis by (cases "free_string (pl_tcp_port q)") (simp_all add: exit_cb_def Let_def)
  qed (simp add: exit_cb_def)
qed

theorem exit_frees_map_string_witness:
  "\<exists>p. plugin_init [] (env_with True True) = Some (0, Some p) \<and> exit_cb (p\<lparr>pl_gx := pl_gx p, pl_link := pl_link p\<rparr>) = None"
  using plugin_init_default exit_frees_map_string by blast

end
