(* ===== verification/Limits.thy ===== *)
theory Limits
  imports Agent_Client_Lemmas Gw_Thms Buffers
begin

text \<open>
  The limits of the wire formats where the two sides, or a check and the code behind it, do not agree.
\<close>

section \<open>Event batches\<close>

lemma event_batch_small: "unat cap < 21 + length payload \<Longrightarrow>
   xsiam_wzcp_build_event_batch out cap kind payload t seq = Some (-1, out, seq)"
  by (simp add: xsiam_wzcp_build_event_batch_def)

text \<open>
  Building an event batch in a buffer of exactly the capacity passed to it: with room for the 22
  bytes of framing and the payload it succeeds and the buffer starts with the batch, with two or more
  bytes less it is refused, but with a single byte less the capacity check lets it pass and the last
  byte is written behind the buffer.
\<close>

theorem event_batch_capacity:
  assumes "length out = unat cap" "length payload \<le> 0xffff"
  shows "(22 + length payload \<le> unat cap \<longrightarrow>
       (\<exists>out'. xsiam_wzcp_build_event_batch out cap kind payload t seq = Some (22 + int (length payload), out', seq + 1) \<and>
          length out' = length out \<and> take (22 + length payload) out' = event_body kind payload t (seq + 1))) \<and>
     (unat cap = 21 + length payload \<longrightarrow> xsiam_wzcp_build_event_batch out cap kind payload t seq = None) \<and>
     (unat cap < 21 + length payload \<longrightarrow> xsiam_wzcp_build_event_batch out cap kind payload t seq = Some (-1, out, seq))"
  using event_batch_writes [of payload out cap] event_batch_overruns [of out payload cap] event_batch_small [of cap payload] assms
  by simp

theorem event_batch_capacity_witness:
  "xsiam_wzcp_build_event_batch (replicate 22 0) 22 1 [65] 0 0 = None"
  using event_batch_capacity [of "replicate 22 0" 22 "[65]" 1 0 0] by simp

section \<open>Frame sizes\<close>

lemma oversize_frame_first_bytes:
  assumes "WZCP_MAX_FRAME < 32 + unat n" "unat n \<le> WZCP_MAX_FRAME" "wh_body_len h = n"
  shows "be32_at (frame_of h body) 0 = Some (32 + n)" "frame_of h body ! 0 = 0"
proof -
  have u: "unat (32 + n) = 32 + unat n" using assms(2) by (simp add: unat_plus_small WZCP_MAX_FRAME_def)
  show "be32_at (frame_of h body) 0 = Some (32 + n)"
    using be_at_hit(2) [of 0 "[]" "32 + n" "xsiam_wzcp_pack_header h @ body"] assms(3) by (simp add: frame_of_def)
  have "drop_bit 24 (32 + n) = 0"
    using u assms(2) unfolding word_unat_eq_iff unat_drop_bit_eq by (simp add: drop_bit_eq_div WZCP_MAX_FRAME_def)
  then show "frame_of h body ! 0 = 0" using assms(3) by (simp add: frame_of_def put_be32_def)
qed

text \<open>
  The agent limits the body of a frame to 1 MB and the gateway the whole frame: a body of the last 31
  bytes below the agent's limit is sent without an error, and the gateway closes the connection.
\<close>

theorem frame_limits_differ:
  assumes "WZCP_MAX_FRAME - 32 < length body" "length body \<le> WZCP_MAX_FRAME" "sk_wr sk = []"
    and "cn_buf conn = frame_of (sent_header ty aid sq ts (of_nat (length body))) body"
  shows "xsiam_wzcp_send_frame sk ty aid sq body (of_nat (length body)) ts = Some (0, sk\<lparr>sk_out := sk_out sk @ cn_buf conn\<rparr>) \<and>
     process_buffer conn g = Some (-1, conn, g)"
proof
  let ?n = "of_nat (length body) :: u32"
  let ?h = "sent_header ty aid sq ts ?n"
  have n: "unat ?n = length body" using assms(2) by (intro unat_of_nat_small) (simp add: WZCP_MAX_FRAME_def)
  show "xsiam_wzcp_send_frame sk ty aid sq body ?n ts = Some (0, sk\<lparr>sk_out := sk_out sk @ cn_buf conn\<rparr>)"
    using send_frame_unscripted [of ?n body sk] n assms(2-4) by simp
  have m: "WZCP_MAX_FRAME < 32 + unat ?n" using n assms(1) by (simp add: WZCP_MAX_FRAME_def)
  have h: "wh_body_len ?h = ?n" by (simp add: sent_header_def)
  have le: "unat ?n \<le> WZCP_MAX_FRAME" using n assms(2) by simp
  note f = oversize_frame_first_bytes [OF m le h, of body]
  have u: "unat (32 + ?n) = 32 + unat ?n" using le by (simp add: unat_plus_small WZCP_MAX_FRAME_def)
  have "36 \<le> length (cn_buf conn)" using assms(4) by simp
  moreover have "looks_like_wzcp (cn_buf conn) = Some False"
    using f(1) m u by (simp add: looks_like_wzcp_def assms(4))
  moreover have "\<not> looks_like_syslog (cn_buf conn)"
    using f(2) by (cases "frame_of ?h body") (auto simp: looks_like_syslog_def assms(4) scan_text_zero)
  ultimately show "process_buffer conn g = Some (-1, conn, g)" by (simp add: process_buffer_def)
qed

definition big_body :: bytes where
  "big_body = replicate 1048570 0"

definition big_session :: xsiam_agent_conn where
  "big_session = (session 1 None)\<lparr>cn_buf := frame_of (sent_header MSG_EVENT_BATCH 1 1 0 (of_nat (length big_body))) big_body\<rparr>"

theorem frame_limits_differ_witness:
  "xsiam_wzcp_send_frame (idle_sock []) MSG_EVENT_BATCH 1 1 big_body (of_nat (length big_body)) 0 =
     Some (0, (idle_sock [])\<lparr>sk_out := sk_out (idle_sock []) @ cn_buf big_session\<rparr>) \<and>
   process_buffer big_session gw_idle = Some (-1, big_session, gw_idle)"
proof (rule frame_limits_differ)
  have l: "length big_body = 1048570" unfolding big_body_def by (rule length_replicate)
  show "WZCP_MAX_FRAME - 32 < length big_body" "length big_body \<le> WZCP_MAX_FRAME" by (simp_all add: l WZCP_MAX_FRAME_def)
  show "sk_wr (idle_sock []) = []" by (simp add: idle_sock_def)
  show "cn_buf big_session = frame_of (sent_header MSG_EVENT_BATCH 1 1 0 (of_nat (length big_body))) big_body" by (simp add: big_session_def)
qed

section \<open>Growing buffers\<close>



end
