(* ===== verification/Agent_Loop.thy ===== *)
theory Agent_Loop
  imports Agent_Client Agent_Buffer
begin

text \<open>
  The main loop of the agent: forwarding local events (\<^verbatim>\<open>agents/client-agent/event-forward.c\<close>), the
  keepalive and the supervision of the server (\<^verbatim>\<open>notify.c\<close>), the monitor loop of \<open>AgentdStart\<close>
  (\<^verbatim>\<open>agentd.c\<close>), the receiver loop of the Windows agent (\<^verbatim>\<open>receiver.c\<close>) and the rounds of the
  dispatch thread (\<^verbatim>\<open>buffer.c\<close>). It joins the models of the connection (\<open>agent\<close>) and of the
  anti-flooding buffer (\<open>agent_buffer\<close>); the statistics, one record in the program, are those of
  the agent, and the buffer works on a copy that is written back.

  \<open>dm_msgs\<close> is what the local socket \<open>m_queue\<close> holds: one datagram per event; when it is empty
  \<open>recv\<close> fails because of \<open>MSG_DONTWAIT\<close>. What the keepalive reads from the system (host name,
  checksums, labels, address) is an argument.
\<close>

section \<open>State\<close>

text \<open>The static variables of \<^verbatim>\<open>notify.c\<close>.\<close>

record notify_state =
  ns_saved_time :: nat
  ns_merged_hash :: "bytes option"
  ns_labels :: bytes
  ns_labels_ptr :: "nat option"
  ns_agent_ip :: bytes
  ns_last_update :: nat

record agent_config =
  cf_max_time_reconnect_try :: int
  cf_force_reconnect_interval :: int
  cf_notify_time :: int
  cf_main_ip_update_interval :: int

record daemon =
  dm_agent :: agent
  dm_buffer :: agent_buffer
  dm_msgs :: "bytes list"
  dm_heap :: heap
  dm_notify :: notify_state
  dm_labels_ptr :: nat
  dm_needs_reload :: bool
  dm_execdq :: int

text \<open>What \<open>run_notify\<close> asks the system for.\<close>

record notify_env =
  ne_uname :: bytes
  ne_config_md5 :: "bytes option"
  ne_merged_md5 :: "bytes option"
  ne_merged_missing :: bool
  ne_labels :: bytes
  ne_ip :: "bytes option"

text \<open>An operation of the buffer on the shared statistics.\<close>

definition on_buffer :: "(agent_buffer \<Rightarrow> ('r \<times> agent_buffer) option) \<Rightarrow> daemon \<Rightarrow> ('r \<times> daemon) option" where
  "on_buffer f d = do {
     (r, b) \<leftarrow> f ((dm_buffer d)\<lparr>ab_stats := ag_stats (dm_agent d)\<rparr>);
     Some (r, d\<lparr>dm_buffer := b, dm_agent := (dm_agent d)\<lparr>ag_stats := ab_stats b\<rparr>\<rparr>) }"

section \<open>Forwarding local events\<close>

text \<open>\<open>buffer_append\<close>, with the clock and the allocator of the process.\<close>

definition append_event :: "bytes \<Rightarrow> daemon \<Rightarrow> (int \<times> daemon) option" where
  "append_event msg d =
     (let (now, a) = time_now (dm_agent d);
          (ok, h) = alloc (dm_heap d)
      in on_buffer (buffer_append msg (int now) ok) (d\<lparr>dm_agent := a, dm_heap := h\<rparr>))"

text \<open>
  The loop of \<open>EventForward\<close> over the datagrams: one that is longer than the buffer is cut, an empty
  one ends the loop, and the text ends at its first NUL.
\<close>

fun forward_events :: "bytes list \<Rightarrow> daemon \<Rightarrow> daemon option" where
  "forward_events [] d = Some (d\<lparr>dm_msgs := []\<rparr>)"
| "forward_events (datagram # rest) d =
     (let msg = take OS_MAXSTR datagram; d1 = d\<lparr>dm_msgs := rest\<rparr> in
      if msg = [] then Some d1
      else if ab_enabled (dm_buffer d1) then do {
        (rc, d2) \<leftarrow> append_event (cstr_of msg) d1;
        if rc < 0 then Some d2 else forward_events rest d2
      }
      else do {
        (rc, a) \<leftarrow> send_msg (cstr_of msg) (-1) (update_stats INCREMENT_MSG_COUNT (dm_agent d1));
        let d2 = d1\<lparr>dm_agent := a\<rparr>;
        if rc < 0 then Some d2 else forward_events rest d2
      })"

definition EventForward :: "daemon \<Rightarrow> daemon option" where
  "EventForward d = forward_events (dm_msgs d) d"

section \<open>The dispatch thread\<close>

text \<open>\<open>send_msg(m, -1)\<close> for each of the messages, the results ignored.\<close>

fun transmit :: "bytes list \<Rightarrow> agent \<Rightarrow> agent option" where
  "transmit [] a = Some a"
| "transmit (m # ms) a = do { (rc, a1) \<leftarrow> send_msg m (-1) a; transmit ms a1 }"

text \<open>
  One round of \<open>dispatch_buffer\<close> that is not interrupted: take a message, send the pending notices and
  then the message. The messages handed over by the buffer's model are the ones sent. Nothing happens
  while the thread waits or after it has stopped.
\<close>

definition dispatch_round :: "daemon \<Rightarrow> daemon option" where
  "dispatch_round d =
     (if \<not> can_take (dm_buffer d) then Some d
      else do {
        (t, d1) \<leftarrow> on_buffer dispatch_take d;
        case t of
          None \<Rightarrow> Some d1
        | Some msg \<Rightarrow> do {
            b \<leftarrow> dispatch_send msg (dispatch_notices (dm_buffer d1));
            a \<leftarrow> transmit (drop (length (ab_sent (dm_buffer d1))) (ab_sent b)) (dm_agent d1);
            Some (d1\<lparr>dm_buffer := b, dm_agent := a\<rparr>)
          }
      })"

section \<open>The keepalive\<close>

definition CONTROL_HEADER :: bytes where
  "CONTROL_HEADER = asc ''#!-''"

definition IPSIZE :: nat where
  "IPSIZE = 46"

definition no_hash_value :: bytes where
  "no_hash_value = asc ''x merged.mg'' @ [10]"

text \<open>\<open>snprintf(buf, size, ...)\<close> of a formatted text.\<close>

definition snprintf_cut :: "nat \<Rightarrow> bytes \<Rightarrow> bytes" where
  "snprintf_cut n text' = take (n - 1) text'"

definition getsharedfiles :: "notify_env \<Rightarrow> heap \<Rightarrow> bytes option \<times> heap" where
  "getsharedfiles env h =
     (let md5 = (case ne_merged_md5 env of Some m \<Rightarrow> m | None \<Rightarrow> asc ''x'');
          (ok, h') = alloc h
      in (if ok then Some (snprintf_cut 64 (md5 @ asc '' merged.mg'' @ [10])) else None, h'))"

text \<open>The four formats of the keepalive differ in the optional parts.\<close>

definition keepalive_text :: "notify_env \<Rightarrow> notify_state \<Rightarrow> bytes" where
  "keepalive_text env ns =
     snprintf_cut (OS_MAXSTR - OS_HEADER_SIZE)
       (CONTROL_HEADER @ ne_uname env @
        (case ne_config_md5 env of Some m \<Rightarrow> asc '' / '' @ m | None \<Rightarrow> []) @ [10] @
        ns_labels ns @
        (case ns_merged_hash ns of Some h \<Rightarrow> h | None \<Rightarrow> no_hash_value) @
        (if ns_agent_ip ns \<noteq> [] then snprintf_cut 60 (asc ''#\"_agent_ip\":'' @ ns_agent_ip ns) else []) @ [10])"

text \<open>
  The texts that are kept between calls: labels, checksum of the shared files, address. The result is
  \<open>None\<close> when there is no memory for the checksum.
\<close>

definition refresh_labels :: "notify_env \<Rightarrow> daemon \<Rightarrow> daemon" where
  "refresh_labels env d =
     (if Some (dm_labels_ptr d) \<noteq> ns_labels_ptr (dm_notify d)
      then d\<lparr>dm_notify := (dm_notify d)\<lparr>ns_labels := ne_labels env, ns_labels_ptr := Some (dm_labels_ptr d)\<rparr>\<rparr>
      else d)"

definition refresh_hash :: "notify_env \<Rightarrow> daemon \<Rightarrow> bool \<times> daemon" where
  "refresh_hash env d =
     (case ns_merged_hash (dm_notify d) of
        None \<Rightarrow>
          let (h, heap') = getsharedfiles env (dm_heap d)
          in (h \<noteq> None, d\<lparr>dm_heap := heap', dm_notify := (dm_notify d)\<lparr>ns_merged_hash := h\<rparr>\<rparr>)
      | Some _ \<Rightarrow>
          (True, if ne_merged_missing env then d\<lparr>dm_notify := (dm_notify d)\<lparr>ns_merged_hash := None\<rparr>\<rparr> else d))"

definition refresh_ip :: "agent_config \<Rightarrow> notify_env \<Rightarrow> daemon \<Rightarrow> daemon" where
  "refresh_ip cf env d =
     (let (now, a) = time_now (dm_agent d); ns = dm_notify d in
      if int now - int (ns_last_update ns) \<ge> cf_main_ip_update_interval cf
      then d\<lparr>dm_agent := a,
             dm_notify := ns\<lparr>ns_last_update := now,
               ns_agent_ip := (case ne_ip env of Some ip \<Rightarrow> take IPSIZE ip | None \<Rightarrow> [])\<rparr>\<rparr>
      else d\<lparr>dm_agent := a\<rparr>)"

definition send_keepalive :: "agent_config \<Rightarrow> notify_env \<Rightarrow> nat \<Rightarrow> daemon \<Rightarrow> daemon option" where
  "send_keepalive cf env curr_time d =
     (let d1 = refresh_labels env (d\<lparr>dm_notify := (dm_notify d)\<lparr>ns_saved_time := curr_time\<rparr>\<rparr>);
          (ok, d2) = refresh_hash env d1
      in if \<not> ok then Some d2
         else let d3 = refresh_ip cf env d2 in do {
           (rc, a) \<leftarrow> send_msg (keepalive_text env (dm_notify d3)) (-1) (dm_agent d3);
           Some (d3\<lparr>dm_agent := update_stats (UPDATE_KEEPALIVE (Some curr_time)) a\<rparr>)
         })"

text \<open>\<open>curr_time\<close> is read once; the reconnects in between take their own readings.\<close>

definition run_notify ::
  "(bytes \<Rightarrow> bytes option) \<Rightarrow> agent_config \<Rightarrow> notify_env \<Rightarrow> daemon \<Rightarrow> daemon option" where
  "run_notify resolve cf env d =
     (let (curr_time, a0) = time_now (dm_agent d) in do {
        a1 \<leftarrow> (if int curr_time - int (ag_available_server a0) > cf_max_time_reconnect_try cf
               then reconnect resolve a0 else Some a0);
        a2 \<leftarrow> (if cf_force_reconnect_interval cf \<noteq> 0 \<and>
                  int curr_time - int (ag_last_connection_time a1) \<ge> cf_force_reconnect_interval cf
               then reconnect resolve a1 else Some a1);
        let d2 = d\<lparr>dm_agent := a2\<rparr>;
        if int curr_time - int (ns_saved_time (dm_notify d2)) < cf_notify_time cf then Some d2
        else send_keepalive cf env curr_time d2
      })"

section \<open>The loops\<close>

text \<open>
  The inputs of a turn of the monitor loop: the outcome of \<open>select\<close>, what \<open>ReadConfig\<close> makes of the
  buffer settings and the labels (\<open>None\<close> is an unreadable configuration), and the descriptor of
  the active response queue.
\<close>

datatype select_result = Select_Error | Select_Timeout | Select_Ready bool bool

record turn_input =
  ti_notify :: notify_env
  ti_select :: select_result
  ti_config :: "(bool \<times> nat \<times> (nat \<times> nat \<times> int) \<times> nat) option"
  ti_execq :: int

datatype turn_result = Continues daemon | Exits

definition reload_config :: "turn_input \<Rightarrow> daemon \<Rightarrow> turn_result option" where
  "reload_config inp d =
     (if dm_needs_reload d then
        case ti_config inp of
          None \<Rightarrow> Some Exits
        | Some (flag, buflength, levels, labels) \<Rightarrow> do {
            (u, d1) \<leftarrow> on_buffer (\<lambda>b. map_option (Pair ()) (reload_buffer flag buflength levels b))
                        (d\<lparr>dm_needs_reload := False, dm_execdq := -1, dm_labels_ptr := labels\<rparr>);
            Some (Continues d1)
          }
      else Some (Continues d))"

definition receive_or_reconnect :: "(bytes \<Rightarrow> bytes option) \<Rightarrow> agent \<Rightarrow> agent option" where
  "receive_or_reconnect resolve a = do {
     (rc, a1) \<leftarrow> receive_msg a;
     if rc < 0 then reconnect resolve a1 else Some a1 }"

definition agentd_turn ::
  "(bytes \<Rightarrow> bytes option) \<Rightarrow> agent_config \<Rightarrow> turn_input \<Rightarrow> daemon \<Rightarrow> turn_result option" where
  "agentd_turn resolve cf inp d = do {
     d1 \<leftarrow> run_notify resolve cf (ti_notify inp) d;
     case ti_select inp of
       Select_Error \<Rightarrow> Some Exits
     | Select_Timeout \<Rightarrow> Some (Continues d1)
     | Select_Ready sock_ready queue_ready \<Rightarrow> do {
         r \<leftarrow> reload_config inp d1;
         case r of
           Exits \<Rightarrow> Some Exits
         | Continues d2 \<Rightarrow> do {
             let d3 = (if dm_execdq d2 \<le> 0
                       then d2\<lparr>dm_execdq := (if ti_execq inp < 0 then -1 else ti_execq inp)\<rparr> else d2);
             a \<leftarrow> (if sock_ready then receive_or_reconnect resolve (dm_agent d3) else Some (dm_agent d3));
             let d4 = d3\<lparr>dm_agent := a\<rparr>;
             d5 \<leftarrow> (if queue_ready then EventForward d4 else Some d4);
             Some (Continues d5)
           }
       }
   }"

text \<open>
  A turn of \<open>receiver_messages\<close>, the main loop of the Windows agent; \<open>ready\<close> is the result of \<open>select\<close>.
  The timeouts of the commands (\<open>ExecdTimeoutRun\<close>) do not touch the state modelled here.
\<close>

definition receiver_turn ::
  "(bytes \<Rightarrow> bytes option) \<Rightarrow> agent_config \<Rightarrow> notify_env \<Rightarrow> int \<Rightarrow> nat \<Rightarrow> int \<Rightarrow> daemon
   \<Rightarrow> (nat \<times> int \<times> daemon) option" where
  "receiver_turn resolve cf env ready next_heartbeat last_sock d =
     (if ag_fd (dm_agent d) = -1 then Some (next_heartbeat, last_sock, d)
      else do {
        d0 \<leftarrow> run_notify resolve cf env d;
        (rc, next_heartbeat', last_sock', a1) \<leftarrow> wzcp_send_heartbeat_if_due next_heartbeat last_sock (dm_agent d0);
        a2 \<leftarrow> (if rc < 0 then reconnect resolve a1
               else if ready \<le> 0 then Some a1
               else receive_or_reconnect resolve a1);
        Some (next_heartbeat', last_sock', d0\<lparr>dm_agent := a2\<rparr>)
      })"

end
