(* ===== verification/Agent_Loop_Lemmas.thy ===== *)
theory Agent_Loop_Lemmas
  imports Agent_Loop Agent_Client_Lemmas Agent_Buffer_Safety
begin

text \<open>
  The steps of the agent's main loop over its two halves: what a step does to the queued events, and
  what it puts on a connection that takes everything.
\<close>

section \<open>Sending on an undisturbed connection\<close>

text \<open>A frame that carries the text \<open>m\<close> of the agent with the key id \<open>key\<close>.\<close>

definition event_frame :: "bytes \<Rightarrow> bytes \<Rightarrow> wzcp_header \<times> bytes \<Rightarrow> bool" where
  "event_frame key m f \<longleftrightarrow> (\<exists>sq ts t eid.
     f = (sent_header MSG_EVENT_BATCH (atoi key) sq ts (of_nat (22 + length m)), event_body EVENT_LOG m t eid))"

definition frame_bytes :: "wzcp_header \<times> bytes \<Rightarrow> bytes" where
  "frame_bytes f = frame_of (fst f) (snd f)"

text \<open>A text that \<open>send_msg\<close> carries whole.\<close>

definition sendable :: "bytes \<Rightarrow> bool" where
  "sendable m \<longleftrightarrow> cstring m \<and> length m \<le> 0xffff"

lemma send_frame_whole:
  assumes "sk_wr sk = []" "unat n = length body" "unat n \<le> WZCP_MAX_FRAME"
  shows "xsiam_wzcp_send_frame sk ty aid sq (body @ junk) n ts =
    Some (0, sk\<lparr>sk_out := sk_out sk @ frame_of (sent_header ty aid sq ts n) body\<rparr>)"
proof (cases "0 < n")
  case True
  with assms show ?thesis
    by (simp add: xsiam_wzcp_send_frame_def send_all_unscripted peek_def frame_of_def sent_header_def Let_def)
next
  case False
  then have "n = 0" by (simp add: word_gt_0)
  with assms show ?thesis
    by (simp add: xsiam_wzcp_send_frame_def send_all_unscripted frame_of_def sent_header_def Let_def)
qed

lemma send_wzcp_frame:
  assumes "send_wzcp ty aid body n a = Some (rc, a')"
  shows "ag_fd a' = ag_fd a" "ag_key_id a' = ag_key_id a" "ag_stats a' = ag_stats a"
proof -
  obtain t a1 where t: "now_ms (a\<lparr>ag_seq := ag_seq a + 1\<rparr>) = (t, a1)" by force
  with assms obtain sk where "a' = a1\<lparr>ag_sock := sk\<rparr>"
    by (auto simp: send_wzcp_def xsiam_wzcp_next_seq_def bind_eq_Some_conv)
  then show "ag_fd a' = ag_fd a" "ag_key_id a' = ag_key_id a" "ag_stats a' = ag_stats a"
    using now_ms_frame [OF t] by simp_all
qed

lemma send_msg_frame:
  assumes "send_msg msg n a = Some (rc, a')"
  shows "ag_fd a' = ag_fd a" "ag_key_id a' = ag_key_id a" "as_status (ag_stats a') = as_status (ag_stats a)"
proof -
  obtain t a1 where t: "now_ms a = (t, a1)" by force
  obtain bl body sq where r: "(if bl < 0 then Some (-1, a1\<lparr>ag_seq := sq\<rparr>)
      else do { (retval, a3) \<leftarrow> send_wzcp MSG_EVENT_BATCH (atoi (ag_key_id (a1\<lparr>ag_seq := sq\<rparr>))) body (word_of_int bl) (a1\<lparr>ag_seq := sq\<rparr>);
                if retval = 0 then Some (retval, update_stats INCREMENT_MSG_SEND a3) else Some (retval, a3) }) = Some (rc, a')"
    using assms t by (auto simp: send_msg_def bind_eq_Some_conv Let_def)
  have "ag_fd a' = ag_fd a1 \<and> ag_key_id a' = ag_key_id a1 \<and> as_status (ag_stats a') = as_status (ag_stats a1)"
  proof (cases "bl < 0")
    case False
    with r obtain rv a3 where s: "send_wzcp MSG_EVENT_BATCH (atoi (ag_key_id a1)) body (word_of_int bl) (a1\<lparr>ag_seq := sq\<rparr>) = Some (rv, a3)"
      "a' = update_stats INCREMENT_MSG_SEND a3 \<or> a' = a3" by (auto simp: bind_eq_Some_conv split: if_splits)
    then show ?thesis using send_wzcp_frame [OF s(1)] by (auto simp: update_stats_def)
  qed (use r in auto)
  then show "ag_fd a' = ag_fd a" "ag_key_id a' = ag_key_id a" "as_status (ag_stats a') = as_status (ag_stats a)"
    using now_ms_frame [OF t] by simp_all
qed

text \<open>A connection that takes everything, with the key id \<open>key\<close>.\<close>

definition flowing :: "bytes \<Rightarrow> agent \<Rightarrow> bool" where
  "flowing key a \<longleftrightarrow> sk_wr (ag_sock a) = [] \<and> ag_key_id a = key"

lemma send_msg_flows:
  assumes "sendable m" "flowing key a"
  shows "\<exists>a' f. send_msg m (-1) a = Some (0, a') \<and> flowing key a' \<and> event_frame key m f \<and>
    sk_out (ag_sock a') = sk_out (ag_sock a) @ frame_bytes f"
proof -
  have m: "length m \<le> 0xffff" "cstring m" and k: "ag_key_id a = key" "sk_wr (ag_sock a) = []"
    using assms by (simp_all add: sendable_def flowing_def)
  obtain t a1 where t: "now_ms a = (t, a1)" by force
  note f = now_ms_frame [OF t]
  have pk: "peek m 0 (length (cstr_of m)) = Some m" using m(2) by (simp add: peek_def)
  obtain body where b: "xsiam_wzcp_build_event_batch (replicate (OS_MAXSTR + 128) 0) (of_nat (OS_MAXSTR + 128))
        EVENT_LOG m (of_nat t) (ag_seq a1) = Some (22 + int (length m), body, ag_seq a1 + 1)"
      "take (22 + length m) body = event_body EVENT_LOG m (of_nat t) (ag_seq a1 + 1)"
    using event_batch_writes [of m "replicate (OS_MAXSTR + 128) 0" "of_nat (OS_MAXSTR + 128)" EVENT_LOG "of_nat t" "ag_seq a1"]
      m(1) maxstr_room by auto
  let ?e = "event_body EVENT_LOG m (of_nat t) (ag_seq a1 + 1)" and ?n = "word_of_int (22 + int (length m)) :: u32"
  have n: "unat ?n = length ?e"
    using m(1) unat_of_nat_small [where 'a = 32, of "22 + length m"] by simp
  have body: "body = ?e @ drop (22 + length m) body" using b(2) by (metis append_take_drop_id)
  let ?a2 = "a1\<lparr>ag_seq := ag_seq a1 + 1\<rparr>"
  obtain t3 a3 where t3: "now_ms (?a2\<lparr>ag_seq := ag_seq ?a2 + 1\<rparr>) = (t3, a3)" by force
  note f3 = now_ms_frame [OF t3]
  have sk: "ag_sock a3 = ag_sock a" "ag_key_id a3 = key" using f f3 k by simp_all
  let ?h = "sent_header MSG_EVENT_BATCH (atoi key) (ag_seq ?a2 + 1) (of_nat t3) ?n"
  let ?sk = "(ag_sock a)\<lparr>sk_out := sk_out (ag_sock a) @ frame_of ?h ?e\<rparr>"
  have "xsiam_wzcp_send_frame (ag_sock a) MSG_EVENT_BATCH (atoi key) (ag_seq ?a2 + 1) body ?n (of_nat t3) = Some (0, ?sk)"
    by (subst body, rule send_frame_whole) (use k n m(1) in \<open>simp_all add: WZCP_MAX_FRAME_def\<close>)
  then have s: "send_wzcp MSG_EVENT_BATCH (atoi (ag_key_id ?a2)) body ?n ?a2 = Some (0, a3\<lparr>ag_sock := ?sk\<rparr>)"
    using t3 sk(1) f(8) k(1) by (simp add: send_wzcp_def xsiam_wzcp_next_seq_def Let_def)
  let ?a4 = "update_stats INCREMENT_MSG_SEND (a3\<lparr>ag_sock := ?sk\<rparr>)"
  have "send_msg m (-1) a = Some (0, ?a4)"
    using t pk b(1) s unfolding send_msg_def Let_def by simp
  moreover have "flowing key ?a4" using k sk by (simp add: flowing_def update_stats_def)
  moreover have "event_frame key m (?h, ?e)"
  proof -
    have n': "?n = of_nat (22 + length m)" by simp
    show ?thesis unfolding n' event_frame_def by blast
  qed
  moreover have "sk_out (ag_sock ?a4) = sk_out (ag_sock a) @ frame_bytes (?h, ?e)"
    by (simp add: update_stats_def frame_bytes_def)
  ultimately show ?thesis by blast
qed

lemma transmit_flows:
  assumes "\<forall>m \<in> set ms. sendable m" "flowing key a"
  shows "\<exists>a' fs. transmit ms a = Some a' \<and> flowing key a' \<and> list_all2 (event_frame key) ms fs \<and>
    sk_out (ag_sock a') = sk_out (ag_sock a) @ concat (map frame_bytes fs)"
  using assms
proof (induction ms arbitrary: a)
  case (Cons m ms)
  from send_msg_flows [of m key a] Cons.prems obtain a1 f where
    1: "send_msg m (-1) a = Some (0, a1)" "flowing key a1" "event_frame key m f"
      "sk_out (ag_sock a1) = sk_out (ag_sock a) @ frame_bytes f" by auto
  from Cons.IH [OF _ 1(2)] Cons.prems(1) obtain a2 fs where
    2: "transmit ms a1 = Some a2" "flowing key a2" "list_all2 (event_frame key) ms fs"
      "sk_out (ag_sock a2) = sk_out (ag_sock a1) @ concat (map frame_bytes fs)" by auto
  from 1 2 show ?case by (intro exI [of _ a2] exI [of _ "f # fs"]) simp
qed simp

section \<open>Forwarding into the buffer\<close>

lemma append_event_outcome:
  assumes ok: "sys_ok (dm_buffer d) t" and h: "roomy (dm_heap d)"
  shows "\<exists>rc d'. append_event msg d = Some (rc, d') \<and> sys_ok (dm_buffer d') t \<and> roomy (dm_heap d') \<and>
    ag_sock (dm_agent d') = ag_sock (dm_agent d) \<and> ag_key_id (dm_agent d') = ag_key_id (dm_agent d) \<and>
    dm_msgs d' = dm_msgs d \<and> ab_buflength (dm_buffer d') = ab_buflength (dm_buffer d) \<and>
    (if length (contents (dm_buffer d)) = ab_buflength (dm_buffer d)
     then rc = -1 \<and> contents (dm_buffer d') = contents (dm_buffer d)
     else rc = 0 \<and> contents (dm_buffer d') = contents (dm_buffer d) @ [Some msg])"
proof -
  obtain now a where t: "time_now (dm_agent d) = (now, a)" by force
  note f = time_now_frame [OF t]
  obtain b ok' where al: "alloc (dm_heap d) = (b, ok')" by force
  then have r: "b" "roomy ok'" using roomy_alloc [OF h] by auto
  let ?b = "(dm_buffer d)\<lparr>ab_stats := ag_stats a\<rparr>"
  have c: "core ?b = core (dm_buffer d)" by (simp add: core_simps)
  have ok1: "sys_ok ?b t" using ok core_cong(3) [OF c] by simp
  have cn: "contents ?b = contents (dm_buffer d)" "pointers ?b = pointers (dm_buffer d)" using core_cong [OF c] by simp_all
  have len: "length (pointers (dm_buffer d)) = length (contents (dm_buffer d))" by (simp add: contents_def)
  show ?thesis
  proof (cases "length (contents (dm_buffer d)) = ab_buflength (dm_buffer d)")
    case True
    then have "length (pointers ?b) = ab_buflength ?b" using cn(2) len by simp
    from buffer_append_full [OF ok1 this, of msg "int now" b] obtain b' where
      b': "buffer_append msg (int now) b ?b = Some (-1, b')" "core b' = core ?b" by blast
    from core_cong [OF b'(2)] core_fields(4) [OF b'(2)] b'(1) True t al r f ok1 cn show ?thesis
      by (simp add: append_event_def on_buffer_def)
  next
    case False
    then have "length (pointers ?b) \<noteq> ab_buflength ?b" using cn(2) len by simp
    from buffer_append_room [OF ok1 this, of msg "int now" b] obtain b' where
      b': "buffer_append msg (int now) b ?b = Some (0, b')" "sys_ok b' t" "contents b' = contents ?b @ [if b then Some msg else None]"
      by blast
    from b' buflength_frame(1) [OF b'(1)] False t al r f cn show ?thesis
      by (simp add: append_event_def on_buffer_def)
  qed
qed

text \<open>What a datagram becomes.\<close>

definition event_text :: "bytes \<Rightarrow> bytes" where
  "event_text m = cstr_of (take OS_MAXSTR m)"

lemma forward_events_buffered:
  assumes "sys_ok (dm_buffer d) t" "roomy (dm_heap d)"
  shows "\<exists>k d'. forward_events ms d = Some d' \<and> sys_ok (dm_buffer d') t \<and> roomy (dm_heap d') \<and>
    contents (dm_buffer d') = contents (dm_buffer d) @ map (Some \<circ> event_text) (take k ms) \<and>
    ag_sock (dm_agent d') = ag_sock (dm_agent d) \<and> ag_key_id (dm_agent d') = ag_key_id (dm_agent d) \<and>
    ab_buflength (dm_buffer d') = ab_buflength (dm_buffer d) \<and>
    (k = length ms \<and> dm_msgs d' = [] \<or>
     k < length ms \<and> dm_msgs d' = drop (Suc k) ms \<and>
       (ms ! k = [] \<or> length (contents (dm_buffer d')) = ab_buflength (dm_buffer d)))"
  using assms
proof (induction ms arbitrary: d)
  case Nil
  then show ?case by (intro exI [of _ 0]) simp
next
  case (Cons m ms)
  have en: "ab_enabled (dm_buffer d)" using Cons.prems(1) by (simp add: sys_ok_def)
  let ?d = "d\<lparr>dm_msgs := ms\<rparr>"
  show ?case
  proof (cases "take OS_MAXSTR m = []")
    case True
    then have "m = []" by (simp add: OS_MAXSTR_def)
    with Cons.prems show ?thesis by (intro exI [of _ 0] exI [of _ ?d]) simp
  next
    case False
    have "sys_ok (dm_buffer ?d) t" "roomy (dm_heap ?d)" using Cons.prems by simp_all
    from append_event_outcome [OF this, of "event_text m"] obtain rc d1 where
      1: "append_event (event_text m) ?d = Some (rc, d1)" "sys_ok (dm_buffer d1) t" "roomy (dm_heap d1)"
        "ag_sock (dm_agent d1) = ag_sock (dm_agent d)" "ag_key_id (dm_agent d1) = ag_key_id (dm_agent d)"
        "dm_msgs d1 = ms" "ab_buflength (dm_buffer d1) = ab_buflength (dm_buffer d)"
        "if length (contents (dm_buffer d)) = ab_buflength (dm_buffer d)
         then rc = -1 \<and> contents (dm_buffer d1) = contents (dm_buffer d)
         else rc = 0 \<and> contents (dm_buffer d1) = contents (dm_buffer d) @ [Some (event_text m)]" by auto
    have step: "forward_events (m # ms) d = (if rc < 0 then Some d1 else forward_events ms d1)"
      using 1(1) False en by (simp add: event_text_def Let_def)
    show ?thesis
    proof (cases "rc < 0")
      case True
      with 1 step show ?thesis by (intro exI [of _ 0] exI [of _ d1]) (auto split: if_splits)
    next
      case False
      from Cons.IH [OF 1(2,3)] obtain k d2 where
        2: "forward_events ms d1 = Some d2" "sys_ok (dm_buffer d2) t" "roomy (dm_heap d2)"
          "contents (dm_buffer d2) = contents (dm_buffer d1) @ map (Some \<circ> event_text) (take k ms)"
          "ag_sock (dm_agent d2) = ag_sock (dm_agent d1)" "ag_key_id (dm_agent d2) = ag_key_id (dm_agent d1)"
          "ab_buflength (dm_buffer d2) = ab_buflength (dm_buffer d1)"
          "k = length ms \<and> dm_msgs d2 = [] \<or> k < length ms \<and> dm_msgs d2 = drop (Suc k) ms \<and>
             (ms ! k = [] \<or> length (contents (dm_buffer d2)) = ab_buflength (dm_buffer d1))" by blast
      have "contents (dm_buffer d1) = contents (dm_buffer d) @ [Some (event_text m)]"
        using 1(8) False by (auto split: if_splits)
      with 1 2 step False show ?thesis by (intro exI [of _ "Suc k"] exI [of _ d2]) simp
    qed
  qed
qed

end
