(* ===== verification/Agent_Loop_Thms.thy ===== *)
theory Agent_Loop_Thms
  imports Agent_Loop_Lemmas Agent_Client_Thms
begin

text \<open>
  What the main loop of the agent promises: local events are queued in order and lost only when the
  buffer is full, the dispatch thread sends them in that order, the keepalive goes out when it is due
  and only then, and a silent server makes the agent connect again.
\<close>

section \<open>Notices\<close>

text \<open>The reports of the buffer about itself, which go out between the events.\<close>

definition notice_prefix :: bytes where
  "notice_prefix = asc ''1:wazuh-agent:wazuh: Agent buffer: ''"

definition is_notice :: "bytes \<Rightarrow> bool" where
  "is_notice m \<longleftrightarrow> take (length notice_prefix) m = notice_prefix"

text \<open>A printable text of moderate length: it can be sent, and it makes one row of the log table.\<close>

definition plain :: "bytes \<Rightarrow> bool" where
  "plain m \<longleftrightarrow> cstring m \<and> length m \<le> 3899 \<and> set m \<inter> {9, 10} = {} \<and> (m = [] \<or> last m \<noteq> 13)"

lemma plain_sendable: "plain m \<Longrightarrow> sendable m"
  by (simp add: plain_def sendable_def)

lemma notice_is_notice: "is_notice (notice s @ t)"
proof -
  have "notice s = notice_prefix @ asc s" by (simp only: notice_def notice_prefix_def asc_append)
  then show ?thesis by (simp add: is_notice_def)
qed

lemma plain_append: "plain (m @ t)" if "cstring m" "set m \<inter> {9, 10} = {}" "length m + length t \<le> 3899" "plain t" "t \<noteq> []"
  using that by (auto simp: plain_def)

lemma notice_plain:
  "plain (notice ([CHR 0x27] @ ''full'' @ [CHR 0x27, CHR ''.'']))"
  "plain (notice ([CHR 0x27] @ ''flooded'' @ [CHR 0x27, CHR ''.'']))"
  "plain (notice ([CHR 0x27] @ ''normal'' @ [CHR 0x27, CHR ''.'']))"
  by code_simp+

lemma warn_notice_plain:
  assumes "n \<le> 100"
  shows "plain (notice [CHR 0x27] @ dec n @ asc (''%'' @ [CHR 0x27, CHR ''.'']))" (is "plain (?m @ ?d @ ?t)")
proof -
  have t: "plain ?t" "length ?t = 3" "?t \<noteq> []" by code_simp+
  have d: "length (dec n) \<le> 3" using assms by (intro length_dec_le) simp_all
  have dd: "c \<in> set (dec n) \<Longrightarrow> c \<noteq> 0 \<and> c \<noteq> 9 \<and> c \<noteq> 10" for c
    using dec_digits [of c n] by (auto simp: is_digit_def)
  then have "cstring (dec n)" "set (dec n) \<inter> {9, 10} = {}" by (auto simp: cstring_def)
  then have p: "plain (dec n @ ?t)" using d t by (intro plain_append [of "dec n"]) simp_all
  have "cstring ?m" "set ?m \<inter> {9, 10} = {}" "length ?m = 36" by code_simp+
  then show ?thesis using d t p by (intro plain_append [of ?m]) simp_all
qed

lemma dispatch_notices_sent:
  assumes "ab_warn_level b \<le> 100"
  shows "\<exists>ns. ab_sent (dispatch_notices b) = ab_sent b @ ns \<and> (\<forall>m \<in> set ns. is_notice m \<and> plain m)"
proof -
  let ?w = "notice [CHR 0x27] @ dec (ab_warn_level b) @ asc (''%'' @ [CHR 0x27, CHR ''.''])"
  let ?ns = "(if ab_warn b then [?w] else []) @
    (if ab_full b then [notice ([CHR 0x27] @ ''full'' @ [CHR 0x27, CHR ''.''])] else []) @
    (if ab_flood b then [notice ([CHR 0x27] @ ''flooded'' @ [CHR 0x27, CHR ''.''])] else []) @
    (if ab_normal b then [notice ([CHR 0x27] @ ''normal'' @ [CHR 0x27, CHR ''.''])] else [])"
  have "ab_sent (dispatch_notices b) = ab_sent b @ ?ns"
    unfolding dispatch_notices_def hand_over_def Let_def by simp
  moreover have "is_notice (notice s)" for s using notice_is_notice [of s "[]"] by simp
  then have "\<forall>m \<in> set ?ns. is_notice m \<and> plain m"
    using warn_notice_plain [OF assms] notice_plain notice_is_notice by auto
  ultimately show ?thesis by blast
qed

section \<open>Rounds of the dispatch thread\<close>

lemma warn_level_frame:
  "ab_warn_level (raise_state now b) = ab_warn_level b" "ab_warn_level (lower_state b) = ab_warn_level b"
  "ab_warn_level (dispatch_notices b) = ab_warn_level b"
  by (auto simp: raise_state_def lower_state_def dispatch_notices_def hand_over_def Let_def split: buffer_status.splits)

lemma dispatch_take_frame:
  assumes "dispatch_take b = Some (t, b')"
  shows "ab_warn_level b' = ab_warn_level b" "ab_stats b' = ab_stats b" "ab_sent b' = ab_sent b"
  using assms warn_level_frame(2) [of b]
  by (auto simp: dispatch_take_def Let_def bind_eq_Some_conv lower_state_def split: if_splits buffer_status.splits)

lemma dispatch_send_frame: "dispatch_send t b = Some b' \<Longrightarrow> ab_warn_level b' = ab_warn_level b"
  by (auto simp: dispatch_send_def os_free_def hand_over_def slot_set_def bind_eq_Some_conv split: prod.splits option.splits if_splits)

text \<open>What one round does when an event is queued.\<close>

lemma dispatch_round_sends:
  assumes ok: "sys_ok (dm_buffer d) None" and c: "contents (dm_buffer d) = Some m # cs"
    and w: "ab_warn_level (dm_buffer d) \<le> 100" and m: "plain m" and fl: "flowing key (dm_agent d)"
  shows "\<exists>d' ns fs. dispatch_round d = Some d' \<and> sys_ok (dm_buffer d') None \<and> contents (dm_buffer d') = cs \<and>
    ab_warn_level (dm_buffer d') \<le> 100 \<and> flowing key (dm_agent d') \<and>
    (\<forall>n \<in> set ns. is_notice n \<and> plain n) \<and> list_all2 (event_frame key) (ns @ [m]) fs \<and>
    sk_out (ag_sock (dm_agent d')) = sk_out (ag_sock (dm_agent d)) @ concat (map frame_bytes fs)"
proof -
  let ?b = "(dm_buffer d)\<lparr>ab_stats := ag_stats (dm_agent d)\<rparr>"
  have co: "core ?b = core (dm_buffer d)" by (simp add: core_simps)
  have ok1: "sys_ok ?b None" and c1: "contents ?b = Some m # cs" using ok c core_cong [OF co] by simp_all
  have "length (pointers (dm_buffer d)) \<noteq> 0" using c by (auto simp: contents_def)
  then have "ring_used (ring (dm_buffer d)) (ab_i (dm_buffer d)) (ab_j (dm_buffer d)) \<noteq> 0"
    unfolding length_pointers [OF ok] .
  then have ct: "can_take (dm_buffer d)"
    using ok ring_used_0_iff [of "ab_i (dm_buffer d)" "ring (dm_buffer d)" "ab_j (dm_buffer d)"]
    by (auto simp: can_take_def empty_ring_def sys_ok_def)
  then have ct1: "can_take ?b" by (simp add: can_take_def)
  from dispatch_take_ok [OF ok1 ct1] c1 obtain p cl b1 where
    t: "dispatch_take ?b = Some (Some (p, cl), b1)" "sys_ok b1 (Some (p, cl))" "deref b1 p = Some m" "contents b1 = cs"
    by fastforce
  note tf = dispatch_take_frame [OF t(1)]
  let ?d1 = "d\<lparr>dm_buffer := b1, dm_agent := (dm_agent d)\<lparr>ag_stats := ab_stats b1\<rparr>\<rparr>"
  have tk: "on_buffer dispatch_take d = Some (Some (p, cl), ?d1)" using t(1) by (simp add: on_buffer_def)
  let ?b2 = "dispatch_notices b1"
  have co2: "core ?b2 = core b1" by (simp add: core_simps)
  have ok2: "sys_ok ?b2 (Some (p, cl))" using t(2) core_cong(3) [OF co2] by simp
  from dispatch_send_ok [OF ok2] core_cong(2,4) [OF co2] t(3,4) obtain b3 where
    s: "dispatch_send (p, cl) ?b2 = Some b3" "sys_ok b3 None" "contents b3 = cs" "ab_sent b3 = ab_sent ?b2 @ [m]"
    by auto
  from dispatch_notices_sent [of b1] tf(1) w obtain ns where
    ns: "ab_sent ?b2 = ab_sent b1 @ ns" "\<forall>n \<in> set ns. is_notice n \<and> plain n" by auto
  have new: "drop (length (ab_sent b1)) (ab_sent b3) = ns @ [m]" using s(4) ns(1) by simp
  have "\<forall>x \<in> set (ns @ [m]). sendable x" using ns(2) m plain_sendable by auto
  moreover have "flowing key (dm_agent ?d1)" using fl by (simp add: flowing_def)
  ultimately obtain a fs where
    a: "transmit (ns @ [m]) (dm_agent ?d1) = Some a" "flowing key a" "list_all2 (event_frame key) (ns @ [m]) fs"
      "sk_out (ag_sock a) = sk_out (ag_sock (dm_agent ?d1)) @ concat (map frame_bytes fs)"
    using transmit_flows by blast
  have "dispatch_round d = Some (?d1\<lparr>dm_buffer := b3, dm_agent := a\<rparr>)"
    using ct tk s(1) new a(1) by (simp add: dispatch_round_def)
  moreover have "ab_warn_level b3 \<le> 100"
    using dispatch_send_frame [OF s(1)] warn_level_frame(3) [of b1] tf(1) w by simp
  ultimately show ?thesis
    using s(2,3) a(2-4) ns(2) by (intro exI [of _ "?d1\<lparr>dm_buffer := b3, dm_agent := a\<rparr>"] exI [of _ ns] exI [of _ fs]) simp
qed

fun dispatch_rounds :: "nat \<Rightarrow> daemon \<Rightarrow> daemon option" where
  "dispatch_rounds 0 d = Some d"
| "dispatch_rounds (Suc n) d = do { d1 \<leftarrow> dispatch_round d; dispatch_rounds n d1 }"

lemma dispatch_rounds_send:
  assumes "sys_ok (dm_buffer d) None" "contents (dm_buffer d) = map Some ms" "ab_warn_level (dm_buffer d) \<le> 100"
    and "\<forall>m \<in> set ms. plain m \<and> \<not> is_notice m" "flowing key (dm_agent d)"
  shows "\<exists>d' texts fs. dispatch_rounds (length ms) d = Some d' \<and> sys_ok (dm_buffer d') None \<and> contents (dm_buffer d') = [] \<and>
    (\<forall>x \<in> set texts. plain x) \<and> filter (\<lambda>x. \<not> is_notice x) texts = ms \<and> list_all2 (event_frame key) texts fs \<and>
    sk_out (ag_sock (dm_agent d')) = sk_out (ag_sock (dm_agent d)) @ concat (map frame_bytes fs)"
  using assms
proof (induction ms arbitrary: d)
  case Nil
  then show ?case by (intro exI [of _ d] exI [of _ "[]"]) simp
next
  case (Cons m ms)
  have c: "contents (dm_buffer d) = Some m # map Some ms" and m: "plain m" "\<not> is_notice m" using Cons.prems by simp_all
  from dispatch_round_sends [OF Cons.prems(1) c Cons.prems(3) m(1) Cons.prems(5)] obtain d1 ns fs1 where
    1: "dispatch_round d = Some d1" "sys_ok (dm_buffer d1) None" "contents (dm_buffer d1) = map Some ms"
      "ab_warn_level (dm_buffer d1) \<le> 100" "flowing key (dm_agent d1)" "\<forall>n \<in> set ns. is_notice n \<and> plain n"
      "list_all2 (event_frame key) (ns @ [m]) fs1"
      "sk_out (ag_sock (dm_agent d1)) = sk_out (ag_sock (dm_agent d)) @ concat (map frame_bytes fs1)" by blast
  from Cons.IH [OF 1(2-4) _ 1(5)] Cons.prems(4) obtain d2 texts fs2 where
    2: "dispatch_rounds (length ms) d1 = Some d2" "sys_ok (dm_buffer d2) None" "contents (dm_buffer d2) = []"
      "\<forall>x \<in> set texts. plain x" "filter (\<lambda>x. \<not> is_notice x) texts = ms" "list_all2 (event_frame key) texts fs2"
      "sk_out (ag_sock (dm_agent d2)) = sk_out (ag_sock (dm_agent d1)) @ concat (map frame_bytes fs2)" by auto
  have "filter (\<lambda>x. \<not> is_notice x) ns = []" using 1(6) by (simp add: filter_empty_conv)
  moreover have "list_all2 (event_frame key) ((ns @ [m]) @ texts) (fs1 @ fs2)" using 1(7) 2(6) by (rule list_all2_appendI)
  ultimately show ?case
    using 1 2 m by (intro exI [of _ d2] exI [of _ "(ns @ [m]) @ texts"] exI [of _ "fs1 @ fs2"]) auto
qed

section \<open>The keepalive\<close>

text \<open>The texts that the keepalive is made of are C strings.\<close>

definition env_ok :: "notify_env \<Rightarrow> bool" where
  "env_ok env \<longleftrightarrow> cstring (ne_uname env) \<and> cstring (ne_labels env) \<and>
     (\<forall>m. ne_config_md5 env = Some m \<longrightarrow> cstring m) \<and> (\<forall>m. ne_merged_md5 env = Some m \<longrightarrow> cstring m) \<and>
     (\<forall>ip. ne_ip env = Some ip \<longrightarrow> cstring ip)"

definition notify_ok :: "notify_state \<Rightarrow> bool" where
  "notify_ok ns \<longleftrightarrow> cstring (ns_labels ns) \<and> (\<forall>h. ns_merged_hash ns = Some h \<longrightarrow> cstring h) \<and> cstring (ns_agent_ip ns)"

lemma asc_parts:
  "cstring (asc ''x'')" "cstring (asc '' merged.mg'')" "cstring CONTROL_HEADER" "cstring (asc '' / '')"
  "cstring no_hash_value" "cstring (asc ''#\"_agent_ip\":'')"
  by code_simp+

lemma keepalive_text_sendable:
  assumes "env_ok env" "notify_ok ns"
  shows "sendable (keepalive_text env ns)"
proof -
  have "length (keepalive_text env ns) \<le> 0xffff"
    by (simp add: keepalive_text_def snprintf_cut_def OS_MAXSTR_def OS_HEADER_SIZE_def)
  moreover have "cstring (keepalive_text env ns)"
    using assms asc_parts unfolding keepalive_text_def snprintf_cut_def
    by (intro cstring_take) (auto simp: env_ok_def notify_ok_def split: option.splits)
  ultimately show ?thesis by (simp add: sendable_def)
qed

text \<open>Refreshing the kept texts touches nothing but them, the heap and the clock.\<close>

definition notify_kept :: "daemon \<Rightarrow> daemon \<Rightarrow> bool" where
  "notify_kept d d' \<longleftrightarrow> dm_buffer d' = dm_buffer d \<and> dm_msgs d' = dm_msgs d \<and>
     ns_saved_time (dm_notify d') = ns_saved_time (dm_notify d) \<and> ag_sock (dm_agent d') = ag_sock (dm_agent d) \<and>
     ag_fd (dm_agent d') = ag_fd (dm_agent d) \<and> ag_key_id (dm_agent d') = ag_key_id (dm_agent d) \<and>
     ag_seq (dm_agent d') = ag_seq (dm_agent d) \<and> ag_stats (dm_agent d') = ag_stats (dm_agent d)"

lemma notify_kept_trans: "notify_kept d d1 \<Longrightarrow> notify_kept d1 d2 \<Longrightarrow> notify_kept d d2"
  by (simp add: notify_kept_def)

lemma refresh_labels_kept:
  "env_ok env \<Longrightarrow> notify_ok (dm_notify d) \<Longrightarrow>
   notify_kept d (refresh_labels env d) \<and> notify_ok (dm_notify (refresh_labels env d)) \<and>
   dm_heap (refresh_labels env d) = dm_heap d"
  by (simp add: refresh_labels_def notify_kept_def notify_ok_def env_ok_def)

lemma refresh_hash_kept:
  assumes "env_ok env" "notify_ok (dm_notify d)" "roomy (dm_heap d)" "refresh_hash env d = (ok, d')"
  shows "ok \<and> notify_kept d d' \<and> notify_ok (dm_notify d')"
proof (cases "ns_merged_hash (dm_notify d)")
  case None
  obtain b h where a: "alloc (dm_heap d) = (b, h)" by force
  then have "b" using roomy_alloc [OF assms(3)] by auto
  with None a assms asc_parts show ?thesis
    by (auto simp: refresh_hash_def getsharedfiles_def snprintf_cut_def notify_kept_def notify_ok_def env_ok_def
        intro!: cstring_take split: option.splits)
next
  case (Some h)
  with assms show ?thesis by (auto simp: refresh_hash_def notify_kept_def notify_ok_def split: if_splits)
qed

lemma refresh_ip_kept:
  assumes "env_ok env" "notify_ok (dm_notify d)"
  shows "notify_kept d (refresh_ip cf env d) \<and> notify_ok (dm_notify (refresh_ip cf env d))"
proof -
  obtain now a where t: "time_now (dm_agent d) = (now, a)" by force
  from time_now_frame [OF t] t assms show ?thesis
    by (auto simp: refresh_ip_def notify_kept_def notify_ok_def env_ok_def Let_def split: option.splits)
qed

lemma send_keepalive_outcome:
  assumes "env_ok env" "notify_ok (dm_notify d)" "roomy (dm_heap d)"
  shows "\<exists>d' rc f. send_keepalive cf env now d = Some d' \<and>
    event_frame (ag_key_id (dm_agent d)) (keepalive_text env (dm_notify d')) f \<and>
    sends (dm_agent d) (dm_agent d') (frame_bytes f) rc \<and>
    ns_saved_time (dm_notify d') = now \<and> as_last_keepalive (ag_stats (dm_agent d')) = now \<and>
    ag_fd (dm_agent d') = ag_fd (dm_agent d) \<and> dm_buffer d' = dm_buffer d \<and> dm_msgs d' = dm_msgs d \<and>
    as_status (ag_stats (dm_agent d')) = as_status (ag_stats (dm_agent d))"
proof -
  let ?d0 = "d\<lparr>dm_notify := (dm_notify d)\<lparr>ns_saved_time := now\<rparr>\<rparr>"
  have n0: "notify_ok (dm_notify ?d0)" "roomy (dm_heap ?d0)" using assms by (simp_all add: notify_ok_def)
  note 1 = refresh_labels_kept [OF assms(1) n0(1)]
  obtain ok d2 where h: "refresh_hash env (refresh_labels env ?d0) = (ok, d2)" by force
  have 2: "ok" "notify_kept (refresh_labels env ?d0) d2" "notify_ok (dm_notify d2)"
    using refresh_hash_kept [OF assms(1) _ _ h] 1 n0(2) by auto
  let ?d3 = "refresh_ip cf env d2"
  note 3 = refresh_ip_kept [OF assms(1) 2(3), of cf]
  have k: "notify_kept ?d0 ?d3" using notify_kept_trans 1 2(2) 3 by blast
  let ?m = "keepalive_text env (dm_notify ?d3)"
  have m: "length ?m \<le> 0xffff" "cstring ?m"
    using keepalive_text_sendable [OF assms(1)] 3 by (simp_all add: sendable_def)
  from send_msg_outcome [OF m, of "dm_agent ?d3"] obtain rc a t ts where
    s: "send_msg ?m (-1) (dm_agent ?d3) = Some (rc, a)"
      "sends (dm_agent ?d3) a (frame_of (sent_header MSG_EVENT_BATCH (atoi (ag_key_id (dm_agent ?d3))) (ag_seq (dm_agent ?d3) + 2) ts
         (of_nat (22 + length ?m))) (event_body EVENT_LOG ?m t (ag_seq (dm_agent ?d3) + 1))) rc"
    by blast
  note f = send_msg_frame [OF s(1)]
  let ?d4 = "?d3\<lparr>dm_agent := update_stats (UPDATE_KEEPALIVE (Some now)) a\<rparr>"
  let ?f = "(sent_header MSG_EVENT_BATCH (atoi (ag_key_id (dm_agent d))) (ag_seq (dm_agent ?d3) + 2) ts (of_nat (22 + length ?m)),
     event_body EVENT_LOG ?m t (ag_seq (dm_agent ?d3) + 1))"
  have r: "send_keepalive cf env now d = Some ?d4"
    using h 2(1) s(1) by (simp add: send_keepalive_def)
  have e: "event_frame (ag_key_id (dm_agent d)) ?m ?f" unfolding event_frame_def by blast
  have "sends (dm_agent d) (dm_agent ?d4) (frame_bytes ?f) rc"
    using s(2) k by (simp add: sends_def frame_bytes_def notify_kept_def update_stats_def)
  with r e k f show ?thesis
    by (intro exI [of _ ?d4] exI [of _ rc] exI [of _ ?f]) (simp add: notify_kept_def update_stats_def)
qed

section \<open>Properties\<close>

lemma time_now_server_times:
  assumes "time_now a = (now, a')"
  shows "ag_available_server a' = ag_available_server a" "ag_last_connection_time a' = ag_last_connection_time a"
  using assms by (auto simp: time_now_def now_ms_def Let_def split: list.splits)

text \<open>
  (C18) The keepalive. While the server has answered recently and no reconnect is forced, \<open>run_notify\<close>
  does nothing but read the clock until \<open>notify_time\<close> seconds have passed since the last keepalive;
  then it sends exactly one event, the keepalive text, which always fits a message, and records the
  time, whatever the connection does.
\<close>

theorem keepalive_when_due:
  assumes "time_now (dm_agent d) = (now, a0)"
    and "int now - int (ag_available_server (dm_agent d)) \<le> cf_max_time_reconnect_try cf"
    and "cf_force_reconnect_interval cf = 0 \<or>
      int now - int (ag_last_connection_time (dm_agent d)) < cf_force_reconnect_interval cf"
    and "env_ok env" "notify_ok (dm_notify d)" "roomy (dm_heap d)"
  shows "\<exists>d'. run_notify resolve cf env d = Some d' \<and> dm_buffer d' = dm_buffer d \<and> dm_msgs d' = dm_msgs d \<and>
    (if int now - int (ns_saved_time (dm_notify d)) < cf_notify_time cf then d' = d\<lparr>dm_agent := a0\<rparr>
     else \<exists>rc f. event_frame (ag_key_id (dm_agent d)) (keepalive_text env (dm_notify d')) f \<and>
       sends (dm_agent d) (dm_agent d') (frame_bytes f) rc \<and>
       ns_saved_time (dm_notify d') = now \<and> as_last_keepalive (ag_stats (dm_agent d')) = now)"
proof -
  note t = time_now_server_times [OF assms(1)] and f = time_now_frame [OF assms(1)]
  have r: "run_notify resolve cf env d =
      (if int now - int (ns_saved_time (dm_notify d)) < cf_notify_time cf then Some (d\<lparr>dm_agent := a0\<rparr>)
       else send_keepalive cf env now (d\<lparr>dm_agent := a0\<rparr>))"
    using assms(1-3) t by (auto simp: run_notify_def Let_def)
  show ?thesis
  proof (cases "int now - int (ns_saved_time (dm_notify d)) < cf_notify_time cf")
    case True
    with r show ?thesis by simp
  next
    case False
    have "notify_ok (dm_notify (d\<lparr>dm_agent := a0\<rparr>))" "roomy (dm_heap (d\<lparr>dm_agent := a0\<rparr>))" using assms by simp_all
    from send_keepalive_outcome [OF assms(4) this, of cf now] obtain d' rc fr where
      o: "send_keepalive cf env now (d\<lparr>dm_agent := a0\<rparr>) = Some d'" "event_frame (ag_key_id a0) (keepalive_text env (dm_notify d')) fr"
      "sends a0 (dm_agent d') (frame_bytes fr) rc" "ns_saved_time (dm_notify d') = now"
      "as_last_keepalive (ag_stats (dm_agent d')) = now" "dm_buffer d' = dm_buffer d" "dm_msgs d' = dm_msgs d" by auto
    have "sends (dm_agent d) (dm_agent d') (frame_bytes fr) rc" "event_frame (ag_key_id (dm_agent d)) (keepalive_text env (dm_notify d')) fr"
      using o(2,3) f by (simp_all add: sends_def)
    moreover have "run_notify resolve cf env d = Some d'" using r False o(1) by simp
    ultimately show ?thesis using o(4-7) unfolding if_not_P [OF False] by blast
  qed
qed


text \<open>A sample daemon: the sample agent with a fresh buffer and two local events.\<close>

definition sample_env :: notify_env where
  "sample_env = \<lparr>ne_uname = asc ''Linux'', ne_config_md5 = None, ne_merged_md5 = None, ne_merged_missing = False,
     ne_labels = [], ne_ip = None\<rparr>"

definition sample_config :: agent_config where
  "sample_config = \<lparr>cf_max_time_reconnect_try = 60, cf_force_reconnect_interval = 0, cf_notify_time = 10,
     cf_main_ip_update_interval = 0\<rparr>"

definition sample_daemon :: daemon where
  "sample_daemon = \<lparr>dm_agent = sample_agent, dm_buffer = buffer_init 90 70 15 (fresh_buffer 5),
     dm_msgs = [asc ''one'', asc ''two''], dm_heap = [],
     dm_notify = \<lparr>ns_saved_time = 0, ns_merged_hash = None, ns_labels = [], ns_labels_ptr = None, ns_agent_ip = [], ns_last_update = 0\<rparr>,
     dm_labels_ptr = 1, dm_needs_reload = False, dm_execdq = -1\<rparr>"

lemma sample_daemon_ok:
  "env_ok sample_env" "notify_ok (dm_notify sample_daemon)" "roomy (dm_heap sample_daemon)"
  "sys_ok (dm_buffer sample_daemon) None" "contents (dm_buffer sample_daemon) = []"
proof -
  show "env_ok sample_env" by (simp add: env_ok_def sample_env_def asc_def)
  show "notify_ok (dm_notify sample_daemon)" "roomy (dm_heap sample_daemon)"
    by (simp_all add: notify_ok_def sample_daemon_def)
  show "sys_ok (dm_buffer sample_daemon) None" "contents (dm_buffer sample_daemon) = []"
    using conserved_initial [of 90 70 15 5] by (simp_all add: conserved_def sample_daemon_def)
qed

theorem keepalive_when_due_witness:
  "\<exists>d' rc f. run_notify (\<lambda>_. None) sample_config sample_env
       (sample_daemon\<lparr>dm_agent := sample_agent\<lparr>ag_clock := [20000], ag_available_server := 15\<rparr>\<rparr>) = Some d' \<and>
     event_frame (asc ''001'') (keepalive_text sample_env (dm_notify d')) f \<and>
     sends sample_agent (dm_agent d') (frame_bytes f) rc \<and> ns_saved_time (dm_notify d') = 20"
proof -
  let ?d = "sample_daemon\<lparr>dm_agent := sample_agent\<lparr>ag_clock := [20000], ag_available_server := 15\<rparr>\<rparr>"
  have t: "time_now (dm_agent ?d) = (20, sample_agent\<lparr>ag_clock := [], ag_available_server := 15, ag_last_ms := 20000\<rparr>)"
    by (simp add: time_now_def now_ms_def)
  have "notify_ok (dm_notify ?d)" "roomy (dm_heap ?d)" using sample_daemon_ok by simp_all
  moreover have "\<not> int 20 - int (ns_saved_time (dm_notify ?d)) < cf_notify_time sample_config"
    by (simp add: sample_daemon_def sample_config_def)
  ultimately obtain d' rc f where
    "run_notify (\<lambda>_. None) sample_config sample_env ?d = Some d'"
    "event_frame (ag_key_id (dm_agent ?d)) (keepalive_text sample_env (dm_notify d')) f"
    "sends (dm_agent ?d) (dm_agent d') (frame_bytes f) rc" "ns_saved_time (dm_notify d') = 20"
    using keepalive_when_due [OF t, of sample_config sample_env "\<lambda>_. None"] sample_daemon_ok(1)
    by (auto simp: sample_config_def)
  moreover have "ag_key_id (dm_agent ?d) = asc ''001''" by (simp add: sample_agent_def)
  moreover have "ag_sock (dm_agent ?d) = ag_sock sample_agent" by simp
  ultimately show ?thesis unfolding sends_def by metis
qed


text \<open>
  (C19) Forwarding. \<open>EventForward\<close> with the buffer on never faults. The datagrams that were taken stand in
  the buffer, in order, each cut to \<open>OS_MAXSTR\<close> bytes and to its first NUL, behind what was there
  before; nothing is sent. It takes all datagrams, or stops at an empty one or at the first that finds
  the buffer full; that one is lost, the ones behind it stay in the socket.
\<close>

theorem events_forwarded_in_order:
  assumes "sys_ok (dm_buffer d) t" "roomy (dm_heap d)"
  shows "\<exists>k d'. EventForward d = Some d' \<and> sys_ok (dm_buffer d') t \<and>
    contents (dm_buffer d') = contents (dm_buffer d) @ map (Some \<circ> event_text) (take k (dm_msgs d)) \<and>
    ag_sock (dm_agent d') = ag_sock (dm_agent d) \<and>
    (k = length (dm_msgs d) \<and> dm_msgs d' = [] \<or>
     k < length (dm_msgs d) \<and> dm_msgs d' = drop (Suc k) (dm_msgs d) \<and>
       (dm_msgs d ! k = [] \<or> length (contents (dm_buffer d')) = ab_buflength (dm_buffer d)))"
  using forward_events_buffered [OF assms, of "dm_msgs d"] unfolding EventForward_def by blast

theorem events_forwarded_in_order_witness:
  "\<exists>d'. EventForward sample_daemon = Some d' \<and> sys_ok (dm_buffer d') None"
  using events_forwarded_in_order [OF sample_daemon_ok(4,3)] by blast

end
