(* ===== verification/Event_Pipeline.thy ===== *)
theory Event_Pipeline
  imports Pipeline Agent_Loop_Thms
begin

text \<open>
  The path of local events across all components: the agent's socket, its buffer and dispatch thread,
  the session with the gateway, the engine's records, and the rows that the ingest endpoint reads.
\<close>

section \<open>Frames of the dispatch thread at the gateway\<close>

text \<open>The record that a frame of the agent makes.\<close>

definition event_record :: "bytes \<Rightarrow> bytes \<Rightarrow> xsiam_agent_conn \<Rightarrow> log_record \<Rightarrow> bool" where
  "event_record key m conn r \<longleftrightarrow> (\<exists>h eid. wh_agent_id h = atoi key \<and> r = wzcp_record conn h EVENT_LOG eid m)"

lemma event_frame_valid:
  assumes "event_frame key m f" "length m \<le> 0xffff"
  shows "valid_frame f"
proof -
  from assms(1) obtain sq ts t eid where
    f: "f = (sent_header MSG_EVENT_BATCH (atoi key) sq ts (of_nat (22 + length m)), event_body EVENT_LOG m t eid)"
    unfolding event_frame_def by blast
  let ?h = "sent_header MSG_EVENT_BATCH (atoi key) sq ts (of_nat (22 + length m))"
  have "unat (wh_body_len ?h) = 22 + length m" using assms(2) by (simp add: sent_header_def unat_of_nat_small del: of_nat_add)
  then show ?thesis unfolding f using assms(2)
    by (simp add: valid_frame_def header_ok_def WZCP_MAX_FRAME_def) (simp add: sent_header_def)
qed

lemma event_frame_dispatched:
  assumes f: "event_frame key m f" "length m \<le> 0xffff" and g: "registry_ok g" "gx_encoder_ok g = []" "sk_wr (cn_sock conn) = []"
  shows "\<exists>sk g' r. dispatch_frame conn (fst f) (snd f) g = Some (0, conn\<lparr>cn_sock := sk\<rparr>, g') \<and> event_record key m conn r \<and>
     gx_appended g' = gx_appended g @ [[r]] \<and> registry_ok g' \<and> gx_encoder_ok g' = [] \<and> sk_wr sk = []"
proof -
  from f(1) obtain sq ts t eid where
    e: "f = (sent_header MSG_EVENT_BATCH (atoi key) sq ts (of_nat (22 + length m)), event_body EVENT_LOG m t eid)"
    unfolding event_frame_def by blast
  let ?h = "sent_header MSG_EVENT_BATCH (atoi key) sq ts (of_nat (22 + length m))"
  have "unat (wh_body_len ?h) = 22 + length m" using f(2) by (simp add: sent_header_def unat_of_nat_small del: of_nat_add)
  then have b: "body_ok (event_body EVENT_LOG m t eid) (wh_body_len ?h)" using f(2) by (simp add: body_ok_def WZCP_MAX_FRAME_def)
  have h: "wh_msg_type ?h = MSG_EVENT_BATCH" "wh_agent_id ?h = atoi key" by (simp_all add: sent_header_def)
  from event_dispatched [OF g(1,2) h(1) b f(2), of conn] obtain rc sk g' where
    d: "dispatch_frame conn ?h (event_body EVENT_LOG m t eid) g = Some (rc, conn\<lparr>cn_sock := sk\<rparr>, g')"
      "gx_appended g' = gx_appended g @ [[wzcp_record conn ?h EVENT_LOG eid m]]" "gx_encoder_ok g' = []" "registry_ok g'"
      "sk_wr (cn_sock conn) = [] \<longrightarrow> rc = 0 \<and> sk_wr sk = []" by blast
  have "event_record key m conn (wzcp_record conn ?h EVENT_LOG eid m)" using h(2) unfolding event_record_def by blast
  with d g(3) show ?thesis unfolding e fst_conv snd_conv by blast
qed

lemma event_frames_dispatched:
  assumes "list_all2 (event_frame key) texts fs" "\<forall>m \<in> set texts. length m \<le> 0xffff"
    and "registry_ok g" "gx_encoder_ok g = []" "sk_wr (cn_sock conn) = []"
  shows "\<exists>c' g' rs. dispatch_all fs conn g = Some (0, c', g') \<and> list_all2 (\<lambda>m r. event_record key m conn r) texts rs \<and>
     gx_appended g' = gx_appended g @ map (\<lambda>r. [r]) rs"
  using assms
proof (induction texts arbitrary: fs conn g)
  case (Cons m texts)
  from Cons.prems(1) obtain f fs' where fs: "fs = f # fs'" "event_frame key m f" "list_all2 (event_frame key) texts fs'"
    by (auto simp: list_all2_Cons1)
  from event_frame_dispatched [OF fs(2) _ Cons.prems(3-5)] Cons.prems(2) obtain sk g1 r where
    1: "dispatch_frame conn (fst f) (snd f) g = Some (0, conn\<lparr>cn_sock := sk\<rparr>, g1)" "event_record key m conn r"
      "gx_appended g1 = gx_appended g @ [[r]]" "registry_ok g1" "gx_encoder_ok g1 = []" "sk_wr sk = []" by auto
  let ?c = "conn\<lparr>cn_sock := sk, cn_buf := cn_buf conn\<rparr>"
  have "sk_wr (cn_sock ?c) = []" using 1(6) by simp
  from Cons.IH [OF fs(3) _ 1(4,5) this] Cons.prems(2) obtain c2 g2 rs where
    2: "dispatch_all fs' ?c g1 = Some (0, c2, g2)" "list_all2 (\<lambda>m r. event_record key m ?c r) texts rs"
      "gx_appended g2 = gx_appended g1 @ map (\<lambda>r. [r]) rs" by auto
  have "event_record key m' ?c = event_record key m' conn" for m' by (intro ext) (simp add: event_record_def wzcp_record_def)
  with 1 2 fs(1) show ?case by (intro exI [of _ c2] exI [of _ g2] exI [of _ "r # rs"]) simp
qed simp

section \<open>The rows\<close>

lemma plain_record_row:
  assumes "tagged conn" "event_record key m conn r" "plain m" "sec < 2 ^ 32"
  shows "clean_chunk (engine_event sec r # evs) tag = clean_chunk evs (asc ''agent_wzcp'')"
    and "\<exists>eid. chunk_columns (engine_event sec r # evs) tag =
       [dec (unat (atoi key)), rfc3339 sec, dec eid, dec 1, asc ''agent_wzcp'', m] # chunk_columns evs (asc ''agent_wzcp'')"
proof -
  from assms(2) obtain h eid where r: "wh_agent_id h = atoi key" "r = wzcp_record conn h EVENT_LOG eid m"
    unfolding event_record_def by blast
  note f = tagged_record_fields [OF assms(1), of sec h EVENT_LOG eid m tag, folded r(2)]
  let ?f = "\<lparr>rf_agent_id = ucast (wh_agent_id h), rf_event_id = eid, rf_kind = EVENT_LOG, rf_log = m\<rparr> :: row_fields"
  have es: "ev_sec (engine_event sec r) = sec" by (simp add: engine_event_def)
  have "length (row_prefix sec ?f (asc ''agent_wzcp'')) \<le> 195" by (rule length_row_prefix [OF assms(4)]) (simp add: asc_def)
  moreover have "set (asc ''agent_wzcp'') \<inter> {9, 10} = {}" by code_simp
  ultimately show "clean_chunk (engine_event sec r # evs) tag = clean_chunk evs (asc ''agent_wzcp'')"
    using f es assms(3,4) by (simp add: plain_def)
  show "\<exists>eid. chunk_columns (engine_event sec r # evs) tag =
       [dec (unat (atoi key)), rfc3339 sec, dec eid, dec 1, asc ''agent_wzcp'', m] # chunk_columns evs (asc ''agent_wzcp'')"
    using f es r(1) by (intro exI [of _ "unat eid"]) (simp add: unat_ucast_up)
qed

lemma plain_records_rows:
  assumes "tagged conn" "list_all2 (\<lambda>m r. event_record key m conn r) texts rs" "\<forall>m \<in> set texts. plain m" "sec < 2 ^ 32"
  shows "clean_chunk (map (engine_event sec) rs) tag"
    and "list_all2 (\<lambda>m row. \<exists>eid. row = [dec (unat (atoi key)), rfc3339 sec, dec eid, dec 1, asc ''agent_wzcp'', m])
       texts (chunk_columns (map (engine_event sec) rs) tag)"
proof -
  have "clean_chunk (map (engine_event sec) rs) tag \<and>
    list_all2 (\<lambda>m row. \<exists>eid. row = [dec (unat (atoi key)), rfc3339 sec, dec eid, dec 1, asc ''agent_wzcp'', m])
       texts (chunk_columns (map (engine_event sec) rs) tag)"
    using assms(2,3)
  proof (induction arbitrary: tag rule: list_all2_induct)
    case (Cons m texts r rs)
    have m: "plain m" using Cons.prems by simp
    have ih: "clean_chunk (map (engine_event sec) rs) (asc ''agent_wzcp'')"
      "list_all2 (\<lambda>m row. \<exists>eid. row = [dec (unat (atoi key)), rfc3339 sec, dec eid, dec 1, asc ''agent_wzcp'', m])
         texts (chunk_columns (map (engine_event sec) rs) (asc ''agent_wzcp''))"
      using Cons.IH [of "asc ''agent_wzcp''"] Cons.prems by simp_all
    from plain_record_row [OF assms(1) Cons.hyps(1) m assms(4), of "map (engine_event sec) rs" tag] obtain eid where
      "clean_chunk (engine_event sec r # map (engine_event sec) rs) tag"
      "chunk_columns (engine_event sec r # map (engine_event sec) rs) tag =
         [dec (unat (atoi key)), rfc3339 sec, dec eid, dec 1, asc ''agent_wzcp'', m] # chunk_columns (map (engine_event sec) rs) (asc ''agent_wzcp'')"
      using ih(1) by blast
    with ih(2) show ?case by (simp del: clean_chunk.simps chunk_columns.simps) blast
  qed simp
  then show "clean_chunk (map (engine_event sec) rs) tag"
    "list_all2 (\<lambda>m row. \<exists>eid. row = [dec (unat (atoi key)), rfc3339 sec, dec eid, dec 1, asc ''agent_wzcp'', m])
       texts (chunk_columns (map (engine_event sec) rs) tag)" by simp_all
qed

section \<open>From the agent's socket to the server\<close>

lemma buffer_append_warn_level:
  "buffer_append msg now ok b = Some (rc, b') \<Longrightarrow> ab_warn_level b' = ab_warn_level b"
  using warn_level_frame(1) [of now b]
  by (auto simp: buffer_append_def Let_def strdup_def slot_set_def bind_eq_Some_conv split: if_splits)

lemma forward_warn_level:
  "forward_events ms d = Some d' \<Longrightarrow> ab_warn_level (dm_buffer d') = ab_warn_level (dm_buffer d)"
proof (induction ms arbitrary: d)
  case (Cons m ms)
  have ap: "ab_warn_level (dm_buffer d2) = ab_warn_level (dm_buffer d1)" if "append_event x d1 = Some (rc, d2)" for x d1 rc d2
    using that by (auto simp: append_event_def on_buffer_def bind_eq_Some_conv buffer_append_warn_level Let_def split: prod.splits)
  let ?d = "d\<lparr>dm_msgs := ms\<rparr>"
  show ?case
  proof (cases "take OS_MAXSTR m = []")
    case True
    with Cons.prems show ?thesis by auto
  next
    case m: False
    show ?thesis
    proof (cases "ab_enabled (dm_buffer d)")
      case True
      with Cons.prems m obtain rc d2 where "append_event (cstr_of (take OS_MAXSTR m)) ?d = Some (rc, d2)"
        "(if rc < 0 then Some d2 else forward_events ms d2) = Some d'" by (auto simp: Let_def bind_eq_Some_conv)
      with Cons.IH [of d2] ap show ?thesis by (auto split: if_splits)
    next
      case False
      with Cons.prems m show ?thesis by (auto simp: Let_def bind_eq_Some_conv split: if_splits dest!: Cons.IH)
    qed
  qed
qed auto

text \<open>The forwarding and the dispatching half of the agent on events that fit.\<close>

lemma plain_event_text: "plain m \<Longrightarrow> event_text m = m"
  by (simp add: plain_def event_text_def OS_MAXSTR_def)

lemma events_dispatched:
  assumes agent: "sys_ok (dm_buffer d) None" "contents (dm_buffer d) = map Some queued" "roomy (dm_heap d)"
      "ab_warn_level (dm_buffer d) \<le> 100" "flowing key (dm_agent d)"
    and events: "length queued + length (dm_msgs d) \<le> ab_buflength (dm_buffer d)"
      "\<forall>m \<in> set queued. plain m \<and> \<not> is_notice m" "\<forall>m \<in> set (dm_msgs d). m \<noteq> [] \<and> plain m \<and> \<not> is_notice m"
  shows "\<exists>d1 d2 texts fs. EventForward d = Some d1 \<and> dispatch_rounds (length queued + length (dm_msgs d)) d1 = Some d2 \<and>
    (\<forall>x \<in> set texts. plain x) \<and> filter (\<lambda>x. \<not> is_notice x) texts = queued @ dm_msgs d \<and> list_all2 (event_frame key) texts fs \<and>
    sk_out (ag_sock (dm_agent d2)) = sk_out (ag_sock (dm_agent d)) @ concat (map frame_bytes fs)"
proof -
  from forward_events_buffered [OF agent(1,3), of "dm_msgs d"] obtain k d1 where
    1: "forward_events (dm_msgs d) d = Some d1" "sys_ok (dm_buffer d1) None"
      "contents (dm_buffer d1) = contents (dm_buffer d) @ map (Some \<circ> event_text) (take k (dm_msgs d))"
      "ag_sock (dm_agent d1) = ag_sock (dm_agent d)" "ag_key_id (dm_agent d1) = ag_key_id (dm_agent d)"
      "k = length (dm_msgs d) \<or> k < length (dm_msgs d) \<and>
         (dm_msgs d ! k = [] \<or> length (contents (dm_buffer d1)) = ab_buflength (dm_buffer d))" by blast
  have k: "k = length (dm_msgs d)"
    using 1(3,6) agent(2) events(1,3) nth_mem [of k "dm_msgs d"] by auto
  have t: "map (Some \<circ> event_text) (dm_msgs d) = map Some (dm_msgs d)" using events(3) plain_event_text by auto
  have c: "contents (dm_buffer d1) = map Some (queued @ dm_msgs d)" using 1(3) agent(2) k t by simp
  have p: "\<forall>m \<in> set (queued @ dm_msgs d). plain m \<and> \<not> is_notice m" using events(2,3) by auto
  have w: "ab_warn_level (dm_buffer d1) \<le> 100" using forward_warn_level [OF 1(1)] agent(4) by simp
  have fl: "flowing key (dm_agent d1)" using agent(5) 1(4,5) by (simp add: flowing_def)
  from dispatch_rounds_send [OF 1(2) c w p fl] obtain d2 texts fs where
    "dispatch_rounds (length (queued @ dm_msgs d)) d1 = Some d2" "\<forall>x \<in> set texts. plain x"
    "filter (\<lambda>x. \<not> is_notice x) texts = queued @ dm_msgs d" "list_all2 (event_frame key) texts fs"
    "sk_out (ag_sock (dm_agent d2)) = sk_out (ag_sock (dm_agent d1)) @ concat (map frame_bytes fs)" by blast
  then show ?thesis using 1(1,4) unfolding EventForward_def length_append by metis
qed

text \<open>The gateway's half.\<close>

lemma event_stream_rows:
  assumes "list_all2 (event_frame key) texts fs" "\<forall>x \<in> set texts. plain x" "concat ds = concat (map frame_bytes fs)"
    and gw: "tagged conn" "cn_buf conn = []" "sk_wr (cn_sock conn) = []" "registry_ok g" "gx_encoder_ok g = []"
    and sec: "sec < 2 ^ 32" and tag: "length tag \<le> 127"
  shows "\<exists>c' g' rs. feed_all ds conn g = Some (0, c', g') \<and> gx_appended g' = gx_appended g @ map (\<lambda>r. [r]) rs \<and>
    list_all2 (\<lambda>m row. \<exists>eid. row = [dec (unat (atoi key)), rfc3339 sec, dec eid, dec 1, asc ''agent_wzcp'', m])
      texts (tsv_rows (tsv_text (chunk_rows (map (engine_event sec) rs) tag)))"
proof -
  have l: "\<forall>m \<in> set texts. length m \<le> 0xffff" using assms(2) by (auto simp: plain_def)
  have "\<forall>f \<in> set fs. valid_frame f"
    using assms(1) l by (induction rule: list_all2_induct) (auto intro: event_frame_valid)
  moreover have "frame_bytes = wire" by (intro ext) (simp add: frame_bytes_def wire_def)
  then have "cn_buf conn @ concat ds = stream fs beat_frame 0" using assms(3) gw(2) by (simp add: stream_def)
  moreover from event_frames_dispatched [OF assms(1) l gw(4,5,3)] obtain c' g' rs where
    d: "dispatch_all fs conn g = Some (0, c', g')" "list_all2 (\<lambda>m r. event_record key m conn r) texts rs"
      "gx_appended g' = gx_appended g @ map (\<lambda>r. [r]) rs" by blast
  ultimately obtain b where "feed_all ds conn g = Some (0, c'\<lparr>cn_buf := b\<rparr>, g')"
    using feed_all_stream [OF gw(1,4), of beat_frame fs 0 ds] gw(2) beat_frame_valid by auto
  moreover note rows = plain_records_rows [OF gw(1) d(2) assms(2) sec, of tag]
  then have "list_all2 (\<lambda>m row. \<exists>eid. row = [dec (unat (atoi key)), rfc3339 sec, dec eid, dec 1, asc ''agent_wzcp'', m])
      texts (tsv_rows (tsv_text (chunk_rows (map (engine_event sec) rs) tag)))"
    unfolding chunk_rows_read_back [OF rows(1) tag] by blast
  ultimately show ?thesis using d(3) by blast
qed



end
