(* ===== verification/Send_Race.thy ===== *)
theory Send_Race
  imports Pipeline
begin

text \<open>
  Two threads of the agent on one connection. The main thread sends keepalives, acknowledgements and
  heartbeats, the dispatch thread the buffered events, both through \<open>xsiam_wzcp_send_frame\<close>, which
  writes a frame with up to three calls of \<open>send_all\<close>. Unlike the other branch of \<open>send_msg\<close>, this one
  does not take \<open>send_mutex\<close>.
\<close>

section \<open>A frame as a sequence of writes\<close>

definition frame_writes :: "wzcp_header \<times> bytes \<Rightarrow> bytes list" where
  "frame_writes f = [put_be32 (32 + wh_body_len (fst f)), xsiam_wzcp_pack_header (fst f)] @ (if 0 < wh_body_len (fst f) then [snd f] else [])"

fun write_each :: "bytes list \<Rightarrow> sock \<Rightarrow> int \<times> sock" where
  "write_each [] sk = (0, sk)"
| "write_each (w # ws) sk = (let (rc, sk1) = send_all sk w in if rc < 0 then (-1, sk1) else write_each ws sk1)"

text \<open>\<open>xsiam_wzcp_send_frame\<close> is these writes, whatever the socket does.\<close>

lemma send_frame_writes_each:
  assumes "unat n = length body" "unat n \<le> WZCP_MAX_FRAME"
  shows "xsiam_wzcp_send_frame sk ty aid sq body n ts = Some (write_each (frame_writes (sent_header ty aid sq ts n, body)) sk)"
proof -
  have r: "fst (send_all s w) = 0 \<or> fst (send_all s w) = -1" for s w
    using send_all_outcome [of s w "fst (send_all s w)" "snd (send_all s w)"] by auto
  have n: "sent_header ty aid sq ts n = \<lparr>wh_magic = WZCP_MAGIC, wh_version = WZCP_VERSION, wh_header_len = 32,
      wh_flags = 0, wh_msg_type = ty, wh_agent_id = aid, wh_seq = sq, wh_timestamp_ms = ts, wh_body_len = n\<rparr>"
    by (simp add: sent_header_def)
  have p: "peek body 0 (unat n) = Some body" using assms(1) by (simp add: peek_def)
  show ?thesis
    unfolding n xsiam_wzcp_send_frame_def frame_writes_def Let_def
    using assms(2) p r by (auto split: prod.splits)
qed

lemma concat_frame_writes: "valid_frame f \<Longrightarrow> concat (frame_writes f) = wire f"
  by (auto simp: frame_writes_def wire_def frame_of_def valid_frame_def word_gt_0)

section \<open>Two threads\<close>

text \<open>The writes that each thread has left, and the socket. A thread whose write fails gives up its frame.\<close>

inductive send_step :: "bytes list \<times> bytes list \<times> sock \<Rightarrow> bytes list \<times> bytes list \<times> sock \<Rightarrow> bool" where
  main_thread: "send_all sk w = (rc, sk') \<Longrightarrow> send_step (w # ws, vs, sk) (if rc < 0 then [] else ws, vs, sk')"
| dispatch_thread: "send_all sk v = (rc, sk') \<Longrightarrow> send_step (ws, v # vs, sk) (ws, if rc < 0 then [] else vs, sk')"

inductive_cases send_stepE: "send_step (ws, vs, sk) s"

text \<open>On a connection that takes everything the threads produce exactly the shuffles of their writes.\<close>

lemma send_steps_shuffle:
  assumes "zs \<in> shuffles ws vs" "sk_wr sk = []"
  shows "send_step\<^sup>*\<^sup>* (ws, vs, sk) ([], [], sk\<lparr>sk_out := sk_out sk @ concat zs\<rparr>)"
  using assms
proof (induction zs arbitrary: ws vs sk)
  case Nil
  then show ?case by simp
next
  case (Cons z zs)
  note s = send_all_unscripted [OF Cons.prems(2), of z]
  let ?sk = "sk\<lparr>sk_out := sk_out sk @ z\<rparr>"
  from Cons.prems(1) consider ws' where "ws = z # ws'" "zs \<in> shuffles ws' vs" | vs' where "vs = z # vs'" "zs \<in> shuffles ws vs'"
    by (auto simp: Cons_in_shuffles_iff neq_Nil_conv)
  then show ?case
  proof cases
    case 1
    have "send_step (ws, vs, sk) (ws', vs, ?sk)" using main_thread [OF s, of ws' vs] 1(1) by simp
    moreover have "send_step\<^sup>*\<^sup>* (ws', vs, ?sk) ([], [], ?sk\<lparr>sk_out := sk_out ?sk @ concat zs\<rparr>)"
      using Cons.IH [OF 1(2), of ?sk] Cons.prems(2) by simp
    ultimately show ?thesis by (simp add: converse_rtranclp_into_rtranclp)
  next
    case 2
    have "send_step (ws, vs, sk) (ws, vs', ?sk)" using dispatch_thread [OF s, of ws vs'] 2(1) by simp
    moreover have "send_step\<^sup>*\<^sup>* (ws, vs', ?sk) ([], [], ?sk\<lparr>sk_out := sk_out ?sk @ concat zs\<rparr>)"
      using Cons.IH [OF 2(2), of ?sk] Cons.prems(2) by simp
    ultimately show ?thesis by (simp add: converse_rtranclp_into_rtranclp)
  qed
qed

lemma append_shuffled: "xs @ ys \<in> shuffles xs ys"
  by (induction xs) (simp_all add: Cons_in_shuffles_iff)

lemma send_steps_shuffles:
  assumes "send_step\<^sup>*\<^sup>* (ws, vs, sk) ([], [], sk')" "sk_wr sk = []"
  shows "\<exists>zs \<in> shuffles ws vs. sk' = sk\<lparr>sk_out := sk_out sk @ concat zs\<rparr>"
  using assms
proof (induction "(ws, vs, sk)" arbitrary: ws vs sk rule: converse_rtranclp_induct)
  case base
  then show ?case by simp
next
  case (step s)
  from step.hyps(1) consider
      w ws' rc sk1 where "ws = w # ws'" "s = (if rc < 0 then [] else ws', vs, sk1)" "send_all sk w = (rc, sk1)"
    | v vs' rc sk1 where "vs = v # vs'" "s = (ws, if rc < 0 then [] else vs', sk1)" "send_all sk v = (rc, sk1)"
    by (cases rule: send_stepE) blast+
  then show ?case
  proof cases
    case 1
    then have o: "rc = 0" "sk1 = sk\<lparr>sk_out := sk_out sk @ w\<rparr>" using send_all_unscripted [OF step.prems, of w] by auto
    from step.hyps(3) [of ws' vs sk1] 1 o step.prems obtain zs where
      "zs \<in> shuffles ws' vs" "sk' = sk1\<lparr>sk_out := sk_out sk1 @ concat zs\<rparr>" by auto
    with 1(1) o show ?thesis by (intro bexI [of _ "w # zs"]) (simp_all add: Cons_in_shuffles_iff)
  next
    case 2
    then have o: "rc = 0" "sk1 = sk\<lparr>sk_out := sk_out sk @ v\<rparr>" using send_all_unscripted [OF step.prems, of v] by auto
    from step.hyps(3) [of ws vs' sk1] 2 o step.prems obtain zs where
      "zs \<in> shuffles ws vs'" "sk' = sk1\<lparr>sk_out := sk_out sk1 @ concat zs\<rparr>" by auto
    with 2(1) o show ?thesis by (intro bexI [of _ "v # zs"]) (simp_all add: Cons_in_shuffles_iff)
  qed
qed

section \<open>What the gateway makes of it\<close>

text \<open>A stream that starts with two length fields is neither WZCP nor syslog.\<close>

lemma two_lengths_rejected:
  assumes "unat (n :: u32) < 2 ^ 24" "unat (m :: u32) < 2 ^ 24" "28 \<le> length rest"
    and "cn_buf conn = put_be32 n @ put_be32 m @ rest"
  shows "process_buffer conn g = Some (-1, conn, g)"
proof -
  have l: "be32_at (cn_buf conn) 0 = Some n" "be32_at (cn_buf conn) 4 = Some m"
    using be_at_hit(2) [of 0 "[]" n "put_be32 m @ rest"] be_at_hit(2) [of 4 "put_be32 n" m rest] assms(4) by simp_all
  have "m \<noteq> WZCP_MAGIC" using assms(2) by auto
  then have "looks_like_wzcp (cn_buf conn) = Some False" using l assms(3,4) by (simp add: looks_like_wzcp_def)
  moreover have "put_be32 n ! 0 = 0"
  proof -
    have "unat (drop_bit 24 n) = 0" using assms(1) unfolding unat_drop_bit_eq by (simp add: drop_bit_eq_div)
    then have "drop_bit 24 n = 0" using unat_eq_zero by blast
    then show ?thesis by (simp add: put_be32_def)
  qed
  then obtain bs where b: "cn_buf conn = 0 # bs" unfolding assms(4) by (simp add: put_be32_def)
  then have "\<not> looks_like_syslog (cn_buf conn)" by (simp add: looks_like_syslog_def scan_text_zero)
  ultimately show ?thesis using assms(3,4) by (simp add: process_buffer_def)
qed

text \<open>
  (C17) Unlocked sends. When two threads send at the same time on a connection that takes everything, the
  frames may mix: there is an order of the writes after which the gateway, which gets what was written
  in one piece, closes the session without handling either frame, although both sends report success.
  When the threads take turns, as \<open>send_mutex\<close> would force them to, the socket carries the two frames
  one after the other.
\<close>

theorem unlocked_sends_break_session:
  assumes "valid_frame a" "valid_frame b" "sk_wr sk = []" "cn_buf conn = []"
  shows "(\<exists>bs. send_step\<^sup>*\<^sup>* (frame_writes a, frame_writes b, sk) ([], [], sk\<lparr>sk_out := sk_out sk @ bs\<rparr>) \<and>
       feed bs conn g = Some (-1, conn\<lparr>cn_buf := bs\<rparr>, g)) \<and>
    send_step\<^sup>*\<^sup>* (frame_writes a, frame_writes b, sk) ([], [], sk\<lparr>sk_out := sk_out sk @ wire a @ wire b\<rparr>)"
proof
  obtain xs where xs: "frame_writes a = put_be32 (32 + wh_body_len (fst a)) # xs" "28 \<le> length (concat xs)"
    by (simp add: frame_writes_def)
  obtain ys where ys: "frame_writes b = put_be32 (32 + wh_body_len (fst b)) # ys" by (simp add: frame_writes_def)
  let ?zs = "put_be32 (32 + wh_body_len (fst a)) # put_be32 (32 + wh_body_len (fst b)) # xs @ ys"
  have "xs @ ys \<in> shuffles xs ys" by (rule append_shuffled)
  then have z: "?zs \<in> shuffles (frame_writes a) (frame_writes b)" unfolding xs(1) ys by (simp add: Cons_in_shuffles_iff)
  have "unat (32 + wh_body_len (fst a)) < 2 ^ 24" "unat (32 + wh_body_len (fst b)) < 2 ^ 24"
    using frame_len_word [OF assms(1)] frame_len_word [OF assms(2)] assms(1,2) by (simp_all add: valid_frame_def WZCP_MAX_FRAME_def)
  then have "process_buffer (conn\<lparr>cn_buf := concat ?zs\<rparr>) g = Some (-1, conn\<lparr>cn_buf := concat ?zs\<rparr>, g)"
    using xs(2) by (intro two_lengths_rejected [where rest = "concat (xs @ ys)"]) simp_all
  then have "feed (concat ?zs) conn g = Some (-1, conn\<lparr>cn_buf := concat ?zs\<rparr>, g)"
    using assms(4) unfolding feed_def by simp
  with send_steps_shuffle [OF z assms(3)] show
    "\<exists>bs. send_step\<^sup>*\<^sup>* (frame_writes a, frame_writes b, sk) ([], [], sk\<lparr>sk_out := sk_out sk @ bs\<rparr>) \<and>
       feed bs conn g = Some (-1, conn\<lparr>cn_buf := bs\<rparr>, g)" by blast
next
  have "frame_writes a @ frame_writes b \<in> shuffles (frame_writes a) (frame_writes b)" by (rule append_shuffled)
  from send_steps_shuffle [OF this assms(3)]
  show "send_step\<^sup>*\<^sup>* (frame_writes a, frame_writes b, sk) ([], [], sk\<lparr>sk_out := sk_out sk @ wire a @ wire b\<rparr>)"
    using concat_frame_writes [OF assms(1)] concat_frame_writes [OF assms(2)] by simp
qed

theorem unlocked_sends_break_session_witness:
  "\<exists>bs. send_step\<^sup>*\<^sup>* (frame_writes beat_frame, frame_writes beat_frame, idle_sock []) ([], [], (idle_sock [])\<lparr>sk_out := bs\<rparr>) \<and>
     feed bs (session 1 None) gw_idle = Some (-1, (session 1 None)\<lparr>cn_buf := bs\<rparr>, gw_idle)"
  using unlocked_sends_break_session [OF beat_frame_valid beat_frame_valid, of "idle_sock []" "session 1 None" gw_idle]
  by (auto simp: session_def idle_sock_def)

end
