(* ===== verification/Slot_Queue.thy ===== *)
theory Slot_Queue
  imports Ring
begin

text \<open>
  The bounded pointer queue of the agent programs, \<^verbatim>\<open>agents/shared/queue_op.c\<close>: an array of \<open>size\<close>
  pointers with the index \<open>begin\<close> of the next free cell and the index \<open>end\<close> of the oldest element.
  Every function of the \<open>_ex\<close> family holds the mutex of the queue while it runs, so it is one
  atomic operation; a call that has to wait on a condition variable is a value of its own, with
  the state it leaves behind. Indexing outside the array and the remainder by a size of 0 are
  faults (\<open>None\<close>).
\<close>

section \<open>State\<close>

record 'a w_queue =
  wq_data :: "'a option list"
  wq_begin :: nat
  wq_end :: nat
  wq_size :: nat
  wq_elements :: u32

text \<open>What a call on a queue shared by threads does: it returns, or it goes to sleep.\<close>

datatype ('r, 'q) blocking = Returns 'r 'q | Waits 'q

text \<open>\<open>fresh\<close> is what the array holds before it is written.\<close>

definition queue_init :: "(nat \<Rightarrow> 'a option) \<Rightarrow> nat \<Rightarrow> 'a w_queue" where
  "queue_init fresh n =
     \<lparr>wq_data = map fresh [0..<n], wq_begin = 0, wq_end = 0, wq_size = n, wq_elements = 0\<rparr>"

section \<open>Operations\<close>

definition queue_full :: "'a w_queue \<Rightarrow> bool option" where
  "queue_full q = (if wq_size q = 0 then None else Some ((wq_begin q + 1) mod wq_size q = wq_end q))"

definition queue_empty :: "'a w_queue \<Rightarrow> bool" where
  "queue_empty q \<longleftrightarrow> wq_begin q = wq_end q"

definition queue_push :: "'a w_queue \<Rightarrow> 'a option \<Rightarrow> (int \<times> 'a w_queue) option" where
  "queue_push q d = do {
     is_full \<leftarrow> queue_full q;
     if is_full then Some (-1, q)
     else if wq_begin q < length (wq_data q) then
       Some (0, q\<lparr>wq_data := (wq_data q)[wq_begin q := d],
                  wq_begin := (wq_begin q + 1) mod wq_size q,
                  wq_elements := wq_elements q + 1\<rparr>)
     else None }"

definition queue_pop :: "'a w_queue \<Rightarrow> ('a option \<times> 'a w_queue) option" where
  "queue_pop q =
     (if queue_empty q then Some (None, q)
      else if wq_end q < length (wq_data q) \<and> wq_size q \<noteq> 0 then
        Some (wq_data q ! wq_end q,
              q\<lparr>wq_end := (wq_end q + 1) mod wq_size q, wq_elements := wq_elements q - 1\<rparr>)
      else None)"

text \<open>
  The blocking variants. The loop of \<open>queue_pop_ex\<close> takes a NULL pointer for an empty queue: a
  NULL element is removed and the call goes to sleep.
\<close>

definition queue_push_ex :: "'a w_queue \<Rightarrow> 'a option \<Rightarrow> (int \<times> 'a w_queue) option" where
  "queue_push_ex q d = queue_push q d"

definition queue_push_ex_block :: "'a w_queue \<Rightarrow> 'a option \<Rightarrow> (int, 'a w_queue) blocking option" where
  "queue_push_ex_block q d = do {
     is_full \<leftarrow> queue_full q;
     if is_full then Some (Waits q)
     else do { (rc, q') \<leftarrow> queue_push q d; Some (Returns rc q') } }"

definition queue_pop_ex :: "'a w_queue \<Rightarrow> ('a option, 'a w_queue) blocking option" where
  "queue_pop_ex q = do {
     (d, q') \<leftarrow> queue_pop q;
     if d = None then Some (Waits q') else Some (Returns d q') }"

text \<open>\<open>timed_out\<close> is the result of the wait that follows an unsuccessful attempt.\<close>

definition queue_pop_ex_timedwait ::
  "bool \<Rightarrow> 'a w_queue \<Rightarrow> ('a option, 'a w_queue) blocking option" where
  "queue_pop_ex_timedwait timed_out q = do {
     (d, q') \<leftarrow> queue_pop q;
     if d = None then (if timed_out then Some (Returns None q') else Some (Waits q'))
     else Some (Returns d q') }"

definition try_queue_pop_ex :: "'a w_queue \<Rightarrow> ('a option \<times> 'a w_queue) option" where
  "try_queue_pop_ex q = queue_pop q"

section \<open>The list of elements\<close>

definition wq_ok :: "'a w_queue \<Rightarrow> bool" where
  "wq_ok q \<longleftrightarrow> wq_size q = length (wq_data q) \<and> wq_begin q < wq_size q \<and> wq_end q < wq_size q \<and>
     wq_elements q = of_nat (ring_used (wq_size q) (wq_begin q) (wq_end q))"

definition wq_items :: "'a w_queue \<Rightarrow> 'a option list" where
  "wq_items q = ring_list (wq_data q) (wq_begin q) (wq_end q)"

lemma queue_init_ok: "0 < n \<Longrightarrow> wq_ok (queue_init fresh n) \<and> wq_items (queue_init fresh n) = []"
  by (simp add: wq_ok_def wq_items_def queue_init_def ring_list_def ring_used_def)

text \<open>On a well-formed queue no operation faults; these are the two outcomes of each.\<close>

lemma wq_full: "wq_ok q \<Longrightarrow> queue_full q = Some (length (wq_items q) = wq_size q - 1)"
  using ring_full_iff [of "wq_begin q" "wq_size q" "wq_end q"]
  by (auto simp: wq_ok_def wq_items_def queue_full_def)

lemma wq_empty: "wq_ok q \<Longrightarrow> queue_empty q \<longleftrightarrow> wq_items q = []"
  using ring_used_0_iff [of "wq_begin q" "wq_size q" "wq_end q"] length_ring_list [of "wq_data q" "wq_begin q" "wq_end q"]
  by (auto simp: wq_ok_def wq_items_def queue_empty_def simp del: length_ring_list)

lemma queue_push_refused:
  "wq_ok q \<Longrightarrow> length (wq_items q) = wq_size q - 1 \<Longrightarrow> queue_push q d = Some (-1, q)"
  by (simp add: queue_push_def wq_full)

lemma queue_push_accepted:
  assumes "wq_ok q" "length (wq_items q) \<noteq> wq_size q - 1"
  shows "\<exists>q'. queue_push q d = Some (0, q') \<and> wq_ok q' \<and> wq_items q' = wq_items q @ [d] \<and>
    wq_size q' = wq_size q"
proof -
  let ?n = "wq_size q" and ?w = "wq_begin q" and ?r = "wq_end q"
  have b: "?w < ?n" "?r < ?n" "?n = length (wq_data q)" "(?w + 1) mod ?n \<noteq> ?r"
    and e: "wq_elements q = of_nat (ring_used ?n ?w ?r)"
    using assms wq_full [OF assms(1)] by (auto simp: wq_ok_def queue_full_def split: if_splits)
  then have "ring_used ?n ((?w + 1) mod ?n) ?r = Suc (ring_used ?n ?w ?r)" by (intro ring_used_push)
  moreover have "(?w + 1) mod ?n < ?n" using b(1) by (intro mod_less_divisor) simp
  moreover have "queue_full q = Some False" using b by (auto simp: queue_full_def)
  moreover have "ring_list ((wq_data q)[?w := d]) ((?w + 1) mod ?n) ?r = wq_items q @ [d]"
    using b ring_list_push [of ?w "wq_data q" ?r d] by (simp add: wq_items_def)
  ultimately show ?thesis
    using b e by (simp add: queue_push_def wq_ok_def wq_items_def)
qed

lemma queue_pop_empty: "wq_ok q \<Longrightarrow> wq_items q = [] \<Longrightarrow> queue_pop q = Some (None, q)"
  by (simp add: queue_pop_def wq_empty)

lemma queue_pop_oldest:
  assumes "wq_ok q" "wq_items q = d # ds"
  shows "\<exists>q'. queue_pop q = Some (d, q') \<and> wq_ok q' \<and> wq_items q' = ds \<and> wq_size q' = wq_size q"
proof -
  let ?n = "wq_size q" and ?w = "wq_begin q" and ?r = "wq_end q"
  have b: "?w < ?n" "?r < ?n" "?n = length (wq_data q)" "?w \<noteq> ?r"
    and e: "wq_elements q = of_nat (ring_used ?n ?w ?r)"
    using assms wq_empty [OF assms(1)] by (auto simp: wq_ok_def queue_empty_def)
  from b have "ring_used ?n ?w ?r = Suc (ring_used ?n ?w ((?r + 1) mod ?n))"
    by (intro ring_used_pop)
  moreover have "(?r + 1) mod ?n < ?n" using b(1) by (intro mod_less_divisor) simp
  ultimately show ?thesis
    using b e assms ring_list_pop [of ?w "wq_data q" ?r]
    by (auto simp: queue_pop_def queue_empty_def wq_ok_def wq_items_def)
qed

section \<open>The bounded queue contract\<close>

definition wq_put :: "'a option \<Rightarrow> 'a w_queue \<Rightarrow> 'a w_queue option" where
  "wq_put d q = (case queue_push q d of Some (rc, q') \<Rightarrow> if rc = 0 then Some q' else None | None \<Rightarrow> None)"

definition wq_take :: "'a w_queue \<Rightarrow> ('a option \<times> 'a w_queue) option" where
  "wq_take q = (if queue_empty q then None else queue_pop q)"

interpretation slots: bounded_fifo wq_ok wq_items "\<lambda>q. wq_size q - 1" wq_put wq_take
proof unfold_locales
  fix q :: "'a w_queue" and q' d
  assume ok: "wq_ok q"
  then have "ring_used (wq_size q) (wq_begin q) (wq_end q) < wq_size q"
    by (intro ring_used_less) (auto simp: wq_ok_def)
  with ok show "length (wq_items q) \<le> wq_size q - 1" by (simp add: wq_items_def wq_ok_def)
  show "wq_put d q = None \<longleftrightarrow> length (wq_items q) = wq_size q - 1"
    using queue_push_refused [OF ok, of d] queue_push_accepted [OF ok, of d]
    by (cases "length (wq_items q) = wq_size q - 1") (auto simp: wq_put_def)
  show "wq_put d q = Some q' \<Longrightarrow>
      wq_ok q' \<and> wq_items q' = wq_items q @ [d] \<and> wq_size q' - 1 = wq_size q - 1"
    using queue_push_refused [OF ok, of d] queue_push_accepted [OF ok, of d]
    by (cases "length (wq_items q) = wq_size q - 1") (auto simp: wq_put_def)
  show "wq_take q = None \<longleftrightarrow> wq_items q = []"
    using queue_pop_oldest [OF ok] wq_empty [OF ok] by (cases "wq_items q") (auto simp: wq_take_def)
  show "wq_take q = Some (d, q') \<Longrightarrow>
      wq_ok q' \<and> wq_items q = d # wq_items q' \<and> wq_size q' - 1 = wq_size q - 1"
    using queue_pop_oldest [OF ok] wq_empty [OF ok] by (cases "wq_items q") (auto simp: wq_take_def)
qed

section \<open>Threads around one queue\<close>

fun option_list :: "'a option \<Rightarrow> 'a list" where
  "option_list None = []"
| "option_list (Some x) = [x]"

text \<open>
  The calls that threads make, each atomic under the mutex. The result of a call is the elements it
  put in and took out. A call that waits is tried again when it is woken up, which is a further
  call of the sequence.
\<close>

datatype 'a wq_call =
  Push_Ex 'a | Push_Block 'a | Pop_Ex | Pop_Timed bool | Try_Pop

fun blocked_or :: "('r \<Rightarrow> 'x) \<Rightarrow> 'x \<Rightarrow> ('r, 'q) blocking \<Rightarrow> 'x \<times> 'q" where
  "blocked_or f d (Returns r q) = (f r, q)"
| "blocked_or f d (Waits q) = (d, q)"

fun queue_call :: "'a wq_call \<Rightarrow> 'a w_queue \<Rightarrow> ('a list \<times> 'a list \<times> 'a w_queue) option" where
  "queue_call (Push_Ex d) q =
     do { (rc, q') \<leftarrow> queue_push_ex q (Some d); Some (if rc = 0 then [d] else [], [], q') }"
| "queue_call (Push_Block d) q = do {
     r \<leftarrow> queue_push_ex_block q (Some d);
     let (put, q') = blocked_or (\<lambda>rc. if rc = 0 then [d] else []) [] r;
     Some (put, [], q') }"
| "queue_call Pop_Ex q = do {
     r \<leftarrow> queue_pop_ex q;
     let (got, q') = blocked_or option_list [] r;
     Some ([], got, q') }"
| "queue_call (Pop_Timed timed_out) q = do {
     r \<leftarrow> queue_pop_ex_timedwait timed_out q;
     let (got, q') = blocked_or option_list [] r;
     Some ([], got, q') }"
| "queue_call Try_Pop q = do { (d, q') \<leftarrow> try_queue_pop_ex q; Some ([], option_list d, q') }"

fun queue_calls :: "'a wq_call list \<Rightarrow> 'a w_queue \<Rightarrow> ('a list \<times> 'a list \<times> 'a w_queue) option" where
  "queue_calls [] q = Some ([], [], q)"
| "queue_calls (c # cs) q = do {
     (put, got, q1) \<leftarrow> queue_call c q;
     (puts, gots, q2) \<leftarrow> queue_calls cs q1;
     Some (put @ puts, got @ gots, q2) }"

text \<open>No NULL pointer is in the queue, as long as none is put in.\<close>

lemma queue_call_conserves:
  assumes "wq_ok q" "wq_items q = map Some xs"
  shows "\<exists>put got q' ys. queue_call c q = Some (put, got, q') \<and> wq_ok q' \<and> wq_size q' = wq_size q \<and>
    wq_items q' = map Some ys \<and> xs @ put = got @ ys"
proof (cases "\<exists>d. c = Push_Ex d \<or> c = Push_Block d")
  case True
  then obtain d where c: "c = Push_Ex d \<or> c = Push_Block d" by blast
  show ?thesis
  proof (cases "length (wq_items q) = wq_size q - 1")
    case full: True
    with c assms wq_full [OF assms(1)] queue_push_refused [OF assms(1) full, of "Some d"] show ?thesis
      by (auto simp: queue_push_ex_def queue_push_ex_block_def)
  next
    case False
    from queue_push_accepted [OF assms(1) False, of "Some d"] obtain q' where
      p: "queue_push q (Some d) = Some (0, q')" "wq_ok q'" "wq_items q' = wq_items q @ [Some d]"
        "wq_size q' = wq_size q" by blast
    then have "wq_items q' = map Some (xs @ [d])" using assms by simp
    with p c False wq_full [OF assms(1)] show ?thesis
      by (intro exI [of _ "[d]"] exI [of _ "[]"] exI [of _ q'] exI [of _ "xs @ [d]"])
        (auto simp: queue_push_ex_def queue_push_ex_block_def)
  qed
next
  case False
  then have c: "c = Pop_Ex \<or> (\<exists>t. c = Pop_Timed t) \<or> c = Try_Pop" by (cases c) auto
  show ?thesis
  proof (cases xs)
    case Nil
    with assms have "queue_pop q = Some (None, q)" by (simp add: queue_pop_empty)
    with Nil assms c show ?thesis
      by (auto simp: queue_pop_ex_def queue_pop_ex_timedwait_def try_queue_pop_ex_def)
  next
    case (Cons d ds)
    with assms have "wq_items q = Some d # map Some ds" by simp
    from queue_pop_oldest [OF assms(1) this] Cons assms c show ?thesis
      by (force simp: queue_pop_ex_def queue_pop_ex_timedwait_def try_queue_pop_ex_def)
  qed
qed

lemma queue_calls_conserve:
  assumes "wq_ok q" "wq_items q = map Some xs"
  shows "\<exists>puts gots q' ys. queue_calls cs q = Some (puts, gots, q') \<and> wq_ok q' \<and>
    wq_size q' = wq_size q \<and> wq_items q' = map Some ys \<and> xs @ puts = gots @ ys"
  using assms
proof (induction cs arbitrary: q xs)
  case (Cons c cs)
  from queue_call_conserves [OF Cons.prems, of c] obtain put got q1 ys where
    1: "queue_call c q = Some (put, got, q1)" "wq_ok q1" "wq_size q1 = wq_size q"
      "wq_items q1 = map Some ys" "xs @ put = got @ ys" by blast
  from Cons.IH [OF 1(2,4)] obtain puts gots q2 zs where
    2: "queue_calls cs q1 = Some (puts, gots, q2)" "wq_ok q2" "wq_size q2 = wq_size q1"
      "wq_items q2 = map Some zs" "ys @ puts = gots @ zs" by blast
  then have "xs @ put @ puts = (got @ gots) @ zs" using 1(5) by (metis append.assoc)
  with 1 2 show ?case by auto
qed simp

text \<open>
  (C33) The queue is first in, first out under every interleaving of its callers: no call faults, at
  most \<open>size - 1\<close> elements are in it, and what the consumers got is, in order, a prefix of what the
  producers put in, the rest being the elements still queued. The count \<open>elements\<close> is their number.
\<close>

theorem slot_queue_fifo:
  assumes "0 < n" "n \<le> 2 ^ 32"
  shows "\<exists>puts gots q rest. queue_calls cs (queue_init fresh n) = Some (puts, gots, q) \<and>
    puts = gots @ rest \<and> wq_items q = map Some rest \<and> length rest < n \<and>
    unat (wq_elements q) = length rest"
proof -
  have i: "wq_ok (queue_init fresh n)" "wq_items (queue_init fresh n) = map Some []"
    using queue_init_ok [OF assms(1), of fresh] by auto
  from queue_calls_conserve [OF i, of cs] obtain puts gots q rest where
    r: "queue_calls cs (queue_init fresh n) = Some (puts, gots, q)" "wq_ok q" "wq_size q = n"
      "wq_items q = map Some rest" "puts = gots @ rest" by (auto simp: queue_init_def)
  have "length (wq_items q) \<le> n - 1" using slots.bounded [OF r(2)] r(3) by simp
  then have l: "length rest < n" using r(4) assms(1) by simp
  have "length (wq_items q) = ring_used (wq_size q) (wq_begin q) (wq_end q)"
    using r(2) by (simp add: wq_items_def wq_ok_def)
  then have "wq_elements q = of_nat (length rest)" using r(2,4) by (simp add: wq_ok_def)
  then have "unat (wq_elements q) = length rest" using l assms(2) by (simp add: unat_of_nat_small)
  with r l show ?thesis by blast
qed

theorem slot_queue_fifo_witness:
  "\<exists>puts gots q rest. queue_calls [Push_Ex (7 :: nat), Pop_Ex, Push_Block 8, Try_Pop] (queue_init (\<lambda>_. None) 3) =
     Some (puts, gots, q) \<and> puts = gots @ rest \<and> wq_items q = map Some rest \<and> length rest < 3"
  using slot_queue_fifo [of 3 "[Push_Ex (7 :: nat), Pop_Ex, Push_Block 8, Try_Pop]" "\<lambda>_. None"]
  by (fastforce simp del: queue_calls.simps)

end
