(* ===== verification/Byte_Queue.thy ===== *)
theory Byte_Queue
  imports Ring Slot_Queue
begin

text \<open>
  The byte queue of the manager, \<^verbatim>\<open>agents/shared/bqueue_op.c\<close>: a circular byte array that grows
  up to \<open>max_length\<close> when data is pushed, is halved when more than half of it is unused
  (\<open>BQUEUE_SHRINK\<close>), and is released when it gets empty. Pointers into the array are offsets
  here; the array of length 0 is the NULL pointer. The bytes that \<open>os_realloc\<close> adds are whatever
  \<open>bq_fresh\<close> says, so nothing can rely on them; its failure ends the process. Copying outside the
  array, a \<open>memcpy\<close> between overlapping ranges and a remainder by the length 0 are faults
  (\<open>None\<close>). Lengths of objects in memory add up without wrap-around.
\<close>

section \<open>State\<close>

record bqueue =
  bq_memory :: bytes
  bq_head :: nat
  bq_tail :: nat
  bq_length :: nat
  bq_max_length :: nat
  bq_flags :: u32
  bq_fresh :: "nat \<Rightarrow> byte"

definition BQUEUE_NOFLAG :: u32 where "BQUEUE_NOFLAG = 0"

definition BQUEUE_WAIT :: u32 where "BQUEUE_WAIT = 1"

definition BQUEUE_SHRINK :: u32 where "BQUEUE_SHRINK = 2"

definition os_realloc :: "(nat \<Rightarrow> byte) \<Rightarrow> bytes \<Rightarrow> nat \<Rightarrow> bytes" where
  "os_realloc fresh mem n = take n mem @ map fresh [length mem..<n]"

text \<open>\<open>memmove\<close> and \<open>memcpy\<close> inside the array.\<close>

definition move_within :: "nat \<Rightarrow> nat \<Rightarrow> nat \<Rightarrow> bytes \<Rightarrow> bytes option" where
  "move_within dst src n mem = do { d \<leftarrow> peek mem src n; poke mem dst d }"

definition copy_within :: "nat \<Rightarrow> nat \<Rightarrow> nat \<Rightarrow> bytes \<Rightarrow> bytes option" where
  "copy_within dst src n mem =
     (if n = 0 \<or> dst + n \<le> src \<or> src + n \<le> dst then move_within dst src n mem else None)"

section \<open>Private operations\<close>

definition bq_used :: "bqueue \<Rightarrow> nat" where
  "bq_used q = (if 0 < bq_length q then (bq_tail q + bq_length q - bq_head q) mod bq_length q else 0)"

definition bq_empty :: "bqueue \<Rightarrow> bool" where
  "bq_empty q \<longleftrightarrow> bq_head q = bq_tail q"

definition bq_expand :: "bqueue \<Rightarrow> nat \<Rightarrow> bqueue option" where
  "bq_expand q new_length =
     (let mem = os_realloc (bq_fresh q) (bq_memory q) new_length in
      if bq_tail q < bq_head q then
        let tail_len = bq_tail q; growth = new_length - bq_length q in
        if tail_len \<le> growth then do {
          m1 \<leftarrow> copy_within (bq_length q) 0 tail_len mem;
          if new_length = 0 then None
          else Some (q\<lparr>bq_memory := m1, bq_tail := (bq_length q + tail_len) mod new_length,
                       bq_length := new_length\<rparr>)
        }
        else do {
          m1 \<leftarrow> copy_within (bq_length q) 0 growth mem;
          m2 \<leftarrow> move_within 0 growth (tail_len - growth) m1;
          Some (q\<lparr>bq_memory := m2, bq_tail := bq_tail q - growth, bq_length := new_length\<rparr>)
        }
      else Some (q\<lparr>bq_memory := mem, bq_length := new_length\<rparr>))"

text \<open>The moves of \<open>_bqueue_shrink\<close>, and then the reallocation.\<close>

definition bq_compact :: "bqueue \<Rightarrow> nat \<Rightarrow> bqueue option" where
  "bq_compact q new_length =
     (if bq_empty q then Some (q\<lparr>bq_head := 0, bq_tail := 0\<rparr>)
      else
        let head_len = bq_head q; tail_len = bq_tail q in
        if head_len < tail_len then
          if new_length \<le> head_len then do {
            m \<leftarrow> copy_within 0 head_len (tail_len - head_len) (bq_memory q);
            Some (q\<lparr>bq_memory := m, bq_head := 0, bq_tail := tail_len - head_len\<rparr>)
          }
          else if new_length \<le> tail_len then do {
            m \<leftarrow> copy_within 0 (tail_len - (tail_len - new_length)) (tail_len - new_length) (bq_memory q);
            Some (q\<lparr>bq_memory := m, bq_tail := tail_len - new_length\<rparr>)
          }
          else Some q
        else
          if bq_head q < bq_length q - new_length then None
          else
            let new_head = bq_head q - (bq_length q - new_length) in do {
              m \<leftarrow> (if head_len < new_length
                    then move_within new_head head_len (bq_length q - head_len) (bq_memory q)
                    else copy_within new_head head_len (bq_length q - head_len) (bq_memory q));
              Some (q\<lparr>bq_memory := m, bq_head := new_head\<rparr>)
            })"

definition bq_shrink :: "bqueue \<Rightarrow> nat \<Rightarrow> bqueue option" where
  "bq_shrink q new_length = do {
     q1 \<leftarrow> bq_compact q new_length;
     Some (q1\<lparr>bq_memory := os_realloc (bq_fresh q1) (bq_memory q1) new_length, bq_length := new_length\<rparr>) }"

definition bq_insert :: "bqueue \<Rightarrow> bytes \<Rightarrow> bqueue option" where
  "bq_insert q d =
     (let tail_len = bq_tail q in do {
        m \<leftarrow> (if tail_len + length d \<le> bq_length q then poke (bq_memory q) (bq_tail q) d
              else
                let chunk_len = bq_length q - tail_len in do {
                  m1 \<leftarrow> poke (bq_memory q) (bq_tail q) (take chunk_len d);
                  poke m1 0 (drop chunk_len d)
                });
        if bq_length q = 0 then None
        else Some (q\<lparr>bq_memory := m, bq_tail := (tail_len + length d) mod bq_length q\<rparr>)
      })"

text \<open>What is copied to a destination that has room for \<open>n\<close> bytes.\<close>

definition bq_extract :: "bqueue \<Rightarrow> nat \<Rightarrow> bytes option" where
  "bq_extract q n =
     (if bq_tail q < bq_head q then
        let head_len = bq_length q - bq_head q in
        if n < head_len then peek (bq_memory q) (bq_head q) n
        else do {
          d1 \<leftarrow> peek (bq_memory q) (bq_head q) head_len;
          d2 \<leftarrow> peek (bq_memory q) 0 (if n - head_len < bq_tail q then n - head_len else bq_tail q);
          Some (d1 @ d2)
        }
      else
        let used = bq_tail q - bq_head q in
        peek (bq_memory q) (bq_head q) (if n < used then n else used))"

definition bq_trim :: "bqueue \<Rightarrow> bqueue" where
  "bq_trim q = q\<lparr>bq_memory := [], bq_head := 0, bq_tail := 0, bq_length := 0\<rparr>"

section \<open>Public operations\<close>

definition bqueue_init :: "(nat \<Rightarrow> byte) \<Rightarrow> nat \<Rightarrow> u32 \<Rightarrow> bqueue option" where
  "bqueue_init fresh max_length flags =
     (if max_length \<le> 1 then None
      else Some \<lparr>bq_memory = [], bq_head = 0, bq_tail = 0, bq_length = 0, bq_max_length = max_length,
                 bq_flags = flags, bq_fresh = fresh\<rparr>)"

definition bqueue_push :: "bqueue \<Rightarrow> bytes \<Rightarrow> u32 \<Rightarrow> (int, bqueue) blocking option" where
  "bqueue_push q d flags =
     (if length d \<ge> bq_max_length q then Some (Returns (-1) q)
      else
        let used = bq_used q in
        if length d + used \<ge> bq_max_length q then
          Some (if flags AND BQUEUE_WAIT \<noteq> 0 then Waits q else Returns (-1) q)
        else do {
          q1 \<leftarrow> (if length d + used \<ge> bq_length q then bq_expand q (length d + used + 1) else Some q);
          q2 \<leftarrow> bq_insert q1 d;
          Some (Returns 0 q2)
        })"

text \<open>Moving the head, and then releasing or halving the memory, at the end of pop and drop.\<close>

definition bq_advance :: "bqueue \<Rightarrow> nat \<Rightarrow> bqueue option" where
  "bq_advance q n =
     (if bq_length q = 0 then None
      else
        let q1 = q\<lparr>bq_head := (bq_head q + n) mod bq_length q\<rparr> in
        if bq_empty q1 then Some (bq_trim q1)
        else if bq_flags q1 AND BQUEUE_SHRINK \<noteq> 0 \<and> bq_used q1 < bq_length q1 div 2 then
          bq_shrink q1 (bq_length q1 div 2)
        else Some q1)"

definition bqueue_pop :: "bqueue \<Rightarrow> nat \<Rightarrow> u32 \<Rightarrow> (bytes, bqueue) blocking option" where
  "bqueue_pop q n flags =
     (if bq_empty q then Some (if flags AND BQUEUE_WAIT \<noteq> 0 then Waits q else Returns [] q)
      else do {
        d \<leftarrow> bq_extract q n;
        q1 \<leftarrow> bq_advance q (length d);
        Some (Returns d q1) })"

definition bqueue_peek :: "bqueue \<Rightarrow> nat \<Rightarrow> u32 \<Rightarrow> (bytes, bqueue) blocking option" where
  "bqueue_peek q n flags =
     (if bq_empty q then Some (if flags AND BQUEUE_WAIT \<noteq> 0 then Waits q else Returns [] q)
      else do { d \<leftarrow> bq_extract q n; Some (Returns d q) })"

definition bqueue_drop :: "bqueue \<Rightarrow> nat \<Rightarrow> (int \<times> bqueue) option" where
  "bqueue_drop q n =
     (if n \<le> bq_used q then do { q1 \<leftarrow> bq_advance q n; Some (0, q1) }
      else Some (-1, q))"

definition bqueue_used :: "bqueue \<Rightarrow> nat" where
  "bqueue_used q = bq_used q"

definition bqueue_clear :: "bqueue \<Rightarrow> bqueue" where
  "bqueue_clear q = bq_trim q"

end
