(* ===== verification/Byte_Queue_Lemmas.thy ===== *)
theory Byte_Queue_Lemmas
  imports Byte_Queue
begin

text \<open>
  The byte queue stands for a list of bytes: what each operation of \<^theory_text>\<open>Byte_Queue\<close> does to that
  list, whether the bytes lie in one piece or around the end of the array.
\<close>

section \<open>Well-formed queues\<close>

definition bq_ok :: "bqueue \<Rightarrow> bool" where
  "bq_ok q \<longleftrightarrow> length (bq_memory q) = bq_length q \<and> bq_length q \<le> bq_max_length q \<and> 2 \<le> bq_max_length q \<and>
     (if bq_length q = 0 then bq_head q = 0 \<and> bq_tail q = 0
      else bq_head q < bq_length q \<and> bq_tail q < bq_length q)"

definition bq_items :: "bqueue \<Rightarrow> bytes" where
  "bq_items q = ring_list (bq_memory q) (bq_tail q) (bq_head q)"

text \<open>Settings that no operation changes.\<close>

definition bq_same :: "bqueue \<Rightarrow> bqueue \<Rightarrow> bool" where
  "bq_same q q' \<longleftrightarrow> bq_max_length q' = bq_max_length q \<and> bq_flags q' = bq_flags q"

lemma bq_same_refl [simp]: "bq_same q q"
  by (simp add: bq_same_def)

lemma bq_same_trans: "bq_same q r \<Longrightarrow> bq_same r s \<Longrightarrow> bq_same q s"
  by (simp add: bq_same_def)

lemma bq_items_contiguous:
  "bq_ok q \<Longrightarrow> bq_head q \<le> bq_tail q \<Longrightarrow>
   bq_items q = take (bq_tail q - bq_head q) (drop (bq_head q) (bq_memory q))"
  using ring_list_contiguous [of "bq_head q" "bq_tail q" "bq_memory q"]
  by (cases "bq_length q = 0") (auto simp: bq_ok_def bq_items_def ring_list_def ring_used_def)

lemma bq_items_wrapped:
  "bq_ok q \<Longrightarrow> bq_tail q < bq_head q \<Longrightarrow>
   bq_items q = drop (bq_head q) (bq_memory q) @ take (bq_tail q) (bq_memory q)"
  by (cases "bq_length q = 0") (auto simp: bq_ok_def bq_items_def ring_list_wrapped)

lemma length_bq_items: "bq_ok q \<Longrightarrow> length (bq_items q) = bq_used q"
  by (cases "bq_length q = 0") (auto simp: bq_ok_def bq_items_def bq_used_def ring_used_def)

lemma length_bq_items_cases:
  "bq_ok q \<Longrightarrow> length (bq_items q) =
     (if bq_head q \<le> bq_tail q then bq_tail q - bq_head q else bq_length q - bq_head q + bq_tail q)"
  by (cases "bq_length q = 0")
    (auto simp: bq_items_contiguous bq_items_wrapped bq_ok_def)

lemma bq_items_less: "bq_ok q \<Longrightarrow> length (bq_items q) < bq_max_length q"
  by (cases "bq_length q = 0") (auto simp: length_bq_items_cases bq_ok_def)

lemma bq_empty_iff: "bq_ok q \<Longrightarrow> bq_empty q \<longleftrightarrow> bq_items q = []"
proof -
  assume ok: "bq_ok q"
  have "bq_items q = [] \<longleftrightarrow> length (bq_items q) = 0" by simp
  also have "\<dots> \<longleftrightarrow> bq_head q = bq_tail q"
    using ok by (cases "bq_length q = 0") (auto simp: length_bq_items_cases bq_ok_def)
  finally show ?thesis by (simp add: bq_empty_def)
qed

lemma bq_init_ok:
  "bqueue_init fresh n flags = Some q \<Longrightarrow>
   bq_ok q \<and> bq_items q = [] \<and> bq_max_length q = n \<and> bq_flags q = flags"
  by (auto simp: bqueue_init_def bq_ok_def bq_items_def ring_list_def ring_used_def split: if_splits)

lemma bq_trim_ok: "bq_ok q \<Longrightarrow> bq_ok (bq_trim q) \<and> bq_items (bq_trim q) = [] \<and> bq_same q (bq_trim q)"
  by (simp add: bq_ok_def bq_items_def bq_trim_def bq_same_def ring_list_def ring_used_def)

section \<open>Moving bytes\<close>

lemma os_realloc_grow:
  "length mem \<le> n \<Longrightarrow> os_realloc fresh mem n = mem @ map fresh [length mem..<n]"
  by (simp add: os_realloc_def)

lemma os_realloc_shrink: "n \<le> length mem \<Longrightarrow> os_realloc fresh mem n = take n mem"
  by (simp add: os_realloc_def)

lemma length_os_realloc [simp]: "length (os_realloc fresh mem n) = n"
  by (cases "length mem \<le> n") (simp_all add: os_realloc_grow os_realloc_shrink)

lemma move_within_in_bounds:
  "src + n \<le> length mem \<Longrightarrow> dst + n \<le> length mem \<Longrightarrow>
   move_within dst src n mem = Some (take dst mem @ take n (drop src mem) @ drop (dst + n) mem)"
  by (simp add: move_within_def mem_simps)

lemma copy_within_in_bounds:
  "src + n \<le> length mem \<Longrightarrow> dst + n \<le> length mem \<Longrightarrow> dst + n \<le> src \<or> src + n \<le> dst \<Longrightarrow>
   copy_within dst src n mem = Some (take dst mem @ take n (drop src mem) @ drop (dst + n) mem)"
  by (auto simp: copy_within_def move_within_in_bounds)

lemma take_drop_add: "take m (drop i xs) @ take n (drop (i + m) xs) = take (m + n) (drop i xs)"
  by (simp add: take_add add.commute)

section \<open>Growing\<close>

lemma bq_expand_ok:
  assumes ok: "bq_ok q" and n: "bq_length q < n" "n \<le> bq_max_length q"
  shows "\<exists>q'. bq_expand q n = Some q' \<and> bq_ok q' \<and> bq_items q' = bq_items q \<and> bq_length q' = n \<and> bq_same q q'"
proof (cases "bq_tail q < bq_head q")
  case False
  let ?q = "q\<lparr>bq_memory := os_realloc (bq_fresh q) (bq_memory q) n, bq_length := n\<rparr>"
  have o: "bq_ok ?q" using ok n by (auto simp: bq_ok_def split: if_splits)
  from False have "bq_items ?q = bq_items q"
    using ok n bq_items_contiguous [OF o] bq_items_contiguous [OF ok]
    by (cases "bq_length q = 0") (auto simp: bq_ok_def os_realloc_grow)
  with False o show ?thesis by (simp add: bq_expand_def bq_same_def Let_def)
next
  case True
  let ?h = "bq_head q" and ?t = "bq_tail q" and ?l = "bq_length q" and ?m = "bq_memory q"
  let ?j = "map (bq_fresh q) [?l..<n]"
  have b: "?h < ?l" "?t < ?h" "length ?m = ?l" using ok True by (auto simp: bq_ok_def split: if_splits)
  then have r: "os_realloc (bq_fresh q) ?m n = ?m @ ?j" using n by (simp add: os_realloc_grow)
  have i: "bq_items q = drop ?h ?m @ take ?t ?m" using ok True by (rule bq_items_wrapped)
  show ?thesis
  proof (cases "?t \<le> n - ?l")
    case fits: True
    let ?m1 = "?m @ take ?t ?m @ drop ?t ?j"
    let ?q = "q\<lparr>bq_memory := ?m1, bq_tail := (?l + ?t) mod n, bq_length := n\<rparr>"
    have c: "copy_within ?l 0 ?t (?m @ ?j) = Some ?m1"
      using b n fits by (subst copy_within_in_bounds) simp_all
    have l: "length ?m1 = n" using b n fits by simp
    have o: "bq_ok ?q" using ok b n l by (auto simp: bq_ok_def)
    have "bq_items ?q = bq_items q"
    proof (cases "?t = n - ?l")
      case full: True
      then have "(?l + ?t) mod n = 0" using n by simp
      with o b full show ?thesis using bq_items_wrapped [OF o] i by simp
    next
      case False
      then have "(?l + ?t) mod n = ?l + ?t" using fits by simp
      with o b show ?thesis using bq_items_contiguous [OF o] i by simp
    qed
    with True r c o fits n show ?thesis by (auto simp: bq_expand_def bq_same_def Let_def)
  next
    case False
    let ?g = "n - ?l"
    let ?m1 = "?m @ take ?g ?m"
    let ?m2 = "take (?t - ?g) (drop ?g ?m1) @ drop (?t - ?g) ?m1"
    let ?q = "q\<lparr>bq_memory := ?m2, bq_tail := ?t - ?g, bq_length := n\<rparr>"
    have c: "copy_within ?l 0 ?g (?m @ ?j) = Some ?m1"
      using b n False by (subst copy_within_in_bounds) simp_all
    have l1: "length ?m1 = n" using b n False by simp
    have d: "move_within 0 ?g (?t - ?g) ?m1 = Some ?m2"
      using b n False l1 by (subst move_within_in_bounds) simp_all
    have l2: "length ?m2 = n" using b n False l1 by simp
    have o: "bq_ok ?q" using ok b n l2 by (auto simp: bq_ok_def)
    have t: "take (?t - ?g) (drop ?g ?m1) = take (?t - ?g) (drop ?g ?m)" using b False by simp
    have "bq_items ?q = drop ?h ?m2 @ take (?t - ?g) ?m2" using bq_items_wrapped [OF o] b False by simp
    also have "drop ?h ?m2 = drop ?h ?m @ take ?g ?m" using b n False l1 by simp
    also have "take (?t - ?g) ?m2 = take (?t - ?g) (drop ?g ?m)" using b n False l1 t by simp
    also have "(drop ?h ?m @ take ?g ?m) @ take (?t - ?g) (drop ?g ?m) = bq_items q"
      using i False take_drop_add [of ?g 0 ?m "?t - ?g"] by simp
    finally have "bq_items ?q = bq_items q" .
    with True r c d o False show ?thesis by (auto simp: bq_expand_def bq_same_def Let_def)
  qed
qed

section \<open>Inserting\<close>

lemma bq_insert_ok:
  assumes ok: "bq_ok q" and n: "length d + length (bq_items q) < bq_length q"
  shows "\<exists>q'. bq_insert q d = Some q' \<and> bq_ok q' \<and> bq_items q' = bq_items q @ d \<and> bq_same q q'"
proof -
  let ?h = "bq_head q" and ?t = "bq_tail q" and ?l = "bq_length q" and ?m = "bq_memory q"
  have l: "0 < ?l" using n by simp
  then have b: "?h < ?l" "?t < ?l" "length ?m = ?l" using ok by (auto simp: bq_ok_def)
  show ?thesis
  proof (cases "?t + length d \<le> ?l")
    case True
    let ?m1 = "take ?t ?m @ d @ drop (?t + length d) ?m"
    let ?q = "q\<lparr>bq_memory := ?m1, bq_tail := (?t + length d) mod ?l\<rparr>"
    have o: "bq_ok ?q" using ok b True by (auto simp: bq_ok_def)
    have "bq_items ?q = bq_items q @ d"
    proof (cases "?h \<le> ?t")
      case h: True
      have i: "bq_items q = take (?t - ?h) (drop ?h ?m)" using ok h by (rule bq_items_contiguous)
      with b h have d: "drop ?h (take ?t ?m) = bq_items q" by (simp add: drop_take)
      show ?thesis
      proof (cases "?t + length d = ?l")
        case full: True
        then have "0 < ?h" using n b h i by simp
        with o b h full d show ?thesis using bq_items_wrapped [OF o] by simp
      next
        case False
        with True have "(?t + length d) mod ?l = ?t + length d" by simp
        moreover have "length (bq_items q) = ?t - ?h" using b h i by simp
        ultimately show ?thesis using o b h d bq_items_contiguous [OF o] by simp
      qed
    next
      case False
      then have i: "bq_items q = drop ?h ?m @ take ?t ?m" using ok by (intro bq_items_wrapped) auto
      then have "?t + length d < ?h" using n b by simp
      moreover from this have "(?t + length d) mod ?l = ?t + length d" using b by simp
      ultimately show ?thesis using bq_items_wrapped [OF o] b i by simp
    qed
    moreover have "poke ?m ?t d = Some ?m1" using b True by (simp add: mem_simps)
    ultimately show ?thesis using o True l by (auto simp: bq_insert_def bq_same_def Let_def)
  next
    case False
    let ?c = "?l - ?t"
    let ?e = "drop ?c d" and ?m1 = "take ?t ?m @ take ?c d"
    obtain m2 where m2: "m2 = ?e @ drop (length ?e) ?m1" by simp
    let ?q = "q\<lparr>bq_memory := m2, bq_tail := (?t + length d) mod ?l\<rparr>"
    have h: "?h \<le> ?t"
    proof (rule ccontr)
      assume "\<not> ?h \<le> ?t"
      with ok n b False show False by (simp add: length_bq_items_cases)
    qed
    have i: "bq_items q = take (?t - ?h) (drop ?h ?m)" using ok h by (rule bq_items_contiguous)
    then have e: "length ?e < ?h" using n b h False by simp
    have l1: "length ?m1 = ?l" using b False by simp
    have p: "poke ?m ?t (take ?c d) = Some ?m1" "poke ?m1 0 ?e = Some m2"
      using b False l1 e m2 by (simp_all add: mem_simps)
    have t: "(?t + length d) mod ?l = length ?e" using b False e by (simp add: le_mod_geq)
    have l2: "length m2 = ?l" using l1 e b m2 by simp
    have o: "bq_ok ?q" using ok b l l2 by (simp add: bq_ok_def)
    have "bq_items ?q = drop ?h m2 @ take (length ?e) m2"
      using bq_items_wrapped [OF o] t e by simp
    also have "drop ?h m2 = bq_items q @ take ?c d" using b h e i m2 by (simp add: drop_take)
    also have "take (length ?e) m2 = ?e" using m2 by simp
    finally have "bq_items ?q = bq_items q @ d" by simp
    with o p False l show ?thesis by (auto simp: bq_insert_def bq_same_def Let_def)
  qed
qed

section \<open>Reading\<close>

lemma bq_extract_ok: "bq_ok q \<Longrightarrow> bq_extract q n = Some (take n (bq_items q))"
proof -
  assume ok: "bq_ok q"
  show ?thesis
  proof (cases "bq_tail q < bq_head q")
    case True
    then have b: "bq_head q < bq_length q" "length (bq_memory q) = bq_length q"
      using ok by (auto simp: bq_ok_def split: if_splits)
    with True bq_items_wrapped [OF ok True] show ?thesis
      by (auto simp: bq_extract_def mem_simps min_def Let_def)
  next
    case False
    then have "bq_tail q \<le> length (bq_memory q)" using ok by (auto simp: bq_ok_def split: if_splits)
    with False bq_items_contiguous [OF ok] show ?thesis
      by (auto simp: bq_extract_def mem_simps min_def Let_def)
  qed
qed

section \<open>Shrinking\<close>

lemma bq_shrink_ok:
  assumes ok: "bq_ok q" and ne: "bq_items q \<noteq> []"
    and n: "length (bq_items q) < n" "n \<le> bq_length q"
  shows "\<exists>q'. bq_shrink q n = Some q' \<and> bq_ok q' \<and> bq_items q' = bq_items q \<and> bq_length q' = n \<and> bq_same q q'"
proof -
  let ?h = "bq_head q" and ?t = "bq_tail q" and ?l = "bq_length q" and ?m = "bq_memory q"
  have ht: "?h \<noteq> ?t" using ne bq_empty_iff [OF ok] by (simp add: bq_empty_def)
  then have b: "?h < ?l" "?t < ?l" "length ?m = ?l" using ok by (auto simp: bq_ok_def split: if_splits)
  have by_compact: ?thesis
    if c: "bq_compact q n = Some (q\<lparr>bq_memory := m, bq_head := h, bq_tail := t\<rparr>)" and l: "length m = ?l"
      and o: "bq_ok (q\<lparr>bq_memory := take n m, bq_head := h, bq_tail := t, bq_length := n\<rparr>)" (is "bq_ok ?r")
      and i: "bq_items (q\<lparr>bq_memory := take n m, bq_head := h, bq_tail := t, bq_length := n\<rparr>) = bq_items q"
    for m h t
  proof -
    have "bq_shrink q n = Some ?r"
      using c l n by (auto simp: bq_shrink_def os_realloc_shrink intro: bqueue.equality)
    with o i show ?thesis by (auto simp: bq_same_def)
  qed
  show ?thesis
  proof (cases "?h < ?t")
    case True
    then have i: "bq_items q = take (?t - ?h) (drop ?h ?m)" using ok by (intro bq_items_contiguous) auto
    with b True n have u: "?t - ?h < n" by simp
    consider (right) "n \<le> ?h" | (split) "?h < n" "n \<le> ?t" | (left) "?t < n" using True by linarith
    then show ?thesis
    proof cases
      case right
      let ?m1 = "take (?t - ?h) (drop ?h ?m) @ drop (?t - ?h) ?m"
      let ?q = "q\<lparr>bq_memory := take n ?m1, bq_head := 0, bq_tail := ?t - ?h, bq_length := n\<rparr>"
      have "copy_within 0 ?h (?t - ?h) ?m = Some ?m1"
        using b True u right by (subst copy_within_in_bounds) auto
      then have c: "bq_compact q n = Some (q\<lparr>bq_memory := ?m1, bq_head := 0, bq_tail := ?t - ?h\<rparr>)"
        using True right by (simp add: bq_compact_def bq_empty_def Let_def)
      have l: "length ?m1 = ?l" using b True by simp
      have o: "bq_ok ?q" using ok b l n u by (auto simp: bq_ok_def)
      have "bq_items ?q = bq_items q" using bq_items_contiguous [OF o] i b u by simp
      with c l o show ?thesis by (rule by_compact)
    next
      case split
      let ?c = "?t - n"
      let ?m1 = "take ?c (drop n ?m) @ drop ?c ?m"
      let ?q = "q\<lparr>bq_memory := take n ?m1, bq_head := ?h, bq_tail := ?c, bq_length := n\<rparr>"
      have ch: "?c < ?h" using u split by linarith
      then have "copy_within 0 (?t - ?c) ?c ?m = Some ?m1"
        using b split by (subst copy_within_in_bounds) auto
      then have c: "bq_compact q n = Some (q\<lparr>bq_memory := ?m1, bq_head := ?h, bq_tail := ?c\<rparr>)"
        using True split by (simp add: bq_compact_def bq_empty_def Let_def)
      have l: "length ?m1 = ?l" using b split by simp
      have o: "bq_ok ?q" using ok b l n split ch by (auto simp: bq_ok_def)
      have "bq_items ?q = drop ?h (take n ?m1) @ take ?c (take n ?m1)"
        using bq_items_wrapped [OF o] ch by simp
      also have "drop ?h (take n ?m1) = take (n - ?h) (drop ?h ?m)" using b split ch by (simp add: drop_take)
      also have "take ?c (take n ?m1) = take ?c (drop n ?m)" using b split ch by simp
      also have "take (n - ?h) (drop ?h ?m) @ take ?c (drop n ?m) = bq_items q"
        using take_drop_add [of "n - ?h" ?h ?m ?c] split i by simp
      finally have "bq_items ?q = bq_items q" .
      with c l o show ?thesis by (rule by_compact)
    next
      case left
      let ?q = "q\<lparr>bq_memory := take n ?m, bq_head := ?h, bq_tail := ?t, bq_length := n\<rparr>"
      have c: "bq_compact q n = Some (q\<lparr>bq_memory := ?m, bq_head := ?h, bq_tail := ?t\<rparr>)"
        using True left by (simp add: bq_compact_def bq_empty_def Let_def)
      have o: "bq_ok ?q" using ok b n left True by (auto simp: bq_ok_def)
      have "bq_items ?q = bq_items q" using bq_items_contiguous [OF o] i b True left by (simp add: drop_take)
      with c b(3) o show ?thesis by (rule by_compact)
    qed
  next
    case False
    with ht have th: "?t < ?h" by simp
    then have i: "bq_items q = drop ?h ?m @ take ?t ?m" using ok by (intro bq_items_wrapped) auto
    let ?k = "?h - (?l - n)"
    let ?m1 = "take ?k ?m @ drop ?h ?m @ drop n ?m"
    let ?q = "q\<lparr>bq_memory := take n ?m1, bq_head := ?k, bq_tail := ?t, bq_length := n\<rparr>"
    have u: "?l - ?h + ?t < n" using n i b by simp
    then have k: "?t < ?k" "?k + (?l - ?h) = n" "?l - n \<le> ?h" using b n by linarith+
    have mv: "move_within ?k ?h (?l - ?h) ?m = Some ?m1"
      using b n k by (subst move_within_in_bounds) auto
    have "(if ?h < n then move_within ?k ?h (?l - ?h) ?m else copy_within ?k ?h (?l - ?h) ?m) = Some ?m1"
      using mv k by (auto simp: copy_within_def)
    then have c: "bq_compact q n = Some (q\<lparr>bq_memory := ?m1, bq_head := ?k, bq_tail := ?t\<rparr>)"
      using th k ht by (simp add: bq_compact_def bq_empty_def Let_def)
    have l: "length ?m1 = ?l" using b n k by simp
    have o: "bq_ok ?q" using ok b l n k by (auto simp: bq_ok_def)
    have "take n ?m1 = take ?k ?m @ drop ?h ?m" using b n k by simp
    then have "bq_items ?q = bq_items q" using bq_items_wrapped [OF o] i b k by simp
    with c l o show ?thesis by (rule by_compact)
  qed
qed

section \<open>Moving the head\<close>

lemma ring_list_drop:
  assumes "w < length xs" "r < length xs" "n \<le> ring_used (length xs) w r"
  shows "ring_list xs w ((r + n) mod length xs) = drop n (ring_list xs w r)"
  using assms
proof (induction n arbitrary: r)
  case (Suc n)
  then have ne: "w \<noteq> r" using ring_used_0_iff [of w "length xs" r] by auto
  let ?r = "(r + 1) mod length xs"
  have "?r < length xs" using Suc.prems(1) by (intro mod_less_divisor) auto
  moreover have "n \<le> ring_used (length xs) w ?r"
    using Suc.prems ring_used_pop [OF _ _ ne] by fastforce
  ultimately have "ring_list xs w ((?r + n) mod length xs) = drop n (ring_list xs w ?r)"
    using Suc.IH Suc.prems(1) by blast
  moreover have "(?r + n) mod length xs = (r + Suc n) mod length xs"
    by (metis add.assoc mod_add_left_eq plus_1_eq_Suc)
  ultimately show ?case using ring_list_pop [OF Suc.prems(1,2) ne] by simp
qed simp

lemma bq_advance_ok:
  assumes ok: "bq_ok q" and l: "0 < bq_length q" and n: "n \<le> length (bq_items q)"
  shows "\<exists>q'. bq_advance q n = Some q' \<and> bq_ok q' \<and> bq_items q' = drop n (bq_items q) \<and> bq_same q q'"
proof -
  let ?q = "q\<lparr>bq_head := (bq_head q + n) mod bq_length q\<rparr>"
  have b: "bq_head q < bq_length q" "bq_tail q < bq_length q" "length (bq_memory q) = bq_length q"
    using ok l by (auto simp: bq_ok_def)
  have o: "bq_ok ?q" using ok l by (simp add: bq_ok_def)
  have "n \<le> ring_used (length (bq_memory q)) (bq_tail q) (bq_head q)" using n by (simp add: bq_items_def)
  with b have i: "bq_items ?q = drop n (bq_items q)"
    using ring_list_drop [of "bq_tail q" "bq_memory q" "bq_head q" n] by (simp add: bq_items_def)
  have s: "bq_same q ?q" by (simp add: bq_same_def)
  consider (empty) "bq_empty ?q"
    | (shrink) "\<not> bq_empty ?q" "bq_flags ?q AND BQUEUE_SHRINK \<noteq> 0" "bq_used ?q < bq_length ?q div 2"
    | (stay) "\<not> bq_empty ?q" "\<not> (bq_flags ?q AND BQUEUE_SHRINK \<noteq> 0 \<and> bq_used ?q < bq_length ?q div 2)"
    by blast
  then show ?thesis
  proof cases
    case empty
    then have "bq_items ?q = []" using bq_empty_iff [OF o] by simp
    with empty bq_trim_ok [OF o] i s l show ?thesis
      by (auto simp: bq_advance_def Let_def intro: bq_same_trans)
  next
    case shrink
    then have "bq_items ?q \<noteq> []" "length (bq_items ?q) < bq_length ?q div 2"
      using bq_empty_iff [OF o] length_bq_items [OF o] by simp_all
    from bq_shrink_ok [OF o this] obtain q' where
      "bq_shrink ?q (bq_length ?q div 2) = Some q'" "bq_ok q'" "bq_items q' = bq_items ?q" "bq_same ?q q'"
      by auto
    with shrink i s l bq_same_trans show ?thesis by (auto simp: bq_advance_def Let_def)
  next
    case stay
    with o i s l show ?thesis by (auto simp: bq_advance_def Let_def)
  qed
qed

section \<open>The public operations\<close>

lemma bqueue_push_fits:
  assumes ok: "bq_ok q" and n: "length d + length (bq_items q) < bq_max_length q"
  shows "\<exists>q'. bqueue_push q d flags = Some (Returns 0 q') \<and> bq_ok q' \<and> bq_items q' = bq_items q @ d \<and> bq_same q q'"
proof -
  have u: "bq_used q = length (bq_items q)" using length_bq_items [OF ok] by simp
  let ?e = "if length d + bq_used q \<ge> bq_length q then bq_expand q (length d + bq_used q + 1) else Some q"
  have "\<exists>q1. ?e = Some q1 \<and> bq_ok q1 \<and> bq_items q1 = bq_items q \<and> length d + length (bq_items q) < bq_length q1 \<and> bq_same q q1"
  proof (cases "length d + bq_used q \<ge> bq_length q")
    case True
    have "bq_length q < length d + bq_used q + 1" "length d + bq_used q + 1 \<le> bq_max_length q"
      using True n u by simp_all
    from bq_expand_ok [OF ok this] True u show ?thesis by auto
  qed (use ok u in auto)
  then obtain q1 where 1: "?e = Some q1" "bq_ok q1" "bq_items q1 = bq_items q"
    "length d + length (bq_items q1) < bq_length q1" "bq_same q q1" by auto
  from bq_insert_ok [OF 1(2,4)] obtain q2 where
    2: "bq_insert q1 d = Some q2" "bq_ok q2" "bq_items q2 = bq_items q1 @ d" "bq_same q1 q2" by blast
  have "bqueue_push q d flags = Some (Returns 0 q2)"
    using 1(1) 2(1) n u unfolding bqueue_push_def Let_def by simp
  with 1 2 bq_same_trans show ?thesis by auto
qed

lemma bqueue_push_full:
  assumes "bq_ok q" "bq_max_length q \<le> length d + length (bq_items q)"
  shows "bqueue_push q d flags =
    Some (if length d < bq_max_length q \<and> flags AND BQUEUE_WAIT \<noteq> 0 then Waits q else Returns (-1) q)"
  using assms length_bq_items [OF assms(1)] by (auto simp: bqueue_push_def)

lemma bqueue_peek_ok:
  assumes "bq_ok q" "bq_items q \<noteq> []"
  shows "bqueue_peek q n flags = Some (Returns (take n (bq_items q)) q)"
  using assms by (simp add: bqueue_peek_def bq_empty_iff bq_extract_ok)

lemma bq_length_pos: "bq_ok q \<Longrightarrow> bq_items q \<noteq> [] \<Longrightarrow> 0 < bq_length q"
  by (cases "bq_length q = 0") (auto simp: bq_ok_def bq_items_def ring_list_def ring_used_def)

lemma bqueue_pop_ok:
  assumes "bq_ok q" "bq_items q \<noteq> []"
  shows "\<exists>q'. bqueue_pop q n flags = Some (Returns (take n (bq_items q)) q') \<and> bq_ok q' \<and>
    bq_items q' = drop n (bq_items q) \<and> bq_same q q'"
proof -
  let ?d = "take n (bq_items q)"
  from bq_advance_ok [OF assms(1) bq_length_pos [OF assms], of "length ?d"] obtain q' where
    "bq_advance q (length ?d) = Some q'" "bq_ok q'" "bq_items q' = drop (length ?d) (bq_items q)" "bq_same q q'"
    by auto
  moreover have "drop (length ?d) (bq_items q) = drop n (bq_items q)"
    by (cases "n \<le> length (bq_items q)") simp_all
  ultimately show ?thesis using assms by (simp add: bqueue_pop_def bq_empty_iff bq_extract_ok)
qed

lemma bqueue_read_empty:
  assumes "bq_ok q" "bq_items q = []"
  shows "bqueue_pop q n flags = Some (if flags AND BQUEUE_WAIT \<noteq> 0 then Waits q else Returns [] q)"
    and "bqueue_peek q n flags = Some (if flags AND BQUEUE_WAIT \<noteq> 0 then Waits q else Returns [] q)"
  using assms by (simp_all add: bqueue_pop_def bqueue_peek_def bq_empty_iff)

lemma bqueue_drop_ok:
  assumes "bq_ok q" "0 < bq_length q" "n \<le> length (bq_items q)"
  shows "\<exists>q'. bqueue_drop q n = Some (0, q') \<and> bq_ok q' \<and> bq_items q' = drop n (bq_items q) \<and> bq_same q q'"
  using bq_advance_ok [OF assms] assms length_bq_items [OF assms(1)] by (auto simp: bqueue_drop_def)

lemma bqueue_drop_refused:
  "bq_ok q \<Longrightarrow> length (bq_items q) < n \<Longrightarrow> bqueue_drop q n = Some (-1, q)"
  by (simp add: bqueue_drop_def length_bq_items)

end
