(* ===== verification/Byte_Queue_Thms.thy ===== *)
theory Byte_Queue_Thms
  imports Byte_Queue_Lemmas
begin

text \<open>
  The specification of the byte queue (\<^verbatim>\<open>agents/shared/bqueue_op.c\<close>, documented in
  \<^verbatim>\<open>agents/headers/bqueue_op.h\<close>) over a plain list of bytes, and the simulation: every sequence of
  calls gives the results of the specification.
\<close>

section \<open>The bounded queue contract, byte by byte\<close>

definition bq_put :: "byte \<Rightarrow> bqueue \<Rightarrow> bqueue option" where
  "bq_put b q = (case bqueue_push q [b] BQUEUE_NOFLAG of
     Some (Returns rc q') \<Rightarrow> if rc = 0 then Some q' else None | _ \<Rightarrow> None)"

definition bq_get :: "bqueue \<Rightarrow> (byte \<times> bqueue) option" where
  "bq_get q = (case bqueue_pop q 1 BQUEUE_NOFLAG of
     Some (Returns d q') \<Rightarrow> if d = [] then None else Some (hd d, q') | _ \<Rightarrow> None)"

lemma bq_put_cases:
  assumes ok: "bq_ok q"
  shows "length (bq_items q) = bq_max_length q - 1 \<and> bq_put b q = None \<or>
    length (bq_items q) \<noteq> bq_max_length q - 1 \<and>
      (\<exists>q'. bq_put b q = Some q' \<and> bq_ok q' \<and> bq_items q' = bq_items q @ [b] \<and> bq_same q q')"
proof (cases "length [b] + length (bq_items q) < bq_max_length q")
  case True
  from bqueue_push_fits [OF ok True, of BQUEUE_NOFLAG] True show ?thesis by (auto simp: bq_put_def)
next
  case False
  with bqueue_push_full [OF ok, of "[b]" BQUEUE_NOFLAG] bq_items_less [OF ok] show ?thesis
    by (auto simp: bq_put_def BQUEUE_NOFLAG_def)
qed

lemma bq_get_cases:
  assumes ok: "bq_ok q"
  shows "bq_items q = [] \<and> bq_get q = None \<or>
    (\<exists>b q'. bq_get q = Some (b, q') \<and> bq_ok q' \<and> bq_items q = b # bq_items q' \<and> bq_same q q')"
proof (cases "bq_items q")
  case Nil
  with bqueue_read_empty(1) [OF ok Nil, of 1 BQUEUE_NOFLAG] show ?thesis
    by (simp add: bq_get_def BQUEUE_NOFLAG_def)
next
  case (Cons b bs)
  with bqueue_pop_ok [OF ok, of 1 BQUEUE_NOFLAG] show ?thesis by (auto simp: bq_get_def)
qed

interpretation bytes_fifo: bounded_fifo bq_ok bq_items "\<lambda>q. bq_max_length q - 1" bq_put bq_get
proof unfold_locales
  fix q :: bqueue and q' b
  assume ok: "bq_ok q"
  show "length (bq_items q) \<le> bq_max_length q - 1" using bq_items_less [OF ok] by simp
  show "bq_put b q = None \<longleftrightarrow> length (bq_items q) = bq_max_length q - 1"
    using bq_put_cases [OF ok, of b] by auto
  show "bq_put b q = Some q' \<Longrightarrow>
      bq_ok q' \<and> bq_items q' = bq_items q @ [b] \<and> bq_max_length q' - 1 = bq_max_length q - 1"
    using bq_put_cases [OF ok, of b] by (auto simp: bq_same_def)
  show "bq_get q = None \<longleftrightarrow> bq_items q = []" using bq_get_cases [OF ok] by auto
  show "bq_get q = Some (b, q') \<Longrightarrow>
      bq_ok q' \<and> bq_items q = b # bq_items q' \<and> bq_max_length q' - 1 = bq_max_length q - 1"
    using bq_get_cases [OF ok] by (auto simp: bq_same_def)
qed

section \<open>Sequences of calls\<close>

datatype bq_call =
  Bq_Push bytes u32 | Bq_Pop nat u32 | Bq_Peek nat u32 | Bq_Drop nat | Bq_Used | Bq_Clear

datatype bq_result = Bq_Code int | Bq_Data bytes | Bq_Count nat | Bq_Sleeps | Bq_Unit

fun bq_result_of :: "('r \<Rightarrow> bq_result) \<Rightarrow> ('r, bqueue) blocking \<Rightarrow> bq_result \<times> bqueue" where
  "bq_result_of f (Returns r q) = (f r, q)"
| "bq_result_of f (Waits q) = (Bq_Sleeps, q)"

fun bq_do :: "bq_call \<Rightarrow> bqueue \<Rightarrow> (bq_result \<times> bqueue) option" where
  "bq_do (Bq_Push d flags) q = map_option (bq_result_of Bq_Code) (bqueue_push q d flags)"
| "bq_do (Bq_Pop n flags) q = map_option (bq_result_of Bq_Data) (bqueue_pop q n flags)"
| "bq_do (Bq_Peek n flags) q = map_option (bq_result_of Bq_Data) (bqueue_peek q n flags)"
| "bq_do (Bq_Drop n) q = map_option (map_prod Bq_Code id) (bqueue_drop q n)"
| "bq_do Bq_Used q = Some (Bq_Count (bqueue_used q), q)"
| "bq_do Bq_Clear q = Some (Bq_Unit, bqueue_clear q)"

fun bq_calls :: "bq_call list \<Rightarrow> bqueue \<Rightarrow> (bq_result list \<times> bqueue) option" where
  "bq_calls [] q = Some ([], q)"
| "bq_calls (c # cs) q = do {
     (r, q1) \<leftarrow> bq_do c q;
     (rs, q2) \<leftarrow> bq_calls cs q1;
     Some (r # rs, q2) }"

text \<open>The specification: a list of fewer than \<open>m\<close> bytes.\<close>

fun spec_call :: "nat \<Rightarrow> bq_call \<Rightarrow> bytes \<Rightarrow> bq_result \<times> bytes" where
  "spec_call m (Bq_Push d flags) s =
     (if length d + length s < m then (Bq_Code 0, s @ d)
      else (if length d < m \<and> flags AND BQUEUE_WAIT \<noteq> 0 then Bq_Sleeps else Bq_Code (-1), s))"
| "spec_call m (Bq_Pop n flags) s =
     (if s = [] \<and> flags AND BQUEUE_WAIT \<noteq> 0 then (Bq_Sleeps, s) else (Bq_Data (take n s), drop n s))"
| "spec_call m (Bq_Peek n flags) s =
     (if s = [] \<and> flags AND BQUEUE_WAIT \<noteq> 0 then Bq_Sleeps else Bq_Data (take n s), s)"
| "spec_call m (Bq_Drop n) s = (if n \<le> length s then (Bq_Code 0, drop n s) else (Bq_Code (-1), s))"
| "spec_call m Bq_Used s = (Bq_Count (length s), s)"
| "spec_call m Bq_Clear s = (Bq_Unit, [])"

fun spec_calls :: "nat \<Rightarrow> bq_call list \<Rightarrow> bytes \<Rightarrow> bq_result list \<times> bytes" where
  "spec_calls m [] s = ([], s)"
| "spec_calls m (c # cs) s =
     (let (r, s1) = spec_call m c s; (rs, s2) = spec_calls m cs s1 in (r # rs, s2))"

lemma bq_do_simulates:
  assumes ok: "bq_ok q" and c: "c \<noteq> Bq_Drop 0"
  shows "\<exists>r q'. bq_do c q = Some (r, q') \<and> bq_ok q' \<and> bq_same q q' \<and>
    spec_call (bq_max_length q) c (bq_items q) = (r, bq_items q')"
proof (cases c)
  case (Bq_Push d flags)
  with bqueue_push_fits [OF ok, of d flags] bqueue_push_full [OF ok, of d flags] ok show ?thesis
    by (cases "length d + length (bq_items q) < bq_max_length q") auto
next
  case (Bq_Pop n flags)
  with bqueue_pop_ok [OF ok, of n flags] bqueue_read_empty(1) [OF ok, of n flags] ok show ?thesis
    by (cases "bq_items q = []") auto
next
  case (Bq_Peek n flags)
  with bqueue_peek_ok [OF ok, of n flags] bqueue_read_empty(2) [OF ok, of n flags] ok show ?thesis
    by (cases "bq_items q = []") auto
next
  case (Bq_Drop n)
  then have n: "0 < n" using c by simp
  show ?thesis
  proof (cases "n \<le> length (bq_items q)")
    case True
    then have "bq_items q \<noteq> []" using n by auto
    from bqueue_drop_ok [OF ok bq_length_pos [OF ok this] True] True Bq_Drop show ?thesis by auto
  next
    case False
    with bqueue_drop_refused [OF ok, of n] Bq_Drop ok show ?thesis by auto
  qed
next
  case Bq_Used
  with ok length_bq_items [OF ok] show ?thesis by (auto simp: bqueue_used_def)
next
  case Bq_Clear
  with bq_trim_ok [OF ok] show ?thesis by (auto simp: bqueue_clear_def)
qed

lemma bq_calls_simulate:
  assumes "bq_ok q" "Bq_Drop 0 \<notin> set cs"
  shows "\<exists>rs q'. bq_calls cs q = Some (rs, q') \<and> bq_ok q' \<and> bq_same q q' \<and>
    spec_calls (bq_max_length q) cs (bq_items q) = (rs, bq_items q')"
  using assms
proof (induction cs arbitrary: q)
  case (Cons c cs)
  then have "c \<noteq> Bq_Drop 0" by auto
  from bq_do_simulates [OF Cons.prems(1) this] obtain r q1 where
    1: "bq_do c q = Some (r, q1)" "bq_ok q1" "bq_same q q1"
      "spec_call (bq_max_length q) c (bq_items q) = (r, bq_items q1)" by blast
  from Cons.IH [OF 1(2)] Cons.prems(2) obtain rs q2 where
    2: "bq_calls cs q1 = Some (rs, q2)" "bq_ok q2" "bq_same q1 q2"
      "spec_calls (bq_max_length q1) cs (bq_items q1) = (rs, bq_items q2)" by auto
  have "bq_max_length q1 = bq_max_length q" using 1(3) by (simp add: bq_same_def)
  with 1 2 show ?case by (auto intro: bq_same_trans)
qed simp



text \<open>
  Dropping zero bytes from a queue whose memory was released divides by its length 0: the guard
  \<^verbatim>\<open>length <= used\<close> lets the call through.
\<close>

theorem drop_zero_divides: "bq_length q = 0 \<Longrightarrow> bqueue_drop q 0 = None"
  by (simp add: bqueue_drop_def bq_advance_def)

end
