(* ===== verification/Net_Buffer.thy ===== *)
theory Net_Buffer
  imports Byte_Queue Sockets Wire
begin

text \<open>
  The TCP side of the manager's remote daemon: the per-connection buffers of
  \<^verbatim>\<open>agents/remoted/netbuffer.c\<close>, and the blocking message calls of \<^verbatim>\<open>agents/os_net/os_net.c\<close> that
  the peers use. A message on the wire is its length, a 32-bit little-endian integer, and its
  bytes. \<open>nb_recv\<close> collects what a socket delivers and passes on the complete messages; \<open>nb_queue\<close>
  puts a message into the byte queue of a connection and \<open>nb_send\<close> writes out what the socket
  takes.

  Both directions run under one mutex, so each operation is atomic, except that \<open>nb_queue\<close>
  releases it between its two attempts. The interest in writability that \<open>wnotify_modify\<close>
  registers is the set \<open>nb_armed\<close>; the messages passed to \<open>rem_msgpush\<close> are collected in \<open>nb_pushed\<close>
  with their peer and socket. The host is little-endian.
\<close>

section \<open>Little-endian lengths\<close>

definition host_bytes :: "u32 \<Rightarrow> bytes" where
  "host_bytes v = rev (put_be32 v)"

definition host_u32 :: "bytes \<Rightarrow> u32" where
  "host_u32 bs = get_be32 (rev (take 4 bs))"

definition wnet_order :: "u32 \<Rightarrow> u32" where
  "wnet_order v = v"

section \<open>State\<close>

record sockbuffer =
  sb_peer :: nat
  sb_data :: bytes
  sb_data_size :: nat
  sb_data_len :: nat
  sb_bqueue :: "bqueue option"

record netbuffer =
  nb_max_fd :: nat
  nb_buffers :: "sockbuffer list"
  nb_pushed :: "(bytes \<times> nat \<times> nat) list"
  nb_armed :: "nat set"
  nb_discarded :: nat
  nb_fresh :: "nat \<Rightarrow> byte"

definition sb_zero :: sockbuffer where
  "sb_zero = \<lparr>sb_peer = 0, sb_data = [], sb_data_size = 0, sb_data_len = 0, sb_bqueue = None\<rparr>"

text \<open>Access to \<^verbatim>\<open>buffer->buffers[sock]\<close>.\<close>

definition nb_get :: "netbuffer \<Rightarrow> nat \<Rightarrow> sockbuffer option" where
  "nb_get nb fd = (if fd < length (nb_buffers nb) then Some (nb_buffers nb ! fd) else None)"

definition nb_set :: "nat \<Rightarrow> sockbuffer \<Rightarrow> netbuffer \<Rightarrow> netbuffer" where
  "nb_set fd sb nb = nb\<lparr>nb_buffers := (nb_buffers nb)[fd := sb]\<rparr>"

section \<open>Opening and closing\<close>

text \<open>
  The array grows to \<open>sock + 1\<close> entries; \<open>raw\<close> is what the entries in between hold until their own
  \<open>nb_open\<close>.
\<close>

definition nb_open :: "nat \<Rightarrow> sockbuffer \<Rightarrow> nat \<Rightarrow> nat \<Rightarrow> netbuffer \<Rightarrow> netbuffer option" where
  "nb_open send_buffer_size raw fd peer nb =
     (let nb1 = (if fd \<ge> nb_max_fd nb
                 then nb\<lparr>nb_buffers := take (fd + 1) (nb_buffers nb @ replicate (fd + 1 - length (nb_buffers nb)) raw),
                         nb_max_fd := fd\<rparr>
                 else nb)
      in if fd < length (nb_buffers nb1) then
           Some (nb_set fd (sb_zero\<lparr>sb_peer := peer,
                  sb_bqueue := bqueue_init (nb_fresh nb1) send_buffer_size BQUEUE_SHRINK\<rparr>) nb1)
         else None)"

definition nb_close :: "nat \<Rightarrow> netbuffer \<Rightarrow> netbuffer option" where
  "nb_close fd nb = do { _ \<leftarrow> nb_get nb fd; Some (nb_set fd sb_zero nb) }"

section \<open>Receiving\<close>

text \<open>
  The dispatch loop from offset \<open>i\<close> on: the offset where it ends, whether a length was refused, and
  the messages found. The refused data is printed to the log.
\<close>

function nb_dispatch :: "bytes \<Rightarrow> nat \<Rightarrow> nat \<Rightarrow> (nat \<times> bool \<times> bytes list) option" where
  "nb_dispatch d data_len i =
     (if i + 4 \<le> data_len then do {
        w \<leftarrow> peek d i 4;
        let cur_len = unat (wnet_order (host_u32 w));
        if cur_len > OS_MAXSTR then Some (i, True, [])
        else let cur_offset = i + 4 in
          if cur_offset + cur_len > data_len then Some (i, False, [])
          else do {
            msg \<leftarrow> peek d cur_offset cur_len;
            (j, corrupt, msgs) \<leftarrow> nb_dispatch d data_len (cur_offset + cur_len);
            Some (j, corrupt, msg # msgs)
          }
      }
      else Some (i, False, []))"
  by pat_completeness auto
termination
  by (relation "measure (\<lambda>(d, data_len, i). data_len - i)") auto

declare nb_dispatch.simps [simp del]

text \<open>What \<open>buffer_relax\<close> does with the memory behind the remaining data.\<close>

definition nb_relax :: "int \<Rightarrow> nat \<Rightarrow> (nat \<Rightarrow> byte) \<Rightarrow> sockbuffer \<Rightarrow> sockbuffer" where
  "nb_relax buffer_relax receive_chunk fresh sb =
     (if buffer_relax = 0 then sb
      else if buffer_relax = 1 then
        let n = (if sb_data_len sb > receive_chunk then sb_data_len sb else receive_chunk)
        in sb\<lparr>sb_data_size := n, sb_data := os_realloc fresh (sb_data sb) n\<rparr>
      else
        let n = sb_data_len sb
        in sb\<lparr>sb_data_size := n, sb_data := (if n \<noteq> 0 then os_realloc fresh (sb_data sb) n else [])\<rparr>)"

text \<open>The move of the remaining data to the front, when any message was consumed.\<close>

definition nb_compact :: "int \<Rightarrow> nat \<Rightarrow> (nat \<Rightarrow> byte) \<Rightarrow> nat \<Rightarrow> sockbuffer \<Rightarrow> sockbuffer option" where
  "nb_compact buffer_relax receive_chunk fresh i sb =
     (if 0 < i then do {
        d \<leftarrow> (if i < sb_data_len sb then move_within 0 i (sb_data_len sb - i) (sb_data sb)
              else Some (sb_data sb));
        Some (nb_relax buffer_relax receive_chunk fresh
                (sb\<lparr>sb_data := d, sb_data_len := sb_data_len sb - i\<rparr>))
      }
      else Some sb)"

text \<open>The extension of the memory before receiving.\<close>

definition nb_extend :: "nat \<Rightarrow> (nat \<Rightarrow> byte) \<Rightarrow> sockbuffer \<Rightarrow> sockbuffer" where
  "nb_extend receive_chunk fresh sb =
     (let data_ext = sb_data_len sb + receive_chunk in
      if data_ext > sb_data_size sb
      then sb\<lparr>sb_data := os_realloc fresh (sb_data sb) data_ext, sb_data_size := data_ext\<rparr>
      else sb)"

definition nb_recv ::
  "nat \<Rightarrow> int \<Rightarrow> nat \<Rightarrow> netbuffer \<Rightarrow> sock \<Rightarrow> (int \<times> netbuffer \<times> sock) option" where
  "nb_recv receive_chunk buffer_relax fd nb sk = do {
     sb \<leftarrow> nb_get nb fd;
     let sb1 = nb_extend receive_chunk (nb_fresh nb) sb;
     let (recv_len, bs, sk1) = recv sk receive_chunk;
     if recv_len \<le> 0 then Some (recv_len, nb_set fd sb1 nb, sk1)
     else do {
       d \<leftarrow> poke (sb_data sb1) (sb_data_len sb1) bs;
       let sb2 = sb1\<lparr>sb_data := d, sb_data_len := sb_data_len sb1 + nat recv_len\<rparr>;
       (i, corrupt, msgs) \<leftarrow> nb_dispatch d (sb_data_len sb2) 0;
       let nb1 = nb\<lparr>nb_pushed := nb_pushed nb @ map (\<lambda>m. (m, sb_peer sb2, fd)) msgs\<rparr>;
       if corrupt then Some (-2, nb_set fd sb2 nb1, sk1)
       else do {
         sb3 \<leftarrow> nb_compact buffer_relax receive_chunk (nb_fresh nb) i sb2;
         Some (recv_len, nb_set fd sb3 nb1, sk1)
       }
     }
   }"

section \<open>Sending\<close>

definition nb_send :: "nat \<Rightarrow> nat \<Rightarrow> netbuffer \<Rightarrow> sock \<Rightarrow> (int \<times> netbuffer \<times> sock) option" where
  "nb_send send_chunk fd nb sk = do {
     sb \<leftarrow> nb_get nb fd;
     case sb_bqueue sb of
       None \<Rightarrow> Some (0, nb, sk)
     | Some q \<Rightarrow> do {
         r \<leftarrow> bqueue_peek q send_chunk BQUEUE_NOFLAG;
         case r of
           Waits _ \<Rightarrow> None
         | Returns peeked q0 \<Rightarrow>
             let (sent_bytes, sk1) = (if peeked \<noteq> [] then send sk peeked else (0, sk)) in do {
               q1 \<leftarrow> (if sent_bytes > 0 then map_option snd (bqueue_drop q0 (nat sent_bytes)) else Some q0);
               let nb1 = nb_set fd (sb\<lparr>sb_bqueue := Some q1\<rparr>) nb;
               let nb2 = (if peeked = [] \<or> bqueue_used q1 = 0
                          then nb1\<lparr>nb_armed := nb_armed nb1 - {fd}\<rparr> else nb1);
               Some (sent_bytes, nb2, sk1)
             }
       }
   }"

text \<open>One attempt of \<open>nb_queue\<close>, under the mutex.\<close>

datatype nb_attempt = Nb_Queued | Nb_Full | Nb_Closed

definition nb_attempt :: "bytes \<Rightarrow> nat \<Rightarrow> netbuffer \<Rightarrow> (nb_attempt \<times> netbuffer) option" where
  "nb_attempt packet fd nb = do {
     sb \<leftarrow> nb_get nb fd;
     case sb_bqueue sb of
       None \<Rightarrow> Some (Nb_Closed, nb)
     | Some q \<Rightarrow> do {
         r \<leftarrow> bqueue_push q packet BQUEUE_NOFLAG;
         case r of
           Waits _ \<Rightarrow> None
         | Returns rc q1 \<Rightarrow>
             let nb1 = nb_set fd (sb\<lparr>sb_bqueue := Some q1\<rparr>) nb in
             if rc = 0 then
               Some (Nb_Queued, if bqueue_used q1 = length packet
                                then nb1\<lparr>nb_armed := insert fd (nb_armed nb1)\<rparr> else nb1)
             else Some (Nb_Full, nb1)
       }
   }"

text \<open>The message with its length in front.\<close>

definition nb_packet :: "bytes \<Rightarrow> bytes" where
  "nb_packet msg = host_bytes (wnet_order (of_nat (length msg))) @ msg"

text \<open>
  \<open>nb_queue\<close>: when the queue is full, the mutex is released for a while and a second attempt made;
  \<open>others\<close> is what happens to the buffers in between.
\<close>

definition nb_queue ::
  "(netbuffer \<Rightarrow> netbuffer option) \<Rightarrow> nat \<Rightarrow> bytes \<Rightarrow> netbuffer \<Rightarrow> (int \<times> netbuffer) option" where
  "nb_queue others fd crypt_msg nb = do {
     (r1, nb1) \<leftarrow> nb_attempt (nb_packet crypt_msg) fd nb;
     (r2, nb2) \<leftarrow> (if r1 = Nb_Full then do {
                     nb' \<leftarrow> others nb1;
                     nb_attempt (nb_packet crypt_msg) fd nb' }
                   else Some (r1, nb1));
     if r2 = Nb_Queued then Some (0, nb2)
     else Some (-1, nb2\<lparr>nb_discarded := nb_discarded nb2 + 1\<rparr>) }"

section \<open>The blocking calls of the peers\<close>

definition OS_SOCKTERR :: int where
  "OS_SOCKTERR = -6"

definition OS_SendSecureTCP :: "int \<Rightarrow> bytes \<Rightarrow> sock \<Rightarrow> int \<times> sock" where
  "OS_SendSecureTCP fd msg sk =
     (if fd < 0 then (OS_SOCKTERR, sk)
      else let packet = nb_packet msg; (rc, sk1) = send sk packet
        in (if rc = int (length packet) then 0 else OS_SOCKTERR, sk1))"

text \<open>\<open>recv\<close> reports an error as -1 and the end of the stream as 0.\<close>

function os_recv_waitall :: "sock \<Rightarrow> nat \<Rightarrow> bytes \<Rightarrow> int \<times> bytes \<times> sock" where
  "os_recv_waitall sk n got =
     (if n = 0 then (int (length got), got, sk)
      else case recv sk n of
        (rc, bs, sk') \<Rightarrow> if rc \<le> 0 then (if rc = 0 then 0 else -1, got, sk') else os_recv_waitall sk' (n - nat rc) (got @ bs))"
  by pat_completeness auto
termination
  by (relation "measure (\<lambda>(sk, n, got). n)") auto

declare os_recv_waitall.simps [simp del]

text \<open>
  The message goes to a buffer of \<open>size\<close> bytes and is terminated when there is room. The result is
  the return code and the bytes received.
\<close>

definition OS_RecvSecureTCP :: "sock \<Rightarrow> u32 \<Rightarrow> (int \<times> bytes \<times> sock) option" where
  "OS_RecvSecureTCP sk limit =
     (let (recvval, w, sk1) = os_recv_waitall sk 4 [] in
      if recvval = -1 \<or> recvval = 0 then Some (recvval, [], sk1)
      else
        let msgsize = wnet_order (host_u32 w) in
        if msgsize > limit then Some (OS_SOCKTERR, [], sk1)
        else
          let (recvb, bs, sk2) = os_recv_waitall sk1 (unat msgsize) [] in do {
            _ \<leftarrow> poke (replicate (unat limit) 0) 0 bs;
            _ \<leftarrow> (if recvb = sint msgsize \<and> msgsize < limit
                  then poke (replicate (unat limit) 0) (unat msgsize) [0] else Some []);
            Some (recvb, bs, sk2)
          })"

end
