(* ===== verification/Net_Buffer_Lemmas.thy ===== *)
theory Net_Buffer_Lemmas
  imports Net_Buffer Byte_Queue_Lemmas
begin

text \<open>
  The framing that the network buffers share, as a function on the whole byte stream, and what
  each operation of \<^theory_text>\<open>Net_Buffer\<close> does in its terms.
\<close>

section \<open>Frames\<close>

interpretation le32: codec 4 host_bytes host_u32
  by unfold_locales (simp_all add: host_bytes_def host_u32_def be32.dec_enc_only be32.enc_dec)

lemma length_host_bytes [simp]: "length (host_bytes v) = 4"
  by (rule le32.length_enc)

lemma length_nb_packet [simp]: "length (nb_packet m) = 4 + length m"
  by (simp add: nb_packet_def)

text \<open>
  What a byte stream holds: the complete messages, the rest, and whether the rest starts with a
  length that is refused.
\<close>

function nb_frames :: "bytes \<Rightarrow> bytes list \<times> bytes \<times> bool" where
  "nb_frames s =
     (if length s < 4 then ([], s, False)
      else let n = unat (host_u32 (take 4 s)) in
        if n > OS_MAXSTR then ([], s, True)
        else if length s < 4 + n then ([], s, False)
        else let (ms, r, corrupt) = nb_frames (drop (4 + n) s) in (take n (drop 4 s) # ms, r, corrupt))"
  by pat_completeness auto
termination
  by (relation "measure length") auto

declare nb_frames.simps [simp del]

lemma nb_frames_incomplete: "length s < 4 \<Longrightarrow> nb_frames s = ([], s, False)"
  by (simp add: nb_frames.simps)

lemma nb_frames_packet:
  assumes "length m \<le> OS_MAXSTR"
  shows "nb_frames (nb_packet m @ s) = (let (ms, r, corrupt) = nb_frames s in (m # ms, r, corrupt))"
proof -
  have "unat (of_nat (length m) :: u32) = length m"
    using assms by (intro unat_of_nat_small) (simp add: OS_MAXSTR_def)
  moreover have "host_u32 (host_bytes v) = v" for v by (rule le32.dec_enc_only)
  ultimately show ?thesis
    using assms by (subst nb_frames.simps) (simp add: nb_packet_def wnet_order_def)
qed

lemma nb_frames_packets:
  assumes "\<forall>m \<in> set ms. length m \<le> OS_MAXSTR"
  shows "nb_frames (concat (map nb_packet ms) @ s) = (let (ns, r, corrupt) = nb_frames s in (ms @ ns, r, corrupt))"
  using assms by (induction ms) (auto simp: nb_frames_packet split: prod.splits)

text \<open>A prefix of a packet holds no message.\<close>

lemma nb_frames_partial:
  assumes "length m \<le> OS_MAXSTR" "nb_packet m = s @ t" "t \<noteq> []"
  shows "nb_frames s = ([], s, False)"
proof (cases "length s < 4")
  case False
  have "length s < 4 + length m"
    using arg_cong [OF assms(2), of length] assms(3) by (cases t) auto
  moreover have "take 4 s = host_bytes (of_nat (length m))"
    using arg_cong [OF assms(2), of "take 4"] False by (simp add: nb_packet_def wnet_order_def)
  moreover have "unat (of_nat (length m) :: u32) = length m"
    using assms by (intro unat_of_nat_small) (simp add: OS_MAXSTR_def)
  ultimately show ?thesis using False assms(1) by (simp add: nb_frames.simps le32.dec_enc_only)
qed (rule nb_frames_incomplete)

text \<open>Parsing can be resumed from the rest.\<close>

lemma nb_frames_append:
  "nb_frames s = (ms, r, False) \<Longrightarrow>
   nb_frames (s @ t) = (let (ns, r', corrupt) = nb_frames (r @ t) in (ms @ ns, r', corrupt))"
proof (induction s arbitrary: ms r rule: nb_frames.induct)
  case (1 s)
  let ?n = "unat (host_u32 (take 4 s))"
  show ?case
  proof (cases "length s < 4 \<or> length s < 4 + ?n")
    case True
    with "1.prems" have "ms = []" "r = s" by (auto simp: nb_frames.simps [of s] Let_def split: if_splits)
    then show ?thesis by (cases "nb_frames (s @ t)") simp
  next
    case False
    then have s: "\<not> length s < 4" "\<not> length s < 4 + ?n" by auto
    have n: "\<not> ?n > OS_MAXSTR" using "1.prems" s by (auto simp: nb_frames.simps [of s] Let_def)
    obtain ms1 where r: "nb_frames (drop (4 + ?n) s) = (ms1, r, False)" "ms = take ?n (drop 4 s) # ms1"
      using "1.prems" s n by (auto simp: nb_frames.simps [of s] Let_def split: prod.splits)
    from "1.IH" [OF s(1) refl n s(2) r(1)] s n r(2) show ?thesis
      by (subst nb_frames.simps) (auto simp: Let_def split: prod.splits)
  qed
qed

section \<open>Dispatching\<close>

lemma nb_dispatch_frames:
  "i \<le> data_len \<Longrightarrow> data_len \<le> length d \<Longrightarrow>
   \<exists>j corrupt ms. nb_dispatch d data_len i = Some (j, corrupt, ms) \<and> i \<le> j \<and> j \<le> data_len \<and>
     nb_frames (drop i (take data_len d)) = (ms, drop j (take data_len d), corrupt)"
proof (induction d data_len i rule: nb_dispatch.induct)
  case (1 d data_len i)
  let ?s = "drop i (take data_len d)"
  have len: "length ?s = data_len - i" using "1.prems" by simp
  show ?case
  proof (cases "i + 4 \<le> data_len")
    case False
    with len "1.prems" show ?thesis
      by (intro exI [of _ i] exI [of _ False] exI [of _ "[]"]) (simp add: nb_dispatch.simps nb_frames_incomplete)
  next
    case True
    let ?w = "take 4 (drop i d)"
    have w: "peek d i 4 = Some ?w" using True "1.prems" by (simp add: mem_simps)
    have tw: "take 4 ?s = ?w" using True by (simp add: drop_take min_def)
    let ?n = "unat (wnet_order (host_u32 ?w))"
    have n: "unat (host_u32 (take 4 ?s)) = ?n" using tw by (simp add: wnet_order_def)
    show ?thesis
    proof (cases "?n > OS_MAXSTR \<or> i + 4 + ?n > data_len")
      case stop: True
      then have "nb_dispatch d data_len i = Some (i, ?n > OS_MAXSTR, [])"
        using True w by (subst nb_dispatch.simps) (auto simp: Let_def)
      moreover have "nb_frames ?s = ([], ?s, ?n > OS_MAXSTR)"
        using stop True len by (subst nb_frames.simps) (auto simp: n Let_def)
      ultimately show ?thesis using "1.prems" by auto
    next
      case False
      let ?m = "take ?n (drop (i + 4) d)"
      have m: "peek d (i + 4) ?n = Some ?m" using False "1.prems" by (simp add: mem_simps)
      have small: "\<not> ?n > OS_MAXSTR" "\<not> i + 4 + ?n > data_len" using False by auto
      obtain j corrupt ms where r:
        "nb_dispatch d data_len (i + 4 + ?n) = Some (j, corrupt, ms)" "i + 4 + ?n \<le> j" "j \<le> data_len"
        "nb_frames (drop (i + 4 + ?n) (take data_len d)) = (ms, drop j (take data_len d), corrupt)"
        using "1.IH" [OF True w refl small(1) refl small(2) m] "1.prems" small by auto
      have "nb_dispatch d data_len i = Some (j, corrupt, ?m # ms)"
        using True w small m r(1) by (subst nb_dispatch.simps) (simp add: Let_def)
      moreover have "nb_frames ?s = (?m # ms, drop j (take data_len d), corrupt)"
      proof -
        have "take ?n (drop 4 ?s) = ?m" using small by (simp add: drop_take add.commute)
        moreover have "drop (4 + ?n) ?s = drop (i + 4 + ?n) (take data_len d)" by (simp add: ac_simps)
        ultimately show ?thesis
          using True small len r(4) by (subst nb_frames.simps) (simp add: n Let_def)
      qed
      ultimately show ?thesis using r(2,3) by auto
    qed
  qed
qed

section \<open>One connection\<close>

text \<open>
  The receive side of an entry is well formed when its memory has the recorded size and holds
  the received bytes. \<open>sb_stored\<close> is what was received and not passed on yet.
\<close>

definition sb_ok :: "sockbuffer \<Rightarrow> bool" where
  "sb_ok sb \<longleftrightarrow> length (sb_data sb) = sb_data_size sb \<and> sb_data_len sb \<le> sb_data_size sb"

definition sb_stored :: "sockbuffer \<Rightarrow> bytes" where
  "sb_stored sb = take (sb_data_len sb) (sb_data sb)"

lemma nb_get_set [simp]:
  "fd < length (nb_buffers nb) \<Longrightarrow> nb_get (nb_set fd sb nb) fd = Some sb"
  by (simp add: nb_get_def nb_set_def)

lemma nb_get_set_other [simp]: "fd' \<noteq> fd \<Longrightarrow> nb_get (nb_set fd sb nb) fd' = nb_get nb fd'"
  by (simp add: nb_get_def nb_set_def)

lemma nb_get_update [simp]:
  "nb_get (nb\<lparr>nb_pushed := p\<rparr>) fd = nb_get nb fd"
  "nb_get (nb\<lparr>nb_armed := a\<rparr>) fd = nb_get nb fd"
  "nb_get (nb\<lparr>nb_discarded := n\<rparr>) fd = nb_get nb fd"
  by (simp_all add: nb_get_def)

lemma nb_get_bound: "nb_get nb fd = Some sb \<Longrightarrow> fd < length (nb_buffers nb)"
  by (simp add: nb_get_def split: if_splits)

lemma nb_set_fields [simp]:
  "nb_pushed (nb_set fd sb nb) = nb_pushed nb" "nb_armed (nb_set fd sb nb) = nb_armed nb"
  "length (nb_buffers (nb_set fd sb nb)) = length (nb_buffers nb)"
  "nb_discarded (nb_set fd sb nb) = nb_discarded nb" "nb_fresh (nb_set fd sb nb) = nb_fresh nb"
  by (simp_all add: nb_set_def)

lemma take_os_realloc: "m \<le> n \<Longrightarrow> m \<le> length d \<Longrightarrow> take m (os_realloc fresh d n) = take m d"
  by (simp add: os_realloc_def min_def)

lemma nb_relax_ok:
  assumes "sb_ok sb"
  shows "sb_ok (nb_relax rlx chunk fresh sb)" "sb_stored (nb_relax rlx chunk fresh sb) = sb_stored sb"
    "sb_peer (nb_relax rlx chunk fresh sb) = sb_peer sb" "sb_bqueue (nb_relax rlx chunk fresh sb) = sb_bqueue sb"
  using assms by (auto simp: nb_relax_def sb_ok_def sb_stored_def take_os_realloc os_realloc_shrink Let_def)

lemma nb_compact_ok:
  assumes ok: "sb_ok sb" and i: "i \<le> sb_data_len sb"
  shows "\<exists>sb'. nb_compact rlx chunk fresh i sb = Some sb' \<and> sb_ok sb' \<and>
    sb_stored sb' = drop i (sb_stored sb) \<and> sb_peer sb' = sb_peer sb \<and> sb_bqueue sb' = sb_bqueue sb"
proof (cases "0 < i")
  case False
  then show ?thesis using ok by (simp add: nb_compact_def)
next
  case True
  let ?n = "sb_data_len sb - i" and ?d = "sb_data sb"
  let ?mv = "if i < sb_data_len sb then move_within 0 i ?n ?d else Some ?d"
  have "\<exists>d. ?mv = Some d \<and> length d = length ?d \<and> take ?n d = drop i (take (sb_data_len sb) ?d)"
    using ok i by (cases "i < sb_data_len sb") (auto simp: sb_ok_def move_within_in_bounds drop_take)
  then obtain d where d: "?mv = Some d" "length d = length ?d" "take ?n d = drop i (take (sb_data_len sb) ?d)"
    by blast
  let ?sb = "sb\<lparr>sb_data := d, sb_data_len := ?n\<rparr>"
  have o: "sb_ok ?sb" using ok d(2) by (auto simp: sb_ok_def)
  have s: "sb_stored ?sb = drop i (sb_stored sb)" using d(3) by (simp add: sb_stored_def)
  have "nb_compact rlx chunk fresh i sb = Some (nb_relax rlx chunk fresh ?sb)"
    unfolding nb_compact_def d(1) using True by simp
  with nb_relax_ok [OF o, of rlx chunk fresh] s show ?thesis by simp
qed

text \<open>
  One call of \<open>nb_recv\<close> never faults. It delivers the complete messages of the stored bytes
  followed by the received ones, in order, and keeps the rest; a refused length is the result -2.
\<close>

lemma nb_recv_outcome:
  assumes sb: "nb_get nb fd = Some sb" "sb_ok sb" and r: "recv sk chunk = (rc, bs, sk')"
  shows "\<exists>res nb' sb' ms. nb_recv chunk rlx fd nb sk = Some (res, nb', sk') \<and>
    nb_get nb' fd = Some sb' \<and> sb_ok sb' \<and> sb_peer sb' = sb_peer sb \<and>
    nb_pushed nb' = nb_pushed nb @ map (\<lambda>m. (m, sb_peer sb, fd)) ms \<and>
    (rc \<le> 0 \<and> res = rc \<and> ms = [] \<and> sb_stored sb' = sb_stored sb \<or>
     0 < rc \<and> res = rc \<and> nb_frames (sb_stored sb @ bs) = (ms, sb_stored sb', False) \<or>
     0 < rc \<and> res = -2 \<and> (\<exists>rest. nb_frames (sb_stored sb @ bs) = (ms, rest, True)))"
proof -
  let ?ext = "sb_data_len sb + chunk"
  define sb1 where "sb1 = nb_extend chunk (nb_fresh nb) sb"
  have 1: "sb_ok sb1" "sb_stored sb1 = sb_stored sb" "sb_peer sb1 = sb_peer sb" "sb_data_len sb1 = sb_data_len sb"
      "?ext \<le> length (sb_data sb1)"
    using sb(2) by (auto simp: sb1_def nb_extend_def sb_ok_def sb_stored_def take_os_realloc Let_def)
  note fd = nb_get_bound [OF sb(1)]
  show ?thesis
  proof (cases "rc \<le> 0")
    case True
    then have "nb_recv chunk rlx fd nb sk = Some (rc, nb_set fd sb1 nb, sk')"
      using sb(1) r by (simp add: nb_recv_def Let_def sb1_def)
    with True 1 fd show ?thesis by fastforce
  next
    case False
    then have b: "length bs = nat rc" "nat rc \<le> chunk" using recv_positive [OF r] by auto
    define d where "d = take (sb_data_len sb) (sb_data sb1) @ bs @ drop (sb_data_len sb + length bs) (sb_data sb1)"
    have d: "poke (sb_data sb1) (sb_data_len sb1) bs = Some d"
      using b 1(4,5) by (simp add: d_def mem_simps)
    define sb2 where "sb2 = sb1\<lparr>sb_data := d, sb_data_len := sb_data_len sb1 + nat rc\<rparr>"
    have l: "length d = length (sb_data sb1)" using length_poke [OF d] .
    have 2: "sb_ok sb2" using 1(1,4,5) b l by (simp add: sb_ok_def sb2_def)
    have st: "take (sb_data_len sb2) d = sb_stored sb @ bs"
      using 1 b take_poke [OF d] by (simp add: sb2_def sb_stored_def)
    have "sb_data_len sb2 \<le> length d" using 2 l by (simp add: sb_ok_def sb2_def)
    with nb_dispatch_frames [of 0 "sb_data_len sb2" d] st obtain j corrupt ms where
      j: "nb_dispatch d (sb_data_len sb2) 0 = Some (j, corrupt, ms)" "j \<le> sb_data_len sb2"
        "nb_frames (sb_stored sb @ bs) = (ms, drop j (sb_stored sb @ bs), corrupt)" by auto
    define nb1 where "nb1 = nb\<lparr>nb_pushed := nb_pushed nb @ map (\<lambda>m. (m, sb_peer sb2, fd)) ms\<rparr>"
    have p: "sb_peer sb2 = sb_peer sb" using 1(3) by (simp add: sb2_def)
    from nb_compact_ok [OF 2 j(2)] obtain sb3 where
      3: "nb_compact rlx chunk (nb_fresh nb) j sb2 = Some sb3" "sb_ok sb3"
        "sb_stored sb3 = drop j (sb_stored sb2)" "sb_peer sb3 = sb_peer sb2" by blast
    have s3: "sb_stored sb3 = drop j (sb_stored sb @ bs)" using 3(3) st by (simp add: sb_stored_def sb2_def)
    have "nb_recv chunk rlx fd nb sk =
        (if corrupt then Some (-2, nb_set fd sb2 nb1, sk') else Some (rc, nb_set fd sb3 nb1, sk'))"
      unfolding nb_recv_def Let_def sb(1) r bind.bind_lunit prod.case sb1_def [symmetric] d
        sb2_def [symmetric] j(1) nb1_def [symmetric]
      using False 3(1) by simp
    with False 2 3 s3 p fd j(3) show ?thesis
      by (cases corrupt) (fastforce simp: nb1_def)+
  qed
qed

end
