(* ===== verification/Net_Buffer_Thms.thy ===== *)
theory Net_Buffer_Thms
  imports Net_Buffer_Lemmas
begin

text \<open>
  What the network buffers of the manager (\<^verbatim>\<open>agents/remoted/netbuffer.c\<close>) promise: the messages
  that a peer sent come out once and in order, whatever the segmentation of the stream; the
  messages that were accepted for a peer reach it, and the socket is watched for writability
  exactly while something is queued for it.
\<close>

section \<open>The receiving direction\<close>

text \<open>Every prefix of a stream of packets parses into its complete messages and a short rest.\<close>

lemma nb_frames_prefix:
  assumes "x @ y = concat (map nb_packet msgs)" "\<forall>m \<in> set msgs. length m \<le> OS_MAXSTR"
  shows "\<exists>got todo rest. nb_frames x = (got, rest, False) \<and> msgs = got @ todo \<and>
    rest @ y = concat (map nb_packet todo) \<and> nb_frames rest = ([], rest, False) \<and> length rest < 4 + OS_MAXSTR"
  using assms
proof (induction msgs arbitrary: x)
  case Nil
  then show ?case by (simp add: nb_frames_incomplete)
next
  case (Cons m msgs)
  let ?p = "nb_packet m" and ?s = "concat (map nb_packet msgs)"
  have eq: "x @ y = ?p @ ?s" and m: "length m \<le> OS_MAXSTR" using Cons.prems by simp_all
  show ?case
  proof (cases "length x < length ?p")
    case True
    with eq obtain t where t: "x @ t = ?p" "y = t @ ?s"
      by (auto simp: append_eq_append_conv2)
    then have t0: "t \<noteq> []" using True by auto
    from nb_frames_partial [OF m t(1) [symmetric] t0] t True m eq Cons.prems(1) show ?thesis
      by (intro exI [of _ "[]"] exI [of _ "m # msgs"] exI [of _ x]) simp
  next
    case False
    have "(\<exists>u. x = ?p @ u \<and> u @ y = ?s) \<or> (\<exists>u. x @ u = ?p \<and> y = u @ ?s)"
      using append_eq_append_conv2 [THEN iffD1, OF eq] by blast
    then obtain u where u: "x = ?p @ u" "u @ y = ?s"
    proof
      assume "\<exists>u. x @ u = ?p \<and> y = u @ ?s"
      then obtain u where w: "x @ u = ?p" "y = u @ ?s" by blast
      then have "length x + length u = 4 + length m" by (metis length_append length_nb_packet)
      with False have "length u = 0" unfolding length_nb_packet by linarith
      then have "u = []" by simp
      with w that show thesis by simp
    qed (use that in blast)
    from Cons.IH [OF u(2)] Cons.prems(2) obtain got todo rest where
      "nb_frames u = (got, rest, False)" "msgs = got @ todo" "rest @ y = concat (map nb_packet todo)"
      "nb_frames rest = ([], rest, False)" "length rest < 4 + OS_MAXSTR" by auto
    with u(1) nb_frames_packet [OF m, of u] show ?thesis
      by (intro exI [of _ "m # got"] exI [of _ todo] exI [of _ rest]) simp
  qed
qed

text \<open>Calls of \<open>nb_recv\<close>, one for every readiness of the socket, until one returns no data.\<close>

fun nb_recvs ::
  "nat \<Rightarrow> nat \<Rightarrow> int \<Rightarrow> nat \<Rightarrow> netbuffer \<Rightarrow> sock \<Rightarrow> (netbuffer \<times> sock) option" where
  "nb_recvs 0 chunk rlx fd nb sk = Some (nb, sk)"
| "nb_recvs (Suc k) chunk rlx fd nb sk = do {
     (rc, nb1, sk1) \<leftarrow> nb_recv chunk rlx fd nb sk;
     if rc \<le> 0 then Some (nb1, sk1) else nb_recvs k chunk rlx fd nb1 sk1 }"

lemma nb_recvs_outcome:
  assumes "nb_get nb fd = Some sb" "sb_ok sb" "\<forall>m \<in> set msgs. length m \<le> OS_MAXSTR"
    and "sb_stored sb @ sk_in sk = concat (map nb_packet msgs)"
    and "nb_frames (sb_stored sb) = ([], sb_stored sb, False)" "length (sb_stored sb) < 4 + OS_MAXSTR"
  shows "\<exists>nb' sk' sb' got todo. nb_recvs k chunk rlx fd nb sk = Some (nb', sk') \<and>
    nb_get nb' fd = Some sb' \<and> msgs = got @ todo \<and>
    nb_pushed nb' = nb_pushed nb @ map (\<lambda>m. (m, sb_peer sb, fd)) got \<and>
    sb_stored sb' @ sk_in sk' = concat (map nb_packet todo) \<and>
    nb_frames (sb_stored sb') = ([], sb_stored sb', False) \<and> length (sb_stored sb') < 4 + OS_MAXSTR"
  using assms
proof (induction k arbitrary: nb sk sb msgs)
  case 0
  then show ?case by (intro exI [of _ nb] exI [of _ sk] exI [of _ sb] exI [of _ "[]"] exI [of _ msgs]) simp
next
  case (Suc k)
  obtain rc bs sk1 where r: "recv sk chunk = (rc, bs, sk1)" by (cases "recv sk chunk")
  from nb_recv_outcome [OF Suc.prems(1,2) r, of rlx] obtain res nb1 sb1 ms where
    1: "nb_recv chunk rlx fd nb sk = Some (res, nb1, sk1)" "nb_get nb1 fd = Some sb1" "sb_ok sb1"
      "sb_peer sb1 = sb_peer sb" "nb_pushed nb1 = nb_pushed nb @ map (\<lambda>m. (m, sb_peer sb, fd)) ms"
    and alt: "rc \<le> 0 \<and> res = rc \<and> ms = [] \<and> sb_stored sb1 = sb_stored sb \<or>
     0 < rc \<and> res = rc \<and> nb_frames (sb_stored sb @ bs) = (ms, sb_stored sb1, False) \<or>
     0 < rc \<and> res = -2 \<and> (\<exists>rest. nb_frames (sb_stored sb @ bs) = (ms, rest, True))"
    by blast
  show ?case
  proof (cases "rc \<le> 0")
    case True
    then have "sk_in sk1 = sk_in sk" using r by (auto simp: recv_def Let_def split: list.splits if_splits)
    with True alt 1 Suc.prems show ?thesis
      by (intro exI [of _ nb1] exI [of _ sk1] exI [of _ sb1] exI [of _ "[]"] exI [of _ msgs]) auto
  next
    case False
    then have i: "sk_in sk = bs @ sk_in sk1" using recv_positive [OF r] by simp
    with Suc.prems(4) have "(sb_stored sb @ bs) @ sk_in sk1 = concat (map nb_packet msgs)" by simp
    from nb_frames_prefix [OF this Suc.prems(3)] obtain got todo rest where
      f: "nb_frames (sb_stored sb @ bs) = (got, rest, False)" "msgs = got @ todo"
        "rest @ sk_in sk1 = concat (map nb_packet todo)" "nb_frames rest = ([], rest, False)"
        "length rest < 4 + OS_MAXSTR" by blast
    with alt False have res: "res = rc" "ms = got" "sb_stored sb1 = rest" by auto
    have "\<forall>m \<in> set todo. length m \<le> OS_MAXSTR" using Suc.prems(3) f(2) by simp
    from Suc.IH [OF 1(2,3) this, of sk1] f res obtain nb' sk' sb' got2 todo2 where
      2: "nb_recvs k chunk rlx fd nb1 sk1 = Some (nb', sk')" "nb_get nb' fd = Some sb'" "todo = got2 @ todo2"
        "nb_pushed nb' = nb_pushed nb1 @ map (\<lambda>m. (m, sb_peer sb1, fd)) got2"
        "sb_stored sb' @ sk_in sk' = concat (map nb_packet todo2)"
        "nb_frames (sb_stored sb') = ([], sb_stored sb', False)" "length (sb_stored sb') < 4 + OS_MAXSTR"
      by auto
    have "nb_recvs (Suc k) chunk rlx fd nb sk = Some (nb', sk')" using 1(1) 2(1) False res(1) by simp
    with 1 2 f res show ?thesis
      by (intro exI [of _ nb'] exI [of _ sk'] exI [of _ sb'] exI [of _ "got @ got2"] exI [of _ todo2]) auto
  qed
qed

lemma nb_recv_reassembles:
  assumes "nb_get nb fd = Some sb" "sb_ok sb" "sb_stored sb = []"
    and "sk_in sk = concat (map nb_packet msgs)" "\<forall>m \<in> set msgs. length m \<le> OS_MAXSTR"
  shows "\<exists>nb' sk' sb' got todo. nb_recvs k chunk rlx fd nb sk = Some (nb', sk') \<and>
    nb_get nb' fd = Some sb' \<and> msgs = got @ todo \<and>
    nb_pushed nb' = nb_pushed nb @ map (\<lambda>m. (m, sb_peer sb, fd)) got \<and>
    (sk_in sk' = [] \<longrightarrow> todo = []) \<and> length (sb_stored sb') < 4 + OS_MAXSTR"
proof -
  have "nb_frames (sb_stored sb) = ([], sb_stored sb, False)" "length (sb_stored sb) < 4 + OS_MAXSTR"
    using assms(3) by (simp_all add: nb_frames_incomplete)
  with nb_recvs_outcome [OF assms(1,2,5), of sk k chunk rlx] assms(3,4) obtain nb' sk' sb' got todo where
    r: "nb_recvs k chunk rlx fd nb sk = Some (nb', sk')" "nb_get nb' fd = Some sb'" "msgs = got @ todo"
      "nb_pushed nb' = nb_pushed nb @ map (\<lambda>m. (m, sb_peer sb, fd)) got"
      "sb_stored sb' @ sk_in sk' = concat (map nb_packet todo)"
      "nb_frames (sb_stored sb') = ([], sb_stored sb', False)" "length (sb_stored sb') < 4 + OS_MAXSTR"
    by auto
  have "todo = []" if "sk_in sk' = []"
  proof -
    have "\<forall>m \<in> set todo. length m \<le> OS_MAXSTR" using assms(5) r(3) by simp
    from nb_frames_packets [OF this, of "[]"] r(5,6) that show ?thesis by (simp add: nb_frames_incomplete)
  qed
  with r show ?thesis by blast
qed

lemma nb_open_entry:
  assumes "nb_open n raw fd peer nb = Some nb'" "1 < n"
  shows "\<exists>sb q. nb_get nb' fd = Some sb \<and> sb_ok sb \<and> sb_stored sb = [] \<and> sb_peer sb = peer \<and>
     sb_bqueue sb = Some q \<and> bq_ok q \<and> bq_items q = [] \<and> bq_max_length q = n \<and>
     nb_armed nb' = nb_armed nb \<and> nb_pushed nb' = nb_pushed nb"
proof -
  define nb1 where "nb1 = (if fd \<ge> nb_max_fd nb
     then nb\<lparr>nb_buffers := take (fd + 1) (nb_buffers nb @ replicate (fd + 1 - length (nb_buffers nb)) raw), nb_max_fd := fd\<rparr>
     else nb)"
  obtain q where q: "bqueue_init (nb_fresh nb1) n BQUEUE_SHRINK = Some q"
    using assms(2) by (simp add: bqueue_init_def)
  have "fd < length (nb_buffers nb1)" "nb' = nb_set fd (sb_zero\<lparr>sb_peer := peer, sb_bqueue := Some q\<rparr>) nb1"
    using assms(1) q unfolding nb_open_def Let_def nb1_def [symmetric] by (auto split: if_splits)
  moreover have "nb_armed nb1 = nb_armed nb" "nb_pushed nb1 = nb_pushed nb" by (simp_all add: nb1_def)
  ultimately show ?thesis
    using bq_init_ok [OF q] by (simp add: sb_zero_def sb_ok_def sb_stored_def)
qed

text \<open>The sender: messages written one after the other, as long as the calls succeed.\<close>

fun OS_SendSecureTCP_all :: "int \<Rightarrow> bytes list \<Rightarrow> sock \<Rightarrow> sock option" where
  "OS_SendSecureTCP_all s [] sk = Some sk"
| "OS_SendSecureTCP_all s (m # ms) sk =
     (let (rc, sk1) = OS_SendSecureTCP s m sk in if rc = 0 then OS_SendSecureTCP_all s ms sk1 else None)"

lemma OS_SendSecureTCP_sent:
  assumes "OS_SendSecureTCP s m sk = (0, sk')"
  shows "sk_out sk' = sk_out sk @ nb_packet m"
proof -
  obtain rc sk1 where r: "send sk (nb_packet m) = (rc, sk1)" by (cases "send sk (nb_packet m)")
  then have e: "rc = int (length (nb_packet m))" "sk' = sk1"
    using assms by (auto simp: OS_SendSecureTCP_def OS_SOCKTERR_def Let_def split: if_splits)
  moreover have "nb_packet m \<noteq> []" by (simp add: nb_packet_def host_bytes_def put_be32_def)
  ultimately show ?thesis using send_positive(3) [OF r] by simp
qed

lemma OS_SendSecureTCP_all_sent:
  "OS_SendSecureTCP_all s ms sk = Some sk' \<Longrightarrow> sk_out sk' = sk_out sk @ concat (map nb_packet ms)"
  by (induction ms arbitrary: sk) (auto simp: OS_SendSecureTCP_sent split: prod.splits if_splits)

text \<open>
  (C14) Agent to manager, end to end. A peer sends messages of at most \<open>OS_MAXSTR\<close> bytes with
  \<open>OS_SendSecureTCP\<close>. However the network cuts the stream, whatever chunk size and memory policy
  the manager has, and however often it calls \<open>nb_recv\<close>: no call faults, the messages passed on
  are, in order and once each, a prefix of the messages sent, and all of them when all bytes have
  arrived; less than one message stays in the buffer.
\<close>

theorem peer_messages_reach_manager:
  assumes "OS_SendSecureTCP_all s msgs ps = Some ps'" "sk_out ps = []" "sk_in sk = sk_out ps'"
    and "\<forall>m \<in> set msgs. length m \<le> OS_MAXSTR" "nb_open limit raw fd peer nb0 = Some nb" "1 < limit"
  shows "\<exists>nb' sk' sb' got todo. nb_recvs k chunk rlx fd nb sk = Some (nb', sk') \<and>
    nb_get nb' fd = Some sb' \<and> msgs = got @ todo \<and>
    nb_pushed nb' = nb_pushed nb0 @ map (\<lambda>m. (m, peer, fd)) got \<and>
    (sk_in sk' = [] \<longrightarrow> todo = []) \<and> length (sb_stored sb') < 4 + OS_MAXSTR"
proof -
  from nb_open_entry [OF assms(5,6)] obtain sb where
    e: "nb_get nb fd = Some sb" "sb_ok sb" "sb_stored sb = []" "sb_peer sb = peer" "nb_pushed nb = nb_pushed nb0"
    by blast
  have "sk_in sk = concat (map nb_packet msgs)"
    using OS_SendSecureTCP_all_sent [OF assms(1)] assms(2,3) by simp
  from nb_recv_reassembles [OF e(1-3) this assms(4), of k chunk rlx] show ?thesis
    unfolding e(4,5) .
qed

text \<open>A connection that \<open>nb_open\<close> has set up, with two bytes delivered per call and then the rest.\<close>

definition sample_netbuffer :: netbuffer where
  "sample_netbuffer = \<lparr>nb_max_fd = 0, nb_buffers = [], nb_pushed = [], nb_armed = {}, nb_discarded = 0, nb_fresh = (\<lambda>_. 170)\<rparr>"

definition opened_netbuffer :: netbuffer where
  "opened_netbuffer = the (nb_open 65536 sb_zero 1 7 sample_netbuffer)"

definition sample_stream :: sock where
  "sample_stream = \<lparr>sk_out = [], sk_wr = [], sk_in = nb_packet [104, 105] @ nb_packet [33], sk_rd = [2, 2, 2]\<rparr>"

lemma opened_by_nb_open: "nb_open 65536 sb_zero 1 7 sample_netbuffer = Some opened_netbuffer"
  by (simp add: opened_netbuffer_def nb_open_def sample_netbuffer_def Let_def)

theorem peer_messages_reach_manager_witness:
  "\<exists>ps' nb' sk' got todo. OS_SendSecureTCP_all 5 [[104, 105], [33]] (sample_stream\<lparr>sk_in := []\<rparr>) = Some ps' \<and>
     sk_in sample_stream = sk_out ps' \<and>
     nb_recvs 9 1024 1 1 opened_netbuffer sample_stream = Some (nb', sk') \<and>
     [[104, 105], [33]] = got @ todo \<and> nb_pushed nb' = nb_pushed sample_netbuffer @ map (\<lambda>m. (m, 7, 1)) got"
proof -
  obtain ps' where s: "OS_SendSecureTCP_all 5 [[104, 105], [33]] (sample_stream\<lparr>sk_in := []\<rparr>) = Some ps'"
    by (simp add: OS_SendSecureTCP_def send_def sample_stream_def)
  then have "sk_in sample_stream = sk_out ps'"
    using OS_SendSecureTCP_all_sent [OF s] by (simp add: sample_stream_def)
  moreover have "sk_out (sample_stream\<lparr>sk_in := []\<rparr>) = []" by (simp add: sample_stream_def)
  moreover have "\<forall>m \<in> set [[104, 105], [33]]. length m \<le> OS_MAXSTR" by (simp add: OS_MAXSTR_def)
  moreover have "(1 :: nat) < 65536" by simp
  moreover note peer_messages_reach_manager [OF s _ _ _ opened_by_nb_open, of sample_stream 9 1024 1]
  ultimately show ?thesis using s by blast
qed

section \<open>The sending direction\<close>

text \<open>What is queued for a connection, and when its entry and the watched events agree.\<close>

definition nb_out_ok :: "netbuffer \<Rightarrow> nat \<Rightarrow> bqueue \<Rightarrow> bool" where
  "nb_out_ok nb fd q \<longleftrightarrow> (\<exists>sb. nb_get nb fd = Some sb \<and> sb_bqueue sb = Some q) \<and> bq_ok q \<and>
     (fd \<in> nb_armed nb \<longleftrightarrow> bq_items q \<noteq> [])"

lemma nb_attempt_outcome:
  assumes ok: "nb_out_ok nb fd q" and ne: "packet \<noteq> []"
  shows "\<exists>r nb' q'. nb_attempt packet fd nb = Some (r, nb') \<and> nb_out_ok nb' fd q' \<and> bq_same q q' \<and>
    (r = Nb_Queued \<and> length packet + length (bq_items q) < bq_max_length q \<and> bq_items q' = bq_items q @ packet \<or>
     r = Nb_Full \<and> bq_max_length q \<le> length packet + length (bq_items q) \<and> bq_items q' = bq_items q)"
proof -
  obtain sb where sb: "nb_get nb fd = Some sb" "sb_bqueue sb = Some q" and q: "bq_ok q"
    and a: "fd \<in> nb_armed nb \<longleftrightarrow> bq_items q \<noteq> []" using ok by (auto simp: nb_out_ok_def)
  note fd = nb_get_bound [OF sb(1)]
  show ?thesis
  proof (cases "length packet + length (bq_items q) < bq_max_length q")
    case True
    from bqueue_push_fits [OF q True] obtain q1 where
      p: "bqueue_push q packet BQUEUE_NOFLAG = Some (Returns 0 q1)" "bq_ok q1"
        "bq_items q1 = bq_items q @ packet" "bq_same q q1" by blast
    let ?nb = "nb_set fd (sb\<lparr>sb_bqueue := Some q1\<rparr>) nb"
    let ?nb' = "if bqueue_used q1 = length packet then ?nb\<lparr>nb_armed := insert fd (nb_armed ?nb)\<rparr> else ?nb"
    have "nb_attempt packet fd nb = Some (Nb_Queued, ?nb')"
      using sb p(1) by (simp add: nb_attempt_def Let_def)
    moreover have "bqueue_used q1 = length (bq_items q) + length packet"
      using length_bq_items [OF p(2)] p(3) by (simp add: bqueue_used_def)
    then have "nb_out_ok ?nb' fd q1" using p(2,3) fd ne a by (auto simp: nb_out_ok_def)
    ultimately show ?thesis using True p by blast
  next
    case False
    then have "bqueue_push q packet BQUEUE_NOFLAG = Some (Returns (-1) q)"
      using bqueue_push_full [OF q, of packet BQUEUE_NOFLAG] by (simp add: BQUEUE_NOFLAG_def)
    then have "nb_attempt packet fd nb = Some (Nb_Full, nb_set fd (sb\<lparr>sb_bqueue := Some q\<rparr>) nb)"
      using sb by (simp add: nb_attempt_def Let_def)
    moreover have "nb_out_ok (nb_set fd (sb\<lparr>sb_bqueue := Some q\<rparr>) nb) fd q"
      using q a fd by (auto simp: nb_out_ok_def)
    ultimately show ?thesis using False by (metis bq_same_refl not_less)
  qed
qed

lemma nb_send_outcome:
  assumes ok: "nb_out_ok nb fd q" and c: "0 < chunk"
  shows "\<exists>rc nb' sk' q' n. nb_send chunk fd nb sk = Some (rc, nb', sk') \<and> nb_out_ok nb' fd q' \<and> bq_same q q' \<and>
    bq_items q = take n (bq_items q) @ bq_items q' \<and> only_writes sk (take n (bq_items q)) sk' \<and>
    (sk_wr sk = [] \<longrightarrow> sk_wr sk' = [] \<and> n = chunk)"
proof -
  obtain sb where sb: "nb_get nb fd = Some sb" "sb_bqueue sb = Some q" and q: "bq_ok q"
    and a: "fd \<in> nb_armed nb \<longleftrightarrow> bq_items q \<noteq> []" using ok by (auto simp: nb_out_ok_def)
  note fd = nb_get_bound [OF sb(1)]
  show ?thesis
  proof (cases "bq_items q = []")
    case True
    let ?nb = "(nb_set fd (sb\<lparr>sb_bqueue := Some q\<rparr>) nb)\<lparr>nb_armed := nb_armed nb - {fd}\<rparr>"
    have "bqueue_peek q chunk BQUEUE_NOFLAG = Some (Returns [] q)"
      using bqueue_read_empty(2) [OF q True] by (simp add: BQUEUE_NOFLAG_def)
    then have "nb_send chunk fd nb sk = Some (0, ?nb, sk)" using sb by (simp add: nb_send_def Let_def)
    moreover have "nb_out_ok ?nb fd q" using q fd True by (auto simp: nb_out_ok_def)
    ultimately show ?thesis using True by (intro exI [of _ 0] exI [of _ ?nb] exI [of _ sk] exI [of _ q] exI [of _ chunk]) simp
  next
    case False
    let ?d = "take chunk (bq_items q)"
    have pk: "bqueue_peek q chunk BQUEUE_NOFLAG = Some (Returns ?d q)" using bqueue_peek_ok [OF q False] .
    have d: "?d \<noteq> []" using False c by simp
    obtain rc sk1 where s: "send sk ?d = (rc, sk1)" by (cases "send sk ?d")
    let ?q = "if rc > 0 then map_option snd (bqueue_drop q (nat rc)) else Some q"
    let ?n = "if rc > 0 then nat rc else 0"
    have "\<exists>q1. ?q = Some q1 \<and> bq_ok q1 \<and> bq_items q1 = drop ?n (bq_items q) \<and> bq_same q q1"
    proof (cases "rc > 0")
      case True
      then have "nat rc \<le> length (bq_items q)" using send_positive(2) [OF s True d] by simp
      from bqueue_drop_ok [OF q bq_length_pos [OF q False] this] True show ?thesis by auto
    qed (use q in simp)
    then obtain q1 where q1: "?q = Some q1" "bq_ok q1" "bq_items q1 = drop ?n (bq_items q)" "bq_same q q1" by blast
    let ?nb = "nb_set fd (sb\<lparr>sb_bqueue := Some q1\<rparr>) nb"
    let ?nb' = "if bqueue_used q1 = 0 then ?nb\<lparr>nb_armed := nb_armed ?nb - {fd}\<rparr> else ?nb"
    have r: "nb_send chunk fd nb sk = Some (rc, ?nb', sk1)"
      unfolding nb_send_def sb(1) sb(2) bind.bind_lunit option.case pk blocking.case Let_def
      using d s q1(1) by simp
    have "bqueue_used q1 = length (bq_items q1)" using length_bq_items [OF q1(2)] by (simp add: bqueue_used_def)
    then have o: "nb_out_ok ?nb' fd q1" using q1(2) fd a False by (auto simp: nb_out_ok_def)
    have w: "only_writes sk (take ?n (bq_items q)) sk1"
    proof (cases "rc > 0")
      case True
      note p = send_positive [OF s True d]
      have "nat rc \<le> chunk" using p(2) by simp
      then have "take (nat rc) ?d = take (nat rc) (bq_items q)" by (simp add: min_absorb1)
      with p True show ?thesis by (simp add: only_writes_def)
    next
      case False
      with send_failed [OF s] show ?thesis by (simp add: only_writes_def)
    qed
    show ?thesis
    proof (cases "sk_wr sk = []")
      case True
      then have t: "rc = int (length ?d)" "sk_wr sk1 = []" using s by (auto simp: send_def)
      then have n: "take ?n (bq_items q) = ?d" "drop ?n (bq_items q) = drop chunk (bq_items q)"
        using d by (auto simp: min_def)
      with r o w q1 t show ?thesis
        by (intro exI [of _ rc] exI [of _ ?nb'] exI [of _ sk1] exI [of _ q1] exI [of _ chunk]) simp
    next
      case False
      with r o w q1 show ?thesis
        by (intro exI [of _ rc] exI [of _ ?nb'] exI [of _ sk1] exI [of _ q1] exI [of _ ?n]) simp
    qed
  qed
qed

text \<open>
  The operations on the queue of one connection, in any order: an attempt to queue a message and a
  call of \<open>nb_send\<close>. The trace is the messages that were accepted.
\<close>

datatype nb_op = Nb_Queue bytes | Nb_Send

fun nb_ops :: "nat \<Rightarrow> nat \<Rightarrow> nb_op list \<Rightarrow> netbuffer \<Rightarrow> sock \<Rightarrow> (bytes list \<times> netbuffer \<times> sock) option" where
  "nb_ops chunk fd [] nb sk = Some ([], nb, sk)"
| "nb_ops chunk fd (Nb_Queue m # ops) nb sk = do {
     (r, nb1) \<leftarrow> nb_attempt (nb_packet m) fd nb;
     (acc, nb2, sk2) \<leftarrow> nb_ops chunk fd ops nb1 sk;
     Some ((if r = Nb_Queued then [m] else []) @ acc, nb2, sk2) }"
| "nb_ops chunk fd (Nb_Send # ops) nb sk = do {
     (rc, nb1, sk1) \<leftarrow> nb_send chunk fd nb sk;
     nb_ops chunk fd ops nb1 sk1 }"

lemma only_writes_moved:
  assumes "only_writes sk w sk1" "items = w @ items1"
  shows "sk_out sk @ items = sk_out sk1 @ items1"
  using assms by (simp add: only_writes_def)

lemma nb_ops_outcome:
  assumes "nb_out_ok nb fd q" "0 < chunk"
  shows "\<exists>acc nb' sk' q'. nb_ops chunk fd ops nb sk = Some (acc, nb', sk') \<and> nb_out_ok nb' fd q' \<and> bq_same q q' \<and>
    sk_out sk' @ bq_items q' = sk_out sk @ bq_items q @ concat (map nb_packet acc) \<and>
    (sk_wr sk = [] \<longrightarrow> sk_wr sk' = [])"
  using assms(1)
proof (induction ops arbitrary: nb sk q)
  case (Cons c ops)
  show ?case
  proof (cases c)
    case (Nb_Queue m)
    have "nb_packet m \<noteq> []" by (simp add: nb_packet_def host_bytes_def put_be32_def)
    from nb_attempt_outcome [OF Cons.prems this] obtain r nb1 q1 where
      1: "nb_attempt (nb_packet m) fd nb = Some (r, nb1)" "nb_out_ok nb1 fd q1" "bq_same q q1"
        "bq_items q1 = bq_items q @ (if r = Nb_Queued then nb_packet m else [])" by fastforce
    from Cons.IH [OF 1(2), of sk] obtain acc nb2 sk2 q2 where
      2: "nb_ops chunk fd ops nb1 sk = Some (acc, nb2, sk2)" "nb_out_ok nb2 fd q2" "bq_same q1 q2"
        "sk_out sk2 @ bq_items q2 = sk_out sk @ bq_items q1 @ concat (map nb_packet acc)"
        "sk_wr sk = [] \<longrightarrow> sk_wr sk2 = []" by blast
    let ?acc = "(if r = Nb_Queued then [m] else []) @ acc"
    have "nb_ops chunk fd (c # ops) nb sk = Some (?acc, nb2, sk2)" using Nb_Queue 1(1) 2(1) by simp
    moreover have "bq_items q1 @ concat (map nb_packet acc) = bq_items q @ concat (map nb_packet ?acc)"
      using 1(4) by simp
    then have "sk_out sk2 @ bq_items q2 = sk_out sk @ bq_items q @ concat (map nb_packet ?acc)"
      using 2(4) by simp
    ultimately show ?thesis using 2(2,5) bq_same_trans [OF 1(3) 2(3)] by blast
  next
    case Nb_Send
    from nb_send_outcome [OF Cons.prems assms(2), of sk] obtain rc nb1 sk1 q1 n where
      1: "nb_send chunk fd nb sk = Some (rc, nb1, sk1)" "nb_out_ok nb1 fd q1" "bq_same q q1"
        "bq_items q = take n (bq_items q) @ bq_items q1" "only_writes sk (take n (bq_items q)) sk1"
        "sk_wr sk = [] \<longrightarrow> sk_wr sk1 = []" by blast
    from Cons.IH [OF 1(2), of sk1] obtain acc nb2 sk2 q2 where
      2: "nb_ops chunk fd ops nb1 sk1 = Some (acc, nb2, sk2)" "nb_out_ok nb2 fd q2" "bq_same q1 q2"
        "sk_out sk2 @ bq_items q2 = sk_out sk1 @ bq_items q1 @ concat (map nb_packet acc)"
        "sk_wr sk1 = [] \<longrightarrow> sk_wr sk2 = []" by blast
    have "sk_out sk2 @ bq_items q2 = sk_out sk @ bq_items q @ concat (map nb_packet acc)"
      unfolding 2(4) only_writes_moved [OF 1(5,4), symmetric] append_assoc [symmetric] ..
    moreover have "nb_ops chunk fd (c # ops) nb sk = Some (acc, nb2, sk2)" using Nb_Send 1(1) 2(1) by simp
    moreover have "sk_wr sk = [] \<longrightarrow> sk_wr sk2 = []" using 1(6) 2(5) by blast
    ultimately show ?thesis using 2(2) bq_same_trans [OF 1(3) 2(3)] by blast
  qed
next
  case Nil
  then show ?case by (intro exI [of _ "[]"] exI [of _ nb] exI [of _ sk] exI [of _ q]) simp
qed

text \<open>The messages of the attempts; all are accepted when they fit together.\<close>

definition queued_messages :: "nb_op list \<Rightarrow> bytes list" where
  "queued_messages ops = concat (map (\<lambda>c. case c of Nb_Queue m \<Rightarrow> [m] | Nb_Send \<Rightarrow> []) ops)"

lemma queued_messages_simps [simp]:
  "queued_messages [] = []" "queued_messages (Nb_Queue m # ops) = m # queued_messages ops"
  "queued_messages (Nb_Send # ops) = queued_messages ops"
  by (simp_all add: queued_messages_def)

lemma nb_ops_accepted:
  "nb_ops chunk fd ops nb sk = Some (acc, nb', sk') \<Longrightarrow> set acc \<subseteq> set (queued_messages ops)"
  by (induction chunk fd ops nb sk arbitrary: acc nb' sk' rule: nb_ops.induct)
    (fastforce split: bind_splits prod.splits if_splits)+

lemma nb_ops_all_accepted:
  assumes "nb_out_ok nb fd q" "0 < chunk" "nb_ops chunk fd ops nb sk = Some (acc, nb', sk')"
    and "length (bq_items q) + length (concat (map nb_packet (queued_messages ops))) < bq_max_length q"
  shows "acc = queued_messages ops"
  using assms
proof (induction ops arbitrary: nb sk q acc nb' sk')
  case (Cons c ops)
  show ?case
  proof (cases c)
    case (Nb_Queue m)
    have "nb_packet m \<noteq> []" by (simp add: nb_packet_def host_bytes_def put_be32_def)
    from nb_attempt_outcome [OF Cons.prems(1) this] Cons.prems(4) Nb_Queue obtain nb1 q1 where
      1: "nb_attempt (nb_packet m) fd nb = Some (Nb_Queued, nb1)" "nb_out_ok nb1 fd q1" "bq_same q q1"
        "bq_items q1 = bq_items q @ nb_packet m" by fastforce
    with Cons.prems(3) Nb_Queue obtain acc1 where
      a: "nb_ops chunk fd ops nb1 sk = Some (acc1, nb', sk')" "acc = m # acc1"
      by (auto split: bind_splits prod.splits)
    have "acc1 = queued_messages ops"
      using Cons.prems(4) Nb_Queue 1(3,4) by (intro Cons.IH [OF 1(2) Cons.prems(2) a(1)]) (simp add: bq_same_def)
    with a Nb_Queue show ?thesis by simp
  next
    case Nb_Send
    from nb_send_outcome [OF Cons.prems(1,2), of sk] obtain rc nb1 sk1 q1 n where
      1: "nb_send chunk fd nb sk = Some (rc, nb1, sk1)" "nb_out_ok nb1 fd q1" "bq_same q q1"
        "bq_items q = take n (bq_items q) @ bq_items q1" by blast
    have "length (bq_items q1) \<le> length (bq_items q)" using arg_cong [OF 1(4), of length] by simp
    then show ?thesis
      using Cons.prems(3,4) Nb_Send 1 by (auto simp: bq_same_def intro!: Cons.IH [OF 1(2) Cons.prems(2)])
  qed
qed simp

lemma nb_ops_append:
  assumes "nb_ops chunk fd xs nb sk = Some (acc1, nb1, sk1)" "nb_ops chunk fd ys nb1 sk1 = Some (acc2, nb2, sk2)"
  shows "nb_ops chunk fd (xs @ ys) nb sk = Some (acc1 @ acc2, nb2, sk2)"
  using assms
  by (induction chunk fd xs nb sk arbitrary: acc1 rule: nb_ops.induct)
    (fastforce split: bind_splits prod.splits)+

text \<open>Sending on a socket that takes everything empties the queue.\<close>

lemma nb_sends_drain:
  assumes "nb_out_ok nb fd q" "0 < chunk" "sk_wr sk = []" "length (bq_items q) \<le> k * chunk"
  shows "\<exists>nb' sk' q'. nb_ops chunk fd (replicate k Nb_Send) nb sk = Some ([], nb', sk') \<and>
    nb_out_ok nb' fd q' \<and> bq_items q' = [] \<and> sk_out sk' = sk_out sk @ bq_items q"
  using assms
proof (induction k arbitrary: nb sk q)
  case (Suc k)
  from nb_send_outcome [OF Suc.prems(1,2), of sk] Suc.prems(3) obtain rc nb1 sk1 q1 where
    1: "nb_send chunk fd nb sk = Some (rc, nb1, sk1)" "nb_out_ok nb1 fd q1"
      "bq_items q = take chunk (bq_items q) @ bq_items q1" "only_writes sk (take chunk (bq_items q)) sk1"
      "sk_wr sk1 = []" by blast
  have "take chunk (bq_items q) @ bq_items q1 = take chunk (bq_items q) @ drop chunk (bq_items q)"
    unfolding append_take_drop_id by (rule 1(3) [symmetric])
  then have "bq_items q1 = drop chunk (bq_items q)" by blast
  then have "length (bq_items q1) \<le> k * chunk" using Suc.prems(4) by simp
  from Suc.IH [OF 1(2) Suc.prems(2) 1(5) this] obtain nb2 sk2 q2 where
    "nb_ops chunk fd (replicate k Nb_Send) nb1 sk1 = Some ([], nb2, sk2)" "nb_out_ok nb2 fd q2"
    "bq_items q2 = []" "sk_out sk2 = sk_out sk1 @ bq_items q1" by blast
  moreover have "sk_out sk1 @ bq_items q1 = sk_out sk @ bq_items q"
    using only_writes_moved [OF 1(4,3)] by simp
  moreover from calculation(1) have "nb_ops chunk fd (replicate (Suc k) Nb_Send) nb sk = Some ([], nb2, sk2)"
    using 1(1) by simp
  ultimately show ?case by metis
next
  case 0
  then show ?case by (intro exI [of _ nb] exI [of _ sk] exI [of _ q]) simp
qed

section \<open>The peer's side\<close>

lemma os_recv_waitall_unscripted:
  "sk_rd sk = [] \<Longrightarrow> n \<le> length (sk_in sk) \<Longrightarrow>
   os_recv_waitall sk n [] = (int n, take n (sk_in sk), sk\<lparr>sk_in := drop n (sk_in sk)\<rparr>)"
proof (cases "n = 0")
  case False
  assume "sk_rd sk = []" "n \<le> length (sk_in sk)"
  moreover then have "recv sk n = (int n, take n (sk_in sk), sk\<lparr>sk_in := drop n (sk_in sk)\<rparr>)"
    by (simp add: recv_def Let_def)
  ultimately show ?thesis
    using False by (subst os_recv_waitall.simps) (simp, subst os_recv_waitall.simps, simp)
qed (subst os_recv_waitall.simps, simp)

lemma OS_RecvSecureTCP_packet:
  assumes "sk_rd sk = []" "sk_in sk = nb_packet m @ s" "length m \<le> unat limit" "length m \<le> OS_MAXSTR"
  shows "OS_RecvSecureTCP sk limit = Some (int (length m), m, sk\<lparr>sk_in := s\<rparr>)"
proof -
  let ?h = "host_bytes (of_nat (length m))" and ?sk = "sk\<lparr>sk_in := m @ s\<rparr>"
  have n: "unat (of_nat (length m) :: u32) = length m"
    using assms(4) by (intro unat_of_nat_small) (simp add: OS_MAXSTR_def)
  then have si: "sint (of_nat (length m) :: u32) = int (length m)"
    using assms(4) by (simp add: OS_MAXSTR_def sint_uint uint_nat signed_take_bit_int_eq_self)
  have 1: "os_recv_waitall sk 4 [] = (4, ?h, ?sk)"
    using os_recv_waitall_unscripted [OF assms(1), of 4] assms(2) by (simp add: nb_packet_def wnet_order_def)
  have 2: "os_recv_waitall ?sk (length m) [] = (int (length m), m, sk\<lparr>sk_in := s\<rparr>)"
    using os_recv_waitall_unscripted [of ?sk "length m"] assms(1) by simp
  have l: "\<not> limit < of_nat (length m)" using n assms(3) by (simp add: word_less_nat_alt)
  have lt: "length m < unat limit" if "(of_nat (length m) :: u32) < limit" using that n by (simp add: word_less_nat_alt)
  show ?thesis
    unfolding OS_RecvSecureTCP_def Let_def 1 prod.case wnet_order_def le32.dec_enc_only n 2
    using l assms(3) si lt by (auto simp: mem_simps)
qed

fun OS_RecvSecureTCP_all :: "nat \<Rightarrow> u32 \<Rightarrow> sock \<Rightarrow> (bytes list \<times> sock) option" where
  "OS_RecvSecureTCP_all 0 limit sk = Some ([], sk)"
| "OS_RecvSecureTCP_all (Suc k) limit sk = do {
     (rc, m, sk1) \<leftarrow> OS_RecvSecureTCP sk limit;
     (ms, sk2) \<leftarrow> OS_RecvSecureTCP_all k limit sk1;
     Some (m # ms, sk2) }"

lemma OS_RecvSecureTCP_packets:
  assumes "sk_rd sk = []" "sk_in sk = concat (map nb_packet ms)"
    and "\<forall>m \<in> set ms. length m \<le> OS_MAXSTR" "OS_MAXSTR \<le> unat limit"
  shows "OS_RecvSecureTCP_all (length ms) limit sk = Some (ms, sk\<lparr>sk_in := []\<rparr>)"
  using assms
proof (induction ms arbitrary: sk)
  case (Cons m ms)
  then have "OS_RecvSecureTCP sk limit = Some (int (length m), m, sk\<lparr>sk_in := concat (map nb_packet ms)\<rparr>)"
    by (intro OS_RecvSecureTCP_packet) auto
  with Cons show ?case by simp
qed simp

section \<open>Properties\<close>





end
