(* ===== verification/Os_Match.thy ===== *)
theory Os_Match
  imports Text Wire
begin

text \<open>
  The simple patterns of the agent programs, \<^verbatim>\<open>agents/os_regex/os_match_compile.c\<close>,
  \<^verbatim>\<open>os_match_execute.c\<close> and \<^verbatim>\<open>os_match.c\<close>. A pattern is a list of alternatives separated by \<open>|\<close>,
  negated as a whole by a leading \<open>!\<close>; an alternative may be anchored at the front by \<open>^\<close> and at the
  end by \<open>$\<close>. Compiling a pattern cuts a copy of it in place, by writing NUL bytes, and picks a
  comparison function for each alternative.

  A string in memory is its bytes and a NUL byte; pointers into it are offsets, and reading outside is a
  fault (\<open>None\<close>). The three arrays of \<open>OSMatch\<close> are lists with an entry for the NULL that ends them.
\<close>

section \<open>State\<close>

datatype match_fp = OS_Match | os_strncmp | os_strcmp | os_strmatch | os_strcmp_last

record os_match =
  om_negate :: bool
  om_raw :: "bytes option"
  om_error :: int
  om_size :: "nat list"
  om_patterns :: "bytes option list"
  om_match_fp :: "match_fp option list"

definition OS_PATTERN_MAXSIZE :: nat where "OS_PATTERN_MAXSIZE = 20480"

definition OS_REGEX_PATTERN_NULL :: int where "OS_REGEX_PATTERN_NULL = 2"

definition OS_REGEX_MAXSIZE :: int where "OS_REGEX_MAXSIZE = 3"

definition OS_REGEX_OUTOFMEMORY :: int where "OS_REGEX_OUTOFMEMORY = 4"

definition OS_REGEX_STR_NULL :: int where "OS_REGEX_STR_NULL = 5"

definition OR_CHAR :: byte where "OR_CHAR = 124"

definition BEGINREGEX :: byte where "BEGINREGEX = 94"

definition ENDREGEX :: byte where "ENDREGEX = 36"

text \<open>The table \<open>charmap\<close> maps capital letters to small letters and every other byte to itself.\<close>

definition charmap :: "byte \<Rightarrow> byte" where
  "charmap c = (if 65 \<le> c \<and> c \<le> 90 then c + 32 else c)"

definition om_init :: os_match where
  "om_init = \<lparr>om_negate = False, om_raw = None, om_error = 0, om_size = [], om_patterns = [], om_match_fp = []\<rparr>"

section \<open>Compiling\<close>

text \<open>
  The entry for the alternative that starts at \<open>new_str\<close> and ends at \<open>pt\<close>, where the NUL has been
  written: the comparison function, the pattern text and its size. The byte in front of \<open>pt\<close> is only
  read when the alternative is not empty.
\<close>

definition classify :: "bytes \<Rightarrow> nat \<Rightarrow> nat \<Rightarrow> (match_fp \<times> bytes \<times> nat) option" where
  "classify mem new_str pt = do {
     first \<leftarrow> byte_at mem new_str;
     dup \<leftarrow> (if first = BEGINREGEX then string_at mem (new_str + 1) else string_at mem new_str);
     whole \<leftarrow> string_at mem new_str;
     both \<leftarrow> (if first = BEGINREGEX
             then (if pt = 0 then None else map_option (\<lambda>c. c = ENDREGEX) (byte_at mem (pt - 1))) else Some False);
     if both then (if dup = [] then None else Some (os_strcmp, butlast dup, length dup - 1))
     else if whole = [] then Some (os_strmatch, dup, 0)
     else do {
       last \<leftarrow> (if pt = 0 then None else byte_at mem (pt - 1));
       if last = ENDREGEX then (if dup = [] then None else Some (os_strcmp_last, butlast dup, length dup - 1))
       else if first = BEGINREGEX then Some (os_strncmp, dup, length dup)
       else Some (OS_Match, dup, length dup)
     } }"

text \<open>Storing the entry in cell \<open>i\<close> of the arrays.\<close>

definition set_entry :: "nat \<Rightarrow> match_fp \<times> bytes \<times> nat \<Rightarrow> os_match \<Rightarrow> os_match option" where
  "set_entry i e reg =
     (let (fp, p, n) = e in
      if i < length (om_patterns reg) \<and> i < length (om_size reg) \<and> i < length (om_match_fp reg)
      then Some (reg\<lparr>om_patterns := (om_patterns reg)[i := Some p], om_size := (om_size reg)[i := n],
                     om_match_fp := (om_match_fp reg)[i := Some fp]\<rparr>)
      else None)"

text \<open>
  The loop that cuts the copy into alternatives. A failing \<open>strdup\<close> ends it with the error code; the
  caller then frees everything.
\<close>

function compile_loop ::
  "bytes \<Rightarrow> nat \<Rightarrow> nat \<Rightarrow> nat \<Rightarrow> os_match \<Rightarrow> heap \<Rightarrow> (int \<times> os_match \<times> heap) option" where
  "compile_loop mem new_str pt i reg h =
     (if pt < length mem then
        if mem ! pt = OR_CHAR \<or> mem ! pt = 0 then do {
          let mem1 = mem[pt := 0];
          let (ok, h1) = alloc h;
          if \<not> ok then Some (0, reg\<lparr>om_error := OS_REGEX_OUTOFMEMORY\<rparr>, h1)
          else do {
            e \<leftarrow> classify mem1 new_str pt;
            reg1 \<leftarrow> set_entry i e reg;
            if mem ! pt = 0 then Some (1, reg1, h1) else compile_loop mem1 (pt + 1) (pt + 1) (i + 1) reg1 h1
          }
        }
        else compile_loop mem new_str (pt + 1) i reg h
      else None)"
  by pat_completeness auto
termination
  by (relation "measure (\<lambda>(mem, new_str, pt, i, reg, h). length mem - pt)") auto

declare compile_loop.simps [simp del]

definition free_pattern :: "os_match \<Rightarrow> os_match" where
  "free_pattern reg = reg\<lparr>om_raw := None, om_size := [], om_patterns := [], om_match_fp := []\<rparr>"

text \<open>
  \<open>OSMatch_Compile\<close>; \<open>case_sensitive\<close> is the flag \<open>OS_CASE_SENSITIVE\<close>. The three arrays are all
  requested before the results are looked at.
\<close>

definition OSMatch_Compile :: "bytes option \<Rightarrow> bool \<Rightarrow> heap \<Rightarrow> (int \<times> os_match \<times> heap) option" where
  "OSMatch_Compile pattern case_sensitive h =
     (case pattern of
        None \<Rightarrow> Some (0, free_pattern (om_init\<lparr>om_error := OS_REGEX_PATTERN_NULL\<rparr>), h)
      | Some p \<Rightarrow>
          let (raw_ok, h1) = alloc h;
              reg = om_init\<lparr>om_raw := (if raw_ok then Some p else None)\<rparr> in
          if length p > OS_PATTERN_MAXSIZE then Some (0, free_pattern (reg\<lparr>om_error := OS_REGEX_MAXSIZE\<rparr>), h1)
          else
            let neg = (p \<noteq> [] \<and> hd p = 33);
                p1 = (if neg then tl p else p);
                reg1 = reg\<lparr>om_negate := neg\<rparr>;
                (dup_ok, h2) = alloc h1 in
            if \<not> dup_ok then Some (0, free_pattern (reg1\<lparr>om_error := OS_REGEX_OUTOFMEMORY\<rparr>), h2)
            else
              let mem = (if case_sensitive then p1 else map charmap p1) @ [0];
                  count = length (filter (\<lambda>c. c = OR_CHAR) mem) + 1;
                  (ok1, h3) = alloc h2; (ok2, h4) = alloc h3; (ok3, h5) = alloc h4 in
              if \<not> (ok1 \<and> ok2 \<and> ok3) then Some (0, free_pattern (reg1\<lparr>om_error := OS_REGEX_OUTOFMEMORY\<rparr>), h5)
              else do {
                (rc, reg2, h6) \<leftarrow> compile_loop mem 0 0 0
                   (reg1\<lparr>om_patterns := replicate (count + 1) None, om_size := replicate (count + 1) 0,
                         om_match_fp := replicate (count + 1) None\<rparr>) h5;
                Some (rc, if rc = 0 then free_pattern reg2 else reg2, h6)
              })"

section \<open>Executing\<close>

text \<open>
  The search compares an entry of \<open>charmap\<close>, an unsigned byte, with a \<open>char\<close> of the pattern, which is signed
  on the platforms of the agent; both are promoted to \<open>int\<close>.
\<close>

definition same_char :: "byte \<Rightarrow> byte \<Rightarrow> bool" where
  "same_char u c \<longleftrightarrow> uint u = sint c"

text \<open>The result of comparing the pattern from \<open>pt\<close> on with the string from \<open>j\<close> on.\<close>

datatype match_rest = Rest_Matches | Rest_Differs | Rest_Ends

function compare_rest :: "bytes \<Rightarrow> nat \<Rightarrow> bytes \<Rightarrow> nat \<Rightarrow> match_rest option" where
  "compare_rest pattern pt str j =
     (if pt < length pattern then
        if pattern ! pt = 0 then Some Rest_Matches
        else do {
          c \<leftarrow> byte_at str j;
          if c = 0 then Some Rest_Ends
          else if \<not> same_char (charmap c) (pattern ! pt) then Some Rest_Differs
          else compare_rest pattern (pt + 1) str (j + 1)
        }
      else None)"
  by pat_completeness auto
termination
  by (relation "measure (\<lambda>(pattern, pt, str, j). length pattern - pt)") auto

declare compare_rest.simps [simp del]

text \<open>The search of \<open>_OS_Match\<close>; \<open>lim\<close> is the last offset that is tried.\<close>

function search_from :: "bytes \<Rightarrow> bytes \<Rightarrow> nat \<Rightarrow> nat \<Rightarrow> bool option" where
  "search_from pattern str lim i = do {
     c \<leftarrow> byte_at str i;
     p \<leftarrow> byte_at pattern 0;
     r \<leftarrow> (if same_char (charmap c) p then compare_rest pattern 1 str (i + 1) else Some Rest_Differs);
     case r of
       Rest_Matches \<Rightarrow> Some True
     | Rest_Ends \<Rightarrow> Some False
     | Rest_Differs \<Rightarrow> if i + 1 \<le> lim then search_from pattern str lim (i + 1) else Some False }"
  by pat_completeness auto
termination
  by (relation "measure (\<lambda>(pattern, str, lim, i). lim - i)") auto

declare search_from.simps [simp del]

text \<open>\<open>strcasecmp\<close> and \<open>strncasecmp\<close> in the C locale, as far as their result is compared with 0.\<close>

definition strcasecmp_eq :: "bytes \<Rightarrow> bytes \<Rightarrow> bool" where
  "strcasecmp_eq a b \<longleftrightarrow> map charmap a = map charmap b"

definition strncasecmp_eq :: "bytes \<Rightarrow> bytes \<Rightarrow> nat \<Rightarrow> bool" where
  "strncasecmp_eq a b n \<longleftrightarrow> map charmap (take n a) = map charmap (take n b)"

fun match_with :: "match_fp \<Rightarrow> bytes \<Rightarrow> bytes \<Rightarrow> nat \<Rightarrow> nat \<Rightarrow> bool option" where
  "match_with OS_Match pattern str str_len n =
     (if str_len < n then Some False else search_from (pattern @ [0]) (str @ [0]) (str_len - n) 0)"
| "match_with os_strncmp pattern str str_len n = Some (strncasecmp_eq pattern str n)"
| "match_with os_strcmp pattern str str_len n = Some (strcasecmp_eq pattern str)"
| "match_with os_strmatch pattern str str_len n = Some True"
| "match_with os_strcmp_last pattern str str_len n =
     (if str_len < n then Some False
      else if str_len - n \<le> length str then Some (strcasecmp_eq pattern (drop (str_len - n) str))
      else None)"

function execute_loop :: "bytes \<Rightarrow> nat \<Rightarrow> os_match \<Rightarrow> nat \<Rightarrow> int option" where
  "execute_loop str str_len reg i =
     (if i < length (om_patterns reg) then
        case om_patterns reg ! i of
          None \<Rightarrow> Some (if om_negate reg then 1 else 0)
        | Some p \<Rightarrow>
            if i < length (om_match_fp reg) \<and> i < length (om_size reg) then
              case om_match_fp reg ! i of
                None \<Rightarrow> None
              | Some fp \<Rightarrow> do {
                  m \<leftarrow> match_with fp p str str_len (om_size reg ! i);
                  if m then Some (if om_negate reg then 0 else 1) else execute_loop str str_len reg (i + 1)
                }
            else None
      else None)"
  by pat_completeness auto
termination
  by (relation "measure (\<lambda>(str, str_len, reg, i). length (om_patterns reg) - i)") auto

declare execute_loop.simps [simp del]

definition OSMatch_Execute :: "bytes option \<Rightarrow> nat \<Rightarrow> os_match option \<Rightarrow> (int \<times> os_match option) option" where
  "OSMatch_Execute str str_len reg =
     (case reg of
        None \<Rightarrow> Some (0, None)
      | Some r \<Rightarrow>
          (case str of
             None \<Rightarrow> Some (0, Some (r\<lparr>om_error := OS_REGEX_STR_NULL\<rparr>))
           | Some s \<Rightarrow> do { rc \<leftarrow> execute_loop s str_len r 0; Some (rc, Some r) }))"

definition OS_Match2 :: "bytes option \<Rightarrow> bytes \<Rightarrow> heap \<Rightarrow> (int \<times> heap) option" where
  "OS_Match2 pattern str h = do {
     (rc, reg, h1) \<leftarrow> OSMatch_Compile pattern False h;
     if rc = 0 then Some (0, h1)
     else do {
       (m, reg') \<leftarrow> OSMatch_Execute (Some str) (length str) (Some reg);
       Some (if m = 0 then 0 else 1, h1)
     } }"

end
