(* ===== verification/Os_Str.thy ===== *)
theory Os_Str
  imports Os_Match
begin

text \<open>
  The string helpers next to the patterns: \<open>OS_WordMatch\<close> (\<^verbatim>\<open>os_regex_match.c\<close>), \<open>OS_StrBreak\<close>
  (\<^verbatim>\<open>os_regex_strbreak.c\<close>), \<open>OS_StrStartsWith\<close> (\<^verbatim>\<open>os_regex_startswith.c\<close>), \<open>OS_StrIsNum\<close> and
  \<open>OS_StrHowClosedMatch\<close> (\<^verbatim>\<open>os_regex_str.c\<close>).
\<close>

section \<open>Word lists\<close>

text \<open>
  \<open>_InternalMatch\<close> on the alternative that starts at offset \<open>b\<close> of the pattern and has \<open>n\<close> bytes;
  the byte behind it ends the comparison. The search compares from offset \<open>i\<close> of the string on.
\<close>

function word_rest :: "byte \<Rightarrow> bytes \<Rightarrow> nat \<Rightarrow> bytes \<Rightarrow> nat \<Rightarrow> match_rest option" where
  "word_rest last_char pattern pt str j =
     (if pt < length pattern then
        if pattern ! pt = last_char then Some Rest_Matches
        else do {
          c \<leftarrow> byte_at str j;
          if c = 0 then Some Rest_Ends
          else if charmap (pattern ! pt) \<noteq> charmap c then Some Rest_Differs
          else word_rest last_char pattern (pt + 1) str (j + 1)
        }
      else None)"
  by pat_completeness auto
termination
  by (relation "measure (\<lambda>(l, pattern, pt, str, j). length pattern - pt)") auto

declare word_rest.simps [simp del]

function word_search :: "byte \<Rightarrow> bytes \<Rightarrow> nat \<Rightarrow> bytes \<Rightarrow> nat \<Rightarrow> bool option" where
  "word_search last_char pattern b str i =
     (if i < length str then do {
        p \<leftarrow> byte_at pattern b;
        r \<leftarrow> (if charmap (str ! i) = charmap p then word_rest last_char pattern (b + 1) str (i + 1) else Some Rest_Differs);
        case r of
          Rest_Matches \<Rightarrow> Some True
        | Rest_Ends \<Rightarrow> Some False
        | Rest_Differs \<Rightarrow> do {
            c \<leftarrow> byte_at str (i + 1);
            if c \<noteq> 0 then word_search last_char pattern b str (i + 1) else Some False }
      }
      else None)"
  by pat_completeness auto
termination
  by (relation "measure (\<lambda>(l, pattern, b, str, i). length str - i)") auto

declare word_search.simps [simp del]

definition InternalMatch :: "bytes \<Rightarrow> nat \<Rightarrow> bytes option \<Rightarrow> nat \<Rightarrow> bool option" where
  "InternalMatch pattern b str n = do {
     last_char \<leftarrow> byte_at pattern (b + n);
     case str of
       None \<Rightarrow> Some False
     | Some s \<Rightarrow> do {
         p \<leftarrow> byte_at pattern b;
         if p = 0 then Some True
         else if p = BEGINREGEX then do {
           rest \<leftarrow> string_at pattern (b + 1);
           Some (strncasecmp_eq rest s (n - 1))
         }
         else if s = [] then Some False
         else word_search last_char pattern b (s @ [0]) 0
       } }"

text \<open>The loop of \<open>OS_WordMatch\<close>; \<open>b\<close> is where the current alternative starts.\<close>

function word_loop :: "bytes \<Rightarrow> nat \<Rightarrow> nat \<Rightarrow> bytes option \<Rightarrow> bool option" where
  "word_loop pattern b count str =
     (if b + count < length pattern then
        if pattern ! (b + count) = OR_CHAR then do {
          m \<leftarrow> InternalMatch pattern b str count;
          if m then Some True
          else do {
            c \<leftarrow> byte_at pattern (b + count + 1);
            if c \<noteq> 0 then word_loop pattern (b + count + 1) 0 str
            else InternalMatch pattern (b + count + 1) str 0
          }
        }
        else do {
          c \<leftarrow> byte_at pattern (b + count + 1);
          if c \<noteq> 0 then word_loop pattern b (count + 1) str else InternalMatch pattern b str (count + 1)
        }
      else None)"
  by pat_completeness auto
termination
  by (relation "measure (\<lambda>(pattern, b, count, str). length pattern - (b + count))") auto

declare word_loop.simps [simp del]

definition OS_WordMatch :: "bytes \<Rightarrow> bytes option \<Rightarrow> bool option" where
  "OS_WordMatch pattern str = (if pattern = [] then Some False else word_loop (pattern @ [0]) 0 0 str)"

section \<open>Breaking strings\<close>

text \<open>
  The loop of \<open>OS_StrBreak\<close>. \<open>s\<close> is the text of the private copy, \<open>tmp\<close> the offset where the current
  piece starts, \<open>i\<close> its length so far (the code's \<open>str\<close> is always \<open>tmp + i\<close>), \<open>ant\<close> the offset of the
  byte before. A separator behind a backslash replaces it: the copy gets one byte shorter. The limit
  \<open>size - 1\<close> is computed in \<open>size_t\<close>. The result is the array, or NULL (inner \<open>None\<close>).
\<close>

definition piece_limit :: "nat \<Rightarrow> nat" where
  "piece_limit n = (if n = 0 then 2 ^ 64 - 1 else n - 1)"

function break_loop ::
  "byte \<Rightarrow> nat \<Rightarrow> bytes \<Rightarrow> nat \<Rightarrow> nat \<Rightarrow> nat option \<Rightarrow> nat \<Rightarrow> bytes option list \<Rightarrow> heap \<Rightarrow> (bytes option list option \<times> heap) option" where
  "break_loop match n s tmp i ant count ret h =
     (if tmp + i < length s then do {
        escaped \<leftarrow> (if count < piece_limit n \<and> s ! (tmp + i) = match
                   then (case ant of None \<Rightarrow> Some False | Some a \<Rightarrow> map_option (\<lambda>c. c = 92) (byte_at s a)) else Some False);
        if escaped then
          let (ok, h1) = alloc h in
          if \<not> ok then Some (None, h1)
          else if i = 0 then None
          else break_loop match n (take (tmp + i - 1) s @ drop (tmp + i) s) tmp i (Some (tmp + i - 1)) count ret h1
        else if count < piece_limit n \<and> s ! (tmp + i) = match then
          let (ok, h1) = alloc h in
          if \<not> ok then Some (None, h1)
          else if count < length ret then
            break_loop match n s (tmp + i + 1) 0 (Some (tmp + i)) (count + 1) (ret[count := Some (take i (drop tmp s))]) h1
          else None
        else break_loop match n s tmp (i + 1) (Some (tmp + i)) count ret h
      }
      else if count < n then
        let (ok, h1) = alloc h in
        if \<not> ok then Some (None, h1)
        else if count + 1 < length ret then Some (Some (ret[count := Some (take i (drop tmp s)), count + 1 := None]), h1)
        else None
      else Some (None, h))"
  by pat_completeness auto
termination
  by (relation "measure (\<lambda>(match, n, s, tmp, i, ant, count, ret, h). length s - (tmp + i))") auto

declare break_loop.simps [simp del]

definition OS_StrBreak :: "byte \<Rightarrow> bytes option \<Rightarrow> nat \<Rightarrow> heap \<Rightarrow> (bytes option list option \<times> heap) option" where
  "OS_StrBreak match str n h =
     (case str of
        None \<Rightarrow> Some (None, h)
      | Some s \<Rightarrow>
          let (ok1, h1) = alloc h in
          if \<not> ok1 then Some (None, h1)
          else let (ok2, h2) = alloc h1 in
          if \<not> ok2 then Some (None, h2)
          else break_loop match n s 0 0 None 0 (replicate (n + 1) None) h2)"

section \<open>Single strings\<close>

function starts_with :: "bytes \<Rightarrow> nat \<Rightarrow> bytes \<Rightarrow> bool option" where
  "starts_with str i pattern =
     (if i < length pattern then
        if pattern ! i = 0 then Some True
        else do { c \<leftarrow> byte_at str i; if pattern ! i \<noteq> c then Some False else starts_with str (i + 1) pattern }
      else None)"
  by pat_completeness auto
termination
  by (relation "measure (\<lambda>(str, i, pattern). length pattern - i)") auto

declare starts_with.simps [simp del]

definition OS_StrStartsWith :: "bytes \<Rightarrow> bytes \<Rightarrow> bool option" where
  "OS_StrStartsWith str pattern = starts_with (str @ [0]) 0 (pattern @ [0])"

definition OS_StrIsNum :: "bytes option \<Rightarrow> bool" where
  "OS_StrIsNum str = (case str of None \<Rightarrow> False | Some s \<Rightarrow> list_all (\<lambda>c. 48 \<le> c \<and> c \<le> 57) s)"

text \<open>The loop body comes before the first test for the end of the strings.\<close>

function common_from :: "bytes \<Rightarrow> bytes \<Rightarrow> nat \<Rightarrow> nat option" where
  "common_from s1 s2 count =
     (if count < length s1 then do {
        c2 \<leftarrow> byte_at s2 count;
        if s1 ! count \<noteq> c2 then Some count
        else do {
          d1 \<leftarrow> byte_at s1 (count + 1);
          d2 \<leftarrow> (if d1 = 0 then Some 0 else byte_at s2 (count + 1));
          if d1 \<noteq> 0 \<and> d2 \<noteq> 0 then common_from s1 s2 (count + 1) else Some (count + 1)
        }
      }
      else None)"
  by pat_completeness auto
termination
  by (relation "measure (\<lambda>(s1, s2, count). length s1 - count)") auto

declare common_from.simps [simp del]

definition OS_StrHowClosedMatch :: "bytes option \<Rightarrow> bytes option \<Rightarrow> nat option" where
  "OS_StrHowClosedMatch str1 str2 =
     (case (str1, str2) of (Some a, Some b) \<Rightarrow> common_from (a @ [0]) (b @ [0]) 0 | _ \<Rightarrow> Some 0)"

end
