(* ===== verification/Os_Match_Thms.thy ===== *)
theory Os_Match_Thms
  imports Os_Match
begin

text \<open>
  What simple patterns mean. An alternative matches when its text, less the anchors, occurs in the
  string, at the front or at the end when it is anchored there; letters are compared without regard to
  case. The compiled pattern computes exactly this, without a fault.
\<close>

section \<open>The language of patterns\<close>

text \<open>The parts of an alternative.\<close>

definition at_front :: "bytes \<Rightarrow> bool" where
  "at_front s \<longleftrightarrow> s \<noteq> [] \<and> hd s = BEGINREGEX"

definition at_end :: "bytes \<Rightarrow> bool" where
  "at_end s \<longleftrightarrow> s \<noteq> [] \<and> last s = ENDREGEX"

definition inner_text :: "bytes \<Rightarrow> bytes" where
  "inner_text s = (let s1 = (if at_end s then butlast s else s) in if at_front s then tl s1 else s1)"

definition alternative_matches :: "bytes \<Rightarrow> bytes \<Rightarrow> bool" where
  "alternative_matches s t \<longleftrightarrow>
     (\<exists>pre post. map charmap t = pre @ map charmap (inner_text s) @ post \<and>
        (at_front s \<longrightarrow> pre = []) \<and> (at_end s \<longrightarrow> post = []))"

text \<open>
  Which alternatives the compiled pattern finds: a plain one (with no anchor) only if all its bytes are
  below 128, since bytes from 128 on compare as different from themselves.
\<close>

definition ascii :: "bytes \<Rightarrow> bool" where
  "ascii s \<longleftrightarrow> (\<forall>c \<in> set s. c < 128)"

definition alternative_found :: "bytes \<Rightarrow> bytes \<Rightarrow> bool" where
  "alternative_found s t \<longleftrightarrow> alternative_matches s t \<and> (at_front s \<or> at_end s \<or> ascii s)"

definition pattern_matches :: "bytes \<Rightarrow> bytes \<Rightarrow> bool" where
  "pattern_matches p t =
     (if p \<noteq> [] \<and> hd p = 33 then \<not> (\<exists>s \<in> set (split_on OR_CHAR (tl p)). alternative_found s t)
      else \<exists>s \<in> set (split_on OR_CHAR p). alternative_found s t)"

section \<open>Letters\<close>

lemma unat_charmap: "unat (charmap c) = (if 65 \<le> unat c \<and> unat c \<le> 90 then unat c + 32 else unat c)"
  by (simp add: charmap_def word_le_nat_alt unat_word_ariths)

lemma charmap_idem [simp]: "charmap (charmap c) = charmap c"
  by (simp add: word_unat_eq_iff unat_charmap)

lemma charmap_special [simp]:
  "charmap c = 0 \<longleftrightarrow> c = 0" "charmap c = OR_CHAR \<longleftrightarrow> c = OR_CHAR" "charmap c = BEGINREGEX \<longleftrightarrow> c = BEGINREGEX"
  "charmap c = ENDREGEX \<longleftrightarrow> c = ENDREGEX"
  by (auto simp: word_unat_eq_iff unat_charmap OR_CHAR_def BEGINREGEX_def ENDREGEX_def)

lemma charmap_comp [simp]: "charmap \<circ> charmap = charmap"
  by (simp add: fun_eq_iff)

lemma ascii_charmap [simp]: "ascii (map charmap s) = ascii s"
  by (fastforce simp: ascii_def word_less_nat_alt unat_charmap split: if_splits)

lemma same_char_iff: "same_char u c \<longleftrightarrow> u = c \<and> c < 128"
proof (cases "c < 128")
  case True
  then have "uint c < 2 ^ 7" by (simp add: word_less_def)
  then have "sint c = uint c" using signed_take_bit_int_eq_self [of 7 "uint c"] uint_ge_0 [of c] by (simp add: sint_uint)
  with True show ?thesis by (simp add: same_char_def word_uint_eq_iff)
next
  case False
  then have "128 \<le> uint c" "uint c < 256" using uint_lt2p [of c] by (simp_all add: word_less_def)
  then have "bit (uint c) 7" by (simp add: bit_iff_odd) presburger
  then have "sint c < 0" by (simp add: sint_uint)
  moreover have "0 \<le> uint u" by (rule uint_ge_0)
  ultimately have "uint u \<noteq> sint c" by linarith
  with False show ?thesis by (simp add: same_char_def)
qed

lemma lower_iff: "map charmap s = s \<longleftrightarrow> (\<forall>c \<in> set s. charmap c = c)"
  by (induction s) auto

section \<open>Compiling cuts the pattern at the separators\<close>

text \<open>The entry of an alternative, without the memory.\<close>

definition entry_of :: "bytes \<Rightarrow> match_fp \<times> bytes \<times> nat" where
  "entry_of s =
     (let n = length (inner_text s)
      in if s = [] then (os_strmatch, [], 0)
         else if at_front s \<and> at_end s then (os_strcmp, inner_text s, n)
         else if at_end s then (os_strcmp_last, inner_text s, n)
         else if at_front s then (os_strncmp, inner_text s, n)
         else (OS_Match, inner_text s, n))"

lemma string_at_hit: "cstring s \<Longrightarrow> p = length pre \<Longrightarrow> string_at (pre @ s @ 0 # post) p = Some s"
  by (simp add: string_at_def takeWhile_append cstring_def takeWhile_eq_all_conv)

lemma classify_entry:
  assumes "cstring s" "n = length pre"
  shows "classify (pre @ s @ 0 # post) n (n + length s) = Some (entry_of s)"
proof (cases s)
  case Nil
  have "byte_at (pre @ 0 # post) n = Some 0" using assms(2) by (simp add: byte_at_def)
  with Nil string_at_hit [of "[]" n pre post] assms(2) show ?thesis
    by (simp add: classify_def entry_of_def BEGINREGEX_def)
next
  case (Cons c cs)
  have w: "string_at (pre @ s @ 0 # post) n = Some s" using string_at_hit [OF assms(1,2)] by simp
  have t: "string_at (pre @ s @ 0 # post) (n + 1) = Some cs"
    using string_at_hit [of cs "n + 1" "pre @ [c]" post] assms Cons by simp
  have f: "byte_at (pre @ s @ 0 # post) n = Some c" using assms(2) Cons by (simp add: byte_at_def)
  have l: "byte_at (pre @ s @ 0 # post) (n + length s - 1) = Some (last s)"
    using assms(2) Cons by (auto simp: byte_at_def nth_append last_conv_nth)
  have ends: "last s = ENDREGEX \<Longrightarrow> c = BEGINREGEX \<Longrightarrow> cs \<noteq> []"
    using Cons by (auto simp: BEGINREGEX_def ENDREGEX_def)
  have p: "n + length s \<noteq> 0" using Cons by simp
  show ?thesis
    unfolding classify_def f w t l using p Cons ends
    by (auto simp: entry_of_def at_front_def at_end_def inner_text_def Let_def butlast_tl)
qed

definition filled :: "nat \<Rightarrow> (match_fp \<times> bytes \<times> nat) list \<Rightarrow> os_match \<Rightarrow> bool" where
  "filled k es reg \<longleftrightarrow> om_patterns reg = map (Some \<circ> fst \<circ> snd) es @ replicate k None \<and>
     om_size reg = map (snd \<circ> snd) es @ replicate k 0 \<and> om_match_fp reg = map (Some \<circ> fst) es @ replicate k None"

lemma set_entry_filled:
  assumes "filled (Suc k) es reg" "i = length es"
  shows "\<exists>reg'. set_entry i e reg = Some reg' \<and> filled k (es @ [e]) reg' \<and> om_negate reg' = om_negate reg"
  using assms by (cases e) (auto simp: set_entry_def filled_def list_update_append)

lemma compile_loop_entries:
  assumes "cstring (seen @ todo)" "OR_CHAR \<notin> set seen" "n = length pre" "pt = n + length seen"
    and "mem = pre @ seen @ todo @ [0]" "filled (length (split_on_from OR_CHAR seen todo) + k) es reg" "i = length es" "roomy h"
  shows "\<exists>reg' h'. compile_loop mem n pt i reg h = Some (1, reg', h') \<and> roomy h' \<and> om_negate reg' = om_negate reg \<and>
    filled k (es @ map entry_of (split_on_from OR_CHAR seen todo)) reg'"
  using assms
proof (induction todo arbitrary: pre seen n pt mem es reg i h)
  case Nil
  obtain ok h1 where al: "alloc h = (ok, h1)" by force
  then have r: "ok" "roomy h1" using roomy_alloc [OF Nil.prems(8)] by auto
  have at: "pt < length mem" "mem ! pt = 0" "mem[pt := 0] = pre @ seen @ 0 # []"
    using Nil.prems(3,4,5) by (simp_all add: nth_append list_update_append)
  have c: "classify (mem[pt := 0]) n pt = Some (entry_of seen)"
    unfolding at(3) unfolding Nil.prems(4) using classify_entry [OF _ Nil.prems(3), of seen "[]"] Nil.prems(1) by simp
  from set_entry_filled [OF _ Nil.prems(7), of k reg "entry_of seen"] Nil.prems(6) obtain reg' where
    "set_entry i (entry_of seen) reg = Some reg'" "filled k (es @ [entry_of seen]) reg'" "om_negate reg' = om_negate reg" by auto
  with at c r al show ?case by (subst compile_loop.simps) simp
next
  case (Cons c cs)
  have at: "pt < length mem" "mem ! pt = c"
    using Cons.prems(3,4,5) by (simp_all add: nth_append)
  have c0: "c \<noteq> 0" "cstring cs" using Cons.prems(1) by simp_all
  show ?case
  proof (cases "c = OR_CHAR")
    case True
    obtain ok h1 where al: "alloc h = (ok, h1)" by force
    then have r: "ok" "roomy h1" using roomy_alloc [OF Cons.prems(8)] by auto
    have m: "mem[pt := 0] = pre @ seen @ 0 # cs @ [0]" using Cons.prems(3,4,5) by (simp add: list_update_append)
    have cl: "classify (mem[pt := 0]) n pt = Some (entry_of seen)"
      unfolding m unfolding Cons.prems(4) using classify_entry [OF _ Cons.prems(3), of seen "cs @ [0]"] Cons.prems(1) by simp
    have "filled (Suc (length (split_on_from OR_CHAR [] cs) + k)) es reg" using Cons.prems(6) True by simp
    from set_entry_filled [OF this Cons.prems(7), of "entry_of seen"] obtain reg1 where
      s: "set_entry i (entry_of seen) reg = Some reg1" "filled (length (split_on_from OR_CHAR [] cs) + k) (es @ [entry_of seen]) reg1"
        "om_negate reg1 = om_negate reg" by auto
    have "compile_loop mem n pt i reg h = compile_loop (mem[pt := 0]) (pt + 1) (pt + 1) (i + 1) reg1 h1"
      using at True cl s(1) r(1) al c0(1) by (subst compile_loop.simps) (simp add: OR_CHAR_def)
    moreover have "\<exists>reg' h'. compile_loop (mem[pt := 0]) (pt + 1) (pt + 1) (i + 1) reg1 h1 = Some (1, reg', h') \<and> roomy h' \<and>
        om_negate reg' = om_negate reg1 \<and> filled k ((es @ [entry_of seen]) @ map entry_of (split_on_from OR_CHAR [] cs)) reg'"
      by (rule Cons.IH [of "[]" "pt + 1" "pre @ seen @ [0]"])
        (use c0 Cons.prems(3,4,7) s(2) r(2) m in simp_all)
    ultimately show ?thesis using True s(3) by simp
  next
    case False
    have "compile_loop mem n pt i reg h = compile_loop mem n (pt + 1) i reg h"
      using at False c0(1) by (subst compile_loop.simps) simp
    moreover have "\<exists>reg' h'. compile_loop mem n (pt + 1) i reg h = Some (1, reg', h') \<and> roomy h' \<and> om_negate reg' = om_negate reg \<and>
        filled k (es @ map entry_of (split_on_from OR_CHAR (seen @ [c]) cs)) reg'"
      by (rule Cons.IH [of "seen @ [c]" n pre]) (use Cons.prems False in auto)
    ultimately show ?thesis using False by simp
  qed
qed

section \<open>Comparing\<close>

lemma compare_rest_result:
  assumes "cstring p" "cstring s" "pt \<le> length p" "j + (length p - pt) \<le> length s"
  shows "compare_rest (p @ [0]) pt (s @ [0]) j =
    Some (if map charmap (take (length p - pt) (drop j s)) = drop pt p \<and> ascii (drop pt p) then Rest_Matches else Rest_Differs)"
  using assms(3,4)
proof (induction "length p - pt" arbitrary: pt j)
  case 0
  then have "pt = length p" by simp
  then show ?case by (subst compare_rest.simps) (simp add: nth_append ascii_def)
next
  case (Suc n)
  have pt: "pt < length p" and j: "j < length s" using Suc.hyps(2) Suc.prems by auto
  have pn: "p ! pt \<noteq> 0" using assms(1) nth_mem [OF pt] by (metis cstring_def)
  have sn: "s ! j \<noteq> 0" using assms(2) nth_mem [OF j] by (metis cstring_def)
  have d: "take (length p - pt) (drop j s) = s ! j # take (length p - (pt + 1)) (drop (j + 1) s)" "drop pt p = p ! pt # drop (pt + 1) p"
    using pt j by (simp_all add: Cons_nth_drop_Suc [symmetric] take_Cons' Suc_diff_Suc)
  have "compare_rest (p @ [0]) (pt + 1) (s @ [0]) (j + 1) = Some (if map charmap (take (length p - (pt + 1)) (drop (j + 1) s)) = drop (pt + 1) p \<and> ascii (drop (pt + 1) p)
      then Rest_Matches else Rest_Differs)"
    using Suc.hyps Suc.prems pt by (intro Suc.hyps(1)) auto
  then show ?case
    unfolding d using pt j pn sn by (subst compare_rest.simps) (auto simp: byte_at_def nth_append same_char_iff ascii_def)
qed

lemma ex_from: "(\<exists>k. i \<le> k \<and> Q k) \<longleftrightarrow> Q i \<or> (\<exists>k. Suc i \<le> k \<and> Q k)" for i :: nat
  by (metis Suc_leD Suc_leI le_eq_less_or_eq)

lemma search_from_result:
  assumes "cstring p" "cstring s" "p \<noteq> []" "lim + length p = length s" "i \<le> lim"
  shows "search_from (p @ [0]) (s @ [0]) lim i = Some (ascii p \<and> (\<exists>k. i \<le> k \<and> k \<le> lim \<and> map charmap (take (length p) (drop k s)) = p))"
  using assms(5)
proof (induction "lim - i" arbitrary: i rule: less_induct)
  case less
  obtain c cs where p: "p = c # cs" using assms(3) by (cases p) auto
  have i: "i < length s" using less.prems assms(4) p by simp
  have hit: "map charmap (take (length p) (drop i s)) = p \<and> ascii p \<longleftrightarrow> same_char (charmap (s ! i)) c \<and> map charmap (take (length p - 1) (drop (i + 1) s)) = cs \<and> ascii cs"
    using i p by (auto simp: same_char_iff ascii_def Cons_nth_drop_Suc [symmetric])
  have r: "compare_rest (p @ [0]) 1 (s @ [0]) (i + 1) =
      Some (if map charmap (take (length p - 1) (drop (i + 1) s)) = cs \<and> ascii cs then Rest_Matches else Rest_Differs)"
    using compare_rest_result [OF assms(1,2), of 1 "i + 1"] assms(4) less.prems p by simp
  have step: "search_from (p @ [0]) (s @ [0]) lim i =
      (if map charmap (take (length p) (drop i s)) = p \<and> ascii p then Some True
       else if i + 1 \<le> lim then search_from (p @ [0]) (s @ [0]) lim (i + 1) else Some False)"
    unfolding hit using i p r by (subst search_from.simps) (auto simp: byte_at_def nth_append)
  have split: "(\<exists>k. i \<le> k \<and> k \<le> lim \<and> map charmap (take (length p) (drop k s)) = p) \<longleftrightarrow>
      map charmap (take (length p) (drop i s)) = p \<or> (\<exists>k. i + 1 \<le> k \<and> k \<le> lim \<and> map charmap (take (length p) (drop k s)) = p)"
    using less.prems ex_from [of i "\<lambda>k. k \<le> lim \<and> map charmap (take (length p) (drop k s)) = p"] by auto
  show ?case
  proof (cases "i + 1 \<le> lim")
    case True
    with less.hyps [of "i + 1"] step split show ?thesis by auto
  next
    case False
    with step split show ?thesis by auto
  qed
qed

section \<open>Each alternative\<close>

lemma alternative_matches_lower: "alternative_matches (map charmap s) t = alternative_matches s t"
proof -
  have e: "at_front (map charmap s) = at_front s" "at_end (map charmap s) = at_end s"
    by (auto simp: at_front_def at_end_def hd_map last_map)
  then have "inner_text (map charmap s) = map charmap (inner_text s)"
    by (simp add: inner_text_def Let_def map_butlast map_tl)
  with e show ?thesis by (simp add: alternative_matches_def)
qed

lemma alternative_found_lower: "alternative_found (map charmap s) t = alternative_found s t"
  by (auto simp: alternative_found_def alternative_matches_lower at_front_def at_end_def hd_map last_map)

lemma infix_iff:
  "(\<exists>pre post. xs = pre @ p @ post) \<longleftrightarrow> length p \<le> length xs \<and> (\<exists>k. k \<le> length xs - length p \<and> take (length p) (drop k xs) = p)"
proof
  assume "\<exists>pre post. xs = pre @ p @ post"
  then obtain pre post where "xs = pre @ p @ post" by blast
  then show "length p \<le> length xs \<and> (\<exists>k. k \<le> length xs - length p \<and> take (length p) (drop k xs) = p)"
    by (intro conjI exI [of _ "length pre"]) simp_all
next
  assume "length p \<le> length xs \<and> (\<exists>k. k \<le> length xs - length p \<and> take (length p) (drop k xs) = p)"
  then obtain k where k: "take (length p) (drop k xs) = p" by blast
  have "xs = take k xs @ p @ drop (length p) (drop k xs)" using append_take_drop_id [of "length p" "drop k xs"] k by simp
  then show "\<exists>pre post. xs = pre @ p @ post" by blast
qed

lemma set_inner_text: "set (inner_text s) \<subseteq> set s"
proof -
  have "set (tl xs) \<subseteq> set xs" "set (butlast xs) \<subseteq> set xs" for xs :: bytes
    by (cases xs, auto dest: in_set_butlastD)+
  then show ?thesis unfolding inner_text_def Let_def by (smt (verit) subset_refl subset_trans)
qed

lemma suffix_iff: "(\<exists>pre. xs = pre @ p) \<longleftrightarrow> length p \<le> length xs \<and> drop (length xs - length p) xs = p"
  by (metis append_take_drop_id diff_diff_cancel length_append length_drop le_add2 append_eq_conv_conj diff_add_inverse2)

lemma prefix_iff: "(\<exists>post. xs = p @ post) \<longleftrightarrow> take (length p) xs = p"
  by (metis append_take_drop_id append_eq_conv_conj)

lemma match_entry:
  assumes "cstring s" "cstring t" "map charmap s = s"
  shows "match_with (fst (entry_of s)) (fst (snd (entry_of s))) t (length t) (snd (snd (entry_of s))) = Some (alternative_found s t)"
proof -
  let ?i = "inner_text s"
  have low: "map charmap ?i = ?i" using assms(3) set_inner_text [of s] by (auto simp: lower_iff)
  consider "s = []" | "s \<noteq> []" "at_front s" "at_end s" | "s \<noteq> []" "\<not> at_front s" "at_end s"
    | "s \<noteq> []" "at_front s" "\<not> at_end s" | "s \<noteq> []" "\<not> at_front s" "\<not> at_end s" by blast
  then show ?thesis
  proof cases
    case 1
    then have "alternative_matches s t" unfolding alternative_matches_def
      by (intro exI [of _ "[]"] exI [of _ "map charmap t"]) (simp add: at_front_def at_end_def inner_text_def)
    with 1 have "alternative_found s t" by (simp add: alternative_found_def ascii_def)
    with 1 show ?thesis by (simp add: entry_of_def)
  next
    case 2
    then show ?thesis by (auto simp: entry_of_def alternative_found_def alternative_matches_def strcasecmp_eq_def Let_def low)
  next
    case 3
    have "alternative_matches s t \<longleftrightarrow> (\<exists>pre. map charmap t = pre @ ?i)" using 3 low by (auto simp: alternative_matches_def)
    also have "\<dots> \<longleftrightarrow> length ?i \<le> length t \<and> map charmap (drop (length t - length ?i) t) = ?i"
      unfolding suffix_iff by (simp add: drop_map)
    finally show ?thesis using 3 low by (auto simp: entry_of_def alternative_found_def strcasecmp_eq_def Let_def)
  next
    case 4
    have "alternative_matches s t \<longleftrightarrow> (\<exists>post. map charmap t = ?i @ post)" using 4 low by (auto simp: alternative_matches_def)
    also have "\<dots> \<longleftrightarrow> map charmap (take (length ?i) t) = ?i"
      unfolding prefix_iff by (simp add: take_map)
    finally show ?thesis using 4 low by (auto simp: entry_of_def alternative_found_def strncasecmp_eq_def Let_def)
  next
    case 5
    then have i: "?i = s" by (simp add: inner_text_def)
    have "alternative_matches s t \<longleftrightarrow> (\<exists>pre post. map charmap t = pre @ s @ post)" using 5 i assms(3) by (simp add: alternative_matches_def)
    also have "\<dots> \<longleftrightarrow> length s \<le> length t \<and> (\<exists>k. k \<le> length t - length s \<and> map charmap (take (length s) (drop k t)) = s)"
      unfolding infix_iff by (simp add: take_map drop_map)
    finally have "alternative_found s t \<longleftrightarrow> length s \<le> length t \<and> ascii s \<and> (\<exists>k. k \<le> length t - length s \<and> map charmap (take (length s) (drop k t)) = s)"
      using 5 by (auto simp: alternative_found_def)
    then show ?thesis
      using 5 i search_from_result [OF assms(1,2) 5(1), of "length t - length s" 0] by (auto simp: entry_of_def Let_def)
  qed
qed

section \<open>Compiled patterns\<close>

lemma execute_loop_result:
  assumes "filled (Suc k) (map entry_of ss) reg" "\<forall>s \<in> set ss. cstring s \<and> map charmap s = s" "cstring t" "i \<le> length ss"
  shows "execute_loop t (length t) reg i =
    Some (if (\<exists>s \<in> set (drop i ss). alternative_found s t) = om_negate reg then 0 else 1)"
  using assms(4)
proof (induction "length ss - i" arbitrary: i)
  case 0
  then have "i < length (om_patterns reg)" "om_patterns reg ! i = None" using assms(1) by (simp_all add: filled_def nth_append)
  with 0 show ?case by (subst execute_loop.simps) simp
next
  case (Suc n)
  then have i: "i < length ss" by simp
  let ?e = "entry_of (ss ! i)"
  have at: "i < length (om_patterns reg)" "i < length (om_match_fp reg)" "i < length (om_size reg)" "om_patterns reg ! i = Some (fst (snd ?e))"
    "om_match_fp reg ! i = Some (fst ?e)" "om_size reg ! i = snd (snd ?e)"
    using assms(1) i by (simp_all add: filled_def nth_append)
  have m: "match_with (fst ?e) (fst (snd ?e)) t (length t) (snd (snd ?e)) = Some (alternative_found (ss ! i) t)"
    using assms(2,3) i by (intro match_entry) auto
  have "execute_loop t (length t) reg (i + 1) =
      Some (if (\<exists>s \<in> set (drop (i + 1) ss). alternative_found s t) = om_negate reg then 0 else 1)"
    using Suc.hyps(2) i by (intro Suc.hyps(1)) simp_all
  then show ?case
    using at m i by (subst execute_loop.simps) (simp add: Cons_nth_drop_Suc [symmetric])
qed

lemma split_lower: "split_on OR_CHAR (map charmap p) = map (map charmap) (split_on OR_CHAR p)"
proof -
  have "split_on_from OR_CHAR (map charmap acc) (map charmap p) = map (map charmap) (split_on_from OR_CHAR acc p)" for acc
  proof (induction p arbitrary: acc)
    case (Cons c cs)
    from Cons.IH [of "[]"] Cons.IH [of "acc @ [c]"] show ?case by simp
  qed simp
  from this [of "[]"] show ?thesis by (simp add: split_on_def)
qed

lemma set_split: "s \<in> set (split_on c p) \<Longrightarrow> set s \<subseteq> set p"
proof -
  have "s \<in> set (split_on_from c acc p) \<Longrightarrow> set s \<subseteq> set acc \<union> set p" for acc
    by (induction p arbitrary: acc) (fastforce split: if_splits)+
  then show "s \<in> set (split_on c p) \<Longrightarrow> set s \<subseteq> set p" unfolding split_on_def by fastforce
qed

lemma length_split: "length (split_on_from c acc p) = length (filter (\<lambda>x. x = c) p) + 1"
  by (induction p arbitrary: acc) auto

lemma compile_result:
  assumes "cstring p" "length p \<le> OS_PATTERN_MAXSIZE" "roomy h"
    and "p1 = (if p \<noteq> [] \<and> hd p = 33 then tl p else p)" "q = (if cs then p1 else map charmap p1)"
  shows "\<exists>reg h'. OSMatch_Compile (Some p) cs h = Some (1, reg, h') \<and> roomy h' \<and>
    om_negate reg = (p \<noteq> [] \<and> hd p = 33) \<and> filled 1 (map entry_of (split_on OR_CHAR q)) reg"
proof -
  obtain o1 h1 where 1: "alloc h = (o1, h1)" by force
  obtain o2 h2 where 2: "alloc h1 = (o2, h2)" by force
  obtain o3 h3 where 3: "alloc h2 = (o3, h3)" by force
  obtain o4 h4 where 4: "alloc h3 = (o4, h4)" by force
  obtain o5 h5 where 5: "alloc h4 = (o5, h5)" by force
  have o: "o2" "o3" "o4" "o5" "roomy h5"
    using roomy_alloc [OF assms(3) 1] roomy_alloc [OF _ 2] roomy_alloc [OF _ 3] roomy_alloc [OF _ 4] roomy_alloc [OF _ 5] by auto
  let ?count = "length (filter (\<lambda>c. c = OR_CHAR) (q @ [0])) + 1"
  let ?reg = "om_init\<lparr>om_raw := (if o1 then Some p else None), om_negate := (p \<noteq> [] \<and> hd p = 33),
      om_patterns := replicate (?count + 1) None, om_size := replicate (?count + 1) 0, om_match_fp := replicate (?count + 1) None\<rparr>"
  have q: "cstring q"
  proof -
    have "cstring p1" using assms(1,4) by (cases p) auto
    then show ?thesis using assms(5) by (auto simp: cstring_def)
  qed
  have "filled (length (split_on_from OR_CHAR [] q) + 1) [] ?reg" by (simp add: filled_def length_split OR_CHAR_def)
  from compile_loop_entries [where seen = "[]" and todo = q and n = 0 and pre = "[]" and pt = 0 and mem = "q @ [0]"
      and i = 0 and h = h5, OF _ _ _ _ _ this] q o(5) obtain reg h6 where
    "compile_loop (q @ [0]) 0 0 0 ?reg h5 = Some (1, reg, h6)" "roomy h6" "om_negate reg = om_negate ?reg"
    "filled 1 (map entry_of (split_on_from OR_CHAR [] q)) reg" by auto
  moreover from this(1) have "OSMatch_Compile (Some p) cs h = Some (1, reg, h6)"
    unfolding OSMatch_Compile_def option.case Let_def 1 2 3 4 5 prod.case assms(4) [symmetric] assms(5) [symmetric]
    using o assms(2) by simp
  ultimately show ?thesis unfolding split_on_def by auto
qed

section \<open>Properties\<close>

lemma OS_Match2_result:
  assumes "cstring p" "cstring t" "roomy h"
  shows "\<exists>h'. OS_Match2 (Some p) t h = Some (if length p \<le> 20480 \<and> pattern_matches p t then 1 else 0, h')"
proof (cases "length p \<le> 20480")
  case True
  define p1 where "p1 = (if p \<noteq> [] \<and> hd p = 33 then tl p else p)"
  let ?ss = "split_on OR_CHAR (map charmap p1)"
  from compile_result [OF assms(1) _ assms(3) p1_def, of "map charmap p1" False] True obtain reg h' where
    c: "OSMatch_Compile (Some p) False h = Some (1, reg, h')" "om_negate reg = (p \<noteq> [] \<and> hd p = 33)"
      "filled 1 (map entry_of ?ss) reg" by (auto simp: OS_PATTERN_MAXSIZE_def)
  have p1: "cstring p1" using assms(1) unfolding p1_def by (cases p) auto
  have "cstring s \<and> map charmap s = s" if "s \<in> set ?ss" for s
    using set_split [OF that] p1 by (auto simp: cstring_def lower_iff)
  then have "execute_loop t (length t) reg 0 =
      Some (if (\<exists>s \<in> set ?ss. alternative_found s t) = om_negate reg then 0 else 1)"
    using execute_loop_result [of 0 ?ss reg t 0] c(3) assms(2) by simp
  moreover have "(\<exists>s \<in> set ?ss. alternative_found s t) \<longleftrightarrow> (\<exists>s \<in> set (split_on OR_CHAR p1). alternative_found s t)"
    unfolding split_lower by (simp add: alternative_found_lower)
  ultimately show ?thesis
    using c(1,2) True unfolding OS_Match2_def OSMatch_Execute_def pattern_matches_def p1_def by auto
next
  case False
  obtain ok h1 where "alloc h = (ok, h1)" by force
  with False show ?thesis by (simp add: OS_Match2_def OSMatch_Compile_def OS_PATTERN_MAXSIZE_def Let_def)
qed

text \<open>
  (C31) Simple patterns. \<open>OS_Match2\<close> never faults, and with memory available it answers 1 exactly when the
  pattern, of at most 20480 bytes, matches the string: one of the alternatives occurs in it, where its
  anchors want it and without regard to case, or none does and the pattern starts with \<open>!\<close>. A plain
  alternative with a byte from 128 on is never found, and a longer pattern matches nothing.
\<close>

theorem os_match2_decides:
  assumes "cstring p" "cstring t" "roomy h"
  shows "\<exists>h'. OS_Match2 (Some p) t h = Some (if length p \<le> 20480 \<and> pattern_matches p t then 1 else 0, h')"
  by (rule OS_Match2_result [OF assms])

lemma pattern_abc: "split_on OR_CHAR (asc ''^b|C$'') = [asc ''^b'', asc ''C$'']"
  by code_simp

theorem os_match2_decides_witness:
  "\<exists>h'. OS_Match2 (Some (asc ''^b|C$'')) (asc ''abc'') [] = Some (1, h')"
proof -
  have "alternative_matches (asc ''C$'') (asc ''abc'')"
    unfolding alternative_matches_def by (intro exI [of _ "asc ''ab''"] exI [of _ "[]"]) code_simp
  moreover have "at_end (asc ''C$'')" by code_simp
  ultimately have "alternative_found (asc ''C$'') (asc ''abc'')" by (simp only: alternative_found_def simp_thms)
  then have "pattern_matches (asc ''^b|C$'') (asc ''abc'')"
    unfolding pattern_matches_def pattern_abc by (simp add: asc_def of_char_def)
  then show ?thesis
    using os_match2_decides [of "asc ''^b|C$''" "asc ''abc''" "[]"] by (simp add: cstring_def asc_def of_char_def)
qed

text \<open>
  (C39) Case sensitive patterns. The flag \<open>OS_CASE_SENSITIVE\<close> keeps the letters of the pattern as they are, but the
  search compares them with the string in small letters: a plain pattern with a capital letter, compiled
  with this flag, matches no string, not even itself.
\<close>

theorem case_sensitive_never_matches:
  assumes "cstring p" "p \<noteq> []" "length p \<le> 20480" "roomy h" "cstring t"
    and "set p \<inter> {BEGINREGEX, ENDREGEX, OR_CHAR, 33} = {}" "c \<in> set p" "65 \<le> c" "c \<le> 90"
  shows "\<exists>reg h'. OSMatch_Compile (Some p) True h = Some (1, reg, h') \<and>
    OSMatch_Execute (Some t) (length t) (Some reg) = Some (0, Some reg)"
proof -
  have n: "\<not> (p \<noteq> [] \<and> hd p = 33)" using assms(2,6) by (cases p) auto
  have "p = (if p \<noteq> [] \<and> hd p = 33 then tl p else p)" unfolding if_not_P [OF n] ..
  from compile_result [OF assms(1) _ assms(4) this, of p True] assms(3) n obtain reg h' where
    r: "OSMatch_Compile (Some p) True h = Some (1, reg, h')" "\<not> om_negate reg"
      "filled 1 (map entry_of (split_on OR_CHAR p)) reg" by (auto simp: OS_PATTERN_MAXSIZE_def)
  have s: "split_on OR_CHAR p = [p]" using assms(6) by (intro split_on_last) auto
  have "\<not> at_front p" "\<not> at_end p"
    using assms(6) hd_in_set [OF assms(2)] last_in_set [OF assms(2)] by (fastforce simp: at_front_def at_end_def)+
  then have e: "entry_of p = (OS_Match, p, length p)" using assms(2) by (simp add: entry_of_def inner_text_def)
  have "map charmap u \<noteq> p" for u
  proof
    assume "map charmap u = p"
    with assms(7) obtain d where "charmap d = c" by auto
    then have "charmap c = c" by auto
    then have "unat (charmap c) = unat c" by simp
    with assms(8,9) show False by (simp add: unat_charmap word_le_nat_alt split: if_splits)
  qed
  then have "match_with OS_Match p t (length t) (length p) = Some False"
    using search_from_result [OF assms(1,5,2), of "length t - length p" 0] by auto
  then have "execute_loop t (length t) reg 0 = Some 0"
    using r(2,3) e s by (subst execute_loop.simps) (simp add: filled_def, subst execute_loop.simps, simp)
  with r(1) show ?thesis by (auto simp: OSMatch_Execute_def)
qed

theorem case_sensitive_never_matches_witness:
  "\<exists>reg h'. OSMatch_Compile (Some (asc ''Temp'')) True [] = Some (1, reg, h') \<and>
    OSMatch_Execute (Some (asc ''Temp'')) (length (asc ''Temp'')) (Some reg) = Some (0, Some reg)"
  using case_sensitive_never_matches [of "asc ''Temp''" "[]" "asc ''Temp''" 84]
  by (simp add: cstring_def asc_def of_char_def BEGINREGEX_def ENDREGEX_def OR_CHAR_def)

end
