(* ===== verification/Os_Str_Thms.thy ===== *)
theory Os_Str_Thms
  imports Os_Str Os_Match_Thms
begin

text \<open>
  What the string helpers compute: \<open>OS_WordMatch\<close> agrees with the simple patterns on the patterns both
  accept, \<open>OS_StrBreak\<close> undoes joining with escaped separators, and the helpers for single strings.
\<close>

section \<open>Word lists\<close>

lemma window_fits:
  assumes "map charmap (take (length s) (drop k t)) = map charmap s"
  shows "length s \<le> length t - k"
  using arg_cong [OF assms, of length] by simp

lemma word_rest_result:
  assumes "mem = pre @ s @ x # post" "x \<notin> set s" "cstring t" "b = length pre" "pt \<le> length s" "j \<le> length t"
  shows "\<exists>r. word_rest x mem (b + pt) (t @ [0]) j = Some r \<and>
     (r = Rest_Matches \<longleftrightarrow> map charmap (take (length s - pt) (drop j t)) = map charmap (drop pt s)) \<and>
     (r = Rest_Ends \<longrightarrow> length t - j < length s - pt)"
  using assms(5,6)
proof (induction "length s - pt" arbitrary: pt j)
  case 0
  then have "pt = length s" by simp
  with assms(1,4) show ?case by (subst word_rest.simps) (simp add: nth_append)
next
  case (Suc n)
  then have pt: "pt < length s" by simp
  have at: "b + pt < length mem" "mem ! (b + pt) = s ! pt" "s ! pt \<noteq> x"
    using assms(1,2,4) pt nth_mem [OF pt] by (auto simp: nth_append)
  show ?case
  proof (cases "j < length t")
    case False
    then have "j = length t" using Suc.prems by simp
    then show ?thesis using at pt by (subst word_rest.simps) (simp add: byte_at_def)
  next
    case True
    then have tn: "t ! j \<noteq> 0" using assms(3) nth_mem [OF True] by (metis cstring_def)
    have d: "take (length s - pt) (drop j t) = t ! j # take (length s - (pt + 1)) (drop (j + 1) t)" "drop pt s = s ! pt # drop (pt + 1) s"
      using pt True by (simp_all add: Cons_nth_drop_Suc [symmetric] take_Cons' Suc_diff_Suc)
    have "\<exists>r. word_rest x mem (b + (pt + 1)) (t @ [0]) (j + 1) = Some r \<and>
        (r = Rest_Matches \<longleftrightarrow> map charmap (take (length s - (pt + 1)) (drop (j + 1) t)) = map charmap (drop (pt + 1) s)) \<and>
        (r = Rest_Ends \<longrightarrow> length t - (j + 1) < length s - (pt + 1))"
      using Suc.hyps(2) pt True by (intro Suc.hyps(1)) auto
    then obtain r where
      r: "word_rest x mem (b + (pt + 1)) (t @ [0]) (j + 1) = Some r"
        "r = Rest_Matches \<longleftrightarrow> map charmap (take (length s - (pt + 1)) (drop (j + 1) t)) = map charmap (drop (pt + 1) s)"
        "r = Rest_Ends \<longrightarrow> length t - (j + 1) < length s - (pt + 1)" by blast
    have "word_rest x mem (b + pt) (t @ [0]) j = (if charmap (s ! pt) \<noteq> charmap (t ! j) then Some Rest_Differs else Some r)"
      using at pt True tn r(1) by (subst word_rest.simps) (simp add: byte_at_def nth_append)
    then show ?thesis unfolding d using r(2,3) pt True by auto
  qed
qed

lemma word_search_result:
  assumes "mem = pre @ s @ x # post" "x \<notin> set s" "cstring t" "b = length pre" "s \<noteq> []" "i < length t"
  shows "word_search x mem b (t @ [0]) i = Some (\<exists>k. i \<le> k \<and> map charmap (take (length s) (drop k t)) = map charmap s)"
  using assms(6)
proof (induction "length t - i" arbitrary: i rule: less_induct)
  case less
  obtain c cs where s: "s = c # cs" using assms(5) by (cases s) auto
  have at: "byte_at mem b = Some c" "(t @ [0]) ! i = t ! i" using assms(1,4) s less.prems by (simp_all add: byte_at_def nth_append)
  have hit: "map charmap (take (length s) (drop i t)) = map charmap s \<longleftrightarrow>
      charmap (t ! i) = charmap c \<and> map charmap (take (length s - 1) (drop (i + 1) t)) = map charmap (drop 1 s)"
    using less.prems s by (simp add: Cons_nth_drop_Suc [symmetric])
  obtain r where r: "word_rest x mem (b + 1) (t @ [0]) (i + 1) = Some r"
      "r = Rest_Matches \<longleftrightarrow> map charmap (take (length s - 1) (drop (i + 1) t)) = map charmap (drop 1 s)"
      "r = Rest_Ends \<longrightarrow> length t - (i + 1) < length s - 1"
    using word_rest_result [OF assms(1-4), of 1 "i + 1"] less.prems s by auto
  have next': "byte_at (t @ [0]) (i + 1) = Some (if i + 1 < length t then t ! (i + 1) else 0)"
    using less.prems by (auto simp: byte_at_def nth_append)
  have nz: "i + 1 < length t \<Longrightarrow> t ! (i + 1) \<noteq> 0" using assms(3) by (metis cstring_def nth_mem)
  let ?go = "if i + 1 < length t then word_search x mem b (t @ [0]) (i + 1) else Some False"
  have step: "word_search x mem b (t @ [0]) i =
      (case (if charmap (t ! i) = charmap c then r else Rest_Differs) of
         Rest_Matches \<Rightarrow> Some True | Rest_Ends \<Rightarrow> Some False | Rest_Differs \<Rightarrow> ?go)"
    using less.prems at r(1) next' nz by (subst word_search.simps) (auto split: match_rest.splits)
  have rest: "?go = Some (\<exists>k. Suc i \<le> k \<and> map charmap (take (length s) (drop k t)) = map charmap s)"
  proof (cases "i + 1 < length t")
    case True
    with less.hyps [of "i + 1"] show ?thesis by simp
  next
    case False
    have "map charmap (take (length s) (drop k t)) \<noteq> map charmap s" if "Suc i \<le> k" for k
      using window_fits [of s k t] that False s by auto
    with False show ?thesis by auto
  qed
  have short: "map charmap (take (length s) (drop k t)) \<noteq> map charmap s" if "r = Rest_Ends" "i \<le> k" for k
    using window_fits [of s k t] that r(3) s by auto
  have split: "(\<exists>k. i \<le> k \<and> map charmap (take (length s) (drop k t)) = map charmap s) \<longleftrightarrow>
      map charmap (take (length s) (drop i t)) = map charmap s \<or> (\<exists>k. Suc i \<le> k \<and> map charmap (take (length s) (drop k t)) = map charmap s)"
    by (rule ex_from)
  show ?case
    unfolding step rest using split hit r(2) short by (cases r) auto
qed

lemma InternalMatch_result:
  assumes "mem = pre @ s @ x # post" "x \<notin> set s" "0 \<in> set (x # post)" "cstring s" "cstring t" "s \<noteq> []" "\<not> at_end s"
  shows "InternalMatch mem (length pre) (Some t) (length s) = Some (alternative_matches s t)"
proof -
  obtain c cs where s: "s = c # cs" using assms(6) by (cases s) auto
  have at: "byte_at mem (length pre + length s) = Some x" "byte_at mem (length pre) = Some c" "c \<noteq> 0"
    using assms(1,4) s by (simp_all add: byte_at_def nth_append)
  show ?thesis
  proof (cases "c = BEGINREGEX")
    case True
    have i: "inner_text s = cs" "at_front s" using assms(7) s True by (simp_all add: inner_text_def at_front_def)
    have d: "drop (length pre + 1) mem = cs @ x # post" using assms(1) s by simp
    obtain rest where r: "string_at mem (length pre + 1) = Some rest" "take (length cs) rest = cs"
    proof -
      have "takeWhile (\<lambda>c. c \<noteq> 0) (cs @ x # post) = cs @ takeWhile (\<lambda>c. c \<noteq> 0) (x # post)"
        using assms(4) s by (intro takeWhile_append2) (auto simp: cstring_def)
      then show ?thesis using that assms(3) unfolding string_at_def d by auto
    qed
    have "alternative_matches s t \<longleftrightarrow> (\<exists>post. map charmap t = map charmap cs @ post)"
      using i assms(7) by (auto simp: alternative_matches_def)
    also have "\<dots> \<longleftrightarrow> map charmap (take (length cs) t) = map charmap cs" unfolding prefix_iff by (simp add: take_map)
    finally show ?thesis
      using at r True s by (auto simp: InternalMatch_def strncasecmp_eq_def)
  next
    case False
    have i: "inner_text s = s" "\<not> at_front s" using assms(7) s False by (simp_all add: inner_text_def at_front_def)
    have "alternative_matches s t \<longleftrightarrow> (\<exists>pre post. map charmap t = pre @ map charmap s @ post)"
      using i assms(7) by (simp add: alternative_matches_def)
    also have "\<dots> \<longleftrightarrow> (\<exists>k. 0 \<le> k \<and> map charmap (take (length s) (drop k t)) = map charmap s)" (is "?L \<longleftrightarrow> ?R")
    proof
      assume ?L
      then show ?R unfolding infix_iff by (auto simp: take_map drop_map)
    next
      assume ?R
      then obtain k where k: "map charmap (take (length s) (drop k t)) = map charmap s" by blast
      note l = window_fits [OF k]
      show ?L unfolding infix_iff
        by (intro conjI exI [of _ k]) (use k l s in \<open>simp_all add: take_map drop_map\<close>)
    qed
    finally have am: "alternative_matches s t \<longleftrightarrow> (\<exists>k. 0 \<le> k \<and> map charmap (take (length s) (drop k t)) = map charmap s)" .
    show ?thesis
    proof (cases "t = []")
      case True
      with at False am s show ?thesis by (simp add: InternalMatch_def)
    next
      case ne: False
      with at False am word_search_result [OF assms(1,2,5) refl assms(6), of 0] show ?thesis by (simp add: InternalMatch_def)
    qed
  qed
qed

lemma word_loop_result:
  assumes "mem = pre @ seen @ todo @ [0]" "todo \<noteq> []" "cstring (seen @ todo)" "OR_CHAR \<notin> set seen" "cstring t"
    and "\<forall>s \<in> set (split_on_from OR_CHAR seen todo). s \<noteq> [] \<and> \<not> at_end s"
  shows "word_loop mem (length pre) (length seen) (Some t) = Some (\<exists>s \<in> set (split_on_from OR_CHAR seen todo). alternative_matches s t)"
  using assms(1-4,6)
proof (induction todo arbitrary: pre seen)
  case (Cons c cs)
  have at: "length pre + length seen < length mem" "mem ! (length pre + length seen) = c"
    using Cons.prems(1) by (simp_all add: nth_append)
  have nx: "byte_at mem (length pre + length seen + 1) = Some (if cs = [] then 0 else hd cs)"
    using Cons.prems(1) by (cases cs) (simp_all add: byte_at_def nth_append)
  have nz: "cs \<noteq> [] \<Longrightarrow> hd cs \<noteq> 0" using Cons.prems(3) by (cases cs) auto
  show ?case
  proof (cases "c = OR_CHAR")
    case True
    have "\<forall>s \<in> set (split_on_from OR_CHAR [] cs). s \<noteq> [] \<and> \<not> at_end s" and s: "seen \<noteq> []" "\<not> at_end seen"
      using Cons.prems(5) True by simp_all
    then have cs: "cs \<noteq> []" by auto
    have im: "InternalMatch mem (length pre) (Some t) (length seen) = Some (alternative_matches seen t)"
      using InternalMatch_result [of mem pre seen OR_CHAR "cs @ [0]" t] Cons.prems True s assms(5) by simp
    have "word_loop mem (length (pre @ seen @ [c])) (length ([] :: bytes)) (Some t) =
        Some (\<exists>s \<in> set (split_on_from OR_CHAR [] cs). alternative_matches s t)"
      using Cons.prems cs True by (intro Cons.IH) simp_all
    then show ?thesis
      using at nx nz cs True im by (subst word_loop.simps) (simp add: add.assoc)
  next
    case False
    show ?thesis
    proof (cases "cs = []")
      case True
      have "InternalMatch mem (length pre) (Some t) (length (seen @ [c])) = Some (alternative_matches (seen @ [c]) t)"
        using Cons.prems True False assms(5) by (intro InternalMatch_result [of _ _ _ 0 "[]"]) (auto simp: cstring_def)
      then show ?thesis
        using at nx True False by (subst word_loop.simps) simp
    next
      case ne: False
      have "word_loop mem (length pre) (length (seen @ [c])) (Some t) =
          Some (\<exists>s \<in> set (split_on_from OR_CHAR (seen @ [c]) cs). alternative_matches s t)"
        using Cons.prems ne False by (intro Cons.IH) simp_all
      then show ?thesis
        using at nx nz ne False by (subst word_loop.simps) simp
    qed
  qed
qed simp

section \<open>Breaking strings\<close>

text \<open>What \<open>OS_StrBreak\<close> computes: at most \<open>k\<close> pieces, the last one uncut.\<close>

fun pieces :: "byte \<Rightarrow> nat \<Rightarrow> bytes \<Rightarrow> bytes \<Rightarrow> bytes list" where
  "pieces m k acc [] = [acc]"
| "pieces m k acc (c # cs) =
     (if c = m \<and> 1 < k then
        if acc \<noteq> [] \<and> last acc = 92 then pieces m k (butlast acc @ [c]) cs
        else acc # pieces m (k - 1) [] cs
      else pieces m k (acc @ [c]) cs)"

lemma pieces_bounded: "0 < k \<Longrightarrow> 0 < length (pieces m k acc s) \<and> length (pieces m k acc s) \<le> k"
  by (induction m k acc s rule: pieces.induct) auto

lemma break_loop_pieces:
  assumes "m \<noteq> 92" "n = length got + k" "0 < k" "roomy h" "s = pre @ acc @ cs" "tmp = length pre" "i = length acc"
    and "if acc = [] then (ant = None \<or> (\<exists>p. pre = p @ [m] \<and> ant = Some (length p))) else ant = Some (tmp + i - 1)"
    and "ret = map Some got @ replicate (k + 1) None"
  shows "\<exists>h'. break_loop m n s tmp i ant (length got) ret h =
     Some (Some (map Some (got @ pieces m k acc cs) @ replicate (k + 1 - length (pieces m k acc cs)) None), h') \<and> roomy h'"
  using assms(2-9)
proof (induction cs arbitrary: got k h s pre acc tmp i ant ret)
  case Nil
  obtain ok h1 where al: "alloc h = (ok, h1)" by force
  then have r: "ok" "roomy h1" using roomy_alloc [OF Nil.prems(3)] by auto
  have "ret[length got := Some acc, length got + 1 := None] = map Some (got @ [acc]) @ replicate k None"
    using Nil.prems(2,8) by (cases k) (simp_all add: list_update_append)
  then show ?case using Nil.prems al r by (subst break_loop.simps) (simp add: Let_def)
next
  case (Cons c cs)
  have at: "tmp + i < length s" "s ! (tmp + i) = c" using Cons.prems(4-6) by (simp_all add: nth_append)
  have lim: "length got < piece_limit n \<longleftrightarrow> 1 < k" using Cons.prems(1,2) by (auto simp: piece_limit_def)
  have esc: "(if length got < piece_limit n \<and> s ! (tmp + i) = m
             then (case ant of None \<Rightarrow> Some False | Some a \<Rightarrow> map_option (\<lambda>c. c = 92) (byte_at s a)) else Some False) =
      Some (c = m \<and> 1 < k \<and> acc \<noteq> [] \<and> last acc = 92)"
  proof (cases "acc = []")
    case True
    with Cons.prems(4-7) assms(1) show ?thesis unfolding lim at(2) by (auto simp: byte_at_def nth_append)
  next
    case False
    then obtain a l where "acc = a @ [l]" by (metis append_butlast_last_id)
    then have "byte_at s (tmp + i - 1) = Some (last acc)"
      using Cons.prems(4-6) by (simp add: byte_at_def nth_append)
    with False Cons.prems(7) show ?thesis unfolding lim at(2) by simp
  qed
  consider "c = m" "1 < k" "acc \<noteq> []" "last acc = 92" | "c = m" "1 < k" "acc = [] \<or> last acc \<noteq> 92" | "\<not> (c = m \<and> 1 < k)" by blast
  then show ?case
  proof cases
    case 1
    obtain ok h1 where al: "alloc h = (ok, h1)" by force
    then have r: "ok" "roomy h1" using roomy_alloc [OF Cons.prems(3)] by auto
    obtain a where a: "acc = a @ [92]" using 1(3,4) by (metis append_butlast_last_id)
    have s': "take (tmp + i - 1) s @ drop (tmp + i) s = pre @ (a @ [c]) @ cs"
      using Cons.prems(4-6) a by simp
    have "break_loop m n s tmp i ant (length got) ret h =
        break_loop m n (take (tmp + i - 1) s @ drop (tmp + i) s) tmp i (Some (tmp + i - 1)) (length got) ret h1"
      using at esc 1 al r Cons.prems(6) a by (subst break_loop.simps) (simp add: Let_def)
    moreover have "\<exists>h'. break_loop m n (take (tmp + i - 1) s @ drop (tmp + i) s) tmp i (Some (tmp + i - 1)) (length got) ret h1 =
       Some (Some (map Some (got @ pieces m k (a @ [c]) cs) @ replicate (k + 1 - length (pieces m k (a @ [c]) cs)) None), h') \<and> roomy h'"
      by (rule Cons.IH [OF Cons.prems(1,2) r(2) s' Cons.prems(5)]) (use Cons.prems(6,8) a in simp_all)
    ultimately show ?thesis using 1 a by simp
  next
    case 2
    obtain ok h1 where al: "alloc h = (ok, h1)" by force
    then have r: "ok" "roomy h1" using roomy_alloc [OF Cons.prems(3)] by auto
    have t: "take i (drop tmp s) = acc" using Cons.prems(4-6) by simp
    let ?ret = "ret[length got := Some acc]"
    have ret': "?ret = map Some (got @ [acc]) @ replicate (k - 1 + 1) None" using Cons.prems(8) 2(2) by (simp add: list_update_append)
    have "break_loop m n s tmp i ant (length got) ret h =
        break_loop m n s (tmp + i + 1) 0 (Some (tmp + i)) (length (got @ [acc])) ?ret h1"
      using at esc 2 al r t lim Cons.prems(2,8) by (subst break_loop.simps) (auto simp: Let_def)
    moreover have "\<exists>h'. break_loop m n s (tmp + i + 1) 0 (Some (tmp + i)) (length (got @ [acc])) ?ret h1 =
       Some (Some (map Some ((got @ [acc]) @ pieces m (k - 1) [] cs) @ replicate (k - 1 + 1 - length (pieces m (k - 1) [] cs)) None), h') \<and> roomy h'"
      by (rule Cons.IH [of _ _ _ _ "pre @ acc @ [c]"]) (use Cons.prems(1,4-6) 2 r(2) ret' in auto)
    ultimately show ?thesis using 2 by auto
  next
    case 3
    have "break_loop m n s tmp i ant (length got) ret h = break_loop m n s tmp (i + 1) (Some (tmp + i)) (length got) ret h"
      using at esc 3 lim by (subst break_loop.simps) auto
    moreover have "\<exists>h'. break_loop m n s tmp (i + 1) (Some (tmp + i)) (length got) ret h =
       Some (Some (map Some (got @ pieces m k (acc @ [c]) cs) @ replicate (k + 1 - length (pieces m k (acc @ [c]) cs)) None), h') \<and> roomy h'"
      by (rule Cons.IH [of _ _ _ _ pre]) (use Cons.prems in simp_all)
    ultimately show ?thesis using 3 by auto
  qed
qed

text \<open>Escaping puts a backslash in front of every separator.\<close>

definition escape :: "byte \<Rightarrow> bytes \<Rightarrow> bytes" where
  "escape m p = concat (map (\<lambda>c. if c = m then [92, c] else [c]) p)"

lemma pieces_escape:
  assumes "1 < k" "m \<noteq> 92"
  shows "pieces m k acc (escape m p @ rest) = pieces m k (acc @ p) rest"
proof (induction p arbitrary: acc)
  case (Cons c p)
  from Cons.IH [of "acc @ [c]"] assms show ?case by (auto simp: escape_def)
qed (simp add: escape_def)

lemma pieces_join:
  assumes "m \<noteq> 92" "ps \<noteq> []" "length ps < k" "\<forall>p \<in> set ps. p = [] \<or> last p \<noteq> 92"
  shows "pieces m k [] (join_with m (map (escape m) ps)) = ps"
  using assms(2-4)
proof (induction ps arbitrary: k rule: induct_list012)
  case (2 p)
  then show ?case using pieces_escape [of k m "[]" p "[]"] assms(1) by simp
next
  case (3 p q ps)
  have "pieces m k [] (join_with m (map (escape m) (p # q # ps))) = p # pieces m (k - 1) [] (join_with m (map (escape m) (q # ps)))"
    using 3(4,5) pieces_escape [of k m "[]" p "m # join_with m (map (escape m) (q # ps))"] assms(1) by auto
  with 3(2) [of "k - 1"] 3(4,5) show ?case by simp
qed simp

lemma OS_StrBreak_pieces:
  assumes "m \<noteq> 92" "0 < n" "roomy h"
  shows "\<exists>h'. OS_StrBreak m (Some s) n h =
     Some (Some (map Some (pieces m n [] s) @ replicate (n + 1 - length (pieces m n [] s)) None), h') \<and> roomy h'"
proof -
  obtain o1 h1 where 1: "alloc h = (o1, h1)" by force
  obtain o2 h2 where 2: "alloc h1 = (o2, h2)" by force
  have r: "o1" "o2" "roomy h2" using roomy_alloc [OF assms(3) 1] roomy_alloc [OF _ 2] by auto
  from break_loop_pieces [OF assms(1) _ assms(2) r(3), of n "[]" s "[]" "[]" s 0 0 None "replicate (n + 1) None"] obtain h' where
    "break_loop m n s 0 0 None 0 (replicate (n + 1) None) h2 =
       Some (Some (map Some (pieces m n [] s) @ replicate (n + 1 - length (pieces m n [] s)) None), h')" "roomy h'" by auto
  then show ?thesis unfolding OS_StrBreak_def option.case Let_def 1 2 prod.case using r by simp
qed

section \<open>Single strings\<close>

lemma starts_with_result:
  assumes "cstring p" "cstring s" "i \<le> length p" "i \<le> length s"
  shows "starts_with (s @ [0]) i (p @ [0]) = Some (take (length p - i) (drop i s) = drop i p)"
  using assms(3,4)
proof (induction "length p - i" arbitrary: i)
  case 0
  then have "i = length p" by simp
  then show ?case by (subst starts_with.simps) simp
next
  case (Suc n)
  then have i: "i < length p" by simp
  have pn: "p ! i \<noteq> 0" using assms(1) nth_mem [OF i] by (metis cstring_def)
  show ?case
  proof (cases "i < length s")
    case False
    then have "i = length s" using Suc.prems by simp
    with i pn show ?thesis by (subst starts_with.simps) (auto simp: byte_at_def nth_append)
  next
    case True
    have "starts_with (s @ [0]) (i + 1) (p @ [0]) = Some (take (length p - (i + 1)) (drop (i + 1) s) = drop (i + 1) p)"
      using Suc.hyps(2) i True by (intro Suc.hyps(1)) auto
    moreover have "take (length p - i) (drop i s) = s ! i # take (length p - (i + 1)) (drop (i + 1) s)" "drop i p = p ! i # drop (i + 1) p"
      using i True by (simp_all add: Cons_nth_drop_Suc [symmetric] take_Cons' Suc_diff_Suc)
    ultimately show ?thesis using i True pn by (subst starts_with.simps) (auto simp: byte_at_def nth_append)
  qed
qed

fun common_prefix :: "bytes \<Rightarrow> bytes \<Rightarrow> nat" where
  "common_prefix (a # as) (b # bs) = (if a = b then Suc (common_prefix as bs) else 0)"
| "common_prefix _ _ = 0"

lemma common_from_result:
  assumes "cstring (a # as)" "cstring (b # bs)" "length pre = length pre'"
  shows "common_from (pre @ a # as @ [0]) (pre' @ b # bs @ [0]) (length pre) = Some (length pre + common_prefix (a # as) (b # bs))"
  using assms
proof (induction as bs arbitrary: a b pre pre' rule: list_induct2')
  case (4 a' as b' bs)
  have "common_from ((pre @ [a]) @ a' # as @ [0]) ((pre' @ [b]) @ b' # bs @ [0]) (length (pre @ [a])) =
      Some (length (pre @ [a]) + common_prefix (a' # as) (b' # bs))"
    using "4.prems" by (intro "4.IH") simp_all
  then show ?case using "4.prems" by (subst common_from.simps) (auto simp: byte_at_def nth_append)
qed ((subst common_from.simps), force simp: byte_at_def nth_append)+

section \<open>Properties\<close>

text \<open>
  (C32) Two matchers. \<open>OS_WordMatch\<close>, which works on the pattern as it is, and \<open>OS_Match2\<close>, which compiles a copy,
  agree on all patterns of bytes below 128 whose alternatives are not empty and not anchored at the end and
  that are not negated; neither faults.
\<close>

theorem word_match_agrees:
  assumes "cstring p" "cstring t" "roomy h" "length p \<le> 20480" "hd p \<noteq> 33" "ascii p"
    and "\<forall>s \<in> set (split_on OR_CHAR p). s \<noteq> [] \<and> \<not> at_end s"
  shows "\<exists>b h'. OS_WordMatch p (Some t) = Some b \<and> OS_Match2 (Some p) t h = Some (if b then 1 else 0, h')"
proof -
  have ne: "p \<noteq> []" using assms(7) by (auto simp: split_on_def)
  have "OS_WordMatch p (Some t) = Some (\<exists>s \<in> set (split_on OR_CHAR p). alternative_matches s t)"
    using word_loop_result [of "p @ [0]" "[]" "[]" p t] assms(1,2,7) ne by (simp add: OS_WordMatch_def split_on_def)
  moreover have "pattern_matches p t \<longleftrightarrow> (\<exists>s \<in> set (split_on OR_CHAR p). alternative_matches s t)"
  proof -
    have "ascii s" if "s \<in> set (split_on OR_CHAR p)" for s
      using set_split [OF that] assms(6) by (auto simp: ascii_def)
    then show ?thesis using assms(5) by (auto simp: pattern_matches_def alternative_found_def)
  qed
  ultimately show ?thesis using OS_Match2_result [OF assms(1-3)] assms(4) by auto
qed

theorem word_match_agrees_witness:
  "\<exists>b h'. OS_WordMatch (asc ''^ab|D'') (Some (asc ''cd'')) = Some b \<and>
     OS_Match2 (Some (asc ''^ab|D'')) (asc ''cd'') [] = Some (if b then 1 else 0, h')"
proof -
  have "\<forall>s \<in> set (split_on OR_CHAR (asc ''^ab|D'')). s \<noteq> [] \<and> \<not> at_end s" by code_simp
  moreover have "cstring (asc ''^ab|D'')" "cstring (asc ''cd'')" "hd (asc ''^ab|D'') \<noteq> 33" "ascii (asc ''^ab|D'')"
    by (simp_all add: asc_def of_char_def ascii_def)
  ultimately show ?thesis using word_match_agrees [of "asc ''^ab|D''" "asc ''cd''" "[]"] by simp
qed

text \<open>
  Breaking undoes joining. When the pieces, fewer than the limit and none ending in a backslash, are joined
  with separators after escaping the separators in them, \<open>OS_StrBreak\<close> gives back the pieces, followed by the
  NULL entries of its array.
\<close>

theorem str_break_joined:
  assumes "m \<noteq> 92" "ps \<noteq> []" "length ps < n" "\<forall>p \<in> set ps. p = [] \<or> last p \<noteq> 92" "roomy h"
  shows "\<exists>h'. OS_StrBreak m (Some (join_with m (map (escape m) ps))) n h = Some (Some (map Some ps @ replicate (n + 1 - length ps) None), h')"
  using OS_StrBreak_pieces [OF assms(1) _ assms(5), of n "join_with m (map (escape m) ps)"] pieces_join [OF assms(1-4)] assms(3) by auto

theorem str_break_joined_witness:
  "\<exists>h'. OS_StrBreak 44 (Some (asc ''a'' @ [44] @ asc ''b'' @ [92, 44])) 4 [] = Some (Some ([Some (asc ''a''), Some (asc ''b'' @ [44])] @ replicate 3 None), h')"
proof -
  let ?ps = "[asc ''a'', asc ''b'' @ [44]]"
  have j: "join_with 44 (map (escape 44) ?ps) = asc ''a'' @ [44] @ asc ''b'' @ [92, 44]" by code_simp
  have c: "(44 :: byte) \<noteq> 92" "?ps \<noteq> []" "length ?ps < 4" "\<forall>p \<in> set ?ps. p = [] \<or> last p \<noteq> 92"
    by (simp_all add: asc_def of_char_def)
  show ?thesis using str_break_joined [OF c roomy_Nil] unfolding j by simp
qed

text \<open>
  \<open>OS_StrHowClosedMatch\<close> counts the common prefix of two strings, unless both are empty: then it reads
  behind their ends.
\<close>

theorem how_closed_result:
  assumes "cstring s" "cstring t"
  shows "OS_StrHowClosedMatch (Some s) (Some t) = (if s = [] \<and> t = [] then None else Some (common_prefix s t))"
proof (cases "s = [] \<or> t = []")
  case True
  then show ?thesis using assms
    by (cases s; cases t) (auto simp: OS_StrHowClosedMatch_def byte_at_def common_from.simps)
next
  case False
  then show ?thesis using assms common_from_result [of "hd s" "tl s" "hd t" "tl t" "[]" "[]"] by (cases s; cases t) (simp_all add: OS_StrHowClosedMatch_def)
qed

theorem starts_with_prefix:
  "cstring s \<Longrightarrow> cstring p \<Longrightarrow> OS_StrStartsWith s p = Some (take (length p) s = p)"
  using starts_with_result [of p s 0] by (simp add: OS_StrStartsWith_def)

end
