(* ===== verification/Linked_Queue.thy ===== *)
theory Linked_Queue
  imports Slot_Queue
begin

text \<open>
  The unbounded queue of the agent programs, \<^verbatim>\<open>agents/shared/queue_linked_op.c\<close>: a doubly linked list whose
  nodes the users keep pointers to, so that a node can be moved to the end of the queue.

  Nodes live in a store of their own; an address that was never given out, or whose node has been
  freed, has no entry, and using it is a fault (\<open>None\<close>). \<open>os_calloc\<close> ends the program when there is no
  memory, so a node is always obtained. Every function holds the mutex of the queue while it runs.
\<close>

section \<open>State\<close>

record 'a lq_node =
  nd_data :: "'a option"
  nd_next :: "nat option"
  nd_prev :: "nat option"

record 'a linked_queue =
  lq_nodes :: "nat \<Rightarrow> 'a lq_node option"
  lq_fresh :: nat
  lq_elements :: u32
  lq_first :: "nat option"
  lq_last :: "nat option"

definition linked_queue_init :: "'a linked_queue" where
  "linked_queue_init = \<lparr>lq_nodes = (\<lambda>n. None), lq_fresh = 0, lq_elements = 0, lq_first = None, lq_last = None\<rparr>"

section \<open>Operations\<close>

text \<open>A write through a node pointer.\<close>

definition node_write :: "nat \<Rightarrow> ('a lq_node \<Rightarrow> 'a lq_node) \<Rightarrow> 'a linked_queue \<Rightarrow> 'a linked_queue option" where
  "node_write n f q =
     (case lq_nodes q n of None \<Rightarrow> None | Some nd \<Rightarrow> Some (q\<lparr>lq_nodes := (lq_nodes q)(n \<mapsto> f nd)\<rparr>))"

definition linked_queue_append_node :: "'a linked_queue \<Rightarrow> nat \<Rightarrow> 'a linked_queue option" where
  "linked_queue_append_node q node =
     (case lq_first q of
        None \<Rightarrow> do {
          q1 \<leftarrow> node_write node (\<lambda>nd. nd\<lparr>nd_prev := None, nd_next := None\<rparr>) q;
          Some (q1\<lparr>lq_first := Some node, lq_last := Some node, lq_elements := lq_elements q1 + 1\<rparr>) }
      | Some f \<Rightarrow> do {
          l \<leftarrow> lq_last q;
          q1 \<leftarrow> node_write l (\<lambda>nd. nd\<lparr>nd_next := Some node\<rparr>) q;
          q2 \<leftarrow> node_write node (\<lambda>nd. nd\<lparr>nd_prev := Some l, nd_next := None\<rparr>) q1;
          Some (q2\<lparr>lq_last := Some node, lq_elements := lq_elements q2 + 1\<rparr>) })"

text \<open>\<open>linked_queue_push_ex\<close> is the same under the mutex. The result is the address of the node.\<close>

definition linked_queue_push :: "'a linked_queue \<Rightarrow> 'a option \<Rightarrow> (nat \<times> 'a linked_queue) option" where
  "linked_queue_push q d = do {
     let n = lq_fresh q;
     q1 \<leftarrow> linked_queue_append_node
       (q\<lparr>lq_nodes := (lq_nodes q)(n \<mapsto> \<lparr>nd_data = d, nd_next = None, nd_prev = None\<rparr>), lq_fresh := n + 1\<rparr>) n;
     Some (n, q1) }"

definition linked_queue_push_ex :: "'a linked_queue \<Rightarrow> 'a option \<Rightarrow> (nat \<times> 'a linked_queue) option" where
  "linked_queue_push_ex q d = linked_queue_push q d"

definition linked_queue_unlink_and_push_node :: "'a linked_queue \<Rightarrow> nat \<Rightarrow> 'a linked_queue option" where
  "linked_queue_unlink_and_push_node q node = do {
     nd \<leftarrow> lq_nodes q node;
     case nd_next nd of
       None \<Rightarrow> Some q
     | Some nx \<Rightarrow> do {
         q1 \<leftarrow> node_write nx (\<lambda>x. x\<lparr>nd_prev := nd_prev nd\<rparr>) q;
         q2 \<leftarrow> (case nd_prev nd of
                 Some pv \<Rightarrow> node_write pv (\<lambda>x. x\<lparr>nd_next := Some nx\<rparr>) q1
               | None \<Rightarrow> Some (q1\<lparr>lq_first := Some nx\<rparr>));
         q3 \<leftarrow> node_write node (\<lambda>x. x\<lparr>nd_prev := None, nd_next := None\<rparr>) q2;
         linked_queue_append_node (q3\<lparr>lq_elements := lq_elements q3 - 1\<rparr>) node } }"

definition linked_queue_pop_node :: "'a linked_queue \<Rightarrow> 'a linked_queue option" where
  "linked_queue_pop_node q = do {
     tmp \<leftarrow> lq_first q;
     nd \<leftarrow> lq_nodes q tmp;
     q1 \<leftarrow> (case nd_next nd of
             Some nx \<Rightarrow> node_write nx (\<lambda>x. x\<lparr>nd_prev := None\<rparr>) (q\<lparr>lq_first := Some nx\<rparr>)
           | None \<Rightarrow> Some (q\<lparr>lq_first := None, lq_last := None\<rparr>));
     Some (q1\<lparr>lq_elements := lq_elements q1 - 1, lq_nodes := (lq_nodes q1)(tmp := None)\<rparr>) }"

definition linked_queue_pop :: "'a linked_queue \<Rightarrow> ('a option \<times> 'a linked_queue) option" where
  "linked_queue_pop q =
     (case lq_first q of
        None \<Rightarrow> Some (None, q)
      | Some f \<Rightarrow> do {
          nd \<leftarrow> lq_nodes q f;
          q1 \<leftarrow> linked_queue_pop_node q;
          Some (nd_data nd, q1) })"

text \<open>One round of the loop of \<open>linked_queue_pop_ex\<close>: it returns an element, or sleeps.\<close>

definition linked_queue_pop_ex :: "'a linked_queue \<Rightarrow> ('a option, 'a linked_queue) blocking option" where
  "linked_queue_pop_ex q = do {
     (d, q1) \<leftarrow> linked_queue_pop q;
     Some (if d = None then Waits q1 else Returns d q1) }"

section \<open>The list behind the pointers\<close>

text \<open>
  A segment: the nodes \<open>ns\<close> in this order, the first with the back pointer \<open>p\<close>, the last with the forward
  pointer \<open>q\<close>.
\<close>

fun segment :: "(nat \<Rightarrow> 'a lq_node option) \<Rightarrow> nat option \<Rightarrow> nat list \<Rightarrow> nat option \<Rightarrow> bool" where
  "segment h p [] q = True"
| "segment h p (n # ns) q =
     (case h n of None \<Rightarrow> False
      | Some nd \<Rightarrow> nd_prev nd = p \<and> nd_next nd = (if ns = [] then q else Some (hd ns)) \<and> segment h (Some n) ns q)"

definition lq_ok :: "'a linked_queue \<Rightarrow> nat list \<Rightarrow> bool" where
  "lq_ok q ns \<longleftrightarrow> distinct ns \<and> segment (lq_nodes q) None ns None \<and>
     lq_first q = (if ns = [] then None else Some (hd ns)) \<and> lq_last q = (if ns = [] then None else Some (last ns)) \<and>
     lq_elements q = of_nat (length ns) \<and> (\<forall>n. lq_fresh q \<le> n \<longrightarrow> lq_nodes q n = None)"

definition lq_data :: "'a linked_queue \<Rightarrow> nat \<Rightarrow> 'a option" where
  "lq_data q n = (case lq_nodes q n of None \<Rightarrow> None | Some nd \<Rightarrow> nd_data nd)"

lemma segment_append:
  "segment h p (xs @ ys) q \<longleftrightarrow>
   segment h p xs (if ys = [] then q else Some (hd ys)) \<and> segment h (if xs = [] then p else Some (last xs)) ys q"
  by (induction xs arbitrary: p) (auto split: option.splits)

lemma segment_frame [simp]: "n \<notin> set ns \<Longrightarrow> segment (h(n := v)) p ns q = segment h p ns q"
  by (induction ns arbitrary: p) (auto split: option.splits)

lemma segment_nodes: "segment h p ns q \<Longrightarrow> n \<in> set ns \<Longrightarrow> h n \<noteq> None"
  by (induction ns arbitrary: p) (auto split: option.splits)

lemma linked_queue_init_ok [simp]: "lq_ok linked_queue_init []"
  by (simp add: lq_ok_def linked_queue_init_def)

lemma lq_ok_allocated: "lq_ok q ns \<Longrightarrow> n \<in> set ns \<Longrightarrow> n < lq_fresh q \<and> lq_nodes q n \<noteq> None"
  unfolding lq_ok_def using segment_nodes by (metis not_less)

text \<open>Appending a node that is in the store but not in the list.\<close>

lemma append_node_result:
  assumes "distinct ns" "segment (lq_nodes q) None ns None" "n \<notin> set ns" "lq_nodes q n = Some nd"
    and "lq_first q = (if ns = [] then None else Some (hd ns))" "lq_last q = (if ns = [] then None else Some (last ns))"
    and "lq_elements q = of_nat (length ns)" "\<forall>k. lq_fresh q \<le> k \<longrightarrow> lq_nodes q k = None"
  shows "\<exists>q'. linked_queue_append_node q n = Some q' \<and> lq_ok q' (ns @ [n]) \<and> lq_fresh q' = lq_fresh q \<and>
    (\<forall>k. lq_data q' k = lq_data q k)"
proof (cases ns rule: rev_cases)
  case Nil
  have "lq_fresh q > n" using assms(4,8) by (metis leI option.distinct(1))
  with Nil assms show ?thesis
    by (simp add: linked_queue_append_node_def node_write_def lq_ok_def lq_data_def)
next
  case (snoc xs l)
  have fr: "lq_fresh q > n" using assms(4,8) by (metis leI option.distinct(1))
  have "lq_nodes q l \<noteq> None" using assms(2) snoc segment_nodes by fastforce
  then obtain ld where l: "lq_nodes q l = Some ld" by blast
  have "lq_fresh q > l" using l assms(8) by (metis leI option.distinct(1))
  with fr assms l snoc show ?thesis
    by (auto simp: linked_queue_append_node_def node_write_def lq_ok_def lq_data_def segment_append hd_append)
qed

lemma push_result:
  assumes "lq_ok q ns"
  shows "\<exists>q'. linked_queue_push q d = Some (lq_fresh q, q') \<and> lq_ok q' (ns @ [lq_fresh q]) \<and>
    lq_data q' (lq_fresh q) = d \<and> (\<forall>k. k \<noteq> lq_fresh q \<longrightarrow> lq_data q' k = lq_data q k)"
proof -
  let ?n = "lq_fresh q"
  let ?q = "q\<lparr>lq_nodes := (lq_nodes q)(?n \<mapsto> \<lparr>nd_data = d, nd_next = None, nd_prev = None\<rparr>), lq_fresh := ?n + 1\<rparr>"
  have "?n \<notin> set ns" using lq_ok_allocated [OF assms] by blast
  then have "\<exists>q'. linked_queue_append_node ?q ?n = Some q' \<and> lq_ok q' (ns @ [?n]) \<and> lq_fresh q' = lq_fresh ?q \<and>
    (\<forall>k. lq_data q' k = lq_data ?q k)"
    using assms by (intro append_node_result) (auto simp: lq_ok_def)
  then show ?thesis by (auto simp: linked_queue_push_def lq_data_def)
qed

lemma pop_empty: "lq_ok q [] \<Longrightarrow> linked_queue_pop q = Some (None, q)"
  by (simp add: linked_queue_pop_def lq_ok_def)

lemma pop_result:
  assumes "lq_ok q (n # ns)"
  shows "\<exists>q'. linked_queue_pop q = Some (lq_data q n, q') \<and> lq_ok q' ns \<and> lq_fresh q' = lq_fresh q \<and>
    (\<forall>k. k \<noteq> n \<longrightarrow> lq_data q' k = lq_data q k) \<and> lq_nodes q' n = None"
proof -
  obtain nd where nd: "lq_nodes q n = Some nd" "nd_next nd = (if ns = [] then None else Some (hd ns))"
    using assms by (auto simp: lq_ok_def split: option.splits)
  show ?thesis
  proof (cases ns)
    case Nil
    with assms nd show ?thesis
      by (auto simp: linked_queue_pop_def linked_queue_pop_node_def lq_ok_def lq_data_def)
  next
    case (Cons m ms)
    obtain md where md: "lq_nodes q m = Some md" using assms Cons by (auto simp: lq_ok_def split: option.splits)
    with assms nd Cons show ?thesis
      by (auto simp: linked_queue_pop_def linked_queue_pop_node_def node_write_def lq_ok_def lq_data_def split: option.splits)
  qed
qed

lemma touch_result:
  assumes "lq_ok q (xs @ n # ys)"
  shows "\<exists>q'. linked_queue_unlink_and_push_node q n = Some q' \<and> lq_ok q' (xs @ ys @ [n]) \<and> lq_fresh q' = lq_fresh q \<and>
    (\<forall>k. lq_data q' k = lq_data q k)"
proof -
  obtain nd where nd: "lq_nodes q n = Some nd" "nd_next nd = (if ys = [] then None else Some (hd ys))"
    "nd_prev nd = (if xs = [] then None else Some (last xs))"
    using assms by (auto simp: lq_ok_def segment_append split: option.splits)
  show ?thesis
  proof (cases ys)
    case Nil
    with assms nd show ?thesis by (simp add: linked_queue_unlink_and_push_node_def)
  next
    case (Cons m ms)
    have dist: "distinct (xs @ m # ms)" "n \<notin> set (xs @ m # ms)" using assms Cons by (auto simp: lq_ok_def)
    obtain md where md: "lq_nodes q m = Some md" using assms Cons by (auto simp: lq_ok_def segment_append split: option.splits)
    have fr: "\<forall>k. lq_fresh q \<le> k \<longrightarrow> lq_nodes q k = None" "lq_fresh q > n" "lq_fresh q > m"
      using lq_ok_allocated [OF assms] Cons assms by (auto simp: lq_ok_def)
    show ?thesis
    proof (cases xs rule: rev_cases)
      case Nil
      let ?q = "q\<lparr>lq_first := Some m,
          lq_nodes := (lq_nodes q)(m \<mapsto> md\<lparr>nd_prev := None\<rparr>, n \<mapsto> nd\<lparr>nd_prev := None, nd_next := None\<rparr>), lq_elements := lq_elements q - 1\<rparr>"
      have "linked_queue_unlink_and_push_node q n = linked_queue_append_node ?q n"
        using nd md Nil Cons dist by (simp add: linked_queue_unlink_and_push_node_def node_write_def)
      moreover have "\<exists>q'. linked_queue_append_node ?q n = Some q' \<and> lq_ok q' ((m # ms) @ [n]) \<and> lq_fresh q' = lq_fresh ?q \<and>
          (\<forall>k. lq_data q' k = lq_data ?q k)"
        using assms nd md Nil Cons dist fr by (intro append_node_result) (auto simp: lq_ok_def split: option.splits)
      ultimately show ?thesis using nd md Nil Cons dist by (auto simp: lq_data_def)
    next
      case (snoc ws w)
      obtain wd where wd: "lq_nodes q w = Some wd" using assms snoc by (auto simp: lq_ok_def segment_append split: option.splits)
      have w: "lq_fresh q > w" using lq_ok_allocated [OF assms] snoc by simp
      let ?q = "q\<lparr>lq_nodes := (lq_nodes q)(m \<mapsto> md\<lparr>nd_prev := Some w\<rparr>, w \<mapsto> wd\<lparr>nd_next := Some m\<rparr>,
          n \<mapsto> nd\<lparr>nd_prev := None, nd_next := None\<rparr>), lq_elements := lq_elements q - 1\<rparr>"
      have "linked_queue_unlink_and_push_node q n = linked_queue_append_node ?q n"
        using nd md wd snoc Cons dist by (auto simp: linked_queue_unlink_and_push_node_def node_write_def)
      moreover have "\<exists>q'. linked_queue_append_node ?q n = Some q' \<and> lq_ok q' ((ws @ w # m # ms) @ [n]) \<and> lq_fresh q' = lq_fresh ?q \<and>
          (\<forall>k. lq_data q' k = lq_data ?q k)"
        using assms nd md wd snoc Cons dist fr w
        by (intro append_node_result) (auto simp: lq_ok_def segment_append hd_append split: option.splits)
      ultimately show ?thesis using nd md wd snoc Cons dist by (auto simp: lq_data_def)
    qed
  qed
qed

end
