(* ===== verification/Linked_Queue_Thms.thy ===== *)
theory Linked_Queue_Thms
  imports Linked_Queue
begin

text \<open>
  Sequences of calls on a linked queue against a list. The abstract queue holds pairs of a node and its
  data in the order they will leave; a push appends, a pop takes the first, and moving a node puts its
  pair at the end. A user may only move nodes that are still in the queue.
\<close>

datatype 'a lq_call = Push "'a option" | Pop | Touch nat

datatype 'a lq_result = Pushed nat | Popped "'a option" | Touched

definition lq_step :: "'a linked_queue \<Rightarrow> 'a lq_call \<Rightarrow> ('a lq_result \<times> 'a linked_queue) option" where
  "lq_step q c =
     (case c of
        Push d \<Rightarrow> map_option (\<lambda>(n, q'). (Pushed n, q')) (linked_queue_push q d)
      | Pop \<Rightarrow> map_option (\<lambda>(d, q'). (Popped d, q')) (linked_queue_pop q)
      | Touch n \<Rightarrow> map_option (\<lambda>q'. (Touched, q')) (linked_queue_unlink_and_push_node q n))"

fun lq_run :: "'a linked_queue \<Rightarrow> 'a lq_call list \<Rightarrow> ('a lq_result list \<times> 'a linked_queue) option" where
  "lq_run q [] = Some ([], q)"
| "lq_run q (c # cs) = do { (r, q1) \<leftarrow> lq_step q c; (rs, q2) \<leftarrow> lq_run q1 cs; Some (r # rs, q2) }"

type_synonym 'a lq_abs = "(nat \<times> 'a option) list"

fun abs_step :: "nat \<times> 'a lq_abs \<Rightarrow> 'a lq_call \<Rightarrow> 'a lq_result \<times> nat \<times> 'a lq_abs" where
  "abs_step (k, xs) (Push d) = (Pushed k, k + 1, xs @ [(k, d)])"
| "abs_step (k, xs) Pop = (case xs of [] \<Rightarrow> (Popped None, k, []) | (n, d) # ys \<Rightarrow> (Popped d, k, ys))"
| "abs_step (k, xs) (Touch n) =
     (Touched, k, filter (\<lambda>(m, d). m \<noteq> n) xs @ filter (\<lambda>(m, d). m = n) xs)"

fun abs_run :: "nat \<times> 'a lq_abs \<Rightarrow> 'a lq_call list \<Rightarrow> 'a lq_result list" where
  "abs_run s [] = []"
| "abs_run s (c # cs) = (let (r, s1) = abs_step s c in r # abs_run s1 cs)"

text \<open>The moves of a sequence concern nodes that are in the queue at that time.\<close>

fun moves_ok :: "nat \<times> 'a lq_abs \<Rightarrow> 'a lq_call list \<Rightarrow> bool" where
  "moves_ok s [] = True"
| "moves_ok s (c # cs) =
     ((case c of Touch n \<Rightarrow> n \<in> fst ` set (snd s) | _ \<Rightarrow> True) \<and> moves_ok (snd (abs_step s c)) cs)"

definition lq_abs :: "'a linked_queue \<Rightarrow> nat list \<Rightarrow> 'a lq_abs" where
  "lq_abs q ns = map (\<lambda>n. (n, lq_data q n)) ns"

lemma lq_abs_cong: "\<forall>k \<in> set ns. lq_data q' k = lq_data q k \<Longrightarrow> lq_abs q' ns = lq_abs q ns"
  by (simp add: lq_abs_def)

lemma lq_abs_move:
  assumes "distinct (xs @ n # ys)"
  shows "filter (\<lambda>(m, d). m \<noteq> n) (lq_abs q (xs @ n # ys)) @ filter (\<lambda>(m, d). m = n) (lq_abs q (xs @ n # ys)) =
    lq_abs q (xs @ ys @ [n])"
proof -
  have "filter (\<lambda>(m, d). m \<noteq> n) (lq_abs q zs) = lq_abs q zs" "filter (\<lambda>(m, d). m = n) (lq_abs q zs) = []"
    if "n \<notin> set zs" for zs
    using that by (induction zs) (auto simp: lq_abs_def)
  with assms show ?thesis by (simp add: lq_abs_def)
qed

lemma lq_step_refines:
  assumes "lq_ok q ns" "case c of Touch n \<Rightarrow> n \<in> set ns | _ \<Rightarrow> True"
  shows "\<exists>q' ns' r. lq_step q c = Some (r, q') \<and> lq_ok q' ns' \<and>
    abs_step (lq_fresh q, lq_abs q ns) c = (r, lq_fresh q', lq_abs q' ns')"
proof (cases c)
  case (Push d)
  from push_result [OF assms(1), of d] obtain q' where q: "linked_queue_push q d = Some (lq_fresh q, q')"
    "lq_ok q' (ns @ [lq_fresh q])" "lq_data q' (lq_fresh q) = d" "\<forall>k. k \<noteq> lq_fresh q \<longrightarrow> lq_data q' k = lq_data q k" by blast
  have "lq_fresh q \<notin> set ns" using lq_ok_allocated [OF assms(1)] by blast
  then have "lq_abs q' ns = lq_abs q ns" using q(4) by (intro lq_abs_cong) metis
  moreover have "lq_fresh q' = lq_fresh q + 1"
    using q(1) by (auto simp: linked_queue_push_def linked_queue_append_node_def node_write_def Let_def
        split: option.splits bind_splits)
  ultimately show ?thesis using q Push by (auto simp: lq_step_def lq_abs_def)
next
  case Pop
  show ?thesis
  proof (cases ns)
    case Nil
    with assms(1) Pop show ?thesis by (auto simp: lq_step_def pop_empty lq_abs_def)
  next
    case (Cons n ms)
    from pop_result [of q n ms] assms(1) Cons obtain q' where q: "linked_queue_pop q = Some (lq_data q n, q')" "lq_ok q' ms"
      "lq_fresh q' = lq_fresh q" "\<forall>k. k \<noteq> n \<longrightarrow> lq_data q' k = lq_data q k" by blast
    have "n \<notin> set ms" using assms(1) Cons by (simp add: lq_ok_def)
    then have "lq_abs q' ms = lq_abs q ms" using q(4) by (intro lq_abs_cong) metis
    with q Pop Cons show ?thesis by (auto simp: lq_step_def lq_abs_def)
  qed
next
  case (Touch n)
  then obtain xs ys where ns: "ns = xs @ n # ys" using assms(2) by (auto dest: split_list)
  from touch_result [of q xs n ys] assms(1) ns obtain q' where q: "linked_queue_unlink_and_push_node q n = Some q'"
    "lq_ok q' (xs @ ys @ [n])" "lq_fresh q' = lq_fresh q" "\<forall>k. lq_data q' k = lq_data q k" by blast
  have "lq_abs q' (xs @ ys @ [n]) = lq_abs q (xs @ ys @ [n])" using q(4) by (intro lq_abs_cong) simp
  moreover have "distinct (xs @ n # ys)" using assms(1) ns by (simp add: lq_ok_def)
  ultimately show ?thesis using q Touch ns lq_abs_move [of xs n ys q] by (auto simp: lq_step_def)
qed

lemma lq_run_refines:
  assumes "lq_ok q ns" "moves_ok (lq_fresh q, lq_abs q ns) cs"
  shows "\<exists>q' ns'. lq_run q cs = Some (abs_run (lq_fresh q, lq_abs q ns) cs, q') \<and> lq_ok q' ns'"
  using assms
proof (induction cs arbitrary: q ns)
  case (Cons c cs)
  have "case c of Touch n \<Rightarrow> n \<in> set ns | _ \<Rightarrow> True"
    using Cons.prems(2) by (cases c) (auto simp: lq_abs_def)
  from lq_step_refines [OF Cons.prems(1) this] obtain q1 ns1 r where s: "lq_step q c = Some (r, q1)" "lq_ok q1 ns1"
    "abs_step (lq_fresh q, lq_abs q ns) c = (r, lq_fresh q1, lq_abs q1 ns1)" by blast
  from Cons.IH [OF s(2)] Cons.prems(2) s(3) obtain q' ns' where
    "lq_run q1 cs = Some (abs_run (lq_fresh q1, lq_abs q1 ns1) cs, q')" "lq_ok q' ns'" by auto
  with s(1,3) show ?case by auto
qed auto

text \<open>
  (C29) The linked queue refines a list. For every sequence of pushes, pops and moves to the end of nodes that are still
  in the queue, the calls return what the list of pairs gives, in particular elements leave in the order
  in which they were last pushed or moved; no call follows a dangling pointer, and the queue stays well-formed.
\<close>

theorem linked_queue_refines:
  assumes "moves_ok (0, []) cs"
  shows "\<exists>q ns. lq_run (linked_queue_init :: 'a linked_queue) cs = Some (abs_run (0, []) cs, q) \<and> lq_ok q ns"
proof -
  have start: "(lq_fresh (linked_queue_init :: 'a linked_queue), lq_abs linked_queue_init []) = (0, [] :: 'a lq_abs)"
    by (simp add: linked_queue_init_def lq_abs_def)
  show ?thesis using lq_run_refines [OF linked_queue_init_ok, of cs] assms unfolding start by blast
qed

theorem linked_queue_refines_witness:
  "\<exists>q ns. lq_run linked_queue_init [Push (Some True), Push (Some False), Touch 0, Pop, Pop, Pop] =
     Some ([Pushed 0, Pushed 1, Touched, Popped (Some False), Popped (Some True), Popped None], q) \<and> lq_ok q ns"
  using linked_queue_refines [of "[Push (Some True), Push (Some False), Touch 0, Pop, Pop, Pop]"] by simp

end
