(* ===== verification/Rid_Counters.thy ===== *)
theory Rid_Counters
  imports Text Linked_Queue
begin

text \<open>
  The message counters of the classic protocol, \<^verbatim>\<open>agents/os_crypto/shared/msgs.c\<close>, and the thread of the
  manager that closes their files (\<^verbatim>\<open>close_fp_main\<close> of \<^verbatim>\<open>agents/remoted/secure.c\<close>). For each peer the last counters
  received are kept in memory and, from time to time, in a file of the directory \<^verbatim>\<open>rids\<close>; the counters used
  for sending are kept in the file \<^verbatim>\<open>sender_counter\<close>.

  A key store is the array of its entries, the last of which belongs to the sender. A file is an inode with
  its bytes; a stream is the inode it was opened on, and it always writes at the front of the file.
  \<open>merror_exit\<close> ends the program, which is a result of its own (\<open>Exits\<close>). Each function runs under
  the mutexes of its caller.
\<close>

section \<open>State\<close>

datatype 'a proc_result = Exits | Goes 'a

definition then_goes :: "'a proc_result option \<Rightarrow> ('a \<Rightarrow> 'b proc_result option) \<Rightarrow> 'b proc_result option" where
  "then_goes m f = (case m of None \<Rightarrow> None | Some Exits \<Rightarrow> Some Exits | Some (Goes x) \<Rightarrow> f x)"

lemma then_goes_simps [simp]:
  "then_goes (Some (Goes x)) f = f x" "then_goes (Some Exits) f = Some Exits" "then_goes None f = None"
  by (simp_all add: then_goes_def)

definition W_METH_BLOWFISH :: int where "W_METH_BLOWFISH = 0"

definition W_METH_AES :: int where "W_METH_AES = 1"

datatype key_mode_t = W_RAW_KEY | W_ENCRYPTION_KEY | W_DUAL_KEY

record keyentry =
  ke_id :: bytes
  ke_name :: bytes
  ke_encryption_key :: bytes
  ke_single_host :: bool
  ke_global :: u32
  ke_local :: u32
  ke_updating_time :: nat
  ke_inode :: nat
  ke_fp :: "nat option"
  ke_crypto_method :: int
  ke_rids_node :: "nat option"

record keystore =
  ks_entries :: "keyentry list"
  ks_key_mode :: key_mode_t
  ks_opened :: "nat linked_queue"

definition ks_keysize :: "keystore \<Rightarrow> nat" where
  "ks_keysize ks = length (ks_entries ks) - 1"

record rid_files =
  rf_dir :: "bytes \<Rightarrow> nat option"
  rf_data :: "nat \<Rightarrow> bytes"
  rf_next :: nat
  rf_open :: nat
  rf_denied :: "bytes \<Rightarrow> bool"

record sec_state =
  sc_keys :: keystore
  sc_files :: rid_files
  sc_global_count :: u32
  sc_local_count :: u32
  sc_rcv_count :: u32
  sc_evt_count :: u32
  sc_orig_size :: u64
  sc_comp_size :: u64
  sc_recv_flush :: u32
  sc_comp_print :: u32
  sc_verify_counter :: bool
  sc_now :: nat

section \<open>Files\<close>

definition RIDS_DIR :: bytes where "RIDS_DIR = asc ''queue/rids''"

definition SENDER_COUNTER :: bytes where "SENDER_COUNTER = asc ''sender_counter''"

text \<open>\<open>snprintf(rids_file, OS_FLSIZE, "%s/%s", ...)\<close> cuts long names.\<close>

definition OS_FLSIZE :: nat where "OS_FLSIZE = 256"

definition rids_path :: "bytes \<Rightarrow> bytes" where
  "rids_path name = take (OS_FLSIZE - 1) (RIDS_DIR @ [47] @ name)"

definition File_Inode :: "rid_files \<Rightarrow> bytes \<Rightarrow> nat" where
  "File_Inode f path = (case rf_dir f path of None \<Rightarrow> 0 | Some i \<Rightarrow> i)"

definition fopen_update :: "rid_files \<Rightarrow> bytes \<Rightarrow> nat option \<times> rid_files" where
  "fopen_update f path =
     (case rf_dir f path of
        None \<Rightarrow> (None, f)
      | Some i \<Rightarrow> if rf_denied f path then (None, f) else (Some i, f\<lparr>rf_open := rf_open f + 1\<rparr>))"

definition fopen_write :: "rid_files \<Rightarrow> bytes \<Rightarrow> nat option \<times> rid_files" where
  "fopen_write f path =
     (if rf_denied f path then (None, f)
      else case rf_dir f path of
        Some i \<Rightarrow> (Some i, f\<lparr>rf_data := (rf_data f)(i := []), rf_open := rf_open f + 1\<rparr>)
      | None \<Rightarrow> (Some (rf_next f), f\<lparr>rf_dir := (rf_dir f)(path \<mapsto> rf_next f), rf_data := (rf_data f)(rf_next f := []),
                                   rf_next := rf_next f + 1, rf_open := rf_open f + 1\<rparr>))"

definition fclose_stream :: "rid_files \<Rightarrow> rid_files" where
  "fclose_stream f = f\<lparr>rf_open := rf_open f - 1\<rparr>"

text \<open>\<open>fseek\<close> to the front, \<open>fprintf\<close> and \<open>fflush\<close>: the rest of a longer file stays.\<close>

definition write_front :: "rid_files \<Rightarrow> nat \<Rightarrow> bytes \<Rightarrow> rid_files" where
  "write_front f i txt = f\<lparr>rf_data := (rf_data f)(i := txt @ drop (length txt) (rf_data f i))\<rparr>"

text \<open>\<open>fprintf\<close> with \<open>"%u:%u:"\<close> and \<open>fscanf\<close> with \<open>"%u:%u"\<close>; \<open>None\<close> when not both numbers are read.\<close>

definition counter_text :: "u32 \<Rightarrow> u32 \<Rightarrow> bytes" where
  "counter_text g l = dec (unat g) @ [58] @ dec (unat l) @ [58]"

definition scan_u :: "bytes \<Rightarrow> (u32 \<times> bytes) option" where
  "scan_u s =
     (let t = dropWhile is_space s;
          neg = (t \<noteq> [] \<and> hd t = 45);
          u = (if t \<noteq> [] \<and> (hd t = 45 \<or> hd t = 43) then tl t else t);
          ds = takeWhile is_digit u;
          v = min (2 ^ 64 - 1) (digits_value ds)
      in if ds = [] then None
         else Some (if neg \<and> digits_value ds < 2 ^ 64 then - of_nat v else of_nat v, drop (length ds) u))"

definition scan_counters :: "bytes \<Rightarrow> (u32 \<times> u32) option" where
  "scan_counters s = do {
     (g, r) \<leftarrow> scan_u s;
     (c, r1) \<leftarrow> (case r of [] \<Rightarrow> None | x # xs \<Rightarrow> Some (x, xs));
     if c = 58 then do { (l, r2) \<leftarrow> scan_u r1; Some (g, l) } else None }"

section \<open>Counters\<close>

definition set_entry_at :: "nat \<Rightarrow> (keyentry \<Rightarrow> keyentry) \<Rightarrow> sec_state \<Rightarrow> sec_state option" where
  "set_entry_at i f s =
     (let es = ks_entries (sc_keys s) in
      if i < length es then Some (s\<lparr>sc_keys := (sc_keys s)\<lparr>ks_entries := es[i := f (es ! i)]\<rparr>\<rparr>) else None)"

definition entry_at :: "nat \<Rightarrow> sec_state \<Rightarrow> keyentry option" where
  "entry_at i s = (if i < length (ks_entries (sc_keys s)) then Some (ks_entries (sc_keys s) ! i) else None)"

text \<open>Numbers that were read belong to the sender or to the entry.\<close>

definition assign_counters :: "nat \<Rightarrow> u32 \<Rightarrow> u32 \<Rightarrow> sec_state \<Rightarrow> sec_state option" where
  "assign_counters i g l s =
     (if i = ks_keysize (sc_keys s) then Some (s\<lparr>sc_global_count := g, sc_local_count := l\<rparr>)
      else set_entry_at i (\<lambda>e. e\<lparr>ke_global := g, ke_local := l\<rparr>) s)"

definition counters_or_zero :: "bytes \<Rightarrow> u32 \<times> u32" where
  "counters_or_zero s = (case scan_counters s of None \<Rightarrow> (0, 0) | Some gl \<Rightarrow> gl)"

text \<open>One round of the loop of \<open>OS_StartCounter\<close>.\<close>

definition start_counter :: "nat \<Rightarrow> sec_state \<Rightarrow> sec_state proc_result option" where
  "start_counter i s = do {
     e \<leftarrow> entry_at i s;
     let path = rids_path (if i = ks_keysize (sc_keys s) then SENDER_COUNTER else ke_id e);
     let (fp, f1) = fopen_update (sc_files s) path;
     then_goes
       (case fp of
          None \<Rightarrow> (let (fp2, f2) = fopen_write f1 path in
                   case fp2 of
                     None \<Rightarrow> Some Exits
                   | Some n \<Rightarrow> map_option Goes (set_entry_at i (\<lambda>x. x\<lparr>ke_fp := Some n\<rparr>) (s\<lparr>sc_files := f2\<rparr>)))
        | Some n \<Rightarrow> do {
            s1 \<leftarrow> set_entry_at i (\<lambda>x. x\<lparr>ke_fp := Some n\<rparr>) (s\<lparr>sc_files := f1\<rparr>);
            let (g, l) = counters_or_zero (rf_data f1 n);
            s2 \<leftarrow> assign_counters i g l s1;
            Some (Goes s2) })
       (\<lambda>s3. do {
          s4 \<leftarrow> (if i \<noteq> ks_keysize (sc_keys s3)
                 then set_entry_at i (\<lambda>x. x\<lparr>ke_fp := None\<rparr>) (s3\<lparr>sc_files := fclose_stream (sc_files s3)\<rparr>)
                 else Some s3);
          s5 \<leftarrow> set_entry_at i (\<lambda>x. x\<lparr>ke_inode := File_Inode (sc_files s4) path\<rparr>) s4;
          Some (Goes s5) }) }"

fun start_counters :: "nat list \<Rightarrow> sec_state \<Rightarrow> sec_state proc_result option" where
  "start_counters [] s = Some (Goes s)"
| "start_counters (i # is) s = then_goes (start_counter i s) (start_counters is)"

text \<open>
  \<open>OS_StartCounter\<close>; the arguments are the values of the definitions \<^verbatim>\<open>remoted.recv_counter_flush\<close>,
  \<^verbatim>\<open>remoted.comp_average_printout\<close> and \<^verbatim>\<open>remoted.verify_msg_id\<close>. The first two are only read once.
\<close>

definition OS_StartCounter :: "u32 \<Rightarrow> u32 \<Rightarrow> bool \<Rightarrow> sec_state \<Rightarrow> sec_state proc_result option" where
  "OS_StartCounter flush print verify s =
     then_goes (start_counters [0..<ks_keysize (sc_keys s) + 1] s)
       (\<lambda>s1. Some (Goes (s1\<lparr>sc_keys := (sc_keys s1)\<lparr>ks_opened := linked_queue_init\<rparr>,
          sc_recv_flush := (if sc_recv_flush s1 = 0 then flush else sc_recv_flush s1),
          sc_comp_print := (if sc_comp_print s1 = 0 then print else sc_comp_print s1),
          sc_verify_counter := verify\<rparr>)))"

definition OS_RemoveCounter :: "bytes \<Rightarrow> rid_files \<Rightarrow> rid_files" where
  "OS_RemoveCounter name f = f\<lparr>rf_dir := (rf_dir f)(rids_path name := None)\<rparr>"

definition StoreSenderCounter :: "u32 \<Rightarrow> u32 \<Rightarrow> sec_state \<Rightarrow> sec_state option" where
  "StoreSenderCounter g l s = do {
     e \<leftarrow> entry_at (ks_keysize (sc_keys s)) s;
     fp \<leftarrow> ke_fp e;
     Some (s\<lparr>sc_files := write_front (sc_files s) fp (counter_text g l)\<rparr>) }"

text \<open>The stream of an entry, opened if there is none.\<close>

definition open_counter :: "nat \<Rightarrow> sec_state \<Rightarrow> (nat \<times> sec_state) proc_result option" where
  "open_counter k s = do {
     e \<leftarrow> entry_at k s;
     case ke_fp e of
       Some n \<Rightarrow> Some (Goes (n, s))
     | None \<Rightarrow>
         let path = rids_path (ke_id e);
             (fp, f1) = fopen_update (sc_files s) path;
             (fp2, f2) = (case fp of Some n \<Rightarrow> (Some n, f1) | None \<Rightarrow> fopen_write f1 path) in
         (case fp2 of
            None \<Rightarrow> Some Exits
          | Some n \<Rightarrow> map_option (\<lambda>s1. Goes (n, s1)) (set_entry_at k (\<lambda>x. x\<lparr>ke_fp := Some n\<rparr>) (s\<lparr>sc_files := f2\<rparr>))) }"

definition StoreCounter :: "nat \<Rightarrow> u32 \<Rightarrow> u32 \<Rightarrow> sec_state \<Rightarrow> sec_state proc_result option" where
  "StoreCounter k g l s =
     then_goes (open_counter k s) (\<lambda>(n, s1). do {
       let s2 = s1\<lparr>sc_files := write_front (sc_files s1) n (counter_text g l)\<rparr>;
       e \<leftarrow> entry_at k s2;
       s3 \<leftarrow> set_entry_at k (\<lambda>x. x\<lparr>ke_updating_time := sc_now s2\<rparr>) s2;
       case ke_rids_node e of
         None \<Rightarrow> do {
           (nd, q) \<leftarrow> linked_queue_push_ex (ks_opened (sc_keys s3)) (Some k);
           s4 \<leftarrow> set_entry_at k (\<lambda>x. x\<lparr>ke_rids_node := Some nd\<rparr>) (s3\<lparr>sc_keys := (sc_keys s3)\<lparr>ks_opened := q\<rparr>\<rparr>);
           Some (Goes s4) }
       | Some nd \<Rightarrow> do {
           q \<leftarrow> linked_queue_unlink_and_push_node (ks_opened (sc_keys s3)) nd;
           Some (Goes (s3\<lparr>sc_keys := (sc_keys s3)\<lparr>ks_opened := q\<rparr>\<rparr>)) } })"

text \<open>
  When the file of the counters is not the one that was opened, it is opened and read again. A stream
  that was open before is not closed.
\<close>

definition ReloadCounter :: "nat \<Rightarrow> bytes \<Rightarrow> sec_state \<Rightarrow> sec_state option" where
  "ReloadCounter k cid s = do {
     e \<leftarrow> entry_at k s;
     let path = rids_path cid;
     let new_inode = File_Inode (sc_files s) path;
     if ke_inode e = new_inode then Some s
     else
       let (fp, f1) = fopen_update (sc_files s) path in
       case fp of
         None \<Rightarrow>
           (let (fp2, f2) = fopen_write f1 path in
            case fp2 of
              None \<Rightarrow> set_entry_at k (\<lambda>x. x\<lparr>ke_fp := None\<rparr>) s
            | Some n \<Rightarrow> set_entry_at k (\<lambda>x. x\<lparr>ke_fp := Some n, ke_inode := new_inode\<rparr>) (s\<lparr>sc_files := f2\<rparr>))
       | Some n \<Rightarrow> do {
           let (g, l) = counters_or_zero (rf_data f1 n);
           s1 \<leftarrow> assign_counters k g l (s\<lparr>sc_files := f1\<rparr>);
           set_entry_at k (\<lambda>x. x\<lparr>ke_fp := Some n, ke_inode := new_inode\<rparr>) s1 } }"

section \<open>Closing idle files\<close>

text \<open>
  The inner loop of \<open>close_fp_main\<close>: entries that have not been written for \<open>seconds\<close> leave the queue,
  oldest first. \<open>now\<close> and the times are subtracted as \<open>int\<close> and compared as \<open>time_t\<close>. The fuel is the number
  of queued nodes, which each round lowers.
\<close>

function close_idle :: "nat \<Rightarrow> nat \<Rightarrow> sec_state \<Rightarrow> sec_state option" where
  "close_idle rounds seconds s =
     (case lq_first (ks_opened (sc_keys s)) of
        None \<Rightarrow> Some s
      | Some n \<Rightarrow> (if rounds = 0 then None else do {
          nd \<leftarrow> lq_nodes (ks_opened (sc_keys s)) n;
          k \<leftarrow> nd_data nd;
          e \<leftarrow> entry_at k s;
          if int (sc_now s) - int seconds > int (ke_updating_time e) then do {
            r \<leftarrow> linked_queue_pop_ex (ks_opened (sc_keys s));
            case r of
              Waits q \<Rightarrow> None
            | Returns d q \<Rightarrow> do {
                k1 \<leftarrow> d;
                e1 \<leftarrow> entry_at k1 s;
                let s1 = s\<lparr>sc_keys := (sc_keys s)\<lparr>ks_opened := q\<rparr>\<rparr>;
                let s2 = (if ke_fp e1 \<noteq> None then s1\<lparr>sc_files := fclose_stream (sc_files s1)\<rparr> else s1);
                s3 \<leftarrow> set_entry_at k1 (\<lambda>x. x\<lparr>ke_fp := None, ke_updating_time := 0, ke_rids_node := None\<rparr>) s2;
                close_idle (rounds - 1) seconds s3 } }
          else Some s }))"
  by pat_completeness auto
termination
  by (relation "measure (\<lambda>(rounds, seconds, s). rounds)") auto

declare close_idle.simps [simp del]

end
