(* ===== verification/Sec_Msg.thy ===== *)
theory Sec_Msg
  imports Rid_Counters Wire
begin

text \<open>
  The encrypted messages of the classic agent protocol: \<open>CreateSecMSG\<close> and \<open>ReadSecMSG\<close> of
  \<^verbatim>\<open>agents/os_crypto/shared/msgs.c\<close> with the functions they call in \<^verbatim>\<open>os_crypto/blowfish/bf_op.c\<close>,
  \<^verbatim>\<open>os_crypto/aes/aes_op.c\<close>, \<^verbatim>\<open>os_crypto/md5/md5_op.c\<close> and \<^verbatim>\<open>os_zlib/os_zlib.c\<close>, and the agent id in front of
  a message, which \<open>HandleSecureMessage\<close> (\<^verbatim>\<open>remoted/secure.c\<close>) takes off.

  OpenSSL and zlib are parameters, the record \<open>crypto\<close>. Buffers are byte arrays of their real size; a
  pointer into one is an offset. A string is read up to its NUL, which has to lie in the array.
\<close>

section \<open>The libraries\<close>

text \<open>
  Blowfish in CBC mode takes the key, the initial vector, the direction and the data. AES-256 in CBC mode
  fails (\<open>None\<close>) where one of its calls does. \<open>compress2\<close> and \<open>uncompress\<close> take the source and the room at
  the destination; \<open>uncompress\<close> also tells what it has written when it fails.
\<close>

record crypto =
  cr_bf :: "bytes \<Rightarrow> bytes \<Rightarrow> bool \<Rightarrow> bytes \<Rightarrow> bytes"
  cr_aes_encrypt :: "bytes \<Rightarrow> bytes \<Rightarrow> bytes \<Rightarrow> bytes option"
  cr_aes_decrypt :: "bytes \<Rightarrow> bytes \<Rightarrow> bytes \<Rightarrow> bytes option"
  cr_md5 :: "bytes \<Rightarrow> bytes"
  cr_compress :: "bytes \<Rightarrow> nat \<Rightarrow> bytes option"
  cr_uncompress :: "bytes \<Rightarrow> nat \<Rightarrow> bool \<times> bytes"

section \<open>Wrappers\<close>

definition bf_iv :: bytes where
  "bf_iv = [0xfe, 0xdc, 0xba, 0x98, 0x76, 0x54, 0x32, 0x10]"

definition aes_iv :: bytes where
  "aes_iv = asc ''FEDCBA0987654321''"

text \<open>The result code, and the destination array after \<open>size\<close> bytes at \<open>src\<close> were written to \<open>off\<close>.\<close>

definition OS_BF_Str :: "crypto \<Rightarrow> bytes \<Rightarrow> nat \<Rightarrow> bytes \<Rightarrow> nat \<Rightarrow> bytes \<Rightarrow> nat \<Rightarrow> bool \<Rightarrow> (int \<times> bytes) option" where
  "OS_BF_Str cr input src output off key n encrypt = do {
     data \<leftarrow> peek input src n;
     output1 \<leftarrow> poke output off (cr_bf cr key bf_iv encrypt data);
     Some (1, output1) }"

text \<open>AES-256 reads 32 bytes of the key string. A negative length is refused by OpenSSL.\<close>

definition aes_result :: "bytes option \<Rightarrow> bytes \<Rightarrow> nat \<Rightarrow> (int \<times> bytes) option" where
  "aes_result r output off =
     (case r of None \<Rightarrow> Some (0, output)
      | Some d \<Rightarrow> do { output1 \<leftarrow> poke output off d; Some (int (length d), output1) })"

definition OS_AES_Str :: "crypto \<Rightarrow> bytes \<Rightarrow> nat \<Rightarrow> bytes \<Rightarrow> nat \<Rightarrow> bytes \<Rightarrow> int \<Rightarrow> bool \<Rightarrow> (int \<times> bytes) option" where
  "OS_AES_Str cr input src output off key n encrypt =
     (let len = sint (word_of_int n :: u32) in
      if len < 0 then Some (0, output)
      else do {
        k \<leftarrow> peek (key @ [0]) 0 32;
        data \<leftarrow> peek input src (nat len);
        aes_result (if encrypt then cr_aes_encrypt cr k aes_iv data else cr_aes_decrypt cr k aes_iv data) output off })"

text \<open>The digest in hexadecimal; with a negative length the text goes up to its NUL.\<close>

definition OS_MD5_Str :: "crypto \<Rightarrow> bytes \<Rightarrow> nat \<Rightarrow> int \<Rightarrow> bytes option" where
  "OS_MD5_Str cr mem p n = do {
     data \<leftarrow> (if n < 0 then string_at mem p else peek mem p (nat n));
     Some (concat (map hex2 (take 16 (cr_md5 cr data)))) }"

definition os_zlib_compress :: "crypto \<Rightarrow> bytes \<Rightarrow> bytes \<Rightarrow> nat \<Rightarrow> nat \<Rightarrow> (nat \<times> bytes) option" where
  "os_zlib_compress cr src dst off dst_size =
     (case cr_compress cr src dst_size of
        None \<Rightarrow> Some (0, dst)
      | Some c \<Rightarrow> do { dst1 \<leftarrow> poke dst off (c @ [0]); Some (length c, dst1) })"

definition os_zlib_uncompress :: "crypto \<Rightarrow> bytes \<Rightarrow> bytes \<Rightarrow> nat \<Rightarrow> nat \<Rightarrow> (nat \<times> bytes) option" where
  "os_zlib_uncompress cr src dst off dst_size =
     (let (ok, d) = cr_uncompress cr src dst_size in do {
        dst1 \<leftarrow> poke dst off (if ok then d @ [0] else d);
        Some (if ok then length d else 0, dst1) })"

definition OS_INVALID :: int where "OS_INVALID = -1"

definition doEncryptByMethod ::
  "crypto \<Rightarrow> bytes \<Rightarrow> nat \<Rightarrow> bytes \<Rightarrow> nat \<Rightarrow> bytes \<Rightarrow> nat \<Rightarrow> bool \<Rightarrow> int \<Rightarrow> (int \<times> bytes) option" where
  "doEncryptByMethod cr input src output off key n encrypt method =
     (if method = W_METH_BLOWFISH then OS_BF_Str cr input src output off key n encrypt
      else if method = W_METH_AES then OS_AES_Str cr input src output off key (int n) encrypt
      else Some (OS_INVALID, output))"

definition os_set_agent_crypto_method :: "int \<Rightarrow> sec_state \<Rightarrow> sec_state option" where
  "os_set_agent_crypto_method method s = set_entry_at 0 (\<lambda>e. e\<lparr>ke_crypto_method := method\<rparr>) s"

section \<open>Sending\<close>

definition MSG_OVERHEAD :: nat where "MSG_OVERHEAD = 32 + 5 + 10 + 4 + 2 * 1"

text \<open>The limit of \<open>msg_length\<close>.\<close>

definition MSG_MAX :: nat where "MSG_MAX = OS_MAXSTR - OS_HEADER_SIZE"

text \<open>\<open>printf\<close> with a minimal width and leading zeros.\<close>

definition zero_padded :: "nat \<Rightarrow> nat \<Rightarrow> bytes" where
  "zero_padded w n = replicate (w - length (dec n)) 48 @ dec n"

definition message_text :: "u16 \<Rightarrow> u32 \<Rightarrow> u32 \<Rightarrow> bytes \<Rightarrow> bytes" where
  "message_text rand1 g l msg =
     zero_padded 5 (unat rand1) @ zero_padded 10 (unat g) @ [58] @ zero_padded 4 (unat l) @ [58] @ msg"

definition crypto_token :: "int \<Rightarrow> bytes option" where
  "crypto_token method =
     (if method = W_METH_BLOWFISH then Some [58] else if method = W_METH_AES then Some (asc ''#AES:'') else None)"

text \<open>The counters of the next message.\<close>

definition next_counters :: "sec_state \<Rightarrow> sec_state" where
  "next_counters s =
     (let s1 = (if sc_local_count s \<ge> 9997 then s\<lparr>sc_local_count := 0, sc_global_count := sc_global_count s + 1\<rparr> else s)
      in s1\<lparr>sc_local_count := sc_local_count s1 + 1\<rparr>)"

text \<open>The averages of the debug output.\<close>

definition count_sizes :: "nat \<Rightarrow> nat \<Rightarrow> sec_state \<Rightarrow> sec_state option" where
  "count_sizes len cmp_size s =
     (let s1 = s\<lparr>sc_orig_size := sc_orig_size s + of_nat len, sc_comp_size := sc_comp_size s + of_nat cmp_size\<rparr> in
      if sc_evt_count s1 > sc_comp_print s1 then
        if sc_orig_size s1 = 0 then None
        else Some (s1\<lparr>sc_evt_count := 1, sc_orig_size := 0, sc_comp_size := 0\<rparr>)
      else Some (s1\<lparr>sc_evt_count := sc_evt_count s1 + 1\<rparr>))"

text \<open>
  The clear text in front of the encrypted part; the result is the array and the number of bytes that
  \<open>snprintf\<close> reports.
\<close>

definition message_prefix :: "bool \<Rightarrow> keyentry \<Rightarrow> bytes \<Rightarrow> bytes \<Rightarrow> (nat \<times> bytes) option" where
  "message_prefix client e token out =
     (if \<not> ke_single_host e \<and> client then
        let txt = [33] @ ke_id e @ [33] @ token in
        map_option (\<lambda>out1. (length txt, out1)) (poke out 0 (take 15 txt @ [0]))
      else map_option (\<lambda>out1. (length token, out1)) (poke out 0 (take 5 token @ [0])))"

text \<open>
  \<open>CreateSecMSG\<close>. \<open>out\<close> is the array at \<open>msg_encrypted\<close>, the result its contents with the size, as the
  \<open>ssize_t\<close> of the callers.
\<close>

definition CreateSecMSG ::
  "crypto \<Rightarrow> bool \<Rightarrow> u16 \<Rightarrow> bytes \<Rightarrow> nat \<Rightarrow> bytes \<Rightarrow> sec_state \<Rightarrow> (int \<times> bytes \<times> sec_state) option" where
  "CreateSecMSG cr client rand1 msg k out s =
     (if ks_key_mode (sc_keys s) \<noteq> W_ENCRYPTION_KEY \<and> ks_key_mode (sc_keys s) \<noteq> W_DUAL_KEY then Some (-1, out, s)
      else if length msg > MSG_MAX \<or> length msg < 1 then Some (0, out, s)
      else do {
        e \<leftarrow> entry_at k s;
        case crypto_token (ke_crypto_method e) of
          None \<Rightarrow> Some (OS_INVALID, out, s)
        | Some token \<Rightarrow> do {
            out1 \<leftarrow> poke out OS_MAXSTR [0];
            s1 \<leftarrow> ReloadCounter (ks_keysize (sc_keys s)) SENDER_COUNTER s;
            let s2 = next_counters s1;
            let txt = message_text rand1 (sc_global_count s2) (sc_local_count s2) msg;
            tmpmsg \<leftarrow> poke (replicate (OS_MAXSTR + 2) 0) 0 txt;
            md5sum \<leftarrow> OS_MD5_Str cr tmpmsg 0 (int (length txt));
            finmsg \<leftarrow> poke (replicate (OS_MAXSTR + 2) 0) 0 (md5sum @ txt);
            let len = length txt + 32;
            src \<leftarrow> peek finmsg 0 len;
            (cmp, tmpmsg1) \<leftarrow> os_zlib_compress cr src tmpmsg 8 (OS_MAXSTR - 12);
            if cmp = 0 then Some (0, out1, s2)
            else do {
              let bfsize = (8 - (cmp + 1) mod 8) mod 8;
              tmpmsg2 \<leftarrow> poke tmpmsg1 0 (replicate 8 33);
              let cmp_size = cmp + 1 + bfsize;
              s3 \<leftarrow> count_sizes len cmp_size s2;
              e3 \<leftarrow> entry_at k s3;
              (plen, out2) \<leftarrow> message_prefix client e3 token out1;
              (crypto_length, out3) \<leftarrow> doEncryptByMethod cr tmpmsg2 (7 - bfsize) out2 plen (ke_encryption_key e3) cmp_size True
                 (ke_crypto_method e3);
              s4 \<leftarrow> StoreSenderCounter (sc_global_count s3) (sc_local_count s3) s3;
              Some (int (max cmp_size (nat crypto_length)) + int plen, out3, s4)
            } } })"

section \<open>Receiving\<close>

definition KS_VALID :: int where "KS_VALID = 0"
definition KS_RIDS :: int where "KS_RIDS = 1"
definition KS_CORRUPT :: int where "KS_CORRUPT = 2"
definition KS_ENCKEY :: int where "KS_ENCKEY = 3"

text \<open>Where \<open>*output\<close> points, with \<open>*final_size\<close>: into the buffer of the datagram or that of the clear text.\<close>

datatype sec_output = In_Buffer nat u64 | In_Cleartext nat u64

text \<open>\<open>CheckSum\<close>: the offset behind the digest when it is right.\<close>

definition CheckSum :: "crypto \<Rightarrow> bytes \<Rightarrow> nat \<Rightarrow> nat \<Rightarrow> nat option option" where
  "CheckSum cr mem p len = do {
     recvd \<leftarrow> peek mem p 32;
     checksum \<leftarrow> OS_MD5_Str cr mem (p + 32) (int len - 32);
     Some (if checksum = recvd then Some (p + 32) else None) }"

text \<open>\<open>atoi\<close> of the text at an offset.\<close>

definition atoi_at :: "bytes \<Rightarrow> nat \<Rightarrow> u32 option" where
  "atoi_at mem p = map_option atoi (string_at mem p)"

definition newer :: "u32 \<Rightarrow> u32 \<Rightarrow> keyentry \<Rightarrow> bool" where
  "newer g l e \<longleftrightarrow> g > ke_global e \<or> (g = ke_global e \<and> l > ke_local e)"

definition update_counters :: "nat \<Rightarrow> u32 \<Rightarrow> u32 \<Rightarrow> sec_state \<Rightarrow> sec_state option" where
  "update_counters k g l s = set_entry_at k (\<lambda>e. e\<lparr>ke_global := g, ke_local := l\<rparr>) s"

text \<open>The counters of an accepted message are stored now and then.\<close>

definition accept_message :: "nat \<Rightarrow> u32 \<Rightarrow> u32 \<Rightarrow> sec_state \<Rightarrow> sec_state proc_result option" where
  "accept_message k g l s = do {
     s1 \<leftarrow> update_counters k g l s;
     then_goes
       (if sc_rcv_count s1 \<ge> sc_recv_flush s1
        then then_goes (StoreCounter k g l s1) (\<lambda>s2. Some (Goes (s2\<lparr>sc_rcv_count := 0\<rparr>)))
        else Some (Goes s1))
       (\<lambda>s3. Some (Goes (s3\<lparr>sc_rcv_count := sc_rcv_count s3 + 1\<rparr>))) }"

text \<open>The check against replays in the new format: the code and the state.\<close>

definition check_counters :: "nat \<Rightarrow> u32 \<Rightarrow> u32 \<Rightarrow> sec_state \<Rightarrow> (int \<times> sec_state) proc_result option" where
  "check_counters k g l s =
     (if \<not> sc_verify_counter s then then_goes (accept_message k g l s) (\<lambda>s1. Some (Goes (KS_VALID, s1)))
      else do {
        e0 \<leftarrow> entry_at k s;
        s1 \<leftarrow> (if sc_rcv_count s \<ge> sc_recv_flush s then ReloadCounter k (ke_id e0) s else Some s);
        e \<leftarrow> entry_at k s1;
        if newer g l e then then_goes (accept_message k g l s1) (\<lambda>s2. Some (Goes (KS_VALID, s2)))
        else if g = ke_global e then Some (Goes (KS_RIDS, s1))
        else Some (Goes (KS_ENCKEY, s1)) })"

text \<open>The arrays and the state after a call, with the code and the output.\<close>

record read_result =
  rr_code :: int
  rr_output :: "sec_output option"
  rr_buffer :: bytes
  rr_cleartext :: bytes
  rr_state :: sec_state

definition rejected :: "int \<Rightarrow> bytes \<Rightarrow> bytes \<Rightarrow> sec_state \<Rightarrow> read_result proc_result option" where
  "rejected code buf clear s =
     Some (Goes \<lparr>rr_code = code, rr_output = None, rr_buffer = buf, rr_cleartext = clear, rr_state = s\<rparr>)"

text \<open>
  A compressed message. \<open>pos\<close> is where the encrypted text started, the place where the uncompressed
  one goes.
\<close>

definition read_compressed ::
  "crypto \<Rightarrow> nat \<Rightarrow> u32 \<Rightarrow> bytes \<Rightarrow> nat \<Rightarrow> bytes \<Rightarrow> sec_state \<Rightarrow> read_result proc_result option" where
  "read_compressed cr k buffer_size buf pos clear s = do {
     clear1 \<leftarrow> poke clear (unat buffer_size) [0];
     let pad = length (takeWhile (\<lambda>c. c = 33) (drop 1 clear1));
     let start = 1 + pad;
     last \<leftarrow> byte_at clear1 start;
     src \<leftarrow> peek clear1 start (unat (buffer_size - of_nat start));
     (final_size, buf1) \<leftarrow> os_zlib_uncompress cr src buf pos OS_MAXSTR;
     if final_size < MSG_OVERHEAD then rejected KS_CORRUPT buf1 clear1 s
     else do {
       f_msg \<leftarrow> CheckSum cr buf1 pos final_size;
       case f_msg of
         None \<Rightarrow> rejected KS_CORRUPT buf1 clear1 s
       | Some f \<Rightarrow> do {
           msg_global \<leftarrow> atoi_at buf1 (f + 5);
           c1 \<leftarrow> byte_at buf1 (f + 15);
           if c1 \<noteq> 58 then rejected KS_CORRUPT buf1 clear1 s
           else do {
             msg_local \<leftarrow> atoi_at buf1 (f + 16);
             c2 \<leftarrow> byte_at buf1 (f + 20);
             if c2 \<noteq> 58 then rejected KS_CORRUPT buf1 clear1 s
             else then_goes (check_counters k msg_global msg_local s) (\<lambda>(rc, s1).
               Some (Goes \<lparr>rr_code = rc,
                 rr_output = (if rc = KS_VALID then Some (In_Buffer (f + 21) (of_nat (final_size - (f + 21 - pos)))) else None),
                 rr_buffer = buf1, rr_cleartext = clear1, rr_state = s1\<rparr>))
           } } } }"

text \<open>The text behind the next colon, in the old format.\<close>

definition old_output :: "u32 \<Rightarrow> bytes \<Rightarrow> nat \<Rightarrow> sec_output option option" where
  "old_output buffer_size clear f = do {
     txt \<leftarrow> string_at clear f;
     Some (if 58 \<in> set txt
           then let g = f + length (takeWhile (\<lambda>c. c \<noteq> 58) txt) + 1
                in Some (In_Cleartext g (ucast buffer_size - of_nat (g - 1)))
           else None) }"

definition read_old ::
  "crypto \<Rightarrow> nat \<Rightarrow> u32 \<Rightarrow> bytes \<Rightarrow> bytes \<Rightarrow> sec_state \<Rightarrow> read_result proc_result option" where
  "read_old cr k buffer_size buf clear s = do {
     clear1 \<leftarrow> poke clear (unat buffer_size) [0];
     f_msg \<leftarrow> CheckSum cr clear1 1 (unat buffer_size);
     case f_msg of
       None \<Rightarrow> rejected KS_CORRUPT buf clear1 s
     | Some f \<Rightarrow> do {
         msg_time \<leftarrow> atoi_at clear1 f;
         msg_count \<leftarrow> atoi_at clear1 (f + 11);
         e \<leftarrow> entry_at k s;
         if \<not> sc_verify_counter s \<or> newer msg_time msg_count e then do {
           s1 \<leftarrow> update_counters k msg_time (if sc_verify_counter s then msg_count else 0) s;
           out \<leftarrow> old_output buffer_size clear1 (f + 16);
           Some (Goes \<lparr>rr_code = (if out = None then KS_CORRUPT else KS_VALID), rr_output = out,
             rr_buffer = buf, rr_cleartext = clear1, rr_state = s1\<rparr>)
         }
         else rejected KS_RIDS buf clear1 s
       } }"

text \<open>
  Decrypting. The manager takes the method from the datagram, an agent (\<open>client\<close>) from its
  configuration; with another method nothing is decrypted. \<open>None\<close> inside is the error \<open>KS_ENCKEY\<close>.
\<close>

definition decrypt_message :: "crypto \<Rightarrow> keyentry \<Rightarrow> u32 \<Rightarrow> bytes \<Rightarrow> nat \<Rightarrow> bytes \<Rightarrow> bytes option option" where
  "decrypt_message cr e buffer_size buf pos clear =
     (if ke_crypto_method e = W_METH_BLOWFISH then do {
        (rc, clear1) \<leftarrow> OS_BF_Str cr buf pos clear 0 (ke_encryption_key e) (unat buffer_size) False;
        Some (if rc = 0 then None else Some clear1) }
      else if ke_crypto_method e = W_METH_AES then do {
        (rc, clear1) \<leftarrow> OS_AES_Str cr buf pos clear 0 (ke_encryption_key e) (uint (buffer_size - 4)) False;
        Some (if rc = 0 then None else Some clear1) }
      else Some (Some clear))"

text \<open>\<open>ReadSecMSG\<close>: the datagram starts at offset \<open>p\<close> of the array \<open>buf\<close>.\<close>

definition ReadSecMSG ::
  "crypto \<Rightarrow> bool \<Rightarrow> nat \<Rightarrow> bytes \<Rightarrow> nat \<Rightarrow> u32 \<Rightarrow> bytes \<Rightarrow> sec_state \<Rightarrow> read_result proc_result option" where
  "ReadSecMSG cr client k buf p buffer_size clear s =
     (if ks_key_mode (sc_keys s) \<noteq> W_ENCRYPTION_KEY \<and> ks_key_mode (sc_keys s) \<noteq> W_DUAL_KEY then rejected (-1) buf clear s
      else do {
        mark \<leftarrow> peek buf p 4;
        let aes = (mark = asc ''#AES'');
        s1 \<leftarrow> (if client then (if k < length (ks_entries (sc_keys s)) then Some s else None)
               else set_entry_at k (\<lambda>e. e\<lparr>ke_crypto_method := (if aes then W_METH_AES else W_METH_BLOWFISH)\<rparr>) s);
        let p1 = (if aes then p + 4 else p);
        c \<leftarrow> byte_at buf p1;
        if c \<noteq> 58 then rejected KS_CORRUPT buf clear s1
        else do {
          e \<leftarrow> entry_at k s1;
          d \<leftarrow> decrypt_message cr e buffer_size buf (p1 + 1) clear;
          case d of
            None \<Rightarrow> rejected KS_ENCKEY buf clear s1
          | Some clear1 \<Rightarrow> do {
              c0 \<leftarrow> byte_at clear1 0;
              if c0 = 33 then read_compressed cr k buffer_size buf (p1 + 1) clear1 s1
              else if c0 = 58 then read_old cr k buffer_size buf clear1 s1
              else rejected KS_ENCKEY buf clear1 s1
            } } })"

section \<open>The agent id in front\<close>

text \<open>
  \<open>HandleSecureMessage\<close> on a datagram that starts with \<open>!\<close>: the id, the offset of the message and the
  number of bytes left; \<open>None\<close> inside for a malformed one.
\<close>

definition strip_agent_id :: "bytes \<Rightarrow> int \<Rightarrow> (bytes \<times> nat \<times> int) option option" where
  "strip_agent_id buf recv_b =
     (if buf \<noteq> [] \<and> hd buf = 33 then
        let digits = takeWhile is_digit (drop 1 buf); q = 1 + length digits in
        do { c \<leftarrow> byte_at buf q;
             Some (if c = 33 then Some (digits, q + 1, recv_b - int (length digits) - 2) else None) }
      else Some (Some ([], 0, recv_b)))"

end
