(* ===== verification/Rid_Counters_Thms.thy ===== *)
theory Rid_Counters_Thms
  imports Rid_Counters
begin

text \<open>
  The counters in their files: what was stored is read back, a program that starts again resumes with the
  stored counters, and the queue of open files stays in step with the entries, so that the
  closing thread finds every file it has to close and follows no dangling pointer.
\<close>

section \<open>Text of the counters\<close>

lemma scan_u_dec:
  assumes "n < 2 ^ 32"
  shows "scan_u (dec n @ 58 # rest) = Some (of_nat n, 58 # rest)"
proof -
  have all: "\<forall>c \<in> set (dec n). is_digit c" using dec_digits by blast
  then have h: "is_digit (hd (dec n @ 58 # rest))" by simp
  have "dropWhile is_space (dec n @ 58 # rest) = dec n @ 58 # rest"
    using h is_digit_not_space by (cases "dec n @ 58 # rest") auto
  moreover have "takeWhile is_digit (dec n @ 58 # rest) = dec n"
    using all by (simp add: takeWhile_append is_digit_def)
  moreover have "min (2 ^ 64 - 1) n = n" using assms by (simp add: min_def)
  ultimately show ?thesis
    using is_digit_not_space [OF h] by (simp add: scan_u_def digits_value_dec Let_def)
qed

lemma scan_counter_text: "scan_counters (counter_text g l @ rest) = Some (g, l)"
proof -
  have b: "unat g < 2 ^ 32" "unat l < 2 ^ 32" using unsigned_less [of g, where 'a = nat] unsigned_less [of l, where 'a = nat] by simp_all
  have "counter_text g l @ rest = dec (unat g) @ 58 # (dec (unat l) @ 58 # rest)" by (simp add: counter_text_def)
  then show ?thesis
    by (simp add: scan_counters_def scan_u_dec [OF b(1)] scan_u_dec [OF b(2)])
qed

lemma stored_counters_read: "scan_counters (rf_data (write_front f i (counter_text g l)) i) = Some (g, l)"
  by (simp add: write_front_def scan_counter_text)

section \<open>Entries\<close>

lemma set_entry_at_result:
  "k < length (ks_entries (sc_keys s)) \<Longrightarrow> set_entry_at k f s =
     Some (s\<lparr>sc_keys := (sc_keys s)\<lparr>ks_entries := (ks_entries (sc_keys s))[k := f (ks_entries (sc_keys s) ! k)]\<rparr>\<rparr>)"
  by (simp add: set_entry_at_def Let_def)

lemma entry_at_result: "k < length (ks_entries (sc_keys s)) \<Longrightarrow> entry_at k s = Some (ks_entries (sc_keys s) ! k)"
  by (simp add: entry_at_def)

lemma entry_at_Some: "entry_at k s = Some e \<longleftrightarrow> k < length (ks_entries (sc_keys s)) \<and> e = ks_entries (sc_keys s) ! k"
  by (auto simp: entry_at_def)

section \<open>Starting\<close>

text \<open>The counter file of each entry and of the sender exists and can be opened.\<close>

definition counter_name :: "keystore \<Rightarrow> nat \<Rightarrow> bytes" where
  "counter_name ks i = rids_path (if i = ks_keysize ks then SENDER_COUNTER else ke_id (ks_entries ks ! i))"

definition files_ready :: "keystore \<Rightarrow> rid_files \<Rightarrow> bool" where
  "files_ready ks f \<longleftrightarrow> ks_entries ks \<noteq> [] \<and>
     (\<forall>i \<le> ks_keysize ks. rf_dir f (counter_name ks i) \<noteq> None \<and> \<not> rf_denied f (counter_name ks i))"

definition counter_file :: "keystore \<Rightarrow> rid_files \<Rightarrow> nat \<Rightarrow> nat" where
  "counter_file ks f i = the (rf_dir f (counter_name ks i))"

definition saved :: "rid_files \<Rightarrow> nat \<Rightarrow> u32 \<times> u32" where
  "saved f i = counters_or_zero (rf_data f i)"

text \<open>An entry after the program has started.\<close>

definition started_entry :: "keystore \<Rightarrow> rid_files \<Rightarrow> nat \<Rightarrow> keyentry" where
  "started_entry ks f i =
     (ks_entries ks ! i)\<lparr>ke_global := fst (saved f (counter_file ks f i)), ke_local := snd (saved f (counter_file ks f i)),
        ke_fp := None, ke_inode := counter_file ks f i\<rparr>"

lemma start_counter_entry:
  assumes "files_ready (sc_keys s) (sc_files s)" "i < ks_keysize (sc_keys s)"
  shows "start_counter i s = Some (Goes (s\<lparr>sc_keys := (sc_keys s)\<lparr>ks_entries :=
     (ks_entries (sc_keys s))[i := started_entry (sc_keys s) (sc_files s) i]\<rparr>\<rparr>))"
proof -
  have i: "i < length (ks_entries (sc_keys s))" using assms(2) by (simp add: ks_keysize_def)
  have nm: "counter_name (sc_keys s) i = rids_path (ke_id (ks_entries (sc_keys s) ! i))"
    using assms(2) by (simp add: counter_name_def)
  have "rf_dir (sc_files s) (counter_name (sc_keys s) i) \<noteq> None" "\<not> rf_denied (sc_files s) (counter_name (sc_keys s) i)"
    using assms by (simp_all add: files_ready_def)
  then obtain n where n: "rf_dir (sc_files s) (rids_path (ke_id (ks_entries (sc_keys s) ! i))) = Some n"
    "\<not> rf_denied (sc_files s) (rids_path (ke_id (ks_entries (sc_keys s) ! i)))"
    unfolding nm by blast
  then have c: "counter_file (sc_keys s) (sc_files s) i = n" using assms(2) by (simp add: counter_file_def counter_name_def)
  obtain g l where gl: "counters_or_zero (rf_data (sc_files s) n) = (g, l)" by force
  show ?thesis
    using i n assms(2)
    by (simp add: start_counter_def entry_at_result fopen_update_def set_entry_at_result assign_counters_def gl
        File_Inode_def fclose_stream_def started_entry_def c saved_def ks_keysize_def)
qed

lemma start_counter_sender:
  assumes "files_ready (sc_keys s) (sc_files s)" "m = ks_keysize (sc_keys s)" "n = counter_file (sc_keys s) (sc_files s) m"
  shows "start_counter m s = Some (Goes (s\<lparr>sc_keys := (sc_keys s)\<lparr>ks_entries :=
     (ks_entries (sc_keys s))[m := (ks_entries (sc_keys s) ! m)\<lparr>ke_fp := Some n, ke_inode := n\<rparr>]\<rparr>,
     sc_files := (sc_files s)\<lparr>rf_open := rf_open (sc_files s) + 1\<rparr>,
     sc_global_count := fst (saved (sc_files s) n), sc_local_count := snd (saved (sc_files s) n)\<rparr>))"
proof -
  have i: "m < length (ks_entries (sc_keys s))" using assms(1,2) by (cases "ks_entries (sc_keys s)") (auto simp: ks_keysize_def files_ready_def)
  have n: "rf_dir (sc_files s) (rids_path SENDER_COUNTER) = Some n" "\<not> rf_denied (sc_files s) (rids_path SENDER_COUNTER)"
    using assms unfolding files_ready_def counter_name_def counter_file_def by auto
  obtain g l where gl: "counters_or_zero (rf_data (sc_files s) n) = (g, l)" by force
  show ?thesis
    using i n assms(2)
    by (simp add: start_counter_def entry_at_result fopen_update_def set_entry_at_result assign_counters_def gl
        File_Inode_def saved_def ks_keysize_def)
qed

lemma start_counters_append:
  "start_counters (xs @ ys) s = then_goes (start_counters xs s) (start_counters ys)"
  by (induction xs arbitrary: s) (auto simp: then_goes_def split: option.splits proc_result.splits)

lemma start_counters_entries:
  assumes "files_ready (sc_keys s) (sc_files s)" "m \<le> ks_keysize (sc_keys s)"
  shows "start_counters [0..<m] s = Some (Goes (s\<lparr>sc_keys := (sc_keys s)\<lparr>ks_entries :=
     map (started_entry (sc_keys s) (sc_files s)) [0..<m] @ drop m (ks_entries (sc_keys s))\<rparr>\<rparr>))"
  using assms(2)
proof (induction m)
  case (Suc m)
  let ?es = "map (started_entry (sc_keys s) (sc_files s)) [0..<m] @ drop m (ks_entries (sc_keys s))"
  let ?s = "s\<lparr>sc_keys := (sc_keys s)\<lparr>ks_entries := ?es\<rparr>\<rparr>"
  have len: "m < length (ks_entries (sc_keys s))" using Suc.prems by (simp add: ks_keysize_def)
  have ks: "ks_keysize (sc_keys ?s) = ks_keysize (sc_keys s)" using len by (simp add: ks_keysize_def)
  have nm: "counter_name (sc_keys ?s) i = counter_name (sc_keys s) i" if "i \<le> ks_keysize (sc_keys s)" for i
    unfolding counter_name_def ks using len by (simp add: nth_append started_entry_def)
  have same: "counter_file (sc_keys ?s) (sc_files ?s) m = counter_file (sc_keys s) (sc_files s) m"
    using nm [of m] Suc.prems by (simp add: counter_file_def)
  have at: "ks_entries (sc_keys ?s) ! m = ks_entries (sc_keys s) ! m" using len by (simp add: nth_append)
  have r: "files_ready (sc_keys ?s) (sc_files ?s)"
    using assms(1) nm ks len unfolding files_ready_def by auto
  have e: "started_entry (sc_keys ?s) (sc_files ?s) m = started_entry (sc_keys s) (sc_files s) m"
    unfolding started_entry_def same at by simp
  have "start_counter m ?s = Some (Goes (?s\<lparr>sc_keys := (sc_keys ?s)\<lparr>ks_entries := ?es[m := started_entry (sc_keys s) (sc_files s) m]\<rparr>\<rparr>))"
    using start_counter_entry [OF r, of m] ks Suc.prems unfolding e by simp
  moreover have "?es[m := x] = map (started_entry (sc_keys s) (sc_files s)) [0..<m] @ x # drop (Suc m) (ks_entries (sc_keys s))" for x
    using len by (simp add: list_update_append Cons_nth_drop_Suc [symmetric])
  moreover have "start_counters [0..<m] s = Some (Goes ?s)" using Suc by simp
  ultimately show ?case by (simp add: start_counters_append)
qed simp

text \<open>The state after a start with all the files in place.\<close>

definition started :: "u32 \<Rightarrow> u32 \<Rightarrow> bool \<Rightarrow> sec_state \<Rightarrow> sec_state" where
  "started flush print verify s =
     (let ks = sc_keys s; f = sc_files s; m = ks_keysize ks; n = counter_file ks f m in
      s\<lparr>sc_keys := ks\<lparr>ks_entries := map (started_entry ks f) [0..<m] @ [(ks_entries ks ! m)\<lparr>ke_fp := Some n, ke_inode := n\<rparr>],
                       ks_opened := linked_queue_init\<rparr>,
         sc_files := f\<lparr>rf_open := rf_open f + 1\<rparr>,
         sc_global_count := fst (saved f n), sc_local_count := snd (saved f n),
         sc_recv_flush := (if sc_recv_flush s = 0 then flush else sc_recv_flush s),
         sc_comp_print := (if sc_comp_print s = 0 then print else sc_comp_print s),
         sc_verify_counter := verify\<rparr>)"

lemma OS_StartCounter_result:
  assumes "files_ready (sc_keys s) (sc_files s)"
  shows "OS_StartCounter flush print verify s = Some (Goes (started flush print verify s))"
proof -
  let ?m = "ks_keysize (sc_keys s)"
  let ?es = "map (started_entry (sc_keys s) (sc_files s)) [0..<?m] @ drop ?m (ks_entries (sc_keys s))"
  let ?s = "s\<lparr>sc_keys := (sc_keys s)\<lparr>ks_entries := ?es\<rparr>\<rparr>"
  have ne: "ks_entries (sc_keys s) \<noteq> []" using assms by (simp add: files_ready_def)
  then have m: "length (ks_entries (sc_keys s)) = Suc ?m" by (cases "ks_entries (sc_keys s)") (simp_all add: ks_keysize_def)
  then have d: "drop ?m (ks_entries (sc_keys s)) = [ks_entries (sc_keys s) ! ?m]"
    by (simp add: Cons_nth_drop_Suc [symmetric])
  have ks: "ks_keysize (sc_keys ?s) = ?m" using m by (simp add: ks_keysize_def)
  have nm: "counter_name (sc_keys ?s) i = counter_name (sc_keys s) i" if "i \<le> ?m" for i
    unfolding counter_name_def ks using m that by (simp add: nth_append started_entry_def)
  have r: "files_ready (sc_keys ?s) (sc_files ?s)"
    using assms nm ks d unfolding files_ready_def by auto
  have c: "counter_file (sc_keys ?s) (sc_files ?s) ?m = counter_file (sc_keys s) (sc_files s) ?m"
    using nm [of ?m] by (simp add: counter_file_def)
  have at: "ks_entries (sc_keys ?s) ! ?m = ks_entries (sc_keys s) ! ?m" using m by (simp add: nth_append)
  have up: "?es[?m := x] = map (started_entry (sc_keys s) (sc_files s)) [0..<?m] @ [x]" for x
    unfolding d by (simp add: list_update_append)
  have "start_counters ([0..<?m] @ [?m]) s = then_goes (start_counter ?m ?s) (start_counters [])"
    using start_counters_entries [OF assms, of ?m] by (simp add: start_counters_append)
  then show ?thesis
    unfolding OS_StartCounter_def Suc_eq_plus1 [symmetric] upt_Suc_append [OF le0] start_counter_sender [OF r, of ?m, unfolded ks c at, OF refl refl]
    by (simp add: up started_def Let_def)
qed

section \<open>The queue of open files\<close>

text \<open>
  Each queued node belongs to the entry that points to it. The oldest times come first, none is later
  than the clock.
\<close>

definition node_time :: "sec_state \<Rightarrow> nat \<Rightarrow> nat" where
  "node_time s n = ke_updating_time (ks_entries (sc_keys s) ! the (lq_data (ks_opened (sc_keys s)) n))"

definition queue_inv :: "sec_state \<Rightarrow> nat list \<Rightarrow> bool" where
  "queue_inv s ns \<longleftrightarrow> lq_ok (ks_opened (sc_keys s)) ns \<and>
     (\<forall>n \<in> set ns. \<exists>k < length (ks_entries (sc_keys s)). lq_data (ks_opened (sc_keys s)) n = Some k \<and>
        ke_rids_node (ks_entries (sc_keys s) ! k) = Some n) \<and>
     (\<forall>k < length (ks_entries (sc_keys s)). \<forall>n. ke_rids_node (ks_entries (sc_keys s) ! k) = Some n \<longrightarrow>
        n \<in> set ns \<and> lq_data (ks_opened (sc_keys s)) n = Some k)"

definition in_order :: "sec_state \<Rightarrow> nat list \<Rightarrow> bool" where
  "in_order s ns \<longleftrightarrow> sorted (map (node_time s) ns) \<and> (\<forall>n \<in> set ns. node_time s n \<le> sc_now s)"

text \<open>Changes that leave the queue alone.\<close>

definition same_nodes :: "sec_state \<Rightarrow> sec_state \<Rightarrow> bool" where
  "same_nodes s s' \<longleftrightarrow> ks_opened (sc_keys s') = ks_opened (sc_keys s) \<and> sc_now s' = sc_now s \<and>
     map (\<lambda>e. (ke_rids_node e, ke_updating_time e)) (ks_entries (sc_keys s')) =
     map (\<lambda>e. (ke_rids_node e, ke_updating_time e)) (ks_entries (sc_keys s))"

lemma map_eq_nth: "map f xs = map f ys \<Longrightarrow> k < length ys \<Longrightarrow> f (xs ! k) = f (ys ! k)"
  using nth_map [of k xs f] nth_map [of k ys f] map_eq_imp_length_eq [of f xs f ys] by simp

lemma same_nodesD:
  assumes "same_nodes s s'"
  shows "length (ks_entries (sc_keys s')) = length (ks_entries (sc_keys s))"
    and "k < length (ks_entries (sc_keys s)) \<Longrightarrow> ke_rids_node (ks_entries (sc_keys s') ! k) = ke_rids_node (ks_entries (sc_keys s) ! k)"
    and "k < length (ks_entries (sc_keys s)) \<Longrightarrow> ke_updating_time (ks_entries (sc_keys s') ! k) = ke_updating_time (ks_entries (sc_keys s) ! k)"
proof -
  note m = assms [unfolded same_nodes_def, THEN conjunct2, THEN conjunct2]
  show "length (ks_entries (sc_keys s')) = length (ks_entries (sc_keys s))" by (rule map_eq_imp_length_eq [OF m])
  show "ke_rids_node (ks_entries (sc_keys s') ! k) = ke_rids_node (ks_entries (sc_keys s) ! k)" if "k < length (ks_entries (sc_keys s))"
    using map_eq_nth [OF m that] by simp
  show "ke_updating_time (ks_entries (sc_keys s') ! k) = ke_updating_time (ks_entries (sc_keys s) ! k)" if "k < length (ks_entries (sc_keys s))"
    using map_eq_nth [OF m that] by simp
qed

lemma queue_inv_cong:
  assumes "same_nodes s s'"
  shows "queue_inv s' ns = queue_inv s ns"
proof -
  let ?e = "ks_entries (sc_keys s)" and ?e' = "ks_entries (sc_keys s')"
  have q: "ks_opened (sc_keys s') = ks_opened (sc_keys s)" using assms by (simp add: same_nodes_def)
  have r: "ke_rids_node (?e' ! k) = ke_rids_node (?e ! k)" if "k < length ?e" for k
    by (rule same_nodesD(2) [OF assms that])
  have ex: "(\<exists>k < length ?e. P k \<and> ke_rids_node (?e' ! k) = Some n) \<longleftrightarrow> (\<exists>k < length ?e. P k \<and> ke_rids_node (?e ! k) = Some n)" for P n
    by (simp add: r cong: conj_cong)
  have al: "(\<forall>k < length ?e. \<forall>n. ke_rids_node (?e' ! k) = Some n \<longrightarrow> Q n k) \<longleftrightarrow> (\<forall>k < length ?e. \<forall>n. ke_rids_node (?e ! k) = Some n \<longrightarrow> Q n k)" for Q
    by (simp add: r cong: imp_cong)
  show ?thesis by (simp only: queue_inv_def q same_nodesD(1) [OF assms] ex al)
qed

lemma in_order_cong: "same_nodes s s' \<Longrightarrow> queue_inv s ns \<Longrightarrow> in_order s' ns = in_order s ns"
proof -
  assume a: "same_nodes s s'" "queue_inv s ns"
  have "node_time s' n = node_time s n" if "n \<in> set ns" for n
    using that a same_nodesD [OF a(1)] by (auto simp: queue_inv_def node_time_def same_nodes_def)
  then show ?thesis using a(1) by (simp add: in_order_def same_nodes_def cong: map_cong)
qed

lemma same_nodes_entry:
  "k < length (ks_entries (sc_keys s)) \<Longrightarrow> ke_rids_node (f (ks_entries (sc_keys s) ! k)) = ke_rids_node (ks_entries (sc_keys s) ! k) \<Longrightarrow>
   ke_updating_time (f (ks_entries (sc_keys s) ! k)) = ke_updating_time (ks_entries (sc_keys s) ! k) \<Longrightarrow>
   same_nodes s (s\<lparr>sc_keys := (sc_keys s)\<lparr>ks_entries := (ks_entries (sc_keys s))[k := f (ks_entries (sc_keys s) ! k)]\<rparr>\<rparr>)"
  by (simp add: same_nodes_def map_update list_update_same_conv)

section \<open>Storing counters\<close>

text \<open>The stream that is there, or the one that can be opened.\<close>

definition stream_ready :: "sec_state \<Rightarrow> nat \<Rightarrow> nat \<Rightarrow> bool" where
  "stream_ready s k i \<longleftrightarrow> (let e = ks_entries (sc_keys s) ! k; path = rids_path (ke_id e) in
     ke_fp e = Some i \<or> (ke_fp e = None \<and> rf_dir (sc_files s) path = Some i \<and> \<not> rf_denied (sc_files s) path))"

definition same_files :: "rid_files \<Rightarrow> rid_files \<Rightarrow> bool" where
  "same_files f f' \<longleftrightarrow> rf_dir f' = rf_dir f \<and> rf_data f' = rf_data f \<and> rf_denied f' = rf_denied f"

lemma open_counter_result:
  assumes "k < length (ks_entries (sc_keys s))"
  shows "open_counter k s = Some Exits \<and> (\<forall>i. \<not> stream_ready s k i) \<or>
    (\<exists>n f. open_counter k s = Some (Goes (n, s\<lparr>sc_files := f, sc_keys := (sc_keys s)\<lparr>ks_entries :=
         (ks_entries (sc_keys s))[k := (ks_entries (sc_keys s) ! k)\<lparr>ke_fp := Some n\<rparr>]\<rparr>\<rparr>)) \<and>
       (\<forall>i. stream_ready s k i \<longrightarrow> n = i \<and> same_files (sc_files s) f))"
proof (cases "ke_fp (ks_entries (sc_keys s) ! k)")
  case (Some n)
  then have "(ks_entries (sc_keys s))[k := (ks_entries (sc_keys s) ! k)\<lparr>ke_fp := Some n\<rparr>] = ks_entries (sc_keys s)"
    by (simp add: list_update_same_conv assms)
  with Some assms show ?thesis
    by (intro disjI2 exI [of _ n] exI [of _ "sc_files s"])
      (simp add: open_counter_def entry_at_result stream_ready_def same_files_def Let_def)
next
  case None
  let ?path = "rids_path (ke_id (ks_entries (sc_keys s) ! k))"
  obtain fp f1 where 1: "fopen_update (sc_files s) ?path = (fp, f1)" by force
  show ?thesis
  proof (cases fp)
    case (Some n)
    then have "\<forall>i. stream_ready s k i \<longrightarrow> n = i \<and> same_files (sc_files s) f1"
      using 1 None by (auto simp: fopen_update_def stream_ready_def same_files_def Let_def split: option.splits if_splits)
    with Some 1 None assms show ?thesis
      by (intro disjI2 exI [of _ n] exI [of _ f1]) (simp add: open_counter_def entry_at_result set_entry_at_result)
  next
    case no: None
    then have not: "\<forall>i. \<not> stream_ready s k i"
      using 1 None by (auto simp: fopen_update_def stream_ready_def Let_def split: option.splits if_splits)
    obtain fp2 f2 where 2: "fopen_write f1 ?path = (fp2, f2)" by force
    show ?thesis
    proof (cases fp2)
      case None
      with no 1 2 \<open>ke_fp _ = None\<close> assms not show ?thesis by (simp add: open_counter_def entry_at_result)
    next
      case (Some n)
      with no 1 2 \<open>ke_fp _ = None\<close> assms not show ?thesis
        by (intro disjI2 exI [of _ n] exI [of _ f2]) (simp add: open_counter_def entry_at_result set_entry_at_result)
    qed
  qed
qed

text \<open>The state after the entry \<open>k\<close> has written its counters.\<close>

definition written :: "nat \<Rightarrow> rid_files \<Rightarrow> nat \<Rightarrow> nat \<Rightarrow> nat linked_queue \<Rightarrow> sec_state \<Rightarrow> sec_state" where
  "written k f n nd q s = s\<lparr>sc_files := f, sc_keys := (sc_keys s)\<lparr>ks_entries := (ks_entries (sc_keys s))[k :=
     (ks_entries (sc_keys s) ! k)\<lparr>ke_fp := Some n, ke_updating_time := sc_now s, ke_rids_node := Some nd\<rparr>], ks_opened := q\<rparr>\<rparr>"

lemma queue_inv_written:
  assumes inv: "queue_inv s ns" "k < length (ks_entries (sc_keys s))"
    and q: "lq_ok q (filter (\<lambda>n. n \<noteq> nd) ns @ [nd])" "lq_data q nd = Some k"
      "\<And>n. n \<in> set ns \<Longrightarrow> n \<noteq> nd \<Longrightarrow> lq_data q n = lq_data (ks_opened (sc_keys s)) n"
    and nd: "ke_rids_node (ks_entries (sc_keys s) ! k) = None \<and> nd \<notin> set ns \<or> ke_rids_node (ks_entries (sc_keys s) ! k) = Some nd"
  shows "queue_inv (written k f n nd q s) (filter (\<lambda>n. n \<noteq> nd) ns @ [nd])"
    and "in_order s ns \<Longrightarrow> in_order (written k f n nd q s) (filter (\<lambda>n. n \<noteq> nd) ns @ [nd])"
proof -
  let ?e = "ks_entries (sc_keys s)" and ?s = "written k f n nd q s"
  have other: "\<exists>j < length ?e. j \<noteq> k \<and> lq_data (ks_opened (sc_keys s)) m = Some j \<and> lq_data q m = Some j \<and> ke_rids_node (?e ! j) = Some m"
    if m: "m \<in> set ns" "m \<noteq> nd" for m
  proof -
    from inv(1) m(1) obtain j where j: "j < length ?e" "lq_data (ks_opened (sc_keys s)) m = Some j" "ke_rids_node (?e ! j) = Some m"
      unfolding queue_inv_def by blast
    with nd m(2) have "j \<noteq> k" by auto
    with j q(3) [OF m] show ?thesis by auto
  qed
  have mine: "m \<in> set ns \<and> m \<noteq> nd \<and> lq_data q m = Some j" if j: "j < length ?e" "j \<noteq> k" "ke_rids_node (?e ! j) = Some m" for j m
  proof -
    have a: "m \<in> set ns" "lq_data (ks_opened (sc_keys s)) m = Some j" using inv(1) j unfolding queue_inv_def by blast+
    have "m \<noteq> nd"
    proof
      assume "m = nd"
      with nd a have "ke_rids_node (?e ! k) = Some m" by auto
      with inv have "lq_data (ks_opened (sc_keys s)) m = Some k" unfolding queue_inv_def by blast
      with a j(2) show False by simp
    qed
    with a q(3) show ?thesis by simp
  qed
  show "queue_inv ?s (filter (\<lambda>n. n \<noteq> nd) ns @ [nd])"
    unfolding queue_inv_def
  proof (intro conjI ballI allI impI)
    show "lq_ok (ks_opened (sc_keys ?s)) (filter (\<lambda>n. n \<noteq> nd) ns @ [nd])" using q(1) by (simp add: written_def)
  next
    fix m
    assume "m \<in> set (filter (\<lambda>n. n \<noteq> nd) ns @ [nd])"
    then consider "m = nd" | "m \<in> set ns" "m \<noteq> nd" by auto
    then show "\<exists>j < length (ks_entries (sc_keys ?s)). lq_data (ks_opened (sc_keys ?s)) m = Some j \<and>
        ke_rids_node (ks_entries (sc_keys ?s) ! j) = Some m"
    proof cases
      case 1
      with inv(2) q(2) show ?thesis by (intro exI [of _ k]) (simp add: written_def)
    next
      case 2
      from other [OF 2] obtain j where "j < length ?e" "j \<noteq> k" "lq_data q m = Some j" "ke_rids_node (?e ! j) = Some m" by blast
      then show ?thesis by (intro exI [of _ j]) (simp add: written_def)
    qed
  next
    fix j m
    assume "j < length (ks_entries (sc_keys ?s))" "ke_rids_node (ks_entries (sc_keys ?s) ! j) = Some m"
    then have j: "j < length ?e" "ke_rids_node ((?e[k := (?e ! k)\<lparr>ke_fp := Some n, ke_updating_time := sc_now s, ke_rids_node := Some nd\<rparr>]) ! j) = Some m"
      by (simp_all add: written_def)
    have "m \<in> set (filter (\<lambda>n. n \<noteq> nd) ns @ [nd]) \<and> lq_data q m = Some j"
    proof (cases "j = k")
      case True
      with j q(2) show ?thesis by simp
    next
      case False
      with j mine [of j m] show ?thesis by simp
    qed
    then show "m \<in> set (filter (\<lambda>n. n \<noteq> nd) ns @ [nd])" "lq_data (ks_opened (sc_keys ?s)) m = Some j"
      by (simp_all add: written_def)
  qed
  assume o: "in_order s ns"
  have t: "node_time ?s m = node_time s m" if "m \<in> set ns" "m \<noteq> nd" for m
    using other [OF that] by (auto simp: node_time_def written_def)
  have t0: "node_time ?s nd = sc_now s" using q(2) inv(2) by (simp add: node_time_def written_def)
  have eq: "map (node_time ?s) (filter (\<lambda>n. n \<noteq> nd) ns) = map (node_time s) (filter (\<lambda>n. n \<noteq> nd) ns)" using t by simp
  have "sorted (map (node_time s) (filter (\<lambda>n. n \<noteq> nd) ns))" using o by (simp add: in_order_def sorted_filter)
  then have "sorted (map (node_time ?s) (filter (\<lambda>n. n \<noteq> nd) ns))" unfolding eq .
  moreover have "sc_now ?s = sc_now s" by (simp add: written_def)
  ultimately show "in_order ?s (filter (\<lambda>n. n \<noteq> nd) ns @ [nd])"
    using o t t0 by (auto simp: in_order_def sorted_append)
qed

lemma StoreCounter_result:
  assumes inv: "queue_inv s ns" and k: "k < length (ks_entries (sc_keys s))"
  shows "StoreCounter k g l s = Some Exits \<and> (\<forall>i. \<not> stream_ready s k i) \<or>
    (\<exists>n f nd q. StoreCounter k g l s = Some (Goes (written k (write_front f n (counter_text g l)) n nd q s)) \<and>
       (\<forall>i. stream_ready s k i \<longrightarrow> n = i \<and> same_files (sc_files s) f) \<and>
       (let ns' = filter (\<lambda>n. n \<noteq> nd) ns @ [nd]; s' = written k (write_front f n (counter_text g l)) n nd q s in
        queue_inv s' ns' \<and> (in_order s ns \<longrightarrow> in_order s' ns')))"
  using open_counter_result [OF k]
proof (elim disjE exE conjE)
  assume "open_counter k s = Some Exits" "\<forall>i. \<not> stream_ready s k i"
  then show ?thesis by (simp add: StoreCounter_def)
next
  fix n f
  let ?e = "ks_entries (sc_keys s)"
  let ?s1 = "s\<lparr>sc_files := f, sc_keys := (sc_keys s)\<lparr>ks_entries := ?e[k := (?e ! k)\<lparr>ke_fp := Some n\<rparr>]\<rparr>\<rparr>"
  assume oc: "open_counter k s = Some (Goes (n, ?s1))" and r: "\<forall>i. stream_ready s k i \<longrightarrow> n = i \<and> same_files (sc_files s) f"
  have ok: "lq_ok (ks_opened (sc_keys s)) ns" using inv by (simp add: queue_inv_def)
  show ?thesis
  proof (cases "ke_rids_node (?e ! k)")
    case None
    from push_result [OF ok, of "Some k"] obtain q where q: "linked_queue_push (ks_opened (sc_keys s)) (Some k) = Some (lq_fresh (ks_opened (sc_keys s)), q)"
      "lq_ok q (ns @ [lq_fresh (ks_opened (sc_keys s))])" "lq_data q (lq_fresh (ks_opened (sc_keys s))) = Some k"
      "\<forall>m. m \<noteq> lq_fresh (ks_opened (sc_keys s)) \<longrightarrow> lq_data q m = lq_data (ks_opened (sc_keys s)) m" by blast
    define nd where "nd = lq_fresh (ks_opened (sc_keys s))"
    note q = q [folded nd_def]
    have new: "nd \<notin> set ns" using lq_ok_allocated [OF ok] unfolding nd_def by blast
    then have ns: "filter (\<lambda>n. n \<noteq> nd) ns = ns" by (auto simp: filter_id_conv)
    have "StoreCounter k g l s = Some (Goes (written k (write_front f n (counter_text g l)) n nd q s))"
      using oc None k q(1)
      by (simp add: StoreCounter_def entry_at_result set_entry_at_result linked_queue_push_ex_def written_def)
    moreover have "queue_inv (written k f' n nd q s) (filter (\<lambda>n. n \<noteq> nd) ns @ [nd])"
      "in_order s ns \<Longrightarrow> in_order (written k f' n nd q s) (filter (\<lambda>n. n \<noteq> nd) ns @ [nd])" for f'
      using inv k q(2-4) new None by (intro queue_inv_written; simp add: ns)+
    ultimately show ?thesis using r unfolding Let_def by blast
  next
    case (Some nd)
    from inv k Some have nd: "nd \<in> set ns" "lq_data (ks_opened (sc_keys s)) nd = Some k" unfolding queue_inv_def by blast+
    then obtain xs ys where ns: "ns = xs @ nd # ys" by (auto dest: split_list)
    from touch_result [of "ks_opened (sc_keys s)" xs nd ys] ok ns obtain q where
      q: "linked_queue_unlink_and_push_node (ks_opened (sc_keys s)) nd = Some q" "lq_ok q (xs @ ys @ [nd])"
        "\<forall>m. lq_data q m = lq_data (ks_opened (sc_keys s)) m" by blast
    have "nd \<notin> set zs \<Longrightarrow> filter (\<lambda>n. n \<noteq> nd) zs = zs" for zs by (induction zs) auto
    moreover have "distinct ns" using ok by (simp add: lq_ok_def)
    ultimately have fl: "filter (\<lambda>n. n \<noteq> nd) ns = xs @ ys" unfolding ns by simp
    have same: "(?e ! k)\<lparr>ke_fp := Some n, ke_updating_time := sc_now s, ke_rids_node := Some nd\<rparr> =
        (?e ! k)\<lparr>ke_fp := Some n, ke_updating_time := sc_now s\<rparr>"
      using Some by (cases "?e ! k") simp
    have "StoreCounter k g l s = Some (Goes (written k (write_front f n (counter_text g l)) n nd q s))"
      unfolding written_def same using oc Some k q(1) by (simp add: StoreCounter_def entry_at_result set_entry_at_result)
    moreover have "queue_inv (written k f' n nd q s) (filter (\<lambda>n. n \<noteq> nd) ns @ [nd])"
      "in_order s ns \<Longrightarrow> in_order (written k f' n nd q s) (filter (\<lambda>n. n \<noteq> nd) ns @ [nd])" for f'
      using inv k q(2,3) nd(2) Some by (intro queue_inv_written; simp add: fl)+
    ultimately show ?thesis using r unfolding Let_def by blast
  qed
qed

section \<open>Closing idle files\<close>

text \<open>An entry whose file has not been written for \<open>seconds\<close>, and what is left of it after it was closed.\<close>

definition idle :: "nat \<Rightarrow> nat \<Rightarrow> keyentry \<Rightarrow> bool" where
  "idle seconds now e \<longleftrightarrow> ke_rids_node e \<noteq> None \<and> ke_updating_time e + seconds < now"

definition closed_entry :: "keyentry \<Rightarrow> keyentry" where
  "closed_entry e = e\<lparr>ke_fp := None, ke_updating_time := 0, ke_rids_node := None\<rparr>"

lemma queue_inv_head:
  assumes "queue_inv s (n # ns)"
  obtains k where "k < length (ks_entries (sc_keys s))" "lq_data (ks_opened (sc_keys s)) n = Some k"
    "ke_rids_node (ks_entries (sc_keys s) ! k) = Some n"
  using assms unfolding queue_inv_def by auto

lemma queue_inv_closed:
  assumes inv: "queue_inv s (n # ns)" "k < length (ks_entries (sc_keys s))" "ke_rids_node (ks_entries (sc_keys s) ! k) = Some n"
    and q: "lq_ok q ns" "\<forall>m. m \<noteq> n \<longrightarrow> lq_data q m = lq_data (ks_opened (sc_keys s)) m"
    and s': "s' = s\<lparr>sc_files := f, sc_keys := (sc_keys s)\<lparr>ks_opened := q,
      ks_entries := (ks_entries (sc_keys s))[k := closed_entry (ks_entries (sc_keys s) ! k)]\<rparr>\<rparr>"
  shows "queue_inv s' ns" and "in_order s (n # ns) \<Longrightarrow> in_order s' ns"
proof -
  let ?e = "ks_entries (sc_keys s)"
  have d: "n \<notin> set ns" using inv(1) by (auto simp: queue_inv_def lq_ok_def)
  have data: "lq_data q m = lq_data (ks_opened (sc_keys s)) m" if "m \<in> set ns" for m using q(2) d that by metis
  have other: "\<exists>j < length ?e. j \<noteq> k \<and> lq_data q m = Some j \<and> lq_data (ks_opened (sc_keys s)) m = Some j \<and> ke_rids_node (?e ! j) = Some m"
    if m: "m \<in> set ns" for m
  proof -
    from inv(1) m obtain j where j: "j < length ?e" "lq_data (ks_opened (sc_keys s)) m = Some j" "ke_rids_node (?e ! j) = Some m"
      unfolding queue_inv_def by auto
    with inv(3) d m have "j \<noteq> k" by auto
    with j data [OF m] show ?thesis by auto
  qed
  have mine: "m \<in> set ns \<and> lq_data q m = Some j" if j: "j < length ?e" "j \<noteq> k" "ke_rids_node (?e ! j) = Some m" for j m
  proof -
    have a: "m \<in> set (n # ns)" "lq_data (ks_opened (sc_keys s)) m = Some j" using inv(1) j unfolding queue_inv_def by blast+
    have "lq_data (ks_opened (sc_keys s)) n = Some k" using inv unfolding queue_inv_def by blast
    with a j(2) have "m \<in> set ns" by auto
    with a(2) data show ?thesis by simp
  qed
  show "queue_inv s' ns"
    unfolding queue_inv_def
  proof (intro conjI ballI allI impI)
    show "lq_ok (ks_opened (sc_keys s')) ns" using q(1) s' by simp
  next
    fix m
    assume "m \<in> set ns"
    from other [OF this] obtain j where "j < length ?e" "j \<noteq> k" "lq_data q m = Some j" "ke_rids_node (?e ! j) = Some m" by blast
    then show "\<exists>j < length (ks_entries (sc_keys s')). lq_data (ks_opened (sc_keys s')) m = Some j \<and>
        ke_rids_node (ks_entries (sc_keys s') ! j) = Some m"
      by (intro exI [of _ j]) (simp add: s')
  next
    fix j m
    assume "j < length (ks_entries (sc_keys s'))" "ke_rids_node (ks_entries (sc_keys s') ! j) = Some m"
    then have "j < length ?e" "ke_rids_node ((?e[k := closed_entry (?e ! k)]) ! j) = Some m" by (simp_all add: s')
    then have "m \<in> set ns \<and> lq_data q m = Some j"
      using mine [of j m] by (cases "j = k") (simp_all add: closed_entry_def)
    then show "m \<in> set ns" "lq_data (ks_opened (sc_keys s')) m = Some j" by (simp_all add: s')
  qed
  assume o: "in_order s (n # ns)"
  have t: "node_time s' m = node_time s m" if "m \<in> set ns" for m
    using other [OF that] by (auto simp: node_time_def s')
  then have eq: "map (node_time s') ns = map (node_time s) ns" by simp
  have "sc_now s' = sc_now s" by (simp add: s')
  with o t show "in_order s' ns" unfolding in_order_def eq by simp
qed

lemma close_idle_result:
  assumes "queue_inv s ns" "in_order s ns" "length ns \<le> rounds"
  shows "\<exists>s' ns'. close_idle rounds seconds s = Some s' \<and> queue_inv s' ns' \<and> in_order s' ns' \<and>
    ks_entries (sc_keys s') = map (\<lambda>e. if idle seconds (sc_now s) e then closed_entry e else e) (ks_entries (sc_keys s))"
  using assms
proof (induction ns arbitrary: s rounds)
  case Nil
  have "lq_first (ks_opened (sc_keys s)) = None" using Nil.prems(1) by (simp add: queue_inv_def lq_ok_def)
  moreover have "\<not> idle seconds (sc_now s) e" if e: "e \<in> set (ks_entries (sc_keys s))" for e
  proof -
    have "ke_rids_node e = None" using Nil.prems(1) e unfolding queue_inv_def in_set_conv_nth by fastforce
    then show ?thesis by (simp add: idle_def)
  qed
  then have "map (\<lambda>e. if idle seconds (sc_now s) e then closed_entry e else e) (ks_entries (sc_keys s)) = ks_entries (sc_keys s)"
    by (simp add: map_idI)
  moreover have "close_idle rounds seconds s = Some s" using calculation(1) by (subst close_idle.simps) simp
  ultimately show ?case using Nil.prems by (intro exI [of _ s] exI [of _ "[]"]) simp
next
  case (Cons n ns)
  let ?e = "ks_entries (sc_keys s)" and ?q = "ks_opened (sc_keys s)"
  from queue_inv_head [OF Cons.prems(1)] obtain k where k: "k < length ?e" "lq_data ?q n = Some k" "ke_rids_node (?e ! k) = Some n" by blast
  have ok: "lq_ok ?q (n # ns)" using Cons.prems(1) by (simp add: queue_inv_def)
  then obtain nd where nd: "lq_nodes ?q n = Some nd" "nd_data nd = Some k" "lq_first ?q = Some n"
    using k(2) by (auto simp: lq_ok_def lq_data_def split: option.splits)
  have time: "node_time s n = ke_updating_time (?e ! k)" using k(2) by (simp add: node_time_def)
  show ?case
  proof (cases "ke_updating_time (?e ! k) + seconds < sc_now s")
    case True
    then have cond: "int (sc_now s) - int seconds > int (ke_updating_time (?e ! k))" by linarith
    from pop_result [OF ok] obtain q where q: "linked_queue_pop ?q = Some (Some k, q)" "lq_ok q ns"
      "\<forall>m. m \<noteq> n \<longrightarrow> lq_data q m = lq_data ?q m" using k(2) by auto
    let ?f = "if ke_fp (?e ! k) \<noteq> None then fclose_stream (sc_files s) else sc_files s"
    let ?s = "s\<lparr>sc_files := ?f, sc_keys := (sc_keys s)\<lparr>ks_opened := q, ks_entries := ?e[k := closed_entry (?e ! k)]\<rparr>\<rparr>"
    note c = queue_inv_closed [OF Cons.prems(1) k(1,3) q(2,3) refl, of ?f]
    obtain r where r: "rounds = Suc r" "length ns \<le> r" using Cons.prems(3) by (cases rounds) auto
    have step: "close_idle rounds seconds s = close_idle r seconds ?s"
      using nd k(1) cond q(1) r(1)
      by (subst close_idle.simps) (auto simp: entry_at_result set_entry_at_result linked_queue_pop_ex_def closed_entry_def)
    from Cons.IH [OF c(1) c(2) [OF Cons.prems(2)] r(2)] obtain s' ns' where
      ih: "close_idle r seconds ?s = Some s'" "queue_inv s' ns'" "in_order s' ns'"
        "ks_entries (sc_keys s') = map (\<lambda>e. if idle seconds (sc_now s) e then closed_entry e else e) (?e[k := closed_entry (?e ! k)])"
      by auto
    have "map (\<lambda>e. if idle seconds (sc_now s) e then closed_entry e else e) (?e[k := closed_entry (?e ! k)]) =
        map (\<lambda>e. if idle seconds (sc_now s) e then closed_entry e else e) ?e"
      using k True by (intro nth_equalityI) (auto simp: nth_list_update idle_def closed_entry_def)
    with ih step show ?thesis by auto
  next
    case False
    then have cond: "\<not> int (sc_now s) - int seconds > int (ke_updating_time (?e ! k))" by linarith
    have step: "close_idle rounds seconds s = Some s"
      using nd k(1) cond Cons.prems(3) by (subst close_idle.simps) (auto simp: entry_at_result)
    have "\<not> idle seconds (sc_now s) e" if e: "e \<in> set ?e" for e
    proof (cases "ke_rids_node e")
      case (Some m)
      from e obtain j where j: "j < length ?e" "e = ?e ! j" by (auto simp: in_set_conv_nth)
      with Some Cons.prems(1) have m: "m \<in> set (n # ns)" "lq_data ?q m = Some j" unfolding queue_inv_def by blast+
      then have "node_time s m = ke_updating_time e" using j by (simp add: node_time_def)
      moreover have "node_time s n \<le> node_time s m" using Cons.prems(2) m(1) by (auto simp: in_order_def)
      ultimately show ?thesis using False time by (simp add: idle_def)
    qed (simp add: idle_def)
    then have "map (\<lambda>e. if idle seconds (sc_now s) e then closed_entry e else e) ?e = ?e" by (simp add: map_idI)
    with step Cons.prems show ?thesis by (intro exI [of _ s] exI [of _ "n # ns"]) simp
  qed
qed


text \<open>A manager with one agent, whose counter file is open, and a key store with nothing in the queue.\<close>

definition sample_entry :: keyentry where
  "sample_entry = \<lparr>ke_id = asc ''001'', ke_name = asc ''a'', ke_encryption_key = replicate 47 65, ke_single_host = True,
     ke_global = 0, ke_local = 0, ke_updating_time = 0, ke_inode = 1, ke_fp = None, ke_crypto_method = 1, ke_rids_node = None\<rparr>"

definition sample_files :: rid_files where
  "sample_files = \<lparr>rf_dir = [rids_path (asc ''001'') \<mapsto> 1, rids_path SENDER_COUNTER \<mapsto> 2], rf_data = (\<lambda>i. []),
     rf_next = 3, rf_open = 1, rf_denied = (\<lambda>p. False)\<rparr>"

definition sample_state :: sec_state where
  "sample_state = \<lparr>sc_keys = \<lparr>ks_entries = [sample_entry, sample_entry\<lparr>ke_inode := 2, ke_fp := Some 2\<rparr>], ks_key_mode = W_ENCRYPTION_KEY,
       ks_opened = linked_queue_init\<rparr>, sc_files = sample_files, sc_global_count = 0, sc_local_count = 0, sc_rcv_count = 0,
     sc_evt_count = 0, sc_orig_size = 0, sc_comp_size = 0, sc_recv_flush = 10, sc_comp_print = 10, sc_verify_counter = True, sc_now = 1000\<rparr>"

lemma sample_state_queue: "queue_inv sample_state []" "in_order sample_state []"
  by (auto simp: queue_inv_def in_order_def sample_state_def sample_entry_def nth_Cons' less_Suc_eq)

definition busy_state :: sec_state where
  "busy_state = sample_state\<lparr>sc_keys := (sc_keys sample_state)\<lparr>ks_entries := [sample_entry\<lparr>ke_fp := Some 1, ke_updating_time := 100, ke_rids_node := Some 0\<rparr>,
      sample_entry\<lparr>ke_inode := 2, ke_fp := Some 2\<rparr>],
      ks_opened := \<lparr>lq_nodes = [0 \<mapsto> \<lparr>nd_data = Some 0, nd_next = None, nd_prev = None\<rparr>], lq_fresh = 1, lq_elements = 1,
        lq_first = Some 0, lq_last = Some 0\<rparr>\<rparr>\<rparr>"


end
