(* ===== verification/Sec_Msg_Send.thy ===== *)
theory Sec_Msg_Send
  imports Sec_Msg Rid_Counters_Thms
begin

text \<open>
  What \<open>CreateSecMSG\<close> produces: with the libraries as documented (\<open>crypto_ok\<close>) and the sender's counter file in
  place, one datagram that seals the next counters and the message, and these counters are
  in the file before it is handed out.
\<close>

section \<open>What is relied on\<close>

text \<open>The bound that zlib documents for \<open>compressBound\<close>.\<close>

definition compress_bound :: "nat \<Rightarrow> nat" where
  "compress_bound n = n + n div 4096 + n div 16384 + n div 33554432 + 13"

text \<open>
  Documented behaviour of the libraries: decryption undoes encryption; Blowfish keeps the length and AES pads by
  1 to 16 bytes; an MD5 digest has 16 bytes; compression succeeds with \<open>compressBound\<close> bytes of room, a
  stream does not start with \<open>!\<close> (its first byte names the method, 8), and uncompressing a complete stream
  gives the source, whatever follows it; \<open>uncompress\<close> stays within the room it is given.
\<close>

definition bf_ok :: "crypto \<Rightarrow> bool" where
  "bf_ok cr \<longleftrightarrow> (\<forall>k iv e d. length (cr_bf cr k iv e d) = length d) \<and>
     (\<forall>k iv d. 8 dvd length d \<longrightarrow> cr_bf cr k iv False (cr_bf cr k iv True d) = d)"

definition aes_ok :: "crypto \<Rightarrow> bool" where
  "aes_ok cr \<longleftrightarrow> (\<forall>k iv d. \<exists>c. cr_aes_encrypt cr k iv d = Some c \<and> length d < length c \<and> length c \<le> length d + 16 \<and>
       cr_aes_decrypt cr k iv c = Some d) \<and>
     (\<forall>k iv c d. cr_aes_decrypt cr k iv c = Some d \<longrightarrow> length d \<le> length c)"

definition zlib_ok :: "crypto \<Rightarrow> bool" where
  "zlib_ok cr \<longleftrightarrow> (\<forall>d n. length d \<le> 2 ^ 17 \<and> compress_bound (length d) \<le> n \<longrightarrow>
       (\<exists>c. cr_compress cr d n = Some c \<and> c \<noteq> [] \<and> hd c \<noteq> 33 \<and> length c \<le> compress_bound (length d) \<and>
         (\<forall>m rest. length d \<le> m \<longrightarrow> cr_uncompress cr (c @ rest) m = (True, d)))) \<and>
     (\<forall>c n. length (snd (cr_uncompress cr c n)) \<le> n)"

definition crypto_ok :: "crypto \<Rightarrow> bool" where
  "crypto_ok cr \<longleftrightarrow> bf_ok cr \<and> aes_ok cr \<and> zlib_ok cr \<and> (\<forall>d. length (cr_md5 cr d) = 16)"

section \<open>Text of a message\<close>

lemma length_zero_padded: "0 < w \<Longrightarrow> n < 10 ^ w \<Longrightarrow> length (zero_padded w n) = w"
  using length_dec_le [of w n] by (simp add: zero_padded_def)

lemma u16_digits: "unat (r :: u16) < 10 ^ 5"
  using unsigned_less [of r, where 'a = nat] by simp

lemma u32_digits: "unat (g :: u32) < 10 ^ 10"
  using unsigned_less [of g, where 'a = nat] by simp

lemma length_message_text: "unat l < 10000 \<Longrightarrow> length (message_text r g l msg) = 21 + length msg"
  using length_zero_padded [OF _ u16_digits, of r] length_zero_padded [OF _ u32_digits, of g] length_zero_padded [of 4 "unat l"]
  by (simp add: message_text_def)

definition digest :: "crypto \<Rightarrow> bytes \<Rightarrow> bytes" where
  "digest cr txt = concat (map hex2 (take 16 (cr_md5 cr txt)))"

lemma length_digest: "crypto_ok cr \<Longrightarrow> length (digest cr txt) = 32"
  by (simp add: digest_def length_concat_hex2 crypto_ok_def)

lemma OS_MD5_Str_result: "peek mem p n = Some d \<Longrightarrow> OS_MD5_Str cr mem p (int n) = Some (digest cr d)"
  by (simp add: OS_MD5_Str_def digest_def)

section \<open>The counters of the sender\<close>

text \<open>Counters are compared first by the global, then by the local part.\<close>

definition counters_le :: "u32 \<times> u32 \<Rightarrow> u32 \<times> u32 \<Rightarrow> bool" where
  "counters_le a b \<longleftrightarrow> fst a < fst b \<or> (fst a = fst b \<and> snd a \<le> snd b)"

definition counters_less :: "u32 \<times> u32 \<Rightarrow> u32 \<times> u32 \<Rightarrow> bool" where
  "counters_less a b \<longleftrightarrow> fst a < fst b \<or> (fst a = fst b \<and> snd a < snd b)"

lemma counters_le_refl [simp]: "counters_le a a"
  by (simp add: counters_le_def)

lemma counters_less_le: "counters_less a b \<Longrightarrow> counters_le a b"
  by (auto simp: counters_le_def counters_less_def)

lemma counters_le_less_trans: "counters_le a b \<Longrightarrow> counters_less b c \<Longrightarrow> counters_less a c"
  by (auto simp: counters_le_def counters_less_def)

lemma counters_le_trans: "counters_le a b \<Longrightarrow> counters_le b c \<Longrightarrow> counters_le a c"
  by (auto simp: counters_le_def)

lemma counters_le_not_less: "counters_le a b \<longleftrightarrow> \<not> counters_less b a"
  by (auto simp: counters_le_def counters_less_def)

definition sender_counters :: "sec_state \<Rightarrow> u32 \<times> u32" where
  "sender_counters s = (sc_global_count s, sc_local_count s)"

lemma next_counters_sender:
  assumes "sc_global_count s \<noteq> -1"
  shows "counters_less (sender_counters s) (sender_counters (next_counters s))"
    and "unat (sc_local_count (next_counters s)) < 10000"
    and "sc_global_count (next_counters s) \<le> sc_global_count s + 1"
proof -
  let ?g = "sc_global_count s" and ?l = "sc_local_count s"
  have n0: "1 + x \<noteq> 0" if "x \<noteq> -1" for x :: u32 using that by (metis add_eq_0_iff)
  have g: "unat (1 + ?g) = Suc (unat ?g)" using n0 [OF assms] by (rule unatSuc)
  have all: "counters_less (sender_counters s) (sender_counters (next_counters s)) \<and>
    unat (sc_local_count (next_counters s)) < 10000 \<and> sc_global_count (next_counters s) \<le> ?g + 1"
  proof (cases "?l \<ge> 9997")
    case True
    with g show ?thesis
      by (simp add: next_counters_def sender_counters_def counters_less_def word_less_nat_alt add.commute)
  next
    case False
    then have l: "unat ?l < 9997" by (simp add: word_le_nat_alt)
    then have "?l \<noteq> -1" by (auto simp: unsigned_minus_1_eq_mask mask_eq_exp_minus_1)
    from unatSuc [OF n0 [OF this]] have "unat (1 + ?l) = Suc (unat ?l)" .
    with False l g show ?thesis
      by (simp add: next_counters_def sender_counters_def counters_less_def word_less_nat_alt word_le_nat_alt add.commute)
  qed
  then show "counters_less (sender_counters s) (sender_counters (next_counters s))"
    "unat (sc_local_count (next_counters s)) < 10000" "sc_global_count (next_counters s) \<le> ?g + 1" by blast+
qed

lemma next_counters_fields [simp]:
  "sc_keys (next_counters s) = sc_keys s" "sc_files (next_counters s) = sc_files s"
  "sc_orig_size (next_counters s) = sc_orig_size s" "sc_evt_count (next_counters s) = sc_evt_count s"
  "sc_comp_size (next_counters s) = sc_comp_size s" "sc_comp_print (next_counters s) = sc_comp_print s"
  "sc_rcv_count (next_counters s) = sc_rcv_count s" "sc_recv_flush (next_counters s) = sc_recv_flush s"
  "sc_verify_counter (next_counters s) = sc_verify_counter s" "sc_now (next_counters s) = sc_now s"
  by (simp_all add: next_counters_def Let_def)

section \<open>Creating a message\<close>

text \<open>The stream of the sender is open on the file that is there.\<close>

definition sender_file :: "sec_state \<Rightarrow> nat" where
  "sender_file s = counter_file (sc_keys s) (sc_files s) (ks_keysize (sc_keys s))"

definition sender_ready :: "sec_state \<Rightarrow> bool" where
  "sender_ready s \<longleftrightarrow> files_ready (sc_keys s) (sc_files s) \<and> ks_key_mode (sc_keys s) \<noteq> W_RAW_KEY \<and>
     ke_fp (ks_entries (sc_keys s) ! ks_keysize (sc_keys s)) = Some (sender_file s) \<and>
     ke_inode (ks_entries (sc_keys s) ! ks_keysize (sc_keys s)) = sender_file s"

text \<open>The averages cannot overflow before they are reset.\<close>

definition sizes_ok :: "sec_state \<Rightarrow> bool" where
  "sizes_ok s \<longleftrightarrow> unat (sc_orig_size s) \<le> unat (sc_evt_count s) * 2 ^ 17 \<and> sc_comp_print s \<noteq> -1"

lemma count_sizes_result:
  assumes "sizes_ok s" "0 < n" "n \<le> 2 ^ 17"
  shows "\<exists>ev a b. count_sizes n m s = Some (s\<lparr>sc_evt_count := ev, sc_orig_size := a, sc_comp_size := b\<rparr>) \<and>
    sizes_ok (s\<lparr>sc_evt_count := ev, sc_orig_size := a, sc_comp_size := b\<rparr>)"
proof -
  have nn: "unat (of_nat n :: u64) = n" using assms(3) by (simp add: unsigned_of_nat take_bit_nat_eq_self)
  have ev: "unat (sc_evt_count s) < 2 ^ 32" using unsigned_less [of "sc_evt_count s", where 'a = nat] by simp
  have lt: "unat (sc_orig_size s) + n < 2 ^ 64"
  proof -
    have "unat (sc_orig_size s) + n \<le> unat (sc_evt_count s) * 2 ^ 17 + 2 ^ 17" using assms unfolding sizes_ok_def by linarith
    also have "\<dots> \<le> 2 ^ 32 * 2 ^ 17 + 2 ^ 17" using ev by simp
    also have "\<dots> < 2 ^ 64" by simp
    finally show ?thesis .
  qed
  have sum: "unat (sc_orig_size s + of_nat n) = unat (sc_orig_size s) + n"
    using lt nn by (simp add: unat_word_ariths)
  then have ne: "sc_orig_size s + of_nat n \<noteq> 0" using assms(2) by (metis add_is_0 not_less_zero unat_0)
  show ?thesis
  proof (cases "sc_evt_count s > sc_comp_print s")
    case True
    with ne assms(1) show ?thesis
      by (intro exI [of _ 1] exI [of _ 0]) (simp add: count_sizes_def Let_def sizes_ok_def)
  next
    case False
    then have "sc_evt_count s \<noteq> -1" using assms(1) by (metis sizes_ok_def max_word_max word_order.not_eq_extremum not_less_iff_gr_or_eq order.order_iff_strict)
    then have "1 + sc_evt_count s \<noteq> 0" by (metis add_eq_0_iff)
    from unatSuc [OF this] have "unat (1 + sc_evt_count s) = Suc (unat (sc_evt_count s))" .
    then have "sizes_ok (s\<lparr>sc_evt_count := sc_evt_count s + 1, sc_orig_size := sc_orig_size s + of_nat n,
        sc_comp_size := sc_comp_size s + of_nat m\<rparr>)"
      using assms(1,3) sum by (simp add: sizes_ok_def add.commute)
    with False show ?thesis
      by (intro exI [of _ "sc_evt_count s + 1"] exI [of _ "sc_orig_size s + of_nat n"] exI [of _ "sc_comp_size s + of_nat m"])
        (simp add: count_sizes_def Let_def)
  qed
qed

text \<open>The parts of a datagram: the clear text before encryption, and the datagram without the agent id.\<close>

definition padded :: "bytes \<Rightarrow> bytes" where
  "padded c = replicate (1 + (8 - (length c + 1) mod 8) mod 8) 33 @ c"

definition encrypted :: "crypto \<Rightarrow> int \<Rightarrow> bytes \<Rightarrow> bytes \<Rightarrow> bytes" where
  "encrypted cr method key c =
     (if method = W_METH_BLOWFISH then cr_bf cr key bf_iv True (padded c)
      else case cr_aes_encrypt cr (take 32 (key @ [0])) aes_iv (padded c) of None \<Rightarrow> [] | Some x \<Rightarrow> x)"

definition token_of :: "int \<Rightarrow> bytes" where
  "token_of method = (if method = W_METH_BLOWFISH then [58] else asc ''#AES:'')"

definition address_of :: "bool \<Rightarrow> keyentry \<Rightarrow> bytes" where
  "address_of client e = (if \<not> ke_single_host e \<and> client then [33] @ ke_id e @ [33] else [])"

definition known_method :: "keyentry \<Rightarrow> bool" where
  "known_method e \<longleftrightarrow> (ke_crypto_method e = W_METH_BLOWFISH \<or> ke_crypto_method e = W_METH_AES) \<and>
     31 \<le> length (ke_encryption_key e)"

lemma pad_to_8: "(n + (8 - n mod 8) mod 8) mod 8 = 0" for n :: nat
proof -
  have lt: "n mod 8 < 8" by simp
  have "n + (8 - n mod 8) = 8 * (n div 8) + 8" using div_mult_mod_eq [of n 8] lt by linarith
  then have "(n + (8 - n mod 8)) mod 8 = 0" by simp
  then show ?thesis by (metis mod_add_right_eq)
qed

lemma padded_dvd: "8 dvd length (padded c)"
proof -
  have "length (padded c) = (length c + 1) + (8 - (length c + 1) mod 8) mod 8" by (simp add: padded_def)
  then show ?thesis using pad_to_8 [of "length c + 1"] by (metis dvd_eq_mod_eq_0)
qed

lemma length_padded: "length c + 1 \<le> length (padded c) \<and> length (padded c) \<le> length c + 8"
  using mod_less_divisor [of 8 "8 - (length c + 1) mod 8"] by (simp add: padded_def)

lemma poke_front: "length bs \<le> length buf \<Longrightarrow> poke buf 0 bs = Some (bs @ drop (length bs) buf)"
  by (simp add: poke_def)

lemma sender_readyD:
  assumes "sender_ready s"
  shows "ks_keysize (sc_keys s) < length (ks_entries (sc_keys s))"
    and "rf_dir (sc_files s) (rids_path SENDER_COUNTER) = Some (sender_file s)"
    and "ReloadCounter (ks_keysize (sc_keys s)) SENDER_COUNTER s = Some s"
proof -
  let ?m = "ks_keysize (sc_keys s)"
  have r: "files_ready (sc_keys s) (sc_files s)" using assms by (simp add: sender_ready_def)
  then show m: "?m < length (ks_entries (sc_keys s))" by (cases "ks_entries (sc_keys s)") (simp_all add: files_ready_def ks_keysize_def)
  have "counter_name (sc_keys s) ?m = rids_path SENDER_COUNTER" by (simp add: counter_name_def)
  with r show d: "rf_dir (sc_files s) (rids_path SENDER_COUNTER) = Some (sender_file s)"
    unfolding files_ready_def sender_file_def counter_file_def by (metis le_refl option.collapse)
  show "ReloadCounter ?m SENDER_COUNTER s = Some s"
    using assms m d by (simp add: ReloadCounter_def entry_at_result File_Inode_def sender_ready_def)
qed

lemma known_token: "known_method e \<Longrightarrow> crypto_token (ke_crypto_method e) = Some (token_of (ke_crypto_method e))"
  by (auto simp: known_method_def crypto_token_def token_of_def W_METH_AES_def W_METH_BLOWFISH_def)

lemma token_length: "length (token_of m) \<le> 5"
  by (simp add: token_of_def)

lemma message_prefix_result:
  assumes "\<not> ke_single_host e \<and> client \<longrightarrow> length (ke_id e) \<le> 8" "16 \<le> length out"
  shows "\<exists>out1. message_prefix client e (token_of m) out = Some (length (address_of client e @ token_of m), out1) \<and>
    take (length (address_of client e @ token_of m)) out1 = address_of client e @ token_of m \<and> length out1 = length out"
proof -
  have t: "length (token_of m) \<le> 5" by (rule token_length)
  show ?thesis
  proof (cases "\<not> ke_single_host e \<and> client")
    case True
    with assms(1) t have "length ([33] @ ke_id e @ [33] @ token_of m) \<le> 15" by simp
    with True assms(2) show ?thesis
      by (auto simp: message_prefix_def address_of_def poke_front Let_def)
  next
    case False
    with t assms(2) show ?thesis by (auto simp: message_prefix_def address_of_def poke_front)
  qed
qed

text \<open>A length passed as \<open>int\<close>.\<close>

lemma sint_of_length:
  assumes "n < 2 ^ 31"
  shows "sint (word_of_int (int n) :: u32) = int n"
proof -
  have "sint (word_of_int (int n) :: u32) = signed_take_bit 31 (int n)" by (simp only: signed_of_int) simp
  also have "\<dots> = int n" using assms by (intro signed_take_bit_int_eq_self) auto
  finally show ?thesis .
qed

text \<open>Encrypting what was prepared in the array at \<open>_tmpmsg\<close>.\<close>

lemma doEncryptByMethod_result:
  assumes ok: "crypto_ok cr" "known_method e" and src: "peek input p n = Some (padded c)" "n = length (padded c)" "length c \<le> 65492"
    and room: "off + n + 16 \<le> length out"
  shows "\<exists>rc out1. doEncryptByMethod cr input p out off (ke_encryption_key e) n True (ke_crypto_method e) = Some (rc, out1) \<and>
    max n (nat rc) = length (encrypted cr (ke_crypto_method e) (ke_encryption_key e) c) \<and>
    length (encrypted cr (ke_crypto_method e) (ke_encryption_key e) c) \<le> n + 16 \<and>
    take (off + length (encrypted cr (ke_crypto_method e) (ke_encryption_key e) c)) out1 =
      take off out @ encrypted cr (ke_crypto_method e) (ke_encryption_key e) c \<and> length out1 = length out"
proof (cases "ke_crypto_method e = W_METH_BLOWFISH")
  case True
  let ?x = "cr_bf cr (ke_encryption_key e) bf_iv True (padded c)"
  have l: "length ?x = n" using ok(1) src(2) by (simp add: crypto_ok_def bf_ok_def)
  obtain out1 where o: "poke out off ?x = Some out1" using room l by (simp add: poke_def)
  have "0 < n" using src(2) length_padded [of c] by linarith
  with True src(1) o l show ?thesis
    by (auto simp: doEncryptByMethod_def OS_BF_Str_def encrypted_def length_poke take_poke)
next
  case False
  then have m: "ke_crypto_method e = W_METH_AES" "W_METH_AES \<noteq> W_METH_BLOWFISH"
    using ok(2) by (auto simp: known_method_def W_METH_AES_def W_METH_BLOWFISH_def)
  let ?k = "take 32 (ke_encryption_key e @ [0])"
  have key: "peek (ke_encryption_key e @ [0]) 0 32 = Some ?k" using ok(2) by (simp add: peek_def known_method_def)
  from ok(1) obtain x where x: "cr_aes_encrypt cr ?k aes_iv (padded c) = Some x" "n < length x" "length x \<le> n + 16"
    unfolding crypto_ok_def aes_ok_def src(2) by blast
  have sn: "sint (word_of_int (int n) :: u32) = int n"
    using src length_padded [of c] by (intro sint_of_length) simp
  obtain out1 where o: "poke out off x = Some out1" using room x(3) by (simp add: poke_def)
  have enc: "encrypted cr (ke_crypto_method e) (ke_encryption_key e) c = x" using m x(1) by (simp add: encrypted_def)
  have "doEncryptByMethod cr input p out off (ke_encryption_key e) n True (ke_crypto_method e) = Some (int (length x), out1)"
    using m key src(1) x(1) o unfolding doEncryptByMethod_def OS_AES_Str_def sn by (simp add: aes_result_def)
  with x o show ?thesis unfolding enc by (auto simp: length_poke take_poke)
qed

section \<open>The datagram\<close>

definition datagram :: "crypto \<Rightarrow> keyentry \<Rightarrow> bytes \<Rightarrow> bytes" where
  "datagram cr e c = token_of (ke_crypto_method e) @ encrypted cr (ke_crypto_method e) (ke_encryption_key e) c"

text \<open>A compressed text that uncompresses to the digest and the text, as \<open>zlib_ok\<close> promises it.\<close>

definition seals :: "crypto \<Rightarrow> bytes \<Rightarrow> bytes \<Rightarrow> bool" where
  "seals cr c txt \<longleftrightarrow> c \<noteq> [] \<and> hd c \<noteq> 33 \<and> length c \<le> 65492 \<and>
     (\<forall>m rest. length txt + 32 \<le> m \<longrightarrow> cr_uncompress cr (c @ rest) m = (True, digest cr txt @ txt))"

definition after_send :: "sec_state \<Rightarrow> u32 \<Rightarrow> u32 \<Rightarrow> sec_state \<Rightarrow> bool" where
  "after_send s g l s' \<longleftrightarrow> sc_keys s' = sc_keys s \<and>
     sc_files s' = write_front (sc_files s) (sender_file s) (counter_text g l) \<and>
     sender_counters s' = (g, l) \<and> sizes_ok s' \<and> sc_rcv_count s' = sc_rcv_count s \<and> sc_recv_flush s' = sc_recv_flush s \<and>
     sc_comp_print s' = sc_comp_print s \<and> sc_verify_counter s' = sc_verify_counter s \<and> sc_now s' = sc_now s"

lemma after_send_ready:
  assumes "after_send s g l s'" "sender_ready s"
  shows "sender_ready s'" "sender_file s' = sender_file s" "saved (sc_files s') (sender_file s) = (g, l)"
proof -
  have d: "rf_dir (sc_files s') = rf_dir (sc_files s)" "rf_denied (sc_files s') = rf_denied (sc_files s)" "sc_keys s' = sc_keys s"
    using assms(1) by (simp_all add: after_send_def write_front_def)
  then show f: "sender_file s' = sender_file s" by (simp add: sender_file_def counter_file_def)
  show "sender_ready s'" using assms(2) d f by (simp add: sender_ready_def files_ready_def)
  show "saved (sc_files s') (sender_file s) = (g, l)"
    using assms(1) by (simp add: after_send_def saved_def counters_or_zero_def stored_counters_read)
qed

lemma CreateSecMSG_result:
  assumes ok: "crypto_ok cr" "sender_ready s" "sizes_ok s" "sc_global_count s \<noteq> -1"
    and msg: "1 \<le> length msg" "length msg \<le> MSG_MAX"
    and e: "k < ks_keysize (sc_keys s)" "e = ks_entries (sc_keys s) ! k" "known_method e"
      "\<not> ke_single_host e \<and> client \<longrightarrow> length (ke_id e) \<le> 8"
    and out: "length out = OS_MAXSTR + 1"
    and gl: "(g, l) = sender_counters (next_counters s)"
  shows "\<exists>c out' s'. CreateSecMSG cr client r msg k out s = Some (int (length (address_of client e @ datagram cr e c)), out', s') \<and>
    take (length (address_of client e @ datagram cr e c)) out' = address_of client e @ datagram cr e c \<and>
    length out' = OS_MAXSTR + 1 \<and> length (address_of client e @ datagram cr e c) \<le> OS_MAXSTR \<and>
    seals cr c (message_text r g l msg) \<and> after_send s g l s'"
proof -
  define tx where "tx = message_text r g l msg"
  define T0 :: bytes where "T0 = replicate (OS_MAXSTR + 2) 0"
  have T0: "length T0 = OS_MAXSTR + 2" by (simp add: T0_def)
  have max: "OS_MAXSTR = 65536" "MSG_MAX = 65408" by (simp_all add: OS_MAXSTR_def MSG_MAX_def OS_HEADER_SIZE_def)
  have g: "sc_global_count (next_counters s) = g" and l: "sc_local_count (next_counters s) = l" using gl by (simp_all add: sender_counters_def)
  have lt: "length tx = 21 + length msg"
    using next_counters_sender(2) [OF ok(4)] l unfolding tx_def by (simp add: length_message_text)
  note sr = sender_readyD [OF ok(2)]
  have kl: "k < length (ks_entries (sc_keys s))" using e(1) sr(1) by simp
  have mode: "\<not> (ks_key_mode (sc_keys s) \<noteq> W_ENCRYPTION_KEY \<and> ks_key_mode (sc_keys s) \<noteq> W_DUAL_KEY)"
    using ok(2) by (cases "ks_key_mode (sc_keys s)") (auto simp: sender_ready_def)
  have size: "\<not> (length msg > MSG_MAX \<or> length msg < 1)" using msg by (cases msg) auto
  obtain out1 where o1: "poke out OS_MAXSTR [0] = Some out1" "length out1 = OS_MAXSTR + 1"
    using out by (simp add: poke_def)
  let ?s2 = "next_counters s"
  have keys2: "sc_keys ?s2 = sc_keys s" "sc_files ?s2 = sc_files s" by simp_all
  obtain tmp where tmp: "poke T0 0 tx = Some tmp" "length tmp = OS_MAXSTR + 2" "peek tmp 0 (length tx) = Some tx"
    using T0 lt msg max by (simp add: poke_front peek_def)
  have md: "OS_MD5_Str cr tmp 0 (int (length tx)) = Some (digest cr tx)" by (rule OS_MD5_Str_result [OF tmp(3)])
  have dl: "length (digest cr tx) = 32" by (rule length_digest [OF ok(1)])
  obtain fin where fin: "poke T0 0 (digest cr tx @ tx) = Some fin" "peek fin 0 (length tx + 32) = Some (digest cr tx @ tx)"
    using T0 lt msg max dl by (simp add: poke_front peek_def)
  have bound: "compress_bound (length (digest cr tx @ tx)) \<le> 65492"
  proof -
    have n: "length (digest cr tx @ tx) \<le> 65461" using dl lt msg max by simp
    have "n + n div 4096 + n div 16384 + n div 33554432 + 13 \<le> 65492" if "n \<le> 65461" for n :: nat
    proof -
      have "n div 4096 \<le> 65461 div 4096" "n div 16384 \<le> 65461 div 16384" "n div 33554432 \<le> 65461 div 33554432"
        using that by (simp_all only: div_le_mono)
      with that show ?thesis by simp
    qed
    with n show ?thesis unfolding compress_bound_def by blast
  qed
  have "length (digest cr tx @ tx) \<le> 2 ^ 17 \<and> compress_bound (length (digest cr tx @ tx)) \<le> OS_MAXSTR - 12"
    using bound dl lt msg max by simp
  then obtain c where c: "cr_compress cr (digest cr tx @ tx) (OS_MAXSTR - 12) = Some c" "c \<noteq> []" "hd c \<noteq> 33"
    "length c \<le> compress_bound (length (digest cr tx @ tx))"
    "\<And>m rest. length (digest cr tx @ tx) \<le> m \<Longrightarrow> cr_uncompress cr (c @ rest) m = (True, digest cr tx @ tx)"
    using ok(1) unfolding crypto_ok_def zlib_ok_def by metis
  have lc: "length c \<le> 65492" using c(4) bound by linarith
  have seal: "seals cr c tx" using c(2,3,5) lc dl by (simp add: seals_def add.commute)
  obtain tmp1 where z: "os_zlib_compress cr (digest cr tx @ tx) tmp 8 (OS_MAXSTR - 12) = Some (length c, tmp1)"
    "poke tmp 8 (c @ [0]) = Some tmp1"
    using c(1) tmp(2) lc max by (simp add: os_zlib_compress_def poke_def)
  have t8: "length (take 8 tmp) = 8" using tmp(2) max by simp
  have tl: "length tmp1 = OS_MAXSTR + 2" "take (8 + length c) tmp1 = take 8 tmp @ c"
  proof -
    show "length tmp1 = OS_MAXSTR + 2" using length_poke [OF z(2)] tmp(2) by simp
    have "take (8 + length c) tmp1 = take (8 + length c) (take (8 + length (c @ [0])) tmp1)" by (simp add: min_def)
    also have "\<dots> = take (8 + length c) (take 8 tmp @ c @ [0])" unfolding take_poke [OF z(2)] ..
    finally show "take (8 + length c) tmp1 = take 8 tmp @ c" using t8 by simp
  qed
  obtain tmp2 where t2: "poke tmp1 0 (replicate 8 33) = Some tmp2" "tmp2 = replicate 8 33 @ drop 8 tmp1"
    using tl(1) max by (simp add: poke_front)
  define bf where "bf = (8 - (length c + 1) mod 8) mod 8"
  have bf: "bf < 8" unfolding bf_def by simp
  have bfS: "(8 - Suc (length c) mod 8) mod 8 = bf" by (simp add: bf_def)
  have pl: "length c + 1 + bf = length (padded c)" unfolding padded_def bf_def by simp
  have src: "peek tmp2 (7 - bf) (length c + 1 + bf) = Some (padded c)"
  proof -
    have "take (length c) (drop 8 tmp1) = drop 8 (take (8 + length c) tmp1)" by (simp add: drop_take)
    also have "\<dots> = c" unfolding tl(2) using t8 by simp
    finally have "take (length c) (drop 8 tmp1) = c" .
    then have "take (length c + 1 + bf) (drop (7 - bf) tmp2) = padded c"
      unfolding t2(2) padded_def bf_def [symmetric] using bf by (simp add: Suc_diff_le)
    then show ?thesis using tl(1) t2(2) lc bf max by (simp add: peek_def)
  qed
  obtain ev a b where cs: "count_sizes (length tx + 32) (length c + 1 + bf) ?s2 = Some (?s2\<lparr>sc_evt_count := ev, sc_orig_size := a, sc_comp_size := b\<rparr>)"
    "sizes_ok (?s2\<lparr>sc_evt_count := ev, sc_orig_size := a, sc_comp_size := b\<rparr>)"
  proof -
    have "sizes_ok ?s2" using ok(3) by (simp add: sizes_ok_def)
    from count_sizes_result [OF this, of "length tx + 32" "length c + 1 + bf"] lt msg(2) max that show thesis by auto
  qed
  let ?s3 = "?s2\<lparr>sc_evt_count := ev, sc_orig_size := a, sc_comp_size := b\<rparr>"
  let ?m = "ke_crypto_method e" and ?x = "encrypted cr (ke_crypto_method e) (ke_encryption_key e) c"
  have "16 \<le> length out1" using o1(2) max by simp
  from message_prefix_result [OF e(4) this, of ?m] obtain out2 where mp:
    "message_prefix client e (token_of ?m) out1 = Some (length (address_of client e @ token_of ?m), out2)"
    "take (length (address_of client e @ token_of ?m)) out2 = address_of client e @ token_of ?m" "length out2 = OS_MAXSTR + 1"
    using o1(2) by auto
  have al: "length (address_of client e @ token_of ?m) \<le> 15"
    using e(4) token_length [of ?m] by (auto simp: address_of_def)
  have "length (address_of client e @ token_of ?m) + (length c + 1 + bf) + 16 \<le> length out2" using al lc bf mp(3) max by linarith
  from doEncryptByMethod_result [OF ok(1) e(3) src pl lc this] obtain rc out3 where en:
    "doEncryptByMethod cr tmp2 (7 - bf) out2 (length (address_of client e @ token_of ?m)) (ke_encryption_key e) (length c + 1 + bf) True ?m = Some (rc, out3)"
    "max (length c + 1 + bf) (nat rc) = length ?x" "length ?x \<le> length c + 1 + bf + 16"
    "take (length (address_of client e @ token_of ?m) + length ?x) out3 = (address_of client e @ token_of ?m) @ ?x" "length out3 = OS_MAXSTR + 1"
    using mp(2,3) by auto
  let ?s4 = "?s3\<lparr>sc_files := write_front (sc_files s) (sender_file s) (counter_text g l)\<rparr>"
  have st: "StoreSenderCounter g l ?s3 = Some ?s4"
    using sr(1) ok(2) keys2 by (simp add: StoreSenderCounter_def entry_at_def sender_ready_def)
  have ent: "entry_at k s = Some e" "entry_at k ?s3 = Some e" using kl e(2) keys2 by (simp_all add: entry_at_def)
  have "CreateSecMSG cr client r msg k out s =
      Some (int (max (length c + 1 + bf) (nat rc)) + int (length (address_of client e @ token_of ?m)), out3, ?s4)"
    unfolding CreateSecMSG_def if_not_P [OF mode] if_not_P [OF size] ent(1) bind.bind_lunit known_token [OF e(3)] option.case
      o1(1) sr(3) Let_def g l tx_def [symmetric] T0_def [symmetric] tmp(1) md fin z(1) prod.case
    using c(2) t2(1) cs(1) ent(2) mp(1) en(1) st g l by (simp add: bfS)
  moreover have "after_send s g l ?s4"
    using cs(2) g l keys2 by (simp add: after_send_def sender_counters_def sizes_ok_def)
  moreover have "length (address_of client e @ datagram cr e c) \<le> OS_MAXSTR"
    using en(3) al lc bf max unfolding datagram_def by simp
  ultimately show ?thesis
    using en(2,4,5) seal unfolding tx_def datagram_def by (intro exI [of _ c] exI [of _ out3] exI [of _ ?s4]) (simp add: algebra_simps)
qed

end
