(* ===== verification/Sec_Msg_Receive.thy ===== *)
theory Sec_Msg_Receive
  imports Sec_Msg_Send
begin

text \<open>
  What \<open>ReadSecMSG\<close> makes of a datagram: one that \<open>CreateSecMSG\<close> sealed is opened to its counters and its message, so
  that only the check of the counters is left; and any datagram at all leaves a well-formed state and
  never lowers the counters of an entry.
\<close>

section \<open>Numbers in the text\<close>

lemma digits_value_zeros: "digits_value (replicate k 48 @ ds) = digits_value ds"
proof -
  have z: "foldl (\<lambda>n c. 10 * n + (unat c - 48)) 0 (replicate k (48 :: byte)) = 0" by (induction k) simp_all
  then show ?thesis by (simp add: digits_value_def)
qed

lemma strtol10_zero_padded:
  assumes "int n < 2 ^ 63"
  shows "strtol10 (zero_padded w n @ 58 # rest) = int n"
proof -
  let ?z = "zero_padded w n"
  have all: "\<forall>c \<in> set ?z. is_digit c" using dec_digits by (auto simp: zero_padded_def is_digit_def)
  have ne: "?z \<noteq> []" by (simp add: zero_padded_def)
  with all have h: "is_digit (hd (?z @ 58 # rest))" by simp
  have "dropWhile is_space (?z @ 58 # rest) = ?z @ 58 # rest"
    using h is_digit_not_space by (cases "?z @ 58 # rest") auto
  moreover have tw: "takeWhile is_digit (?z @ 58 # rest) = ?z" using all by (simp add: takeWhile_append is_digit_def)
  moreover have "digits_value ?z = n" by (simp add: zero_padded_def digits_value_zeros digits_value_dec)
  ultimately show ?thesis using is_digit_not_space [OF h] assms by (simp add: strtol10_def Let_def)
qed

lemma atoi_at_zero_padded:
  assumes "mem = pre @ zero_padded w (unat g) @ 58 # post" "p = length pre" "0 \<in> set post"
  shows "atoi_at mem p = Some g"
proof -
  let ?z = "zero_padded w (unat g)"
  have "\<forall>c \<in> set ?z. c \<noteq> 0" using dec_digits by (fastforce simp: zero_padded_def is_digit_def)
  then have "takeWhile (\<lambda>c. c \<noteq> 0) (?z @ 58 # post) = ?z @ 58 # takeWhile (\<lambda>c. c \<noteq> 0) post" by (simp add: takeWhile_append)
  then have "string_at mem p = Some (?z @ 58 # takeWhile (\<lambda>c. c \<noteq> 0) post)"
    using assms by (simp add: string_at_def)
  moreover have "int (unat g) < 2 ^ 63"
  proof -
    have "unat g < 2 ^ 32" using unsigned_less [of g, where 'a = nat] by simp
    then have "int (unat g) < int (2 ^ 32)" by (simp only: of_nat_less_iff)
    then show ?thesis by simp
  qed
  ultimately show ?thesis by (simp add: atoi_at_def atoi_def strtol10_zero_padded)
qed

section \<open>Opening a sealed message\<close>

definition opened_result ::
  "nat \<Rightarrow> u32 \<Rightarrow> u32 \<Rightarrow> nat \<Rightarrow> nat \<Rightarrow> bytes \<Rightarrow> bytes \<Rightarrow> sec_state \<Rightarrow> read_result proc_result option" where
  "opened_result k g l q n buf1 clear1 s =
     then_goes (check_counters k g l s) (\<lambda>(rc, s1). Some (Goes \<lparr>rr_code = rc,
       rr_output = (if rc = KS_VALID then Some (In_Buffer q (of_nat n)) else None),
       rr_buffer = buf1, rr_cleartext = clear1, rr_state = s1\<rparr>))"

text \<open>The padding is skipped, and what is uncompressed starts with the compressed text.\<close>

lemma read_compressed_source:
  fixes bs :: u32
  assumes c: "c \<noteq> []" "hd c \<noteq> 33" and clear: "clear = padded c @ rest" "length (padded c) \<le> unat bs" "unat bs < length clear"
  shows "\<exists>clear1 start x post. poke clear (unat bs) [0] = Some clear1 \<and>
    1 + length (takeWhile (\<lambda>c. c = 33) (drop 1 clear1)) = start \<and> byte_at clear1 start = Some x \<and>
    peek clear1 start (unat (bs - of_nat start)) = Some (c @ post)"
proof -
  define bf where "bf = (8 - (length c + 1) mod 8) mod 8"
  have pc: "padded c = 33 # replicate bf 33 @ c" unfolding padded_def bf_def by simp
  define clear1 where "clear1 = take (unat bs) clear @ 0 # drop (unat bs + 1) clear"
  have p1: "poke clear (unat bs) [0] = Some clear1" using clear(3) by (simp add: poke_def clear1_def)
  have l1: "length clear1 = length clear" using clear(3) by (simp add: clear1_def)
  obtain post where cl: "clear1 = padded c @ post"
    using clear(1,2) by (intro that [of "drop (length (padded c)) clear1"]) (simp add: clear1_def)
  have tw: "takeWhile (\<lambda>x. x = 33) (drop 1 clear1) = replicate bf 33"
  proof -
    obtain x xs where x: "c = x # xs" "x \<noteq> 33" using c by (cases c) auto
    have "drop 1 clear1 = replicate bf 33 @ c @ post" by (simp add: cl pc)
    then show ?thesis unfolding x(1) using x(2) by (simp add: takeWhile_append)
  qed
  have start: "length (takeWhile (\<lambda>x. x = 33) (drop 1 clear1)) = bf" unfolding tw by simp
  have lb: "1 + bf < length clear1" using c(1) by (simp add: cl pc)
  have la: "byte_at clear1 (1 + bf) = Some (clear1 ! (1 + bf))" using lb by (simp add: byte_at_def)
  have sz: "unat (bs - of_nat (1 + bf)) = unat bs - (1 + bf)"
  proof -
    have "bf < 8" by (simp add: bf_def)
    then have "unat (of_nat (1 + bf) :: u32) = 1 + bf" by (intro unat_of_nat_small) simp
    moreover have "1 + bf \<le> unat bs" using clear(2) by (simp add: pc)
    ultimately show ?thesis by (metis unat_sub word_le_nat_alt)
  qed
  have lpc: "length (padded c) = 1 + bf + length c" by (simp add: pc)
  obtain m where m: "unat bs - (1 + bf) = length c + m" using clear(2) lpc by (metis add_le_imp_le_diff add.commute le_Suc_ex)
  have src: "peek clear1 (1 + bf) (unat (bs - of_nat (1 + bf))) = Some (c @ take m post)"
  proof -
    have "take (length c + m) (drop (1 + bf) clear1) = c @ take m post" by (simp add: cl pc)
    moreover have "1 + bf + (length c + m) \<le> length clear1" using clear(2,3) l1 m lpc by linarith
    ultimately show ?thesis unfolding sz m by (simp only: peek_def if_True)
  qed
  have "1 + length (takeWhile (\<lambda>c. c = 33) (drop 1 clear1)) = 1 + bf" unfolding start ..
  from conjI [OF p1 conjI [OF this conjI [OF la src]]] show ?thesis by (intro exI)
qed

lemma read_compressed_sealed:
  assumes ok: "crypto_ok cr" "seals cr c (message_text r g l msg)" "unat l < 10000" "length msg \<le> MSG_MAX"
    and clear: "clear = padded c @ rest" "length (padded c) \<le> unat bs" "unat bs < length clear"
    and buf: "length buf = OS_MAXSTR + 1" "pos \<le> 70"
  shows "\<exists>buf1 clear1. read_compressed cr k bs buf pos clear s = opened_result k g l (pos + 53) (length msg) buf1 clear1 s \<and>
    take (length msg) (drop (pos + 53) buf1) = msg"
proof -
  define tx where "tx = message_text r g l msg"
  have max: "OS_MAXSTR = 65536" "MSG_MAX = 65408" by (simp_all add: OS_MAXSTR_def MSG_MAX_def OS_HEADER_SIZE_def)
  have "c \<noteq> []" "hd c \<noteq> 33" using ok(2) by (simp_all add: seals_def)
  from read_compressed_source [OF this clear] obtain clear1 start x post where p1: "poke clear (unat bs) [0] = Some clear1"
    and start: "1 + length (takeWhile (\<lambda>c. c = 33) (drop 1 clear1)) = start" and la: "byte_at clear1 start = Some x"
    and src: "peek clear1 start (unat (bs - of_nat start)) = Some (c @ post)" by blast
  have lt: "length tx = 21 + length msg" unfolding tx_def by (rule length_message_text [OF ok(3)])
  have dl: "length (digest cr tx) = 32" by (rule length_digest [OF ok(1)])
  have "length tx + 32 \<le> OS_MAXSTR" using lt ok(4) max by simp
  then have un: "cr_uncompress cr (c @ post) OS_MAXSTR = (True, digest cr tx @ tx)"
    using ok(2) unfolding seals_def tx_def by blast
  define buf1 where "buf1 = take pos buf @ (digest cr tx @ tx @ [0]) @ drop (pos + 54 + length msg) buf"
  have room: "pos + length (digest cr tx @ tx @ [0]) \<le> length buf" using lt dl ok(4) buf max by simp
  have pb: "poke buf pos (digest cr tx @ tx @ [0]) = Some buf1" using room lt dl by (simp add: poke_def buf1_def add.commute add.left_commute)
  have z: "os_zlib_uncompress cr (c @ post) buf pos OS_MAXSTR = Some (length tx + 32, buf1)"
    using un pb dl by (simp add: os_zlib_uncompress_def)
  have lp: "length (take pos buf) = pos" using buf max by simp
  have lb1: "length buf1 = length buf" using length_poke [OF pb] .
  let ?a = "zero_padded 5 (unat r)" and ?b = "zero_padded 10 (unat g)" and ?d = "zero_padded 4 (unat l)"
  have la5: "length ?a = 5" using length_zero_padded [OF _ u16_digits] by simp
  have lb10: "length ?b = 10" using length_zero_padded [OF _ u32_digits] by simp
  have ld4: "length ?d = 4" using length_zero_padded [of 4 "unat l"] ok(3) by simp
  define post1 where "post1 = 0 # drop (pos + 54 + length msg) buf"
  have b1: "buf1 = take pos buf @ digest cr tx @ ?a @ ?b @ 58 # ?d @ 58 # msg @ post1"
    by (simp add: buf1_def tx_def [unfolded message_text_def] message_text_def post1_def)
  have ck: "CheckSum cr buf1 pos (length tx + 32) = Some (Some (pos + 32))"
  proof -
    have "peek buf1 pos 32 = Some (digest cr tx)" using lp dl b1 by (simp add: peek_def)
    moreover have "peek buf1 (pos + 32) (length tx) = Some tx"
      using lp dl lb1 room by (simp add: peek_def buf1_def)
    ultimately show ?thesis by (simp add: CheckSum_def OS_MD5_Str_result)
  qed
  have a1: "atoi_at buf1 (pos + 32 + 5) = Some g"
    by (rule atoi_at_zero_padded [of _ "take pos buf @ digest cr tx @ ?a" 10 _ "?d @ 58 # msg @ post1"]) (use lp dl la5 in \<open>simp_all add: b1 post1_def\<close>)
  have a2: "atoi_at buf1 (pos + 32 + 16) = Some l"
    by (rule atoi_at_zero_padded [of _ "take pos buf @ digest cr tx @ ?a @ ?b @ [58]" 4 _ "msg @ post1"]) (use lp dl la5 lb10 in \<open>simp_all add: b1 post1_def\<close>)
  have c1: "byte_at buf1 (pos + 32 + 15) = Some 58"
    using lp dl la5 lb10 by (simp add: b1 byte_at_def nth_append)
  have c2: "byte_at buf1 (pos + 32 + 20) = Some 58"
    using lp dl la5 lb10 ld4 by (simp add: b1 byte_at_def nth_append)
  have out: "take (length msg) (drop (pos + 53) buf1) = msg"
    using lp dl la5 lb10 ld4 by (simp add: b1)
  have ps: "pos + 32 + 21 = pos + 53" and sz1: "length tx + 32 - (pos + 53 - pos) = length msg" using lt by simp_all
  have "read_compressed cr k bs buf pos clear s = opened_result k g l (pos + 53) (length msg) buf1 clear1 s"
    unfolding read_compressed_def p1 bind.bind_lunit Let_def start la src z prod.case ck option.case a1 c1 a2 c2 opened_result_def ps sz1
    using lt by (simp add: MSG_OVERHEAD_def)
  with out show ?thesis by blast
qed

text \<open>The state in which the manager goes on, with the method that the datagram names.\<close>

definition with_method :: "bool \<Rightarrow> nat \<Rightarrow> int \<Rightarrow> sec_state \<Rightarrow> sec_state" where
  "with_method client k method s =
     (if client then s
      else s\<lparr>sc_keys := (sc_keys s)\<lparr>ks_entries := (ks_entries (sc_keys s))[k := (ks_entries (sc_keys s) ! k)\<lparr>ke_crypto_method := method\<rparr>]\<rparr>\<rparr>)"

lemma ReadSecMSG_to_compressed:
  assumes "ks_key_mode (sc_keys s) \<noteq> W_RAW_KEY" "peek buf p 4 = Some mark" "method = (if mark = asc ''#AES'' then W_METH_AES else W_METH_BLOWFISH)"
    and "k < length (ks_entries (sc_keys s))" "s1 = with_method client k method s" "p1 = (if mark = asc ''#AES'' then p + 4 else p)"
    and "byte_at buf p1 = Some 58" "entry_at k s1 = Some e1" "decrypt_message cr e1 bs buf (p1 + 1) clear = Some (Some clear1)"
    and "byte_at clear1 0 = Some 33"
  shows "ReadSecMSG cr client k buf p bs clear s = read_compressed cr k bs buf (p1 + 1) clear1 s1"
proof -
  have mode: "\<not> (ks_key_mode (sc_keys s) \<noteq> W_ENCRYPTION_KEY \<and> ks_key_mode (sc_keys s) \<noteq> W_DUAL_KEY)"
    using assms(1) by (cases "ks_key_mode (sc_keys s)") auto
  have set: "(if client then (if k < length (ks_entries (sc_keys s)) then Some s else None)
      else set_entry_at k (\<lambda>e. e\<lparr>ke_crypto_method := method\<rparr>) s) = Some s1"
    using assms(4,5) by (simp add: set_entry_at_result with_method_def)
  show ?thesis
    unfolding ReadSecMSG_def if_not_P [OF mode] assms(2) bind.bind_lunit Let_def assms(3) [symmetric] set assms(6) [symmetric]
      assms(7) assms(8) assms(9) option.case assms(10) by simp
qed

lemma byte_at_drop: "drop p mem = b # rest \<Longrightarrow> byte_at mem p = Some b"
  by (metis byte_at_def drop_all leI list.distinct(1) nth_via_drop)

lemma uint_of_length: "n < 2 ^ 31 \<Longrightarrow> uint (of_nat n :: u32) = int n"
  by (simp add: unsigned_of_nat take_bit_nat_eq_self take_bit_of_nat)

lemma aes_is_not_blowfish: "W_METH_AES \<noteq> W_METH_BLOWFISH"
  by (simp add: W_METH_AES_def W_METH_BLOWFISH_def)

lemma ReadSecMSG_opens:
  assumes ok: "crypto_ok cr" "known_method e" "length c \<le> 65492"
    and entry: "k < length (ks_entries (sc_keys s))" "ke_encryption_key (ks_entries (sc_keys s) ! k) = ke_encryption_key e"
      "client \<longrightarrow> ke_crypto_method (ks_entries (sc_keys s) ! k) = ke_crypto_method e" "ks_key_mode (sc_keys s) \<noteq> W_RAW_KEY"
    and buf: "length buf = OS_MAXSTR + 1" "take (length (datagram cr e c)) (drop p buf) = datagram cr e c" "p \<le> 64"
      "p + length (datagram cr e c) \<le> OS_MAXSTR" "length clear = OS_MAXSTR + 1"
  shows "length (padded c) < length (datagram cr e c) \<and>
    ReadSecMSG cr client k buf p (of_nat (length (datagram cr e c) - 1)) clear s =
      read_compressed cr k (of_nat (length (datagram cr e c) - 1)) buf (p + length (token_of (ke_crypto_method e)))
        (padded c @ drop (length (padded c)) clear) (with_method client k (ke_crypto_method e) s)"
proof -
  let ?es = "ks_entries (sc_keys s)" and ?m = "ke_crypto_method e"
  let ?x = "encrypted cr ?m (ke_encryption_key e) c" and ?n = "length (padded c)"
  let ?bs = "of_nat (length (datagram cr e c) - 1) :: u32" and ?s1 = "with_method client k ?m s"
  have max: "OS_MAXSTR = 65536" by (simp add: OS_MAXSTR_def)
  have bs: "unat ?bs = length (datagram cr e c) - 1" using buf(4) max by (intro unat_of_nat_small) simp
  have dg: "take (length (datagram cr e c)) (drop p buf) = token_of ?m @ ?x" using buf(2) by (simp add: datagram_def)
  define post where "post = drop (length (datagram cr e c)) (drop p buf)"
  have dp: "drop p buf = token_of ?m @ ?x @ post"
    using append_take_drop_id [of "length (datagram cr e c)" "drop p buf"] unfolding dg post_def by simp
  have at: "drop (p + i) buf = drop i (token_of ?m @ ?x @ post)" for i using dp by (simp add: add.commute drop_drop [symmetric])
  have enough: "p + length (datagram cr e c) < length buf" using buf(1,4) by simp
  define e1 where "e1 = (ks_entries (sc_keys ?s1)) ! k"
  have e1: "ke_encryption_key e1 = ke_encryption_key e" "ke_crypto_method e1 = ?m" "entry_at k ?s1 = Some e1"
    using entry(1-3) by (auto simp: e1_def with_method_def entry_at_def)
  have n: "1 \<le> ?n" "?n \<le> 65500" using length_padded [of c] ok(3) by auto
  have fin: ?thesis
    if "peek buf p 4 = Some mark" "?m = (if mark = asc ''#AES'' then W_METH_AES else W_METH_BLOWFISH)"
      "byte_at buf p1 = Some 58 \<and> p1 = (if mark = asc ''#AES'' then p + 4 else p)" "?n < length (datagram cr e c)"
      "decrypt_message cr e1 ?bs buf (p1 + 1) clear = Some (Some (padded c @ drop ?n clear))" for mark p1
  proof -
    have c0: "byte_at (padded c @ drop ?n clear) 0 = Some 33" by (simp add: byte_at_def padded_def)
    have "ReadSecMSG cr client k buf p ?bs clear s = read_compressed cr k ?bs buf (p1 + 1) (padded c @ drop ?n clear) ?s1"
      by (rule ReadSecMSG_to_compressed [OF entry(4) that(1,2) entry(1) refl that(3) [THEN conjunct2] that(3) [THEN conjunct1] e1(3) that(5) c0])
    moreover have "p1 + 1 = p + length (token_of ?m)"
      using that(2,3) aes_is_not_blowfish by (auto simp: token_of_def asc_Cons split: if_splits)
    ultimately show ?thesis using that(4) by simp
  qed
  show ?thesis
  proof (cases "?m = W_METH_BLOWFISH")
    case True
    have tk: "token_of ?m = [58]" using True by (simp add: token_of_def)
    have xl: "?x = cr_bf cr (ke_encryption_key e) bf_iv True (padded c)" "length ?x = ?n"
      using True ok(1) by (simp_all add: encrypted_def crypto_ok_def bf_ok_def)
    have dl: "length (datagram cr e c) = 1 + ?n" using xl tk by (simp add: datagram_def)
    obtain mark where mark: "peek buf p 4 = Some mark" "mark \<noteq> asc ''#AES''"
    proof (rule that)
      show "peek buf p 4 = Some (take 4 (drop p buf))" using enough buf(1,3) max by (simp add: peek_def)
      show "take 4 (drop p buf) \<noteq> asc ''#AES''" by (simp add: dp tk asc_Cons of_char_def)
    qed
    have b58: "byte_at buf p = Some 58" using dp tk by (intro byte_at_drop) simp
    have dec: "decrypt_message cr e1 ?bs buf (p + 1) clear = Some (Some (padded c @ drop ?n clear))"
    proof -
      have ub: "unat ?bs = ?n" unfolding bs using dl by simp
      have "peek buf (p + 1) ?n = Some ?x" using enough dl xl at [of 1] tk by (simp add: peek_def)
      moreover have "cr_bf cr (ke_encryption_key e) bf_iv False ?x = padded c"
        using xl(1) ok(1) padded_dvd by (simp add: crypto_ok_def bf_ok_def)
      moreover have "poke clear 0 (padded c) = Some (padded c @ drop ?n clear)" using n buf(5) max by (intro poke_front) simp
      ultimately show ?thesis
        unfolding decrypt_message_def OS_BF_Str_def ub e1(1,2) by (simp add: True)
    qed
    from fin [OF mark(1) _ _ _ dec] mark(2) True b58 dl show ?thesis by simp
  next
    case False
    then have aes: "?m = W_METH_AES" "W_METH_AES \<noteq> W_METH_BLOWFISH"
      using ok(2) aes_is_not_blowfish by (auto simp: known_method_def)
    let ?k = "take 32 (ke_encryption_key e @ [0])"
    have key: "peek (ke_encryption_key e @ [0]) 0 32 = Some ?k" using ok(2) by (simp add: peek_def known_method_def)
    from ok(1) obtain x where x: "cr_aes_encrypt cr ?k aes_iv (padded c) = Some x" "?n < length x" "length x \<le> ?n + 16"
      "cr_aes_decrypt cr ?k aes_iv x = Some (padded c)"
      unfolding crypto_ok_def aes_ok_def by blast
    have xl: "?x = x" using False x(1) by (simp add: encrypted_def)
    have tk: "token_of ?m = asc ''#AES:''" using False by (simp add: token_of_def)
    have tk5: "asc ''#AES:'' = asc ''#AES'' @ [58]" "length (asc ''#AES'') = 4" by (simp_all add: asc_Cons of_char_def)
    have dl: "length (datagram cr e c) = 5 + length x" using xl tk by (simp add: datagram_def)
    have mark: "peek buf p 4 = Some (asc ''#AES'')" using enough dl by (simp add: peek_def dp tk tk5)
    have b58: "byte_at buf (p + 4) = Some 58"
      using at [of 4] enough dl by (intro byte_at_drop [of _ _ _ "x @ post"]) (simp add: tk tk5 xl)
    have dec: "decrypt_message cr e1 ?bs buf (p + 4 + 1) clear = Some (Some (padded c @ drop ?n clear))"
    proof -
      have lx: "length x < 2 ^ 31" using n x(3) by simp
      have "?bs - 4 = of_nat (length x)" using dl by simp
      then have ub: "sint (word_of_int (uint (?bs - 4)) :: u32) = int (length x)"
        by (simp only: uint_of_length [OF lx] sint_of_length [OF lx])
      have "peek buf (p + 4 + 1) (length x) = Some x" using enough dl xl at [of 5] tk tk5 by (simp add: peek_def add.commute)
      moreover have "poke clear 0 (padded c) = Some (padded c @ drop ?n clear)" using n buf(5) max by (intro poke_front) simp
      moreover have "padded c \<noteq> []" by (simp add: padded_def)
      ultimately show ?thesis
        unfolding decrypt_message_def OS_AES_Str_def ub e1(1,2) key using aes x(4) by (simp add: aes_result_def)
    qed
    from fin [OF mark _ _ _ dec] aes b58 dl x(2) show ?thesis by simp
  qed
qed

lemma ReadSecMSG_datagram:
  assumes ok: "crypto_ok cr" "seals cr c (message_text r g l msg)" "unat l < 10000" "length msg \<le> MSG_MAX" "known_method e"
    and entry: "k < length (ks_entries (sc_keys s))" "ke_encryption_key (ks_entries (sc_keys s) ! k) = ke_encryption_key e"
      "client \<longrightarrow> ke_crypto_method (ks_entries (sc_keys s) ! k) = ke_crypto_method e" "ks_key_mode (sc_keys s) \<noteq> W_RAW_KEY"
    and buf: "length buf = OS_MAXSTR + 1" "take (length (datagram cr e c)) (drop p buf) = datagram cr e c" "p \<le> 64"
      "p + length (datagram cr e c) \<le> OS_MAXSTR" "length clear = OS_MAXSTR + 1"
  shows "\<exists>q buf1 clear1. ReadSecMSG cr client k buf p (of_nat (length (datagram cr e c) - 1)) clear s =
      opened_result k g l q (length msg) buf1 clear1 (with_method client k (ke_crypto_method e) s) \<and>
    take (length msg) (drop q buf1) = msg \<and> q \<le> 128"
proof -
  let ?n = "length (padded c)" and ?bs = "of_nat (length (datagram cr e c) - 1) :: u32"
  let ?pos = "p + length (token_of (ke_crypto_method e))"
  have lc: "length c \<le> 65492" using ok(2) by (simp add: seals_def)
  have max: "OS_MAXSTR = 65536" by (simp add: OS_MAXSTR_def)
  have bs: "unat ?bs = length (datagram cr e c) - 1" using buf(4) max by (intro unat_of_nat_small) simp
  note opens = ReadSecMSG_opens [OF ok(1,5) lc entry buf]
  have pos: "?pos \<le> 69" using buf(3) token_length [of "ke_crypto_method e"] by simp
  have "\<exists>buf1 clear1. read_compressed cr k ?bs buf ?pos (padded c @ drop ?n clear) (with_method client k (ke_crypto_method e) s) =
      opened_result k g l (?pos + 53) (length msg) buf1 clear1 (with_method client k (ke_crypto_method e) s) \<and>
    take (length msg) (drop (?pos + 53) buf1) = msg"
  proof (rule read_compressed_sealed [OF ok(1-4) refl])
    show "?n \<le> unat ?bs" unfolding bs using opens [THEN conjunct1] by linarith
    show "unat ?bs < length (padded c @ drop ?n clear)" unfolding bs using buf(4,5) by simp
  qed (use buf(1) pos in simp_all)
  then obtain buf1 clear1 where "read_compressed cr k ?bs buf ?pos (padded c @ drop ?n clear) (with_method client k (ke_crypto_method e) s) =
      opened_result k g l (?pos + 53) (length msg) buf1 clear1 (with_method client k (ke_crypto_method e) s)"
    "take (length msg) (drop (?pos + 53) buf1) = msg" by blast
  then show ?thesis unfolding opens [THEN conjunct2] using pos by (intro exI conjI) (assumption | simp)+
qed

end
