(* ===== verification/Sec_Msg_Counters.thy ===== *)
theory Sec_Msg_Counters
  imports Sec_Msg_Receive
begin

text \<open>
  The counters of the received messages. While the counter files stay in place, a message is accepted exactly if
  its counters are newer than those of its entry (or are not verified), and whatever else the
  program does, the counters of an entry never decrease.
\<close>

section \<open>A program that receives\<close>

definition receiving :: "sec_state \<Rightarrow> bool" where
  "receiving t \<longleftrightarrow> (\<exists>ns. queue_inv t ns \<and> in_order t ns) \<and> files_ready (sc_keys t) (sc_files t) \<and>
     (\<forall>j \<le> ks_keysize (sc_keys t). let e = ks_entries (sc_keys t) ! j; i = counter_file (sc_keys t) (sc_files t) j in
        ke_inode e = i \<and> (ke_fp e = None \<or> ke_fp e = Some i))"

definition entry_counters :: "sec_state \<Rightarrow> nat \<Rightarrow> u32 \<times> u32" where
  "entry_counters t j = (ke_global (ks_entries (sc_keys t) ! j), ke_local (ks_entries (sc_keys t) ! j))"

text \<open>What receiving leaves alone: the identities of the peers, the directory, the counters of the sender.\<close>

definition same_setup :: "sec_state \<Rightarrow> sec_state \<Rightarrow> bool" where
  "same_setup t t' \<longleftrightarrow> map (\<lambda>e. (ke_id e, ke_encryption_key e, ke_single_host e)) (ks_entries (sc_keys t')) =
       map (\<lambda>e. (ke_id e, ke_encryption_key e, ke_single_host e)) (ks_entries (sc_keys t)) \<and>
     ks_key_mode (sc_keys t') = ks_key_mode (sc_keys t) \<and>
     rf_dir (sc_files t') = rf_dir (sc_files t) \<and> rf_denied (sc_files t') = rf_denied (sc_files t) \<and>
     sc_verify_counter t' = sc_verify_counter t"

lemma same_setup_refl [simp]: "same_setup t t"
  by (simp add: same_setup_def)

lemma same_setup_trans: "same_setup a b \<Longrightarrow> same_setup b c \<Longrightarrow> same_setup a c"
  unfolding same_setup_def by (intro conjI; elim conjE; erule (1) trans)

lemma same_setup_length: "same_setup t t' \<Longrightarrow> length (ks_entries (sc_keys t')) = length (ks_entries (sc_keys t))"
  unfolding same_setup_def by (elim conjE) (erule map_eq_imp_length_eq)

lemma same_setup_keysize: "same_setup t t' \<Longrightarrow> ks_keysize (sc_keys t') = ks_keysize (sc_keys t)"
  by (simp add: ks_keysize_def same_setup_length)

lemma same_setup_entry:
  assumes "same_setup t t'" "j < length (ks_entries (sc_keys t))"
  shows "ke_id (ks_entries (sc_keys t') ! j) = ke_id (ks_entries (sc_keys t) ! j)"
    and "ke_encryption_key (ks_entries (sc_keys t') ! j) = ke_encryption_key (ks_entries (sc_keys t) ! j)"
    and "ke_single_host (ks_entries (sc_keys t') ! j) = ke_single_host (ks_entries (sc_keys t) ! j)"
  using map_eq_nth [OF assms(1) [unfolded same_setup_def, THEN conjunct1] assms(2)] by simp_all

lemma keysize_less: "files_ready (sc_keys t) (sc_files t) \<Longrightarrow> length (ks_entries (sc_keys t)) = Suc (ks_keysize (sc_keys t))"
  by (cases "ks_entries (sc_keys t)") (simp_all add: files_ready_def ks_keysize_def)

lemma same_setup_name:
  assumes "same_setup t t'" "files_ready (sc_keys t) (sc_files t)" "j \<le> ks_keysize (sc_keys t)"
  shows "counter_name (sc_keys t') j = counter_name (sc_keys t) j"
  using assms(3) keysize_less [OF assms(2)] same_setup_entry(1) [OF assms(1)] same_setup_keysize [OF assms(1)] by (simp add: counter_name_def)

lemma same_setup_files:
  assumes "same_setup t t'" "files_ready (sc_keys t) (sc_files t)"
  shows "files_ready (sc_keys t') (sc_files t')"
    and "j \<le> ks_keysize (sc_keys t) \<Longrightarrow> counter_file (sc_keys t') (sc_files t') j = counter_file (sc_keys t) (sc_files t) j"
proof -
  have d: "rf_dir (sc_files t') = rf_dir (sc_files t)" "rf_denied (sc_files t') = rf_denied (sc_files t)"
    using assms(1) by (simp_all add: same_setup_def)
  have "ks_entries (sc_keys t') \<noteq> []" using same_setup_length [OF assms(1)] keysize_less [OF assms(2)] by auto
  moreover have "\<forall>i \<le> ks_keysize (sc_keys t). rf_dir (sc_files t) (counter_name (sc_keys t') i) \<noteq> None \<and>
      \<not> rf_denied (sc_files t) (counter_name (sc_keys t') i)"
    using assms(2) same_setup_name [OF assms] by (simp add: files_ready_def)
  ultimately show "files_ready (sc_keys t') (sc_files t')"
    unfolding files_ready_def same_setup_keysize [OF assms(1)] d by blast
  show "j \<le> ks_keysize (sc_keys t) \<Longrightarrow> counter_file (sc_keys t') (sc_files t') j = counter_file (sc_keys t) (sc_files t) j"
    using d assms by (simp add: counter_file_def same_setup_name)
qed

text \<open>The invariant survives a change that keeps the setup, the inodes and the queue.\<close>

lemma receiving_step:
  assumes "receiving t" "same_setup t t'" "queue_inv t' ns" "in_order t' ns"
    and "\<And>j. j \<le> ks_keysize (sc_keys t) \<Longrightarrow> ke_inode (ks_entries (sc_keys t') ! j) = ke_inode (ks_entries (sc_keys t) ! j) \<and>
      (ke_fp (ks_entries (sc_keys t') ! j) = None \<or> ke_fp (ks_entries (sc_keys t') ! j) = Some (counter_file (sc_keys t) (sc_files t) j) \<or>
       ke_fp (ks_entries (sc_keys t') ! j) = ke_fp (ks_entries (sc_keys t) ! j))"
  shows "receiving t'"
proof -
  have r: "files_ready (sc_keys t) (sc_files t)" using assms(1) by (simp add: receiving_def)
  have "ke_inode (ks_entries (sc_keys t') ! j) = counter_file (sc_keys t') (sc_files t') j \<and>
      (ke_fp (ks_entries (sc_keys t') ! j) = None \<or> ke_fp (ks_entries (sc_keys t') ! j) = Some (counter_file (sc_keys t') (sc_files t') j))"
    if "j \<le> ks_keysize (sc_keys t)" for j
    using assms(1,5) that same_setup_files(2) [OF assms(2) r, of j] unfolding receiving_def Let_def by metis
  with assms(3,4) same_setup_files(1) [OF assms(2) r] show ?thesis
    unfolding receiving_def Let_def same_setup_keysize [OF assms(2)] by blast
qed

section \<open>Accepting\<close>

lemma receiving_stream:
  assumes "receiving t" "k < ks_keysize (sc_keys t)"
  shows "stream_ready t k (counter_file (sc_keys t) (sc_files t) k)"
    and "k < length (ks_entries (sc_keys t))"
    and "ReloadCounter k (ke_id (ks_entries (sc_keys t) ! k)) t = Some t"
proof -
  let ?e = "ks_entries (sc_keys t) ! k" and ?i = "counter_file (sc_keys t) (sc_files t) k"
  have r: "files_ready (sc_keys t) (sc_files t)" using assms(1) by (simp add: receiving_def)
  have nm: "counter_name (sc_keys t) k = rids_path (ke_id ?e)" using assms(2) by (simp add: counter_name_def)
  then have d: "rf_dir (sc_files t) (rids_path (ke_id ?e)) = Some ?i" "\<not> rf_denied (sc_files t) (rids_path (ke_id ?e))"
    using r assms(2) unfolding files_ready_def counter_file_def by (metis less_imp_le option.collapse)+
  have e: "ke_inode ?e = ?i" "ke_fp ?e = None \<or> ke_fp ?e = Some ?i" using assms unfolding receiving_def Let_def by (meson less_imp_le)+
  show "stream_ready t k ?i" using d e by (auto simp: stream_ready_def)
  show l: "k < length (ks_entries (sc_keys t))" using keysize_less [OF r] assms(2) by simp
  show "ReloadCounter k (ke_id ?e) t = Some t" using d(1) e(1) l by (simp add: ReloadCounter_def entry_at_result File_Inode_def)
qed

text \<open>The entry \<open>k\<close> got new counters, which may have been stored in its file.\<close>

definition counters_taken :: "nat \<Rightarrow> u32 \<Rightarrow> u32 \<Rightarrow> sec_state \<Rightarrow> sec_state \<Rightarrow> bool" where
  "counters_taken k g l t t' \<longleftrightarrow> receiving t' \<and> same_setup t t' \<and>
     (\<forall>j < length (ks_entries (sc_keys t)). entry_counters t' j = (if j = k then (g, l) else entry_counters t j)) \<and>
     (\<forall>j < length (ks_entries (sc_keys t)). ke_crypto_method (ks_entries (sc_keys t') ! j) = ke_crypto_method (ks_entries (sc_keys t) ! j)) \<and>
     (\<forall>i. saved (sc_files t') i = saved (sc_files t) i \<or> saved (sc_files t') i = (g, l))"

lemma update_counters_taken:
  assumes "receiving t" "k < ks_keysize (sc_keys t)"
  shows "\<exists>t'. update_counters k g l t = Some t' \<and> counters_taken k g l t t' \<and> sc_files t' = sc_files t"
proof -
  have k: "k < length (ks_entries (sc_keys t))" using receiving_stream(2) [OF assms] .
  let ?t = "t\<lparr>sc_keys := (sc_keys t)\<lparr>ks_entries := (ks_entries (sc_keys t))[k := (ks_entries (sc_keys t) ! k)\<lparr>ke_global := g, ke_local := l\<rparr>]\<rparr>\<rparr>"
  have u: "update_counters k g l t = Some ?t" using k by (simp add: update_counters_def set_entry_at_result)
  have same: "same_setup t ?t" using k by (simp add: same_setup_def map_update list_update_same_conv)
  from assms(1) obtain ns where q: "queue_inv t ns" "in_order t ns" by (auto simp: receiving_def)
  have nodes: "same_nodes t ?t" by (rule same_nodes_entry) (use k in simp_all)
  have "queue_inv ?t ns" "in_order ?t ns" using q unfolding queue_inv_cong [OF nodes] in_order_cong [OF nodes q(1)] by blast+
  then have "receiving ?t" by (rule receiving_step [OF assms(1) same]) (use k in \<open>simp add: nth_list_update\<close>)
  with u same k show ?thesis by (auto simp: counters_taken_def entry_counters_def nth_list_update)
qed

lemma counters_taken_rcv_count [simp]: "counters_taken k g l t (t'\<lparr>sc_rcv_count := c\<rparr>) = counters_taken k g l t t'"
proof -
  have "node_time (t'\<lparr>sc_rcv_count := c\<rparr>) = node_time t'" by (simp add: node_time_def fun_eq_iff)
  then show ?thesis by (simp add: counters_taken_def receiving_def queue_inv_def in_order_def same_setup_def entry_counters_def)
qed

lemma counters_taken_written:
  assumes acc: "counters_taken k g l t u" and k: "k < ks_keysize (sc_keys u)"
    and f: "same_files (sc_files u) f" "n = counter_file (sc_keys u) (sc_files u) k"
    and q: "queue_inv (written k (write_front f n (counter_text g l)) n nd q u) ns"
      "in_order (written k (write_front f n (counter_text g l)) n nd q u) ns"
  shows "counters_taken k g l t (written k (write_front f n (counter_text g l)) n nd q u)"
proof -
  let ?w = "written k (write_front f n (counter_text g l)) n nd q u"
  have r: "receiving u" and tu: "same_setup t u" using acc by (simp_all add: counters_taken_def)
  have lk: "k < length (ks_entries (sc_keys u))" using receiving_stream(2) [OF r k] .
  have len: "length (ks_entries (sc_keys u)) = length (ks_entries (sc_keys t))" by (rule same_setup_length [OF tu])
  have same: "same_setup u ?w"
    using lk f(1) by (simp add: same_setup_def written_def write_front_def same_files_def map_update list_update_same_conv)
  have "receiving ?w"
    by (rule receiving_step [OF r same q]) (use lk f(2) in \<open>simp add: written_def nth_list_update\<close>)
  moreover have "entry_counters ?w j = entry_counters u j" if "j < length (ks_entries (sc_keys t))" for j
    using that lk len by (simp add: entry_counters_def written_def nth_list_update)
  moreover have "ke_crypto_method (ks_entries (sc_keys ?w) ! j) = ke_crypto_method (ks_entries (sc_keys u) ! j)"
    if "j < length (ks_entries (sc_keys t))" for j
    using that lk len by (simp add: written_def nth_list_update)
  moreover have "saved (sc_files ?w) i = saved (sc_files u) i \<or> saved (sc_files ?w) i = (g, l)" for i
  proof (cases "i = n")
    case True
    then show ?thesis by (simp add: written_def saved_def counters_or_zero_def stored_counters_read)
  next
    case False
    with f(1) show ?thesis by (simp add: written_def saved_def write_front_def same_files_def)
  qed
  ultimately show ?thesis
    using acc same_setup_trans [OF tu same] unfolding counters_taken_def by metis
qed

lemma accept_message_result:
  assumes "receiving t" "k < ks_keysize (sc_keys t)"
  shows "\<exists>t'. accept_message k g l t = Some (Goes t') \<and> counters_taken k g l t t'"
proof -
  from update_counters_taken [OF assms] obtain u where u: "update_counters k g l t = Some u" "counters_taken k g l t u" by blast
  then have r: "receiving u" and tu: "same_setup t u" by (simp_all add: counters_taken_def)
  have ks: "k < ks_keysize (sc_keys u)" using assms(2) same_setup_keysize [OF tu] by simp
  from r obtain ns where ns: "queue_inv u ns" "in_order u ns" by (auto simp: receiving_def)
  note st = receiving_stream [OF r ks]
  show ?thesis
  proof (cases "sc_rcv_count u \<ge> sc_recv_flush u")
    case False
    with u show ?thesis by (simp add: accept_message_def)
  next
    case True
    from StoreCounter_result [OF ns(1) st(2), of g l] st(1) ns(2) obtain n f nd q where
      "StoreCounter k g l u = Some (Goes (written k (write_front f n (counter_text g l)) n nd q u))"
      "n = counter_file (sc_keys u) (sc_files u) k" "same_files (sc_files u) f"
      "queue_inv (written k (write_front f n (counter_text g l)) n nd q u) (filter (\<lambda>n. n \<noteq> nd) ns @ [nd])"
      "in_order (written k (write_front f n (counter_text g l)) n nd q u) (filter (\<lambda>n. n \<noteq> nd) ns @ [nd])"
      by (fastforce simp: Let_def)
    with True u counters_taken_written [OF u(2) ks] show ?thesis by (auto simp: accept_message_def)
  qed
qed

section \<open>The check against replays\<close>

lemma newer_counters: "newer g l (ks_entries (sc_keys t) ! k) \<longleftrightarrow> counters_less (entry_counters t k) (g, l)"
  by (auto simp: newer_def counters_less_def entry_counters_def)

lemma check_counters_accepts:
  assumes "receiving t" "k < ks_keysize (sc_keys t)" "sc_verify_counter t \<longrightarrow> counters_less (entry_counters t k) (g, l)"
  shows "\<exists>t'. check_counters k g l t = Some (Goes (KS_VALID, t')) \<and> counters_taken k g l t t'"
  using assms accept_message_result [OF assms(1,2), of g l] receiving_stream [OF assms(1,2)]
  by (auto simp: check_counters_def entry_at_result newer_counters split: if_splits)

lemma check_counters_rejects:
  assumes "receiving t" "k < ks_keysize (sc_keys t)" "sc_verify_counter t" "\<not> counters_less (entry_counters t k) (g, l)"
  shows "check_counters k g l t = Some (Goes (if g = fst (entry_counters t k) then KS_RIDS else KS_ENCKEY, t))"
  using assms receiving_stream [OF assms(1,2)]
  by (simp add: check_counters_def entry_at_result newer_counters entry_counters_def)

section \<open>Reading anything\<close>

definition advances :: "sec_state \<Rightarrow> sec_state \<Rightarrow> bool" where
  "advances t t' \<longleftrightarrow> receiving t' \<and> same_setup t t' \<and>
     (\<forall>j < length (ks_entries (sc_keys t)). counters_le (entry_counters t j) (entry_counters t' j))"

lemma advances_refl: "receiving t \<Longrightarrow> advances t t"
  by (simp add: advances_def)

lemma advances_trans: "advances a b \<Longrightarrow> advances b c \<Longrightarrow> advances a c"
  unfolding advances_def by (metis counters_le_trans same_setup_length same_setup_trans)

lemma counters_taken_advances:
  assumes "counters_taken k g l t t'" "counters_less (entry_counters t k) (g, l)"
  shows "advances t t'"
  using assms counters_less_le [OF assms(2)] by (auto simp: counters_taken_def advances_def)

lemma check_counters_advances:
  assumes "receiving t" "k < ks_keysize (sc_keys t)" "sc_verify_counter t" "check_counters k g l t = Some (Goes (rc, t'))"
  shows "advances t t'"
proof (cases "counters_less (entry_counters t k) (g, l)")
  case True
  with check_counters_accepts [OF assms(1,2)] assms(4) have "counters_taken k g l t t'" by fastforce
  then show ?thesis using True by (rule counters_taken_advances)
next
  case False
  then show ?thesis using check_counters_rejects [OF assms(1-3)] assms(1,4) by (auto intro: advances_refl)
qed

lemma read_compressed_state:
  assumes "read_compressed cr k bs buf pos clear t = Some (Goes r)"
  shows "rr_state r = t \<or> (\<exists>g l rc. check_counters k g l t = Some (Goes (rc, rr_state r)))"
  using assms unfolding read_compressed_def rejected_def Let_def
  by (auto simp: then_goes_def split: bind_splits option.splits prod.splits if_splits proc_result.splits)

lemma read_old_state:
  assumes "read_old cr k bs buf clear t = Some (Goes r)" "sc_verify_counter t"
  shows "rr_state r = t \<or> (\<exists>g l e. entry_at k t = Some e \<and> newer g l e \<and> update_counters k g l t = Some (rr_state r))"
  using assms unfolding read_old_def rejected_def Let_def
  by (auto split: bind_splits option.splits prod.splits if_splits)

lemma with_method_advances:
  assumes "receiving t" "k < ks_keysize (sc_keys t)"
  shows "advances t (with_method client k m t)"
proof -
  let ?t = "with_method client k m t"
  have k: "k < length (ks_entries (sc_keys t))" using receiving_stream(2) [OF assms] .
  have same: "same_setup t ?t" using k by (simp add: same_setup_def with_method_def map_update list_update_same_conv)
  from assms(1) obtain ns where q: "queue_inv t ns" "in_order t ns" by (auto simp: receiving_def)
  have nodes: "same_nodes t ?t" using k by (simp add: same_nodes_def with_method_def map_update list_update_same_conv)
  have "queue_inv ?t ns" "in_order ?t ns" using q unfolding queue_inv_cong [OF nodes] in_order_cong [OF nodes q(1)] by blast+
  then have "receiving ?t" by (rule receiving_step [OF assms(1) same]) (use k in \<open>simp add: with_method_def nth_list_update\<close>)
  with same k show ?thesis by (auto simp: advances_def with_method_def entry_counters_def nth_list_update)
qed

lemma ReadSecMSG_cases:
  assumes "ReadSecMSG cr client k buf p bs clear t = Some (Goes r)"
  obtains (raw) "rr_state r = t"
  | (switched) m where "k < length (ks_entries (sc_keys t))" "rr_state r = with_method client k m t"
  | (new_format) m p1 clear1 where "read_compressed cr k bs buf p1 clear1 (with_method client k m t) = Some (Goes r)"
  | (old_format) m clear1 where "read_old cr k bs buf clear1 (with_method client k m t) = Some (Goes r)"
proof -
  let ?set = "\<lambda>m. if client then (if k < length (ks_entries (sc_keys t)) then Some t else None)
      else set_entry_at k (\<lambda>e. e\<lparr>ke_crypto_method := m\<rparr>) t"
  let ?raw = "ks_key_mode (sc_keys t) \<noteq> W_ENCRYPTION_KEY \<and> ks_key_mode (sc_keys t) \<noteq> W_DUAL_KEY"
  have set: "k < length (ks_entries (sc_keys t)) \<and> s1 = with_method client k m t" if "?set m = Some s1" for m s1
    using that by (auto simp: set_entry_at_def Let_def with_method_def split: if_splits)
  have "?raw \<or> (\<exists>m s1. ?set m = Some s1 \<and> (rr_state r = s1 \<or>
      (\<exists>p1 clear1. read_compressed cr k bs buf p1 clear1 s1 = Some (Goes r)) \<or> (\<exists>clear1. read_old cr k bs buf clear1 s1 = Some (Goes r))))"
  proof (cases ?raw)
    case False
    from assms [unfolded ReadSecMSG_def if_not_P [OF False] Let_def] obtain mark s1 where
      s1: "?set (if mark = asc ''#AES'' then W_METH_AES else W_METH_BLOWFISH) = Some s1"
      and rest: "\<exists>p1. do {
        c \<leftarrow> byte_at buf p1;
        if c \<noteq> 58 then rejected KS_CORRUPT buf clear s1
        else do {
          e \<leftarrow> entry_at k s1;
          d \<leftarrow> decrypt_message cr e bs buf (p1 + 1) clear;
          case d of
            None \<Rightarrow> rejected KS_ENCKEY buf clear s1
          | Some clear1 \<Rightarrow> do {
              c0 \<leftarrow> byte_at clear1 0;
              if c0 = 33 then read_compressed cr k bs buf (p1 + 1) clear1 s1
              else if c0 = 58 then read_old cr k bs buf clear1 s1
              else rejected KS_ENCKEY buf clear1 s1
            } } } = Some (Goes r)"
      by (simp only: bind_eq_Some_conv) blast
    from rest have "rr_state r = s1 \<or>
        (\<exists>p1 clear1. read_compressed cr k bs buf p1 clear1 s1 = Some (Goes r)) \<or> (\<exists>clear1. read_old cr k bs buf clear1 s1 = Some (Goes r))"
      by (auto simp: bind_eq_Some_conv rejected_def split: if_splits option.splits) blast+
    with s1 show ?thesis by blast
  qed blast
  moreover have "rr_state r = t" if ?raw
    using assms that by (auto simp: ReadSecMSG_def rejected_def)
  ultimately show thesis using raw switched new_format old_format set by metis
qed

lemma ReadSecMSG_advances:
  assumes "receiving t" "k < ks_keysize (sc_keys t)" "sc_verify_counter t"
    and "ReadSecMSG cr client k buf p bs clear t = Some (Goes r)"
  shows "advances t (rr_state r)"
proof -
  have m: "advances t (with_method client k m t)" for m by (rule with_method_advances [OF assms(1,2)])
  then have r: "receiving (with_method client k m t)" "k < ks_keysize (sc_keys (with_method client k m t))"
      "sc_verify_counter (with_method client k m t)" for m
    using assms(2,3) same_setup_keysize [of t "with_method client k m t"] by (auto simp: advances_def same_setup_def)
  from assms(4) show ?thesis
  proof (cases rule: ReadSecMSG_cases)
    case raw
    with assms(1) show ?thesis by (simp add: advances_refl)
  next
    case (switched m')
    with m show ?thesis by simp
  next
    case (new_format m' p1 clear1)
    from read_compressed_state [OF this] check_counters_advances [OF r] m advances_trans show ?thesis by metis
  next
    case (old_format m' clear1)
    from read_old_state [OF this r(3)] show ?thesis
    proof (elim disjE exE conjE)
      fix g l e
      assume e: "entry_at k (with_method client k m' t) = Some e" "newer g l e"
        "update_counters k g l (with_method client k m' t) = Some (rr_state r)"
      with update_counters_taken [OF r(1) [of m'] r(2) [of m'], of g l] have a: "counters_taken k g l (with_method client k m' t) (rr_state r)" by auto
      have "counters_less (entry_counters (with_method client k m' t) k) (g, l)"
        using e(1,2) newer_counters by (auto simp: entry_at_Some)
      from advances_trans [OF m counters_taken_advances [OF a this]] show ?thesis .
    qed (use m in simp)
  qed
qed

text \<open>What else the program does in between: it closes idle files, and time passes.\<close>

lemma close_idle_frame:
  "close_idle rounds seconds t = Some t' \<Longrightarrow> rf_dir (sc_files t') = rf_dir (sc_files t) \<and>
    rf_denied (sc_files t') = rf_denied (sc_files t) \<and> ks_key_mode (sc_keys t') = ks_key_mode (sc_keys t) \<and>
    sc_verify_counter t' = sc_verify_counter t"
proof (induction rounds seconds t rule: close_idle.induct)
  case (1 rounds seconds t)
  from "1.prems" show ?case
    by (subst (asm) close_idle.simps)
      (auto simp: set_entry_at_def fclose_stream_def Let_def split: option.splits bind_splits if_splits blocking.splits dest!: "1.IH")
qed

lemma queue_length:
  assumes "lq_ok q ns"
  shows "length ns \<le> lq_fresh q"
proof -
  have "set ns \<subseteq> {..<lq_fresh q}" using lq_ok_allocated [OF assms] by auto
  from card_mono [OF _ this] show ?thesis using assms by (simp add: lq_ok_def distinct_card)
qed

lemma close_idle_advances:
  assumes "receiving t" "close_idle (lq_fresh (ks_opened (sc_keys t))) seconds t = Some t'"
  shows "advances t t'"
proof -
  from assms(1) obtain ns where ns: "queue_inv t ns" "in_order t ns" by (auto simp: receiving_def)
  then have "length ns \<le> lq_fresh (ks_opened (sc_keys t))" by (intro queue_length) (simp add: queue_inv_def)
  from close_idle_result [OF ns this, of seconds] assms(2) obtain ns' where q: "queue_inv t' ns'" "in_order t' ns'"
    and e: "ks_entries (sc_keys t') = map (\<lambda>e. if idle seconds (sc_now t) e then closed_entry e else e) (ks_entries (sc_keys t))"
    by auto
  have same: "same_setup t t'"
    using close_idle_frame [OF assms(2)] unfolding same_setup_def e by (simp add: closed_entry_def cong: map_cong)
  have l: "j \<le> ks_keysize (sc_keys t) \<Longrightarrow> j < length (ks_entries (sc_keys t))" for j
    using assms(1) keysize_less [of t] by (simp add: receiving_def)
  have "receiving t'" by (rule receiving_step [OF assms(1) same q]) (use l in \<open>simp add: e closed_entry_def\<close>)
  with same show ?thesis by (simp add: advances_def entry_counters_def e closed_entry_def)
qed

lemma clock_advances:
  assumes "receiving t" "sc_now t \<le> now"
  shows "advances t (t\<lparr>sc_now := now\<rparr>)"
proof -
  let ?t = "t\<lparr>sc_now := now\<rparr>"
  from assms(1) obtain ns where ns: "queue_inv t ns" "in_order t ns" by (auto simp: receiving_def)
  have same: "same_setup t ?t" by (simp add: same_setup_def)
  have "node_time ?t = node_time t" by (simp add: node_time_def fun_eq_iff)
  with ns assms(2) have "queue_inv ?t ns" "in_order ?t ns" by (auto simp: queue_inv_def in_order_def)
  then have "receiving ?t" by (rule receiving_step [OF assms(1) same]) simp
  with same show ?thesis by (simp add: advances_def entry_counters_def)
qed

lemma count_sizes_frame:
  "count_sizes n m s = Some s' \<Longrightarrow> sc_keys s' = sc_keys s \<and> sc_files s' = sc_files s \<and> sc_verify_counter s' = sc_verify_counter s \<and> sc_now s' = sc_now s"
  by (auto simp: count_sizes_def Let_def split: if_splits)

lemma StoreSenderCounter_frame:
  "StoreSenderCounter g l s = Some s' \<Longrightarrow> sc_keys s' = sc_keys s \<and> rf_dir (sc_files s') = rf_dir (sc_files s) \<and>
    rf_denied (sc_files s') = rf_denied (sc_files s) \<and> sc_verify_counter s' = sc_verify_counter s \<and> sc_now s' = sc_now s"
  by (auto simp: StoreSenderCounter_def write_front_def split: bind_splits)

lemma CreateSecMSG_frame:
  assumes "receiving t" "CreateSecMSG cr client r msg k out t = Some (n, out', t')"
  shows "sc_keys t' = sc_keys t \<and> rf_dir (sc_files t') = rf_dir (sc_files t) \<and> rf_denied (sc_files t') = rf_denied (sc_files t) \<and>
    sc_verify_counter t' = sc_verify_counter t \<and> sc_now t' = sc_now t"
proof -
  let ?m = "ks_keysize (sc_keys t)"
  have r: "files_ready (sc_keys t) (sc_files t)" using assms(1) by (simp add: receiving_def)
  have "counter_name (sc_keys t) ?m = rids_path SENDER_COUNTER" by (simp add: counter_name_def)
  with r have "rf_dir (sc_files t) (rids_path SENDER_COUNTER) = Some (counter_file (sc_keys t) (sc_files t) ?m)"
    unfolding files_ready_def counter_file_def by (metis le_refl option.collapse)
  moreover have "ke_inode (ks_entries (sc_keys t) ! ?m) = counter_file (sc_keys t) (sc_files t) ?m"
    using assms(1) unfolding receiving_def Let_def by blast
  ultimately have reload: "ReloadCounter ?m SENDER_COUNTER t = Some t"
    using keysize_less [OF r] by (simp add: ReloadCounter_def entry_at_result File_Inode_def)
  have "t' = t \<or> t' = next_counters t \<or>
      (\<exists>a b s3 g l. count_sizes a b (next_counters t) = Some s3 \<and> StoreSenderCounter g l s3 = Some t')"
    using assms(2) unfolding CreateSecMSG_def Let_def
    by (clarsimp simp: bind_eq_Some_conv reload split: if_split_asm option.split_asm prod.split_asm) blast
  then show ?thesis
    by (elim disjE exE conjE) (use count_sizes_frame StoreSenderCounter_frame in \<open>fastforce+\<close>)
qed

lemma CreateSecMSG_advances:
  assumes "receiving t" "CreateSecMSG cr client r msg k out t = Some (n, out', t')"
  shows "advances t t'"
proof -
  note f = CreateSecMSG_frame [OF assms]
  have same: "same_setup t t'" using f by (simp add: same_setup_def)
  from assms(1) obtain ns where ns: "queue_inv t ns" "in_order t ns" by (auto simp: receiving_def)
  have nodes: "same_nodes t t'" using f by (simp add: same_nodes_def)
  have "queue_inv t' ns" "in_order t' ns" using ns unfolding queue_inv_cong [OF nodes] in_order_cong [OF nodes ns(1)] by blast+
  then have "receiving t'" by (rule receiving_step [OF assms(1) same]) (simp add: f)
  with same show ?thesis by (simp add: advances_def entry_counters_def f)
qed

end
