(* ===== verification/Sec_Msg_Thms.thy ===== *)
theory Sec_Msg_Thms
  imports Sec_Msg_Counters
begin

text \<open>
  An agent and its manager: a session of secure messages in which either side may start again, and what the
  manager does with a message that it gets a second time.
\<close>

section \<open>The manager receives\<close>

text \<open>
  A datagram in the zeroed arrays of \<open>HandleSecureMessage\<close>; \<open>j\<close> is the entry to which the agent id or the
  address leads.
\<close>

definition zeros :: bytes where "zeros = replicate (OS_MAXSTR + 1) 0"

definition manager_receives :: "crypto \<Rightarrow> nat \<Rightarrow> bytes \<Rightarrow> sec_state \<Rightarrow> read_result proc_result option" where
  "manager_receives cr j d t = do {
     buf \<leftarrow> poke zeros 0 d;
     s \<leftarrow> strip_agent_id buf (int (length d));
     case s of
       None \<Rightarrow> None
     | Some (i, p, n) \<Rightarrow> if n \<le> 0 then None else ReadSecMSG cr False j buf p (word_of_int (n - 1)) zeros t }"

text \<open>The message that \<open>ReadSecMSG\<close> hands out.\<close>

definition delivered :: "read_result \<Rightarrow> bytes option" where
  "delivered r =
     (case rr_output r of
        None \<Rightarrow> None
      | Some (In_Buffer q n) \<Rightarrow> Some (take (unat n) (drop q (rr_buffer r)))
      | Some (In_Cleartext q n) \<Rightarrow> Some (take (unat n) (drop q (rr_cleartext r))))"

text \<open>What an agent that sends with entry \<open>k\<close> needs; its id, when it is sent, is made of digits.\<close>

definition sends_with :: "nat \<Rightarrow> sec_state \<Rightarrow> bool" where
  "sends_with k s \<longleftrightarrow> sender_ready s \<and> sizes_ok s \<and> k < ks_keysize (sc_keys s) \<and>
     (let e = ks_entries (sc_keys s) ! k in known_method e \<and>
        (\<not> ke_single_host e \<longrightarrow> length (ke_id e) \<le> 8 \<and> (\<forall>c \<in> set (ke_id e). is_digit c)))"

text \<open>The manager has an entry with the same key.\<close>

definition knows :: "sec_state \<Rightarrow> nat \<Rightarrow> keyentry \<Rightarrow> bool" where
  "knows t j e \<longleftrightarrow> receiving t \<and> ks_key_mode (sc_keys t) \<noteq> W_RAW_KEY \<and> j < ks_keysize (sc_keys t) \<and>
     ke_encryption_key (ks_entries (sc_keys t) ! j) = ke_encryption_key e"

lemma strip_address:
  assumes "\<not> ke_single_host e \<longrightarrow> (\<forall>c \<in> set (ke_id e). is_digit c)" "known_method e"
    and "d = datagram cr e c" "buf = address_of True e @ d @ rest"
  shows "\<exists>i. strip_agent_id buf (int (length (address_of True e @ d))) = Some (Some (i, length (address_of True e), int (length d)))"
proof (cases "ke_single_host e")
  case True
  have "datagram cr e c \<noteq> []" "hd (datagram cr e c) \<noteq> 33" by (simp_all add: datagram_def token_of_def asc_Cons of_char_def)
  with True assms(3,4) show ?thesis by (simp add: strip_agent_id_def address_of_def)
next
  case False
  have nd: "\<not> is_digit 33" by (simp add: is_digit_def)
  have tw: "takeWhile is_digit (ke_id e @ 33 # d @ rest) = ke_id e" using assms(1) False nd by (simp add: takeWhile_append)
  have "byte_at buf (1 + length (ke_id e)) = Some 33"
    using False assms(4) by (intro byte_at_drop [of _ _ _ "d @ rest"]) (simp add: address_of_def)
  with False assms(4) tw show ?thesis by (simp add: strip_agent_id_def address_of_def Let_def)
qed

text \<open>The array with the datagram, from whose offset the message is read.\<close>

definition received_array :: "crypto \<Rightarrow> keyentry \<Rightarrow> bytes \<Rightarrow> bytes" where
  "received_array cr e c = (address_of True e @ datagram cr e c) @ drop (length (address_of True e @ datagram cr e c)) zeros"

lemma manager_receives_reads:
  assumes e: "known_method e" "\<not> ke_single_host e \<longrightarrow> length (ke_id e) \<le> 8 \<and> (\<forall>c \<in> set (ke_id e). is_digit c)"
    and d: "length (address_of True e @ datagram cr e c) \<le> OS_MAXSTR"
  shows "manager_receives cr j (address_of True e @ datagram cr e c) t =
    ReadSecMSG cr False j (received_array cr e c) (length (address_of True e)) (of_nat (length (datagram cr e c) - 1)) zeros t"
proof -
  let ?a = "address_of True e" and ?d = "datagram cr e c"
  let ?buf = "received_array cr e c"
  have z: "length zeros = OS_MAXSTR + 1" by (simp add: zeros_def)
  have "poke zeros 0 (?a @ ?d) = Some ?buf" using d z unfolding received_array_def by (intro poke_front) simp
  moreover obtain i where "strip_agent_id ?buf (int (length (?a @ ?d))) = Some (Some (i, length ?a, int (length ?d)))"
    using strip_address [of e ?d cr c ?buf "drop (length (?a @ ?d)) zeros"] e by (auto simp: received_array_def)
  moreover have ne: "0 < length ?d" by (simp add: datagram_def token_of_def asc_Cons)
  moreover have "word_of_int (int (length ?d) - 1) = (of_nat (length ?d - 1) :: u32)"
    using ne by (cases ?d) simp_all
  ultimately show ?thesis by (simp add: manager_receives_def)
qed

lemma received_array_facts:
  assumes "length (address_of True e @ datagram cr e c) \<le> OS_MAXSTR"
  shows "length (received_array cr e c) = OS_MAXSTR + 1"
    and "take (length (datagram cr e c)) (drop (length (address_of True e)) (received_array cr e c)) = datagram cr e c"
  using assms by (simp_all add: received_array_def zeros_def)

lemma manager_receives_datagram:
  assumes ok: "crypto_ok cr" "seals cr c (message_text r g l msg)" "unat l < 10000" "length msg \<le> MSG_MAX"
    and e: "known_method e" "\<not> ke_single_host e \<longrightarrow> length (ke_id e) \<le> 8 \<and> (\<forall>c \<in> set (ke_id e). is_digit c)"
    and t: "knows t j e" and d: "length (address_of True e @ datagram cr e c) \<le> OS_MAXSTR"
  shows "\<exists>q buf1 clear1. manager_receives cr j (address_of True e @ datagram cr e c) t =
      opened_result j g l q (length msg) buf1 clear1 (with_method False j (ke_crypto_method e) t) \<and>
    take (length msg) (drop q buf1) = msg"
proof -
  let ?a = "address_of True e" and ?d = "datagram cr e c" and ?buf = "received_array cr e c"
  have z: "length zeros = OS_MAXSTR + 1" by (simp add: zeros_def)
  have jl: "j < length (ks_entries (sc_keys t))" using t receiving_stream(2) by (simp add: knows_def)
  have al: "length ?a \<le> 64" using e(2) by (auto simp: address_of_def)
  have "\<exists>q buf1 clear1. ReadSecMSG cr False j ?buf (length ?a) (of_nat (length ?d - 1)) zeros t =
      opened_result j g l q (length msg) buf1 clear1 (with_method False j (ke_crypto_method e) t) \<and>
    take (length msg) (drop q buf1) = msg \<and> q \<le> 128"
    by (rule ReadSecMSG_datagram [OF ok e(1) jl]) (use t d z al received_array_facts [OF d] in \<open>simp_all add: knows_def\<close>)
  then show ?thesis unfolding manager_receives_reads [OF e d] by blast
qed

text \<open>Either the message is accepted and handed out, or it is refused and only the method of the entry changes.\<close>

lemma manager_decides:
  assumes "crypto_ok cr" "seals cr c (message_text r g l msg)" "unat l < 10000" "length msg \<le> MSG_MAX"
    and "known_method e" "\<not> ke_single_host e \<longrightarrow> length (ke_id e) \<le> 8 \<and> (\<forall>c \<in> set (ke_id e). is_digit c)"
    and t: "knows t j e" and "length (address_of True e @ datagram cr e c) \<le> OS_MAXSTR"
  shows "sc_verify_counter t \<longrightarrow> counters_less (entry_counters t j) (g, l) \<Longrightarrow>
      \<exists>rr. manager_receives cr j (address_of True e @ datagram cr e c) t = Some (Goes rr) \<and> rr_code rr = KS_VALID \<and>
        delivered rr = Some msg \<and> counters_taken j g l (with_method False j (ke_crypto_method e) t) (rr_state rr)"
    and "sc_verify_counter t \<Longrightarrow> \<not> counters_less (entry_counters t j) (g, l) \<Longrightarrow>
      \<exists>rr. manager_receives cr j (address_of True e @ datagram cr e c) t = Some (Goes rr) \<and>
        rr_code rr = (if g = fst (entry_counters t j) then KS_RIDS else KS_ENCKEY) \<and>
        delivered rr = None \<and> rr_state rr = with_method False j (ke_crypto_method e) t"
proof -
  let ?t = "with_method False j (ke_crypto_method e) t"
  from manager_receives_datagram [OF assms] obtain q buf1 clear1 where
    m: "manager_receives cr j (address_of True e @ datagram cr e c) t = opened_result j g l q (length msg) buf1 clear1 ?t"
      "take (length msg) (drop q buf1) = msg" by blast
  have j: "receiving t" "j < ks_keysize (sc_keys t)" using t by (simp_all add: knows_def)
  have adv: "advances t ?t" by (rule with_method_advances [OF j])
  then have r: "receiving ?t" "j < ks_keysize (sc_keys ?t)" "sc_verify_counter ?t = sc_verify_counter t"
    using j(2) same_setup_keysize [of t ?t] by (auto simp: advances_def same_setup_def)
  have ec: "entry_counters ?t j = entry_counters t j" using receiving_stream(2) [OF j] by (simp add: entry_counters_def with_method_def)
  have un: "unat (of_nat (length msg) :: u64) = length msg"
    using assms(4) by (intro unat_of_nat_small) (simp add: MSG_MAX_def OS_MAXSTR_def OS_HEADER_SIZE_def)
  {
    assume "sc_verify_counter t \<longrightarrow> counters_less (entry_counters t j) (g, l)"
    with check_counters_accepts [OF r(1,2), of g l] r(3) ec obtain t' where
      "check_counters j g l ?t = Some (Goes (KS_VALID, t'))" "counters_taken j g l ?t t'" by auto
    with m un show "\<exists>rr. manager_receives cr j (address_of True e @ datagram cr e c) t = Some (Goes rr) \<and> rr_code rr = KS_VALID \<and>
        delivered rr = Some msg \<and> counters_taken j g l ?t (rr_state rr)"
      by (simp add: opened_result_def delivered_def)
  }
  {
    assume "sc_verify_counter t" "\<not> counters_less (entry_counters t j) (g, l)"
    with check_counters_rejects [OF r(1,2), of g l] r(3) ec m
    show "\<exists>rr. manager_receives cr j (address_of True e @ datagram cr e c) t = Some (Goes rr) \<and>
        rr_code rr = (if g = fst (entry_counters t j) then KS_RIDS else KS_ENCKEY) \<and>
        delivered rr = None \<and> rr_state rr = ?t"
      by (simp add: opened_result_def delivered_def KS_VALID_def KS_RIDS_def KS_ENCKEY_def)
  }
qed

section \<open>Replays\<close>

text \<open>
  What the manager does in the meantime: it reads datagrams, whatever they hold, sends messages of
  its own, closes idle files, and time passes.
\<close>

inductive traffic :: "crypto \<Rightarrow> sec_state \<Rightarrow> sec_state \<Rightarrow> bool" for cr where
  silence: "traffic cr t t"
| received: "traffic cr t u \<Longrightarrow> k < ks_keysize (sc_keys u) \<Longrightarrow>
    ReadSecMSG cr False k buf p n clear u = Some (Goes rr) \<Longrightarrow> traffic cr t (rr_state rr)"
| sent: "traffic cr t u \<Longrightarrow> CreateSecMSG cr False r msg k out u = Some (n, out', v) \<Longrightarrow> traffic cr t v"
| closing: "traffic cr t u \<Longrightarrow> close_idle (lq_fresh (ks_opened (sc_keys u))) seconds u = Some v \<Longrightarrow> traffic cr t v"
| passing: "traffic cr t u \<Longrightarrow> sc_now u \<le> now \<Longrightarrow> traffic cr t (u\<lparr>sc_now := now\<rparr>)"

lemma traffic_advances:
  assumes "traffic cr t u" "receiving t" "sc_verify_counter t"
  shows "advances t u"
  using assms
proof (induction rule: traffic.induct)
  case (silence t)
  then show ?case by (simp add: advances_refl)
next
  case (received t u k buf p n clear rr)
  then have a: "advances t u" by blast
  then have "receiving u" "sc_verify_counter u" using received.prems by (simp_all add: advances_def same_setup_def)
  from advances_trans [OF a ReadSecMSG_advances [OF this(1) received.hyps(2) this(2) received.hyps(3)]] show ?case .
next
  case (sent t u r msg k out n out' v)
  then have a: "advances t u" by blast
  then have "receiving u" by (simp add: advances_def)
  from advances_trans [OF a CreateSecMSG_advances [OF this sent.hyps(2)]] show ?case .
next
  case (closing t u seconds v)
  then have a: "advances t u" by blast
  then have "receiving u" by (simp add: advances_def)
  from advances_trans [OF a close_idle_advances [OF this closing.hyps(2)]] show ?case .
next
  case (passing t u now)
  then have a: "advances t u" by blast
  then have "receiving u" by (simp add: advances_def)
  from advances_trans [OF a clock_advances [OF this passing.hyps(2)]] show ?case .
qed

lemma knows_advances:
  assumes "knows t j e" "advances t u"
  shows "knows u j e"
proof -
  have same: "same_setup t u" and r: "receiving u" using assms(2) by (simp_all add: advances_def)
  have "j < length (ks_entries (sc_keys t))" using assms(1) receiving_stream(2) by (simp add: knows_def)
  from same_setup_entry(2) [OF same this] same_setup_keysize [OF same] same r assms(1) show ?thesis
    by (simp add: knows_def same_setup_def)
qed

text \<open>After a message has been read, the counters of the entry are not older than those of the message.\<close>

lemma after_reading:
  assumes "crypto_ok cr" "seals cr c (message_text r g l msg)" "unat l < 10000" "length msg \<le> MSG_MAX"
    and "known_method e" "\<not> ke_single_host e \<longrightarrow> length (ke_id e) \<le> 8 \<and> (\<forall>c \<in> set (ke_id e). is_digit c)"
    and t: "knows t j e" and "length (address_of True e @ datagram cr e c) \<le> OS_MAXSTR" and v: "sc_verify_counter t"
    and m: "manager_receives cr j (address_of True e @ datagram cr e c) t = Some (Goes rr)"
  shows "advances t (rr_state rr)" "\<not> counters_less (entry_counters (rr_state rr) j) (g, l)"
proof -
  let ?t = "with_method False j (ke_crypto_method e) t"
  have j: "receiving t" "j < ks_keysize (sc_keys t)" using t by (simp_all add: knows_def)
  have jl: "j < length (ks_entries (sc_keys t))" using receiving_stream(2) [OF j] .
  have adv: "advances t ?t" by (rule with_method_advances [OF j])
  have ec: "entry_counters ?t j = entry_counters t j" using jl by (simp add: entry_counters_def with_method_def)
  have "advances t (rr_state rr) \<and> \<not> counters_less (entry_counters (rr_state rr) j) (g, l)"
  proof (cases "counters_less (entry_counters t j) (g, l)")
    case True
    with manager_decides(1) [OF assms(1-8)] m have a: "counters_taken j g l ?t (rr_state rr)" by auto
    have "j < length (ks_entries (sc_keys ?t))" using jl by (simp add: with_method_def)
    with a have "entry_counters (rr_state rr) j = (g, l)" by (simp add: counters_taken_def)
    moreover have "advances ?t (rr_state rr)" using True ec by (intro counters_taken_advances [OF a]) simp
    ultimately show ?thesis using advances_trans [OF adv] by (auto simp: counters_less_def)
  next
    case False
    with manager_decides(2) [OF assms(1-8) v] m have "rr_state rr = ?t" by auto
    with False adv ec show ?thesis by simp
  qed
  then show "advances t (rr_state rr)" "\<not> counters_less (entry_counters (rr_state rr) j) (g, l)" by blast+
qed

text \<open>
  (C9) A message is accepted once. Let an agent make a message with \<open>CreateSecMSG\<close>, in either encryption and with
  or without its id in front, and let the manager read the datagram, whatever it makes of it. Then, as long as the
  manager runs with the counters verified and its files in place, and whatever it receives, sends and closes
  in the meantime, a further copy of the datagram is never accepted: \<open>ReadSecMSG\<close> answers \<open>KS_RIDS\<close> when
  the global counter is the current one and \<open>KS_ENCKEY\<close> otherwise, hands nothing out and leaves all counters as they are.
\<close>

theorem replay_rejected:
  assumes "crypto_ok cr" "sends_with k s" "sc_global_count s \<noteq> -1" "1 \<le> length msg" "length msg \<le> MSG_MAX"
    and "CreateSecMSG cr True r msg k zeros s = Some (n, out, s')"
    and "knows t j (ks_entries (sc_keys s) ! k)" "sc_verify_counter t"
    and "manager_receives cr j (take (nat n) out) t = Some (Goes rr)"
    and "traffic cr (rr_state rr) u"
  shows "\<exists>rr2. manager_receives cr j (take (nat n) out) u = Some (Goes rr2) \<and>
    rr_code rr2 = (if sc_global_count s' = fst (entry_counters u j) then KS_RIDS else KS_ENCKEY) \<and> delivered rr2 = None \<and>
    (\<forall>i < length (ks_entries (sc_keys u)). entry_counters (rr_state rr2) i = entry_counters u i)"
proof -
  let ?e = "ks_entries (sc_keys s) ! k"
  obtain g l where gl: "(g, l) = sender_counters (next_counters s)" by (metis surj_pair)
  from assms(2) have e: "known_method ?e" "\<not> ke_single_host ?e \<longrightarrow> length (ke_id ?e) \<le> 8 \<and> (\<forall>c \<in> set (ke_id ?e). is_digit c)"
    and s: "sender_ready s" "sizes_ok s" "k < ks_keysize (sc_keys s)" by (simp_all add: sends_with_def Let_def)
  have "length zeros = OS_MAXSTR + 1" by (simp add: zeros_def)
  from CreateSecMSG_result [OF assms(1) s(1,2) assms(3-5) s(3) refl e(1) _ this gl, of True r] e(2) assms(6) obtain c where
    c: "seals cr c (message_text r g l msg)" "n = int (length (address_of True ?e @ datagram cr ?e c))"
      "take (length (address_of True ?e @ datagram cr ?e c)) out = address_of True ?e @ datagram cr ?e c"
      "length (address_of True ?e @ datagram cr ?e c) \<le> OS_MAXSTR" "after_send s g l s'" by auto
  have d: "take (nat n) out = address_of True ?e @ datagram cr ?e c" unfolding c(2) nat_int by (rule c(3))
  have l: "unat l < 10000" using next_counters_sender(2) [OF assms(3)] gl by (simp add: sender_counters_def)
  have g: "sc_global_count s' = g" using c(5) by (simp add: after_send_def sender_counters_def)
  note first = after_reading [OF assms(1) c(1) l assms(5) e assms(7) c(4) assms(8) assms(9) [unfolded d]]
  from first(1) assms(8) have "receiving (rr_state rr)" "sc_verify_counter (rr_state rr)" by (simp_all add: advances_def same_setup_def)
  from traffic_advances [OF assms(10) this] have ru: "advances (rr_state rr) u" .
  then have tu: "advances t u" using first(1) advances_trans by blast
  have ku: "knows u j ?e" by (rule knows_advances [OF assms(7) tu])
  have vu: "sc_verify_counter u" using tu assms(8) by (simp add: advances_def same_setup_def)
  have "j < length (ks_entries (sc_keys (rr_state rr)))"
    using assms(7) receiving_stream(2) first(1) same_setup_length by (auto simp: knows_def advances_def)
  with ru first(2) have old: "\<not> counters_less (entry_counters u j) (g, l)"
    using counters_le_less_trans unfolding advances_def by blast
  from manager_decides(2) [OF assms(1) c(1) l assms(5) e ku c(4) vu old] obtain rr2 where
    rr2: "manager_receives cr j (take (nat n) out) u = Some (Goes rr2)"
      "rr_code rr2 = (if g = fst (entry_counters u j) then KS_RIDS else KS_ENCKEY)" "delivered rr2 = None"
      "rr_state rr2 = with_method False j (ke_crypto_method ?e) u" unfolding d by blast
  have "\<forall>i < length (ks_entries (sc_keys u)). entry_counters (rr_state rr2) i = entry_counters u i"
    using ku receiving_stream(2) [of u j] by (auto simp: rr2(4) knows_def entry_counters_def with_method_def nth_list_update)
  with rr2 g show ?thesis by auto
qed

section \<open>Starting again\<close>

text \<open>
  A process that starts: its memory is as the keys file and the configuration give it, the files are those that
  the last process left.
\<close>

definition fresh_entry :: "keyentry \<Rightarrow> keyentry" where
  "fresh_entry e = e\<lparr>ke_global := 0, ke_local := 0, ke_updating_time := 0, ke_inode := 0, ke_fp := None, ke_rids_node := None\<rparr>"

definition fresh_process :: "sec_state \<Rightarrow> sec_state" where
  "fresh_process s = s\<lparr>sc_keys := (sc_keys s)\<lparr>ks_entries := map fresh_entry (ks_entries (sc_keys s)), ks_opened := linked_queue_init\<rparr>,
     sc_files := (sc_files s)\<lparr>rf_open := 0\<rparr>, sc_global_count := 0, sc_local_count := 0, sc_rcv_count := 0, sc_evt_count := 0,
     sc_orig_size := 0, sc_comp_size := 0, sc_recv_flush := 0, sc_comp_print := 0, sc_verify_counter := True\<rparr>"

definition restart :: "u32 \<Rightarrow> u32 \<Rightarrow> bool \<Rightarrow> sec_state \<Rightarrow> sec_state proc_result option" where
  "restart flush print verify s = OS_StartCounter flush print verify (fresh_process s)"

lemma restart_result:
  assumes "files_ready (sc_keys s) (sc_files s)"
  shows "\<exists>s'. restart flush print verify s = Some (Goes s') \<and> same_setup (s\<lparr>sc_verify_counter := verify\<rparr>) s' \<and> receiving s' \<and>
    (\<forall>i. saved (sc_files s') i = saved (sc_files s) i) \<and>
    (\<forall>j < ks_keysize (sc_keys s). entry_counters s' j = saved (sc_files s) (counter_file (sc_keys s) (sc_files s) j) \<and>
       ke_crypto_method (ks_entries (sc_keys s') ! j) = ke_crypto_method (ks_entries (sc_keys s) ! j)) \<and>
    sender_counters s' = saved (sc_files s) (sender_file s) \<and>
    ke_fp (ks_entries (sc_keys s') ! ks_keysize (sc_keys s)) = Some (sender_file s) \<and> (print \<noteq> -1 \<longrightarrow> sizes_ok s')"
proof -
  let ?f = "fresh_process s" and ?m = "ks_keysize (sc_keys s)" and ?v = "s\<lparr>sc_verify_counter := verify\<rparr>"
  let ?s = "started flush print verify ?f"
  have len: "length (ks_entries (sc_keys s)) = Suc ?m" by (rule keysize_less [OF assms])
  have fe: "ks_entries (sc_keys ?f) = map fresh_entry (ks_entries (sc_keys s))" by (simp add: fresh_process_def)
  have m: "ks_keysize (sc_keys ?f) = ?m" by (simp add: ks_keysize_def fresh_process_def)
  have name: "counter_name (sc_keys ?f) j = counter_name (sc_keys s) j" if "j \<le> ?m" for j
    using that len unfolding counter_name_def m by (simp add: fresh_process_def fresh_entry_def)
  have dir: "rf_dir (sc_files ?f) = rf_dir (sc_files s)" "rf_denied (sc_files ?f) = rf_denied (sc_files s)"
    "rf_data (sc_files ?f) = rf_data (sc_files s)" by (simp_all add: fresh_process_def)
  have fr: "files_ready (sc_keys ?f) (sc_files ?f)"
    using assms name unfolding files_ready_def m dir by (auto simp: fresh_process_def)
  have cf: "counter_file (sc_keys ?f) (sc_files ?f) j = counter_file (sc_keys s) (sc_files s) j" if "j \<le> ?m" for j
    using name [OF that] dir by (simp add: counter_file_def)
  have sv: "saved (sc_files ?f) = saved (sc_files s)" by (simp add: saved_def dir fun_eq_iff)
  have es: "ks_entries (sc_keys ?s) = map (started_entry (sc_keys ?f) (sc_files ?f)) [0..<?m] @
      [fresh_entry (ks_entries (sc_keys s) ! ?m)\<lparr>ke_fp := Some (sender_file s), ke_inode := sender_file s\<rparr>]"
    using len cf [of ?m] by (simp add: started_def Let_def m sender_file_def fe)
  have ent: "ks_entries (sc_keys ?s) ! j = (fresh_entry (ks_entries (sc_keys s) ! j))
      \<lparr>ke_global := fst (saved (sc_files s) (counter_file (sc_keys s) (sc_files s) j)),
       ke_local := snd (saved (sc_files s) (counter_file (sc_keys s) (sc_files s) j)), ke_fp := None,
       ke_inode := counter_file (sc_keys s) (sc_files s) j\<rparr>" if "j < ?m" for j
    using that len cf [of j] by (simp add: es nth_append started_entry_def sv fe)
  have last: "ks_entries (sc_keys ?s) ! ?m = fresh_entry (ks_entries (sc_keys s) ! ?m)
      \<lparr>ke_fp := Some (sender_file s), ke_inode := sender_file s\<rparr>" by (simp add: es nth_append)
  have ls: "length (ks_entries (sc_keys ?s)) = Suc ?m" by (simp add: es)
  have same: "same_setup ?v ?s"
  proof -
    have "map (\<lambda>e. (ke_id e, ke_encryption_key e, ke_single_host e)) (ks_entries (sc_keys ?s)) =
        map (\<lambda>e. (ke_id e, ke_encryption_key e, ke_single_host e)) (ks_entries (sc_keys s))"
      using ls len ent last by (intro nth_equalityI) (auto simp: less_Suc_eq fresh_entry_def)
    then show ?thesis by (simp add: same_setup_def started_def Let_def fresh_process_def)
  qed
  have q: "queue_inv ?s []" "in_order ?s []"
  proof -
    have "ke_rids_node (ks_entries (sc_keys ?s) ! j) = None" if "j < Suc ?m" for j
      using that ent [of j] last by (auto simp: less_Suc_eq fresh_entry_def)
    moreover have "ks_opened (sc_keys ?s) = linked_queue_init" by (simp add: started_def Let_def)
    ultimately show "queue_inv ?s []" using ls by (simp add: queue_inv_def linked_queue_init_ok)
    show "in_order ?s []" by (simp add: in_order_def)
  qed
  have rec: "receiving ?s"
  proof -
    have fv: "files_ready (sc_keys ?v) (sc_files ?v)" using assms by simp
    have ksz: "ks_keysize (sc_keys ?s) = ?m" using ls by (simp add: ks_keysize_def)
    have c: "counter_file (sc_keys ?s) (sc_files ?s) j = counter_file (sc_keys s) (sc_files s) j" if "j \<le> ?m" for j
      using same_setup_files(2) [OF same fv, of j] that by simp
    have "ke_inode (ks_entries (sc_keys ?s) ! j) = counter_file (sc_keys ?s) (sc_files ?s) j \<and>
        (ke_fp (ks_entries (sc_keys ?s) ! j) = None \<or> ke_fp (ks_entries (sc_keys ?s) ! j) = Some (counter_file (sc_keys ?s) (sc_files ?s) j))"
      if "j \<le> ?m" for j
    proof (cases "j = ?m")
      case True
      then show ?thesis using c [of ?m] last by (simp add: sender_file_def)
    next
      case False
      then have "j < ?m" using that by simp
      then show ?thesis using c [OF that] ent [of j] by simp
    qed
    with q same_setup_files(1) [OF same fv] show ?thesis unfolding receiving_def Let_def ksz by blast
  qed
  have "restart flush print verify s = Some (Goes ?s)" unfolding restart_def by (rule OS_StartCounter_result [OF fr])
  moreover have "\<forall>i. saved (sc_files ?s) i = saved (sc_files s) i" by (simp add: saved_def started_def Let_def dir)
  moreover have "\<forall>j < ?m. entry_counters ?s j = saved (sc_files s) (counter_file (sc_keys s) (sc_files s) j) \<and>
      ke_crypto_method (ks_entries (sc_keys ?s) ! j) = ke_crypto_method (ks_entries (sc_keys s) ! j)"
    by (simp add: entry_counters_def ent fresh_entry_def)
  moreover have "sender_counters ?s = saved (sc_files s) (sender_file s)"
    using cf [of ?m] by (simp add: sender_counters_def started_def Let_def m sv sender_file_def)
  moreover have "print \<noteq> -1 \<longrightarrow> sizes_ok ?s" by (simp add: sizes_ok_def started_def Let_def fresh_process_def)
  moreover have "ke_fp (ks_entries (sc_keys ?s) ! ?m) = Some (sender_file s)" by (simp add: last)
  ultimately show ?thesis using same rec by (intro exI [of _ ?s]) blast
qed

section \<open>Sessions\<close>

text \<open>The agent says something, with the random number of the message, or one of the two programs starts again.\<close>

datatype session_event = Say u16 bytes | Restart_Agent u32 u32 bool | Restart_Manager u32 u32 bool

definition goes_on :: "'a proc_result option \<Rightarrow> 'a option" where
  "goes_on m = (case m of Some (Goes x) \<Rightarrow> Some x | _ \<Rightarrow> None)"

text \<open>The messages that the manager hands out, and the two programs afterwards. An agent sends with its entry 0.\<close>

fun secure_session :: "crypto \<Rightarrow> nat \<Rightarrow> session_event list \<Rightarrow> sec_state \<Rightarrow> sec_state \<Rightarrow> (bytes option list \<times> sec_state \<times> sec_state) option" where
  "secure_session cr j [] s t = Some ([], s, t)"
| "secure_session cr j (Say r msg # evs) s t = do {
     (n, out, s1) \<leftarrow> CreateSecMSG cr True r msg 0 zeros s;
     rr \<leftarrow> goes_on (manager_receives cr j (take (nat n) out) t);
     (got, s2, t2) \<leftarrow> secure_session cr j evs s1 (rr_state rr);
     Some (delivered rr # got, s2, t2) }"
| "secure_session cr j (Restart_Agent flush print verify # evs) s t = do {
     s1 \<leftarrow> goes_on (restart flush print verify s);
     secure_session cr j evs s1 t }"
| "secure_session cr j (Restart_Manager flush print verify # evs) s t = do {
     t1 \<leftarrow> goes_on (restart flush print verify t);
     secure_session cr j evs s t1 }"

fun said :: "session_event \<Rightarrow> bytes list" where
  "said (Say r msg) = [msg]" | "said (Restart_Agent f p v) = []" | "said (Restart_Manager f p v) = []"

fun sayable :: "session_event \<Rightarrow> bool" where
  "sayable (Say r msg) \<longleftrightarrow> 1 \<le> length msg \<and> length msg \<le> MSG_MAX"
| "sayable (Restart_Agent f p v) \<longleftrightarrow> p \<noteq> -1"
| "sayable (Restart_Manager f p v) \<longleftrightarrow> True"

text \<open>
  The two programs agree on the key, and neither the counters that the manager has in memory nor those in its
  file are ahead of the agent's.
\<close>

definition in_step :: "sec_state \<Rightarrow> nat \<Rightarrow> sec_state \<Rightarrow> bool" where
  "in_step s j t \<longleftrightarrow> sends_with 0 s \<and> saved (sc_files s) (sender_file s) = sender_counters s \<and>
     knows t j (ks_entries (sc_keys s) ! 0) \<and>
     counters_le (entry_counters t j) (sender_counters s) \<and>
     counters_le (saved (sc_files t) (counter_file (sc_keys t) (sc_files t) j)) (sender_counters s)"

lemma in_step_say:
  assumes "crypto_ok cr" "in_step s j t" "sc_global_count s \<noteq> -1" "1 \<le> length msg" "length msg \<le> MSG_MAX"
  shows "\<exists>n out s1 rr. CreateSecMSG cr True r msg 0 zeros s = Some (n, out, s1) \<and>
    manager_receives cr j (take (nat n) out) t = Some (Goes rr) \<and> delivered rr = Some msg \<and> in_step s1 j (rr_state rr) \<and>
    sc_global_count s1 \<le> sc_global_count s + 1"
proof -
  let ?e = "ks_entries (sc_keys s) ! 0"
  obtain g l where gl: "(g, l) = sender_counters (next_counters s)" by (metis surj_pair)
  from assms(2) have e: "known_method ?e" "\<not> ke_single_host ?e \<longrightarrow> length (ke_id ?e) \<le> 8 \<and> (\<forall>c \<in> set (ke_id ?e). is_digit c)"
    and s: "sender_ready s" "sizes_ok s" "0 < ks_keysize (sc_keys s)" by (simp_all add: in_step_def sends_with_def Let_def)
  have "length zeros = OS_MAXSTR + 1" by (simp add: zeros_def)
  from CreateSecMSG_result [OF assms(1) s(1,2) assms(3-5) s(3) refl e(1) _ this gl, of True r] e(2) obtain c out s1 where
    c: "CreateSecMSG cr True r msg 0 zeros s = Some (int (length (address_of True ?e @ datagram cr ?e c)), out, s1)"
      "take (length (address_of True ?e @ datagram cr ?e c)) out = address_of True ?e @ datagram cr ?e c"
      "length (address_of True ?e @ datagram cr ?e c) \<le> OS_MAXSTR"
      "seals cr c (message_text r g l msg)" "after_send s g l s1" by blast
  have l: "unat l < 10000" and less: "counters_less (sender_counters s) (g, l)" and gle: "sc_global_count s1 \<le> sc_global_count s + 1"
    using next_counters_sender [OF assms(3)] gl c(5) by (auto simp: sender_counters_def after_send_def)
  from assms(2) have k: "knows t j ?e" "counters_le (entry_counters t j) (sender_counters s)"
    "counters_le (saved (sc_files t) (counter_file (sc_keys t) (sc_files t) j)) (sender_counters s)" by (simp_all add: in_step_def)
  have newer: "counters_less (entry_counters t j) (g, l)" using k(2) less by (rule counters_le_less_trans)
  let ?t = "with_method False j (ke_crypto_method ?e) t"
  from manager_decides(1) [OF assms(1) c(4) l assms(5) e k(1) c(3)] newer obtain rr where
    rr: "manager_receives cr j (address_of True ?e @ datagram cr ?e c) t = Some (Goes rr)" "delivered rr = Some msg"
      "counters_taken j g l ?t (rr_state rr)" by blast
  have j: "receiving t" "j < ks_keysize (sc_keys t)" using k(1) by (simp_all add: knows_def)
  have jl: "j < length (ks_entries (sc_keys t))" by (rule receiving_stream(2) [OF j])
  have ec: "entry_counters ?t j = entry_counters t j" "length (ks_entries (sc_keys ?t)) = length (ks_entries (sc_keys t))"
    "sc_files ?t = sc_files t" using jl by (simp_all add: entry_counters_def with_method_def)
  have adv: "advances t (rr_state rr)"
    using with_method_advances [OF j] counters_taken_advances [OF rr(3)] newer unfolding ec(1) by (blast intro: advances_trans)
  have new: "entry_counters (rr_state rr) j = (g, l)" using rr(3) jl ec(2) by (simp add: counters_taken_def)
  have le: "counters_le (sender_counters s) (g, l)" using less by (rule counters_less_le)
  have snd: "sender_counters s1 = (g, l)" using c(5) by (simp add: after_send_def)
  have cf: "counter_file (sc_keys (rr_state rr)) (sc_files (rr_state rr)) j = counter_file (sc_keys t) (sc_files t) j"
    using adv j by (intro same_setup_files(2)) (simp_all add: advances_def receiving_def)
  have "saved (sc_files (rr_state rr)) i = saved (sc_files t) i \<or> saved (sc_files (rr_state rr)) i = (g, l)" for i
    using rr(3) ec(3) by (simp add: counters_taken_def)
  then have sv: "counters_le (saved (sc_files (rr_state rr)) (counter_file (sc_keys t) (sc_files t) j)) (g, l)"
    using counters_le_trans [OF k(3) le] by (metis counters_le_refl)
  note ready = after_send_ready [OF c(5) s(1)]
  have keys: "sc_keys s1 = sc_keys s" "sizes_ok s1" using c(5) by (simp_all add: after_send_def)
  have "in_step s1 j (rr_state rr)"
    using ready knows_advances [OF k(1) adv] e s(3) sv snd new unfolding in_step_def sends_with_def keys(1) cf
    by (simp add: keys(2))
  moreover have "take (nat (int (length (address_of True ?e @ datagram cr ?e c)))) out = address_of True ?e @ datagram cr ?e c"
    unfolding nat_int by (rule c(2))
  ultimately show ?thesis using c(1) rr(1,2) gle by metis
qed

lemma in_step_restart_agent:
  assumes "in_step s j t" "print \<noteq> -1"
  shows "\<exists>s1. restart flush print verify s = Some (Goes s1) \<and> in_step s1 j t \<and> sc_global_count s1 = sc_global_count s"
proof -
  let ?v = "s\<lparr>sc_verify_counter := verify\<rparr>" and ?m = "ks_keysize (sc_keys s)" and ?e = "ks_entries (sc_keys s) ! 0"
  from assms(1) have s: "sends_with 0 s" "saved (sc_files s) (sender_file s) = sender_counters s" "knows t j ?e"
    "counters_le (entry_counters t j) (sender_counters s)"
    "counters_le (saved (sc_files t) (counter_file (sc_keys t) (sc_files t) j)) (sender_counters s)" by (simp_all add: in_step_def)
  then have r: "files_ready (sc_keys s) (sc_files s)" and m: "0 < ?m" by (simp_all add: sends_with_def sender_ready_def)
  from restart_result [OF r, of flush print verify] assms(2) obtain s1 where
    s1: "restart flush print verify s = Some (Goes s1)" "same_setup ?v s1" "receiving s1" "\<And>i. saved (sc_files s1) i = saved (sc_files s) i"
      "ke_crypto_method (ks_entries (sc_keys s1) ! 0) = ke_crypto_method ?e"
      "sender_counters s1 = saved (sc_files s) (sender_file s)" "ke_fp (ks_entries (sc_keys s1) ! ?m) = Some (sender_file s)" "sizes_ok s1"
    using m by auto
  have rv: "files_ready (sc_keys ?v) (sc_files ?v)" using r by simp
  have ks: "ks_keysize (sc_keys s1) = ?m" using same_setup_keysize [OF s1(2)] by simp
  have sf: "sender_file s1 = sender_file s" using same_setup_files(2) [OF s1(2) rv, of ?m] by (simp add: sender_file_def ks)
  have e: "ke_id (ks_entries (sc_keys s1) ! 0) = ke_id ?e" "ke_encryption_key (ks_entries (sc_keys s1) ! 0) = ke_encryption_key ?e"
    "ke_single_host (ks_entries (sc_keys s1) ! 0) = ke_single_host ?e"
    using same_setup_entry [OF s1(2), of 0] keysize_less [OF r] by simp_all
  have "sender_ready s1"
    using s(1) s1(2,3,7) same_setup_files(1) [OF s1(2) rv] sf
    unfolding sender_ready_def sends_with_def receiving_def Let_def ks by (auto simp: same_setup_def sender_file_def ks)
  then have "sends_with 0 s1" using s(1) s1(5,8) m e by (simp add: sends_with_def ks known_method_def Let_def)
  moreover have "sender_counters s1 = sender_counters s" using s1(6) s(2) by simp
  moreover have "knows t j (ks_entries (sc_keys s1) ! 0)" using s(3) e by (simp add: knows_def)
  ultimately show ?thesis using s1(1,4) s sf by (auto simp: in_step_def sender_counters_def)
qed

lemma in_step_restart_manager:
  assumes "in_step s j t"
  shows "\<exists>t1. restart flush print verify t = Some (Goes t1) \<and> in_step s j t1"
proof -
  let ?v = "t\<lparr>sc_verify_counter := verify\<rparr>" and ?e = "ks_entries (sc_keys s) ! 0"
  from assms have s: "sends_with 0 s" "saved (sc_files s) (sender_file s) = sender_counters s" "knows t j ?e"
    "counters_le (saved (sc_files t) (counter_file (sc_keys t) (sc_files t) j)) (sender_counters s)" by (simp_all add: in_step_def)
  then have r: "files_ready (sc_keys t) (sc_files t)" and j: "j < ks_keysize (sc_keys t)" by (simp_all add: knows_def receiving_def)
  from restart_result [OF r, of flush print verify] j obtain t1 where
    t1: "restart flush print verify t = Some (Goes t1)" "same_setup ?v t1" "receiving t1" "\<And>i. saved (sc_files t1) i = saved (sc_files t) i"
      "entry_counters t1 j = saved (sc_files t) (counter_file (sc_keys t) (sc_files t) j)" by blast
  have rv: "files_ready (sc_keys ?v) (sc_files ?v)" using r by simp
  have "counter_file (sc_keys t1) (sc_files t1) j = counter_file (sc_keys t) (sc_files t) j"
    using same_setup_files(2) [OF t1(2) rv, of j] j by simp
  moreover have "knows t1 j ?e"
    using s(3) t1(2,3) same_setup_keysize [OF t1(2)] same_setup_entry(2) [OF t1(2), of j] j keysize_less [OF r]
    by (simp add: knows_def same_setup_def)
  ultimately show ?thesis using t1(1,4,5) s by (auto simp: in_step_def)
qed

text \<open>
  (C8) What an agent says is what its manager hears. In any sequence of messages (1 to \<open>MSG_MAX\<close> bytes, whatever they hold)
  and of restarts of either program, with either encryption, the agent id in front or not and the counters verified or
  not, every call of \<open>CreateSecMSG\<close> and \<open>ReadSecMSG\<close> returns, no array is overrun and no program exits, and the manager hands out
  exactly the messages, all and in order: the counters that the agent's file holds after a
  restart are always ahead of what the manager has seen. The bound on the length keeps the global counter from wrapping.
\<close>

theorem session_delivered:
  assumes "crypto_ok cr" "in_step s j t" "\<forall>ev \<in> set evs. sayable ev" "unat (sc_global_count s) + length evs < 2 ^ 32 - 1"
  shows "\<exists>s' t'. secure_session cr j evs s t = Some (map Some (concat (map said evs)), s', t') \<and> in_step s' j t'"
  using assms(2-4)
proof (induction evs arbitrary: s t)
  case Nil
  then show ?case by simp
next
  case (Cons ev evs)
  show ?case
  proof (cases ev)
    case (Say r msg)
    have g: "sc_global_count s \<noteq> -1" using Cons.prems(3) by (auto simp: unsigned_minus_1_eq_mask mask_eq_exp_minus_1)
    from in_step_say [OF assms(1) Cons.prems(1) g, of msg r] Say Cons.prems(2) obtain n out s1 rr where
      st: "CreateSecMSG cr True r msg 0 zeros s = Some (n, out, s1)" "manager_receives cr j (take (nat n) out) t = Some (Goes rr)"
        "delivered rr = Some msg" "in_step s1 j (rr_state rr)" "sc_global_count s1 \<le> sc_global_count s + 1" by auto
    have "unat (sc_global_count s1) \<le> unat (sc_global_count s) + 1"
    proof -
      have "1 + sc_global_count s \<noteq> 0" using g by (metis add_eq_0_iff)
      from unatSuc [OF this] st(5) show ?thesis by (simp add: word_le_nat_alt add.commute)
    qed
    with Cons.prems(2,3) Cons.IH [OF st(4)] obtain s' t' where
      "secure_session cr j evs s1 (rr_state rr) = Some (map Some (concat (map said evs)), s', t')" "in_step s' j t'" by auto
    with Say st show ?thesis by (simp add: goes_on_def)
  next
    case (Restart_Agent f p v)
    with in_step_restart_agent [OF Cons.prems(1), of p f v] Cons.prems(2) obtain s1 where
      st: "restart f p v s = Some (Goes s1)" "in_step s1 j t" "sc_global_count s1 = sc_global_count s" by auto
    with Cons.prems(2,3) Cons.IH [OF st(2)] Restart_Agent show ?thesis by (simp add: goes_on_def)
  next
    case (Restart_Manager f p v)
    with in_step_restart_manager [OF Cons.prems(1), of f p v] obtain t1 where
      st: "restart f p v t = Some (Goes t1)" "in_step s j t1" by auto
    with Cons.prems(2,3) Cons.IH [OF st(2)] Restart_Manager show ?thesis by (simp add: goes_on_def)
  qed
qed

section \<open>The size of a message\<close>

text \<open>
  (C28) Every message fits. For a text of 1 to \<open>MSG_MAX\<close> bytes \<open>CreateSecMSG\<close> returns a datagram of at most \<open>OS_MAXSTR\<close> bytes without writing
  outside the caller's array of \<open>OS_MAXSTR + 1\<close> bytes or its own ones, even when the text does not compress and
  AES adds a block; the datagram carries counters that were never used before and that are in the file when it
  is handed out. An empty or a longer text is refused with 0, and nothing changes.
\<close>

theorem secure_message_fits:
  assumes "crypto_ok cr" "sends_with k s" "sc_global_count s \<noteq> -1" "length out = OS_MAXSTR + 1"
  shows "\<exists>n out' s'. CreateSecMSG cr True r msg k out s = Some (n, out', s') \<and> n \<le> int OS_MAXSTR \<and> length out' = OS_MAXSTR + 1 \<and>
    (if 1 \<le> length msg \<and> length msg \<le> MSG_MAX
     then 0 < n \<and> saved (sc_files s') (sender_file s') = sender_counters s' \<and> counters_less (sender_counters s) (sender_counters s')
     else n = 0 \<and> out' = out \<and> s' = s)"
proof (cases "1 \<le> length msg \<and> length msg \<le> MSG_MAX")
  case True
  let ?e = "ks_entries (sc_keys s) ! k"
  obtain g l where gl: "(g, l) = sender_counters (next_counters s)" by (metis surj_pair)
  from assms(2) have e: "known_method ?e" "\<not> ke_single_host ?e \<and> True \<longrightarrow> length (ke_id ?e) \<le> 8"
    and s: "sender_ready s" "sizes_ok s" "k < ks_keysize (sc_keys s)" by (simp_all add: sends_with_def Let_def)
  from CreateSecMSG_result [OF assms(1) s(1,2) assms(3) conjunct1 [OF True] conjunct2 [OF True] s(3) refl e assms(4) gl, of r] obtain c out' s' where
    c: "CreateSecMSG cr True r msg k out s = Some (int (length (address_of True ?e @ datagram cr ?e c)), out', s')"
      "length out' = OS_MAXSTR + 1" "length (address_of True ?e @ datagram cr ?e c) \<le> OS_MAXSTR" "after_send s g l s'" by blast
  have "0 < length (datagram cr ?e c)" by (simp add: datagram_def token_of_def asc_Cons)
  then have "0 < length (address_of True ?e @ datagram cr ?e c)" by simp
  then have "0 < int (length (address_of True ?e @ datagram cr ?e c))" by (simp only: of_nat_0_less_iff)
  moreover have "saved (sc_files s') (sender_file s') = sender_counters s'" "counters_less (sender_counters s) (sender_counters s')"
    using after_send_ready [OF c(4) s(1)] next_counters_sender(1) [OF assms(3)] gl c(4) by (simp_all add: after_send_def)
  moreover have "int (length (address_of True ?e @ datagram cr ?e c)) \<le> int OS_MAXSTR" using c(3) by linarith
  ultimately show ?thesis using c(1,2) unfolding if_P [OF True] by blast
next
  case False
  then have size: "length msg > MSG_MAX \<or> length msg < 1" by linarith
  have mode: "\<not> (ks_key_mode (sc_keys s) \<noteq> W_ENCRYPTION_KEY \<and> ks_key_mode (sc_keys s) \<noteq> W_DUAL_KEY)"
    using assms(2) by (cases "ks_key_mode (sc_keys s)") (auto simp: sends_with_def sender_ready_def)
  have "CreateSecMSG cr True r msg k out s = Some (0, out, s)" unfolding CreateSecMSG_def if_not_P [OF mode] if_P [OF size] ..
  with False assms(4) show ?thesis by auto
qed

section \<open>A message that expands too much\<close>

text \<open>
  (C37) \<open>ReadSecMSG\<close> can be made to write past the caller's array. It uncompresses a message into the array that holds the
  datagram, from the place where the encrypted part began, but tells \<open>uncompress\<close> that there is room for \<open>OS_MAXSTR\<close> bytes.
  Whoever has the key of an agent can compress a text so long that it does not fit behind the
  agent id and the marker of the method: the write is out of bounds, before the checksum or the counters are looked at.
\<close>

theorem expansion_overruns:
  assumes "crypto_ok cr" "knows t j e" "known_method e"
    and "\<not> ke_single_host e \<longrightarrow> length (ke_id e) \<le> 8 \<and> (\<forall>c \<in> set (ke_id e). is_digit c)"
    and c: "c \<noteq> []" "hd c \<noteq> 33" "length c \<le> 65492" "\<forall>rest. cr_uncompress cr (c @ rest) OS_MAXSTR = (True, tx)"
    and "length (address_of True e @ datagram cr e c) \<le> OS_MAXSTR"
    and "OS_MAXSTR < length (address_of True e @ token_of (ke_crypto_method e)) + length tx"
  shows "manager_receives cr j (address_of True e @ datagram cr e c) t = None"
proof -
  let ?m = "ke_crypto_method e" and ?L = "length (datagram cr e c)" and ?n = "length (padded c)" and ?buf = "received_array cr e c"
  let ?bs = "of_nat (?L - 1) :: u32" and ?pos = "length (address_of True e) + length (token_of (ke_crypto_method e))"
  have max: "OS_MAXSTR = 65536" by (simp add: OS_MAXSTR_def)
  have lz: "length zeros = OS_MAXSTR + 1" by (simp add: zeros_def)
  have j: "j < length (ks_entries (sc_keys t))" using assms(2) receiving_stream(2) by (simp add: knows_def)
  have al: "length (address_of True e) \<le> 64" using assms(4) by (auto simp: address_of_def)
  note b = received_array_facts [OF assms(9)]
  have opens: "?n < ?L \<and> ReadSecMSG cr False j ?buf (length (address_of True e)) ?bs zeros t =
      read_compressed cr j ?bs ?buf ?pos (padded c @ drop ?n zeros) (with_method False j ?m t)"
    by (rule ReadSecMSG_opens [OF assms(1,3) c(3) j]) (use assms(2,9) al b lz in \<open>simp_all add: knows_def\<close>)
  have bs: "unat ?bs = ?L - 1" using assms(9) max by (intro unat_of_nat_small) simp
  have "?n \<le> unat ?bs" unfolding bs using opens [THEN conjunct1] by linarith
  moreover have "unat ?bs < length (padded c @ drop ?n zeros)" unfolding bs using assms(9) lz by simp
  ultimately obtain clear1 start x post where rd: "poke (padded c @ drop ?n zeros) (unat ?bs) [0] = Some clear1"
    "1 + length (takeWhile (\<lambda>c. c = 33) (drop 1 clear1)) = start" "byte_at clear1 start = Some x"
    "peek clear1 start (unat (?bs - of_nat start)) = Some (c @ post)"
    using read_compressed_source [OF c(1,2) refl, of ?bs "drop ?n zeros"] by blast
  have "poke ?buf ?pos (tx @ [0]) = None" using assms(10) b(1) by (simp add: poke_def)
  then have "os_zlib_uncompress cr (c @ post) ?buf ?pos OS_MAXSTR = None" using c(4) by (simp add: os_zlib_uncompress_def)
  then have "read_compressed cr j ?bs ?buf ?pos (padded c @ drop ?n zeros) (with_method False j ?m t) = None"
    unfolding read_compressed_def rd(1) bind.bind_lunit Let_def rd(2) rd(3) rd(4) by simp
  then show ?thesis unfolding manager_receives_reads [OF assms(3,4,9)] opens [THEN conjunct2] .
qed

section \<open>A small instance\<close>

text \<open>
  Libraries that meet \<open>crypto_ok\<close>: no encryption apart from the padding, a constant digest, and a compression that
  knows only texts of one repeated byte. And an agent that sends its id, with its manager.
\<close>

definition plain_compress :: "bytes \<Rightarrow> bytes" where
  "plain_compress d =
     (if d \<noteq> [] \<and> d = replicate (length d) (hd d) then [121] @ put_be32 (of_nat (length d)) @ [hd d]
      else [120] @ put_be32 (of_nat (length d)) @ d)"

definition plain_uncompress :: "bytes \<Rightarrow> nat \<Rightarrow> bool \<times> bytes" where
  "plain_uncompress c m =
     (let n = unat (get_be32 (drop 1 c)); body = drop 5 c in
      if m < n \<or> body = [] \<and> 0 < n then (False, [])
      else if hd c = 121 then (True, replicate n (hd body))
      else if n \<le> length body then (True, take n body) else (False, []))"

definition plain_crypto :: crypto where
  "plain_crypto = \<lparr>cr_bf = (\<lambda>k iv e d. d), cr_aes_encrypt = (\<lambda>k iv d. Some (d @ [0])),
     cr_aes_decrypt = (\<lambda>k iv c. if c = [] then None else Some (butlast c)), cr_md5 = (\<lambda>d. replicate 16 0),
     cr_compress = (\<lambda>d n. Some (plain_compress d)), cr_uncompress = plain_uncompress\<rparr>"

lemma length_put_be32: "length (put_be32 v) = 4"
  by (simp add: put_be32_def)

lemma plain_uncompress_compress:
  assumes "length d < 2 ^ 32" "length d \<le> m"
  shows "plain_uncompress (plain_compress d @ rest) m = (True, d)"
proof -
  let ?p = "put_be32 (of_nat (length d))"
  have n: "unat (of_nat (length d) :: u32) = length d" using assms(1) by (intro unat_of_nat_small) simp
  have g: "unat (get_be32 (?p @ xs)) = length d" for xs by (simp add: get_put_be32 n)
  have dr: "drop 5 (b # ?p @ xs) = xs" for b xs using length_put_be32 [of "of_nat (length d)"] by simp
  show ?thesis
  proof (cases "d \<noteq> [] \<and> d = replicate (length d) (hd d)")
    case True
    then have c: "plain_compress d @ rest = 121 # ?p @ hd d # rest" unfolding plain_compress_def if_P [OF True] by simp
    show ?thesis unfolding c plain_uncompress_def Let_def dr using assms(2) True by (simp add: g)
  next
    case False
    then have c: "plain_compress d @ rest = 120 # ?p @ d @ rest" unfolding plain_compress_def if_not_P [OF False] by simp
    show ?thesis unfolding c plain_uncompress_def Let_def dr using assms(2) by (simp add: g)
  qed
qed

lemma plain_compress_facts: "plain_compress d \<noteq> []" "hd (plain_compress d) \<noteq> 33" "length (plain_compress d) \<le> length d + 13"
  by (auto simp: plain_compress_def length_put_be32)

lemma plain_crypto_ok: "crypto_ok plain_crypto"
proof -
  have "zlib_ok plain_crypto"
    unfolding zlib_ok_def
  proof (intro conjI allI impI)
    fix d :: bytes and n :: nat
    assume "length d \<le> 2 ^ 17 \<and> compress_bound (length d) \<le> n"
    then have "length d < 2 ^ 32" by (auto intro: le_less_trans)
    with plain_uncompress_compress [of d] plain_compress_facts [of d]
    show "\<exists>c. cr_compress plain_crypto d n = Some c \<and> c \<noteq> [] \<and> hd c \<noteq> 33 \<and> length c \<le> compress_bound (length d) \<and>
        (\<forall>m rest. length d \<le> m \<longrightarrow> cr_uncompress plain_crypto (c @ rest) m = (True, d))"
      by (auto simp: plain_crypto_def compress_bound_def)
  next
    fix c :: bytes and n :: nat
    show "length (snd (cr_uncompress plain_crypto c n)) \<le> n" by (simp add: plain_crypto_def plain_uncompress_def Let_def)
  qed
  moreover have "bf_ok plain_crypto" "aes_ok plain_crypto" by (auto simp: bf_ok_def aes_ok_def plain_crypto_def)
  ultimately show ?thesis by (simp add: crypto_ok_def plain_crypto_def)
qed

definition agent_side :: sec_state where
  "agent_side = sample_state\<lparr>sc_keys := (sc_keys sample_state)\<lparr>ks_entries :=
     [sample_entry\<lparr>ke_single_host := False\<rparr>, sample_entry\<lparr>ke_inode := 2, ke_fp := Some 2\<rparr>]\<rparr>\<rparr>"

lemma sample_paths: "rids_path (asc ''001'') \<noteq> rids_path SENDER_COUNTER"
  by (simp add: rids_path_def OS_FLSIZE_def RIDS_DIR_def SENDER_COUNTER_def asc_Cons of_char_def)

lemma sample_names:
  "rf_dir sample_files (rids_path (asc ''001'')) = Some 1" "rf_dir sample_files (rids_path SENDER_COUNTER) = Some 2"
  using sample_paths by (simp_all add: sample_files_def)

lemma sample_ready:
  assumes "ks_entries ks = [a, b]" "ke_id a = asc ''001''"
  shows "files_ready ks sample_files" "counter_file ks sample_files 0 = 1" "counter_file ks sample_files (Suc 0) = 2"
proof -
  have n: "counter_name ks 0 = rids_path (asc ''001'')" "counter_name ks (Suc 0) = rids_path SENDER_COUNTER"
    using assms by (simp_all add: counter_name_def ks_keysize_def)
  have k: "i \<le> ks_keysize ks \<Longrightarrow> i = 0 \<or> i = Suc 0" for i using assms(1) by (auto simp: ks_keysize_def)
  have d: "\<not> rf_denied sample_files p" for p by (simp add: sample_files_def)
  have "rf_dir sample_files (counter_name ks i) \<noteq> None" if "i \<le> ks_keysize ks" for i
    using k [OF that] n sample_names by (elim disjE) simp_all
  with assms(1) d show "files_ready ks sample_files" by (simp add: files_ready_def)
  show "counter_file ks sample_files 0 = 1" "counter_file ks sample_files (Suc 0) = 2"
    using n sample_names by (simp_all add: counter_file_def)
qed

lemma sample_receiving: "receiving sample_state"
proof -
  have e: "ks_entries (sc_keys sample_state) = [sample_entry, sample_entry\<lparr>ke_inode := 2, ke_fp := Some 2\<rparr>]"
    "ke_id sample_entry = asc ''001''" by (simp_all add: sample_state_def sample_entry_def)
  have f: "sc_files sample_state = sample_files" by (simp add: sample_state_def)
  have "j \<le> ks_keysize (sc_keys sample_state) \<Longrightarrow> j = 0 \<or> j = Suc 0" for j by (auto simp: ks_keysize_def e)
  with sample_state_queue sample_ready [OF e] show ?thesis
    unfolding receiving_def f Let_def e(1) by (fastforce simp: sample_entry_def)
qed

lemma agent_sends: "sends_with 0 agent_side"
proof -
  have e: "ks_entries (sc_keys agent_side) = [sample_entry\<lparr>ke_single_host := False\<rparr>, sample_entry\<lparr>ke_inode := 2, ke_fp := Some 2\<rparr>]"
    "ke_id (sample_entry\<lparr>ke_single_host := False\<rparr>) = asc ''001''" by (simp_all add: agent_side_def sample_entry_def)
  have f: "sc_files agent_side = sample_files" "sc_files sample_state = sample_files" by (simp_all add: agent_side_def sample_state_def)
  have k: "ks_keysize (sc_keys agent_side) = Suc 0" by (simp add: ks_keysize_def e)
  have "sender_ready agent_side"
    using sample_ready [OF e] unfolding sender_ready_def sender_file_def f k e(1) by (simp add: agent_side_def sample_state_def)
  then show ?thesis
    unfolding sends_with_def k e(1)
    by (simp add: sizes_ok_def known_method_def W_METH_AES_def is_digit_def asc_Cons of_char_def sample_entry_def agent_side_def sample_state_def)
qed

lemma agent_in_step: "in_step agent_side 0 sample_state"
  using agent_sends sample_receiving
  by (auto simp: in_step_def knows_def agent_side_def sample_state_def sample_entry_def ks_keysize_def saved_def sample_files_def
      sender_counters_def entry_counters_def counters_or_zero_def scan_counters_def scan_u_def counters_le_def)

theorem session_delivered_witness:
  "\<exists>s' t'. secure_session plain_crypto 0 [Say 7 (asc ''hello''), Restart_Manager 5 5 True, Say 8 (asc ''again''), Restart_Agent 5 5 False, Say 9 (asc ''bye'')]
     agent_side sample_state = Some ([Some (asc ''hello''), Some (asc ''again''), Some (asc ''bye'')], s', t') \<and> in_step s' 0 t'"
  using session_delivered [OF plain_crypto_ok agent_in_step,
      of "[Say 7 (asc ''hello''), Restart_Manager 5 5 True, Say 8 (asc ''again''), Restart_Agent 5 5 False, Say 9 (asc ''bye'')]"]
  by (auto simp: MSG_MAX_def OS_MAXSTR_def OS_HEADER_SIZE_def asc_Cons agent_side_def sample_state_def)

theorem replay_rejected_witness:
  "\<exists>n out s' rr rr2. CreateSecMSG plain_crypto True 7 (asc ''hello'') 0 zeros agent_side = Some (n, out, s') \<and>
     manager_receives plain_crypto 0 (take (nat n) out) sample_state = Some (Goes rr) \<and> delivered rr = Some (asc ''hello'') \<and>
     manager_receives plain_crypto 0 (take (nat n) out) (rr_state rr\<lparr>sc_now := sc_now (rr_state rr) + 60\<rparr>) = Some (Goes rr2) \<and>
     delivered rr2 = None \<and> rr_code rr2 \<noteq> KS_VALID"
proof -
  have g: "sc_global_count agent_side \<noteq> -1" by (simp add: agent_side_def sample_state_def)
  have l: "1 \<le> length (asc ''hello'')" "length (asc ''hello'') \<le> MSG_MAX" by (simp_all add: asc_Cons MSG_MAX_def OS_MAXSTR_def OS_HEADER_SIZE_def)
  from in_step_say [OF plain_crypto_ok agent_in_step g l, of 7] obtain n out s1 rr where
    c: "CreateSecMSG plain_crypto True 7 (asc ''hello'') 0 zeros agent_side = Some (n, out, s1)"
      "manager_receives plain_crypto 0 (take (nat n) out) sample_state = Some (Goes rr)" "delivered rr = Some (asc ''hello'')" by blast
  have k: "knows sample_state 0 (ks_entries (sc_keys agent_side) ! 0)" using agent_in_step by (simp add: in_step_def)
  have v: "sc_verify_counter sample_state" by (simp add: sample_state_def)
  have "traffic plain_crypto (rr_state rr) (rr_state rr\<lparr>sc_now := sc_now (rr_state rr) + 60\<rparr>)"
    by (rule traffic.passing [OF traffic.silence]) simp
  from replay_rejected [OF plain_crypto_ok agent_sends g l c(1) k v c(2) this] obtain rr2 where
    "manager_receives plain_crypto 0 (take (nat n) out) (rr_state rr\<lparr>sc_now := sc_now (rr_state rr) + 60\<rparr>) = Some (Goes rr2)"
    "rr_code rr2 = KS_RIDS \<or> rr_code rr2 = KS_ENCKEY" "delivered rr2 = None" by (auto split: if_splits)
  with c show ?thesis by (auto simp: KS_VALID_def KS_RIDS_def KS_ENCKEY_def)
qed

theorem secure_message_fits_witness:
  "\<exists>n out' s'. CreateSecMSG plain_crypto True 3 (replicate MSG_MAX 65) 0 zeros agent_side = Some (n, out', s') \<and> 0 < n \<and> n \<le> int OS_MAXSTR"
proof -
  have g: "sc_global_count agent_side \<noteq> -1" by (simp add: agent_side_def sample_state_def)
  have "length zeros = OS_MAXSTR + 1" "1 \<le> MSG_MAX" by (simp_all add: zeros_def MSG_MAX_def OS_MAXSTR_def OS_HEADER_SIZE_def)
  with secure_message_fits [OF plain_crypto_ok agent_sends g, of zeros 3 "replicate MSG_MAX 65"] show ?thesis by auto
qed

theorem expansion_overruns_witness:
  "manager_receives plain_crypto 0 (address_of True sample_entry @ datagram plain_crypto sample_entry (plain_compress (replicate OS_MAXSTR 65))) sample_state = None"
proof (rule expansion_overruns [where tx = "replicate OS_MAXSTR 65"])
  have c: "plain_compress (replicate OS_MAXSTR 65) = [121] @ put_be32 (of_nat OS_MAXSTR) @ [65]"
    by (simp add: plain_compress_def hd_replicate OS_MAXSTR_def)
  show "crypto_ok plain_crypto" by (rule plain_crypto_ok)
  show "knows sample_state 0 sample_entry" using agent_in_step by (simp add: in_step_def knows_def agent_side_def)
  show "known_method sample_entry" "\<not> ke_single_host sample_entry \<longrightarrow> length (ke_id sample_entry) \<le> 8 \<and> (\<forall>c \<in> set (ke_id sample_entry). is_digit c)"
    by (simp_all add: known_method_def sample_entry_def W_METH_AES_def)
  show "plain_compress (replicate OS_MAXSTR 65) \<noteq> []" "hd (plain_compress (replicate OS_MAXSTR 65)) \<noteq> 33" by (rule plain_compress_facts)+
  show "length (plain_compress (replicate OS_MAXSTR 65)) \<le> 65492" by (simp add: c length_put_be32)
  show "\<forall>rest. cr_uncompress plain_crypto (plain_compress (replicate OS_MAXSTR 65) @ rest) OS_MAXSTR = (True, replicate OS_MAXSTR 65)"
    by (simp add: plain_crypto_def plain_uncompress_compress OS_MAXSTR_def)
  have "padded (plain_compress (replicate OS_MAXSTR 65)) = [33, 33] @ plain_compress (replicate OS_MAXSTR 65)"
    by (simp add: padded_def c length_put_be32 numeral_2_eq_2)
  then have "length (datagram plain_crypto sample_entry (plain_compress (replicate OS_MAXSTR 65))) \<le> 32"
    by (simp add: datagram_def encrypted_def token_of_def asc_Cons plain_crypto_def c length_put_be32)
  then show "length (address_of True sample_entry @ datagram plain_crypto sample_entry (plain_compress (replicate OS_MAXSTR 65))) \<le> OS_MAXSTR"
    by (simp add: address_of_def sample_entry_def OS_MAXSTR_def)
  show "OS_MAXSTR < length (address_of True sample_entry @ token_of (ke_crypto_method sample_entry)) + length (replicate OS_MAXSTR 65)"
    by (simp add: token_of_def asc_Cons)
qed

end
