(* ===== verification/Spec2Isabelle.thy ===== *)
theory Spec2Isabelle
  imports Ingest Agent_Buffer_Thms Agent_Client_Thms Pipeline Gw_Syslog Gw_Plugin_Thms Limits Event_Pipeline Send_Race Byte_Queue_Thms
    Net_Buffer_Thms Os_Str_Thms Linked_Queue_Thms Sec_Msg_Thms
begin

text \<open>
  XSIAM: the log path from the agent over the gateway to the ingest endpoint of the server.

  \<^bold>\<open>The program.\<close> The repository holds a security monitoring product: \<^verbatim>\<open>src/agents\<close> (C, a fork of the
  Wazuh agent and manager), \<^verbatim>\<open>src/gateway\<close> (C, a fork of Fluent Bit with plugins of its own),
  \<^verbatim>\<open>src/xsiam\<close> (the server, Go) and a web front end. Its own C code is the path of a log message:
    \<^enum> the agent takes local events from a socket (\<^verbatim>\<open>client-agent/event-forward.c\<close>) into an anti-flooding
       ring buffer (\<^verbatim>\<open>buffer.c\<close>), and a dispatcher thread sends them over the WZCP protocol
       (\<^verbatim>\<open>shared/xsiam_wzcp.c\<close>, \<^verbatim>\<open>client-agent/sendmsg.c\<close>, \<^verbatim>\<open>start_agent.c\<close>, \<^verbatim>\<open>receiver.c\<close>), while the
       main loop (\<^verbatim>\<open>agentd.c\<close>, \<^verbatim>\<open>notify.c\<close>) sends keepalives and reconnects;
    \<^enum> the gateway's input plugin (\<^verbatim>\<open>gateway/plugins/in_xsiam_agent\<close>) accepts WZCP and syslog over TCP,
       keeps a cache of agent states, uploads it to ArangoDB, posts lifecycle events to the server, and hands
       records to the Fluent Bit engine;
    \<^enum> the gateway's output plugin (\<^verbatim>\<open>gateway/plugins/out_xsiam_log\<close>) turns records into TSV rows, compresses
       them and posts XLOG frames; \<^verbatim>\<open>agents/xlog/xlog.c\<close> is the library form of the same encoder;
    \<^enum> the ingest endpoint (\<^verbatim>\<open>xsiam/internal/ingest\<close>, Go) decodes the frames. It is modelled as far as it states
       what the C encoders are for.
  Next to that path, the manager that is still part of \<^verbatim>\<open>src/agents\<close> exchanges length-prefixed messages with
  its peers through per-connection buffers (\<^verbatim>\<open>remoted/netbuffer.c\<close>) over the shared byte queue
  (\<^verbatim>\<open>shared/bqueue_op.c\<close>); its threads hand pointers on in the queue of \<^verbatim>\<open>shared/queue_op.c\<close>. All the programs
  compare texts with the patterns and string helpers of \<^verbatim>\<open>os_regex\<close>. Agents that speak the classic
  protocol encrypt their messages and number them against replays (\<^verbatim>\<open>os_crypto/shared/msgs.c\<close>); the manager
  keeps the numbers in files, whose streams a thread of \<^verbatim>\<open>remoted/secure.c\<close> closes when they are idle, in the order
  of the linked queue of \<^verbatim>\<open>shared/queue_linked_op.c\<close>.

  \<^bold>\<open>Conventions.\<close> Machine integers are words; \<open>nat\<close> and \<open>int\<close> are used where the code cannot
  wrap (lengths of allocated objects, return codes). A fault (an access outside a buffer, a NULL
  dereference, a double free) is \<open>None\<close> of the option monad, so that freedom from faults is part of
  every functional statement; error returns are the codes of the source inside \<open>Some\<close>. C strings are
  lists of bytes; a pointer that may be NULL is an option. The environment is state: the allocator, the
  sockets, the clock, random numbers and the outcomes of HTTP exchanges are scripts that the
  theorems quantify over; an exhausted script means the normal outcome. Code outside the repository
  (zstd, zlib, OpenSSL, name resolution) is a parameter, with what the code relies on as a hypothesis
  that a concrete instance meets (\<open>crypto_ok\<close>, \<open>plain_crypto\<close>). A program that ends itself has a result of its
  own (\<open>Exits\<close>).

  \<^bold>\<open>Theories.\<close>
    \<^item> \<open>Prelude\<close>: bytes, memory access, the option monad, the allocator, lemma collections. \<open>Wire\<close>: the
      big-endian helpers, with one interface locale for reading back what was written. \<open>Text\<close>: \<open>printf\<close> decimals,
      \<open>atoi\<close>, hexadecimal, UUID text, RFC 3339 times. \<open>Sockets\<close>: \<open>send\<close> and \<open>recv\<close> with partial transfers.
    \<^item> \<open>Buffers\<close>: the contract of a growing byte sink (locale \<open>byte_sink\<close>) and the doubling loop. \<open>Xlog\<close>: \<^verbatim>\<open>xlog.c\<close>,
      which interprets the contract. \<open>Ingest\<close>, \<open>Ingest_Rows\<close>: the decoder of the server and its rows.
    \<^item> \<open>Wzcp\<close>, \<open>Wzcp_Frames\<close>, \<open>Wzcp_Bodies\<close>: \<^verbatim>\<open>xsiam_wzcp.c\<close>, framing and message bodies with what each side reads.
    \<^item> \<open>Agent_State\<close>: the statistics of the agent. \<open>Ring\<close>: the contract of a bounded queue (locale) and its ring
      arithmetic. \<open>Agent_Buffer\<close>, \<open>Agent_Buffer_Safety\<close>, \<open>Agent_Buffer_Resize\<close>, \<open>Agent_Buffer_Thms\<close>: \<^verbatim>\<open>buffer.c\<close> as a step
      relation of two threads with messages in a store; FIFO order, freedom from memory faults, resizing.
    \<^item> \<open>Agent_Client\<close>, \<open>Agent_Client_Lemmas\<close>, \<open>Agent_Client_Thms\<close>: connecting, the handshake, sending, receiving,
      heartbeats and reconnecting. \<open>Agent_Loop\<close>, \<open>Agent_Loop_Lemmas\<close>, \<open>Agent_Loop_Thms\<close>: the main loop over the buffer
      and the connection together; what a turn queues and sends, when the keepalive is due, and that a
      silent server is left. \<open>Send_Race\<close>: two threads that send on one connection.
    \<^item> \<open>Slot_Queue\<close>, \<open>Byte_Queue\<close>, \<open>Byte_Queue_Lemmas\<close>, \<open>Byte_Queue_Thms\<close>: the pointer queue and the byte queue, two
      more interpretations of the bounded queue; the byte queue refines a list of bytes for every sequence of calls.
      \<open>Net_Buffer\<close>, \<open>Net_Buffer_Lemmas\<close>, \<open>Net_Buffer_Thms\<close>: the network buffers of the manager; reassembly of
      messages from any chunks, conservation of what is queued, and the round trip with the calls of the peer.
    \<^item> \<open>Os_Match\<close>, \<open>Os_Match_Thms\<close>, \<open>Os_Str\<close>, \<open>Os_Str_Thms\<close>: the simple patterns and the string helpers of
      \<^verbatim>\<open>os_regex\<close>; the language of a pattern, its two matchers, and breaking strings at separators.
    \<^item> \<open>Linked_Queue\<close>, \<open>Linked_Queue_Thms\<close>: the doubly linked queue with nodes in a store, which refines a list.
      \<open>Rid_Counters\<close>, \<open>Rid_Counters_Thms\<close>: the message counters in their files, starting, storing, and closing
      idle files in step with the queue. \<open>Sec_Msg\<close>: \<open>CreateSecMSG\<close> and \<open>ReadSecMSG\<close> with what they call;
      \<open>Sec_Msg_Send\<close> and \<open>Sec_Msg_Receive\<close>: the datagram that is made, and what opening it gives;
      \<open>Sec_Msg_Counters\<close>: when a message is accepted, and that no input lowers a counter; \<open>Sec_Msg_Thms\<close>: sessions with
      restarts, replays, sizes, and a message that expands too much.
    \<^item> \<open>Gw_State\<close>, \<open>Gw_Registry\<close>: the plugin context and the agent cache (\<^verbatim>\<open>xsiam_agent_state.c\<close>,
      \<^verbatim>\<open>xsiam_agent_event.c\<close>), which refines the presence map of the locale \<open>presence\<close>. \<open>Gw_Conn\<close>, \<open>Gw_Conn_Safety\<close>,
      \<open>Gw_Messages\<close>, \<open>Gw_Stream\<close>, \<open>Gw_Segments\<close>, \<open>Gw_System\<close>, \<open>Gw_Thms\<close>, \<open>Gw_Syslog\<close>: connections
      (\<^verbatim>\<open>xsiam_agent_conn.c\<close>), the handlers, the independence of TCP segmentation, the event loop and its invariant, syslog.
    \<^item> \<open>Gw_Json\<close>, \<open>Gw_Arango\<close>, \<open>Gw_Arango_Thms\<close>: the upload to the database (\<^verbatim>\<open>xsiam_agent_arango.c\<close>) and its
      consistency over any history. \<open>Gw_Plugin\<close>, \<open>Gw_Plugin_Thms\<close>: configuration, \<open>init\<close> and \<open>exit_cb\<close>
      (\<^verbatim>\<open>xsiam_agent.c\<close>).
    \<^item> \<open>Out_Log\<close>, \<open>Out_Log_Lemmas\<close>, \<open>Out_Log_Thms\<close>: the output plugin, a second interpretation of the byte sink.
    \<^item> \<open>Pipeline\<close>, \<open>Event_Pipeline\<close>: the log path across the components, for one message and from the agent's local
      socket to the rows of the server. \<open>Limits\<close>: where limits of the two sides differ. This theory:
      the XLOG library against the server.

  \<^bold>\<open>Loops.\<close> Loops over data are structural or have a measure. The doubling loops are
  \<open>partial_function\<close>s with a proof that they return (\<open>growth_terminates\<close>). The reconnect loop of the agent runs
  over the script of connection attempts and is shown to return once an attempt succeeds. The only fuel is that of
  \<open>close_idle\<close>, the pass of the closing thread: one round for each queued node is enough
  (\<open>idle_files_closed\<close>). The counters that bound the remaining loops are the lengths of the data they run over.

  \<^bold>\<open>Not modelled.\<close> Of the classic Wazuh protocol the key file, enrolment and the lookup of the entry for an
  id or an address (the entry is an argument); its old message format is modelled but has no round trip, since nothing
  in the repository produces it. The manager daemons, rule analysis, integrity and root checks, log collection and the
  other Wazuh components, which are taken over from Wazuh (of the manager only its network buffers, the secure messages and
  their counters are modelled); the Fluent Bit core, its libraries and other
  plugins, which are taken over from Fluent Bit (the plugins' use of the engine is scripted: the
  record encoder and decoder, event loop, HTTP client and the configuration reader beyond single values); the
  rest of the Go server, the web front end and deployment files. Logging, metrics output and memory
  release without an observable effect are left out. An upload to the database is one step: input
  collectors run to completion before the next event.
\<close>

section \<open>XLOG: from a batch of rows to the ingest endpoint\<close>

text \<open>
  (C4) Round trip of an XLOG batch. A well-formed, non-empty batch whose compressed payload fits
  a TLV length field encodes without a fault or an error when memory suffices, and the ingest
  endpoint decodes the frame to the batch's tag, agent id and sequence number, its row count and
  size, its columns, and a payload that decompresses to exactly the rows appended.
\<close>

theorem xlog_roundtrip:
  assumes "batch_rows b rs" "rs \<noteq> []" "roomy h"
    and "zstd (tsv_of rs) = Some cmp" "cmp \<noteq> []" "length cmp \<le> 0xFFFF"
    and "\<forall>x y. zstd x = Some y \<longrightarrow> unzstd y = Some x"
  shows "\<exists>frame h' hdr bt.
     xlog_batch_encode zstd ts (Some b) h = Some (XLOG_OK, Some frame, h') \<and>
     handleBinary frame = Inr (hdr, bt) \<and>
     fh_tag hdr = xb_tag b \<and> fh_agent_id hdr = xb_agent_id b \<and> fh_seq hdr = xb_seq b \<and>
     fh_ts_ms hdr = xlog_ts_ms ts \<and>
     lb_row_count bt = of_nat (length rs) \<and> lb_orig_size bt = of_nat (length (tsv_of rs)) \<and>
     lb_columns bt = decoded_columns (xb_columns_csv b) \<and>
     unzstd (lb_compressed_tsv bt) = Some (tsv_of rs)"
proof -
  have bb: "buf_bytes (xb_tsv b) = tsv_of rs" and inv: "buf_inv (xb_tsv b)"
    and rc: "xb_row_count b = length rs" and tag: "length (xb_tag b) \<le> XLOG_MAX_TAG_LEN"
    using assms(1) by (auto simp: batch_rows_def)
  have len: "buf_len (xb_tsv b) = length (tsv_of rs)"
    using length_buf_bytes [OF inv] bb by simp
  have ne: "tsv_of rs \<noteq> []" using assms(2) by (cases rs) (simp_all add: tsv_of_def)
  from inv show ?thesis
  proof (cases rule: xlog_batch_encode_cases [of b zstd ts h])
    case (ok c h')
    with assms(4) bb have "c = cmp" by simp
    with ok handleBinary_xlog_frame [OF tag assms(6,5)] show ?thesis
      using assms(4,7) rc len bb by auto
  qed (use assms ne len bb in auto)
qed

theorem xlog_roundtrip_witness:
  "\<exists>frame h' hdr bt.
     xlog_batch_encode Some (0, 0)
       (Some \<lparr>xb_tag = [97], xb_columns_csv = Some [99], xb_agent_id = 7, xb_seq = 1,
              xb_tsv = \<lparr>buf_data = [104, 105, 10, 0], buf_len = 3, buf_cap = 4\<rparr>,
              xb_row_count = 1\<rparr>) [] = Some (XLOG_OK, Some frame, h') \<and>
     handleBinary frame = Inr (hdr, bt) \<and> fh_agent_id hdr = 7 \<and>
     lb_compressed_tsv bt = [104, 105, 10]"
  using xlog_roundtrip [of
      "\<lparr>xb_tag = [97], xb_columns_csv = Some [99], xb_agent_id = 7, xb_seq = 1,
        xb_tsv = \<lparr>buf_data = [104, 105, 10, 0], buf_len = 3, buf_cap = 4\<rparr>,
        xb_row_count = 1\<rparr>" "[[104, 105]]" "[]" Some "[104, 105, 10]" Some "(0, 0)"]
  by (auto simp: batch_rows_def buf_inv_def buf_bytes_def tsv_of_def
      XLOG_MAX_FRAME_BODY_def XLOG_MAX_TAG_LEN_def)

text \<open>
  (C38) A batch whose compressed payload is longer than 65535 bytes is encoded without an error, but what the
  ingest endpoint takes for the payload, if it accepts the frame at all, is never the compressed text.
\<close>

theorem large_payload_lost:
  assumes "batch_rows b rs" "rs \<noteq> []" "roomy h" "zstd (tsv_of rs) = Some cmp" "0xFFFF < length cmp"
  shows "\<exists>frame h'. xlog_batch_encode zstd ts (Some b) h = Some (XLOG_OK, Some frame, h') \<and>
     (\<forall>hdr bt. handleBinary frame = Inr (hdr, bt) \<longrightarrow> lb_compressed_tsv bt \<noteq> cmp)"
proof -
  have bb: "buf_bytes (xb_tsv b) = tsv_of rs" and inv: "buf_inv (xb_tsv b)" using assms(1) by (auto simp: batch_rows_def)
  have "tsv_of rs \<noteq> []" using assms(2) by (cases rs) (simp_all add: tsv_of_def)
  then have ne: "buf_len (xb_tsv b) \<noteq> 0" using length_buf_bytes [OF inv] bb by (cases "tsv_of rs") auto
  have short: "length (lb_compressed_tsv bt) \<le> 0xFFFF" if "handleBinary frame = Inr (hdr, bt)" for frame hdr bt
    using that DecodeBatch_payload_short by (auto simp: handleBinary_def split: sum.splits prod.splits if_splits option.splits)
  from inv show ?thesis
  proof (cases rule: xlog_batch_encode_cases [of b zstd ts h])
    case (ok c h')
    with short assms(5) show ?thesis by fastforce
  qed (use assms ne bb in auto)
qed

definition one_row_batch :: xlog_batch where
  "one_row_batch = \<lparr>xb_tag = [97], xb_columns_csv = Some [99], xb_agent_id = 7, xb_seq = 1,
     xb_tsv = \<lparr>buf_data = [104, 105, 10, 0], buf_len = 3, buf_cap = 4\<rparr>, xb_row_count = 1\<rparr>"

definition long_output :: bytes where
  "long_output = replicate 65536 0"

theorem large_payload_lost_witness:
  "\<exists>frame h'. xlog_batch_encode (\<lambda>x. Some long_output) (0, 0) (Some one_row_batch) [] = Some (XLOG_OK, Some frame, h') \<and>
     (\<forall>hdr bt. handleBinary frame = Inr (hdr, bt) \<longrightarrow> lb_compressed_tsv bt \<noteq> long_output)"
proof (rule large_payload_lost [of _ "[[104, 105]]"])
  show "batch_rows one_row_batch [[104, 105]]"
    by (simp add: batch_rows_def one_row_batch_def buf_inv_def buf_bytes_def tsv_of_def XLOG_MAX_TAG_LEN_def XLOG_MAX_FRAME_BODY_def)
  have "length long_output = 65536" unfolding long_output_def by (rule length_replicate)
  then show "0xFFFF < length long_output" by simp
qed (simp_all add: roomy_def)

end
